(* ===== verification/Prelude.thy ===== *)
theory Prelude
  imports Main "HOL-Library.AList" "HOL-Library.Char_ord" "HOL-Library.Code_Target_Nat"
begin

text \<open>
  Shared vocabulary of the development: the result type of code that may raise, the
  string functions of Python the sources use, enumerations whose members carry a
  string (Python's StrEnum), association-list dictionaries, and the generic lemmas the
  component theories build on.
\<close>

named_theorems gate_simps \<open>evaluation rules of the gates\<close>

section \<open>Results: a raised error or a value\<close>

type_synonym ('e, 'a) res = "'e + 'a"

definition bind_res :: "('e, 'a) res \<Rightarrow> ('a \<Rightarrow> ('e, 'b) res) \<Rightarrow> ('e, 'b) res" where
  "bind_res r f = (case r of Inl e \<Rightarrow> Inl e | Inr a \<Rightarrow> f a)"

lemma bind_res_simps [simp]:
  "bind_res (Inl e) f = Inl e"
  "bind_res (Inr a) f = f a"
  by (simp_all add: bind_res_def)

lemma bind_res_eq_Inr [simp]:
  "bind_res r f = Inr b \<longleftrightarrow> (\<exists>a. r = Inr a \<and> f a = Inr b)"
  by (cases r) auto

lemma bind_res_eq_Inl:
  "bind_res r f = Inl e \<longleftrightarrow> r = Inl e \<or> (\<exists>a. r = Inr a \<and> f a = Inl e)"
  by (cases r) auto

lemma bind_res_InlE:
  assumes "bind_res r f = Inl e"
  obtains (first) "r = Inl e" | (second) a where "r = Inr a" "f a = Inl e"
  using assms by (auto simp: bind_res_eq_Inl)

lemma bind_res_cong [fundef_cong]:
  "r = r' \<Longrightarrow> (\<And>a. r' = Inr a \<Longrightarrow> f a = f' a) \<Longrightarrow> bind_res r f = bind_res r' f'"
  by (cases r') auto

text \<open>Map a fallible function over a list, left to right, stopping at the first error.\<close>

fun map_res :: "('a \<Rightarrow> ('e, 'b) res) \<Rightarrow> 'a list \<Rightarrow> ('e, 'b list) res" where
  "map_res f [] = Inr []"
| "map_res f (x # xs) =
     bind_res (f x) (\<lambda>y. bind_res (map_res f xs) (\<lambda>ys. Inr (y # ys)))"

lemma map_res_cong [fundef_cong]:
  "xs = ys \<Longrightarrow> (\<And>x. x \<in> set ys \<Longrightarrow> f x = g x) \<Longrightarrow> map_res f xs = map_res g ys"
  by (induction ys arbitrary: xs) auto

lemma map_res_Inr:
  "map_res f xs = Inr ys \<longleftrightarrow> list_all2 (\<lambda>x y. f x = Inr y) xs ys"
proof (induction xs arbitrary: ys)
  case Nil
  then show ?case by auto
next
  case (Cons x xs)
  then show ?case by (cases ys) auto
qed

lemma map_res_length: "map_res f xs = Inr ys \<Longrightarrow> length ys = length xs"
  by (auto simp: map_res_Inr dest: list_all2_lengthD)

lemma map_res_nth:
  "map_res f xs = Inr ys \<Longrightarrow> i < length xs \<Longrightarrow> f (xs ! i) = Inr (ys ! i)"
  by (auto simp: map_res_Inr dest: list_all2_nthD)

lemma map_res_in:
  "map_res f xs = Inr ys \<Longrightarrow> y \<in> set ys \<Longrightarrow> \<exists>x \<in> set xs. f x = Inr y"
  by (induction xs arbitrary: ys) auto

text \<open>An evaluated call that returned a value, as an existential statement.\<close>

lemma Inr_result:
  "(case x of (Inr r, t) \<Rightarrow> P r t | (Inl e, t) \<Rightarrow> False) \<Longrightarrow> \<exists>r t. x = (Inr r, t) \<and> P r t"
  by (auto split: prod.splits sum.splits)

section \<open>Strings\<close>

text \<open>
  \<^verbatim>\<open>str.lower()\<close> on the code points a char covers: the ASCII capitals and the Latin-1
  capitals move by 32, everything else stays.
\<close>

definition lower_char :: "char \<Rightarrow> char" where
  "lower_char c = (let n = (of_char c :: nat) in
     if (65 \<le> n \<and> n \<le> 90) \<or> (192 \<le> n \<and> n \<le> 222 \<and> n \<noteq> 215) then char_of (n + 32) else c)"

definition lower :: "string \<Rightarrow> string" where
  "lower s = map lower_char s"

lemma lower_Nil [simp]: "lower [] = []"
  by (simp add: lower_def)

lemma lower_Cons [simp]: "lower (c # s) = lower_char c # lower s"
  by (simp add: lower_def)

lemma length_lower [simp]: "length (lower s) = length s"
  by (simp add: lower_def)

lemma lower_append: "lower (s @ t) = lower s @ lower t"
  by (simp add: lower_def)

lemma lower_char_idem [simp]: "lower_char (lower_char c) = lower_char c"
proof -
  define n where "n = (of_char c :: nat)"
  have "n < 256" by (simp add: n_def)
  have c: "c = char_of n" by (simp add: n_def)
  have "n + 32 < 256" if "(65 \<le> n \<and> n \<le> 90) \<or> (192 \<le> n \<and> n \<le> 222 \<and> n \<noteq> 215)"
    using that by auto
  then show ?thesis
    using \<open>n < 256\<close> unfolding c lower_char_def Let_def by auto
qed

lemma lower_idem [simp]: "lower (lower s) = lower s"
  by (induction s) simp_all

text \<open>\<^verbatim>\<open>t.startswith(s)\<close> and \<^verbatim>\<open>s in t\<close>.\<close>

fun is_prefix :: "string \<Rightarrow> string \<Rightarrow> bool" where
  "is_prefix [] t = True"
| "is_prefix (c # s) [] = False"
| "is_prefix (c # s) (d # t) = (c = d \<and> is_prefix s t)"

fun substring :: "string \<Rightarrow> string \<Rightarrow> bool" where
  "substring s [] = (s = [])"
| "substring s (c # t) = (is_prefix s (c # t) \<or> substring s t)"

lemma is_prefix_iff: "is_prefix s t \<longleftrightarrow> (\<exists>u. t = s @ u)"
  by (induction s t rule: is_prefix.induct) auto

lemma substring_iff: "substring s t \<longleftrightarrow> (\<exists>u v. t = u @ s @ v)"
proof (induction t)
  case (Cons c t)
  have "(\<exists>u v. c # t = u @ s @ v) \<longleftrightarrow> (\<exists>v. c # t = s @ v) \<or> (\<exists>u v. t = u @ s @ v)"
    by (auto simp: append_eq_Cons_conv Cons_eq_append_conv)
  then show ?case using Cons.IH by (simp add: is_prefix_iff)
qed auto

section \<open>String-valued enumerations\<close>

text \<open>
  \<^verbatim>\<open>E(value)\<close> for a StrEnum: the first member whose value is the string, ValueError
  (None here) when there is none.
\<close>

definition enum_of_string :: "'a list \<Rightarrow> ('a \<Rightarrow> string) \<Rightarrow> string \<Rightarrow> 'a option" where
  "enum_of_string members val s = find (\<lambda>m. val m = s) members"

lemma enum_of_string_SomeD:
  "enum_of_string ms val s = Some m \<Longrightarrow> m \<in> set ms \<and> val m = s"
  by (auto simp: enum_of_string_def find_Some_iff)

lemma enum_of_string_val:
  assumes "m \<in> set ms" and "inj_on val (set ms)"
  shows "enum_of_string ms val (val m) = Some m"
proof (cases "enum_of_string ms val (val m)")
  case None
  then show ?thesis using assms(1) by (auto simp: enum_of_string_def find_None_iff)
next
  case (Some m')
  then have "m' \<in> set ms" "val m' = val m" by (auto dest: enum_of_string_SomeD)
  then have "m' = m" using assms by (auto dest: inj_onD)
  then show ?thesis using Some by simp
qed

section \<open>Generators and dictionaries\<close>

text \<open>\<^verbatim>\<open>next((x for x in xs if P x), None)\<close> is \<^const>\<open>find\<close>.\<close>

lemma find_SomeD: "find P xs = Some x \<Longrightarrow> x \<in> set xs \<and> P x"
  by (auto simp: find_Some_iff)

lemma find_eq_None [simp]: "find P xs = None \<longleftrightarrow> (\<forall>x \<in> set xs. \<not> P x)"
  by (auto simp: find_None_iff)

lemma find_ex: "x \<in> set xs \<Longrightarrow> P x \<Longrightarrow> \<exists>y. find P xs = Some y"
  by (metis find_eq_None not_None_eq)

lemma find_filter: "find P (filter Q xs) = find (\<lambda>x. Q x \<and> P x) xs"
  by (induction xs) auto

text \<open>
  A Python dict keeps insertion order; assigning an existing key keeps its place.  The
  association lists below do the same, and \<^const>\<open>map_of\<close> reads them.
\<close>

abbreviation dict_put :: "'k \<Rightarrow> 'v \<Rightarrow> ('k \<times> 'v) list \<Rightarrow> ('k \<times> 'v) list" where
  "dict_put \<equiv> AList.update"

lemma map_of_dict_put [simp]: "map_of (dict_put k v d) k' = (if k' = k then Some v else map_of d k')"
  by (simp add: update_conv')

lemma distinct_dict_put [simp]: "distinct (map fst d) \<Longrightarrow> distinct (map fst (dict_put k v d))"
  by (rule distinct_update)

end
