(* ===== verification/Interfaces.thy ===== *)
theory Interfaces
  imports Prelude
begin

text \<open>
  The contracts that several components share, as locales: string enumerations, state kept in
  order by every operation, and tables that organisations share without seeing each other.
  Each component interprets them on its own definitions.
\<close>

section \<open>String enumerations\<close>

text \<open>A StrEnum whose members are all listed and carry different strings: parsing inverts printing.\<close>

locale str_enum =
  fixes members :: "'a list" and val :: "'a \<Rightarrow> string"
  assumes all_listed: "m \<in> set members" and vals_differ: "val m = val m' \<Longrightarrow> m = m'"
begin

lemma inj_val: "inj_on val A"
  by (rule inj_onI) (rule vals_differ)

lemma parse_val: "enum_of_string members val (val m) = Some m"
  by (rule enum_of_string_val[OF all_listed inj_val])

lemma parse_iff: "enum_of_string members val s = Some m \<longleftrightarrow> s = val m"
  using parse_val enum_of_string_SomeD by fastforce

lemma parse_None: "enum_of_string members val s = None \<longleftrightarrow> s \<notin> range val"
  by (metis (no_types, lifting) not_None_eq parse_iff range_eqI rangeE)

end

section \<open>Operations that keep a store in order\<close>

locale op_store =
  fixes step :: "'o \<Rightarrow> 's \<Rightarrow> 's" and ok :: "'s \<Rightarrow> bool"
  assumes step_ok: "ok s \<Longrightarrow> ok (step x s)"
begin

lemma steps_ok: "ok s \<Longrightarrow> ok (fold step xs s)"
  by (induction xs arbitrary: s) (simp_all add: step_ok)

lemma foldl_ok: "ok s \<Longrightarrow> ok (foldl (\<lambda>s x. step x s) s xs)"
  by (induction xs arbitrary: s) (simp_all add: step_ok)

end

section \<open>Tables that organisations share\<close>

text \<open>
  An operation names the organisation it acts for; what another organisation sees of the table
  does not change.  So no sequence of operations of others changes it, and two sequences that
  agree on the own operations need not be told apart by what the others do in between.
\<close>

locale tenant_table = op_store step ok
  for step :: "'org \<times> 'o \<Rightarrow> 's \<Rightarrow> 's" and ok :: "'s \<Rightarrow> bool" +
  fixes view :: "'org \<Rightarrow> 's \<Rightarrow> 'v"
  assumes step_other: "ok s \<Longrightarrow> org \<noteq> fst p \<Longrightarrow> view org (step p s) = view org s"
begin

lemma others_steps:
  "ok s \<Longrightarrow> list_all (\<lambda>p. fst p \<noteq> org) ps \<Longrightarrow> view org (fold step ps s) = view org s"
proof (induction ps arbitrary: s)
  case (Cons p ps)
  then show ?case using step_ok[of s p] step_other[of s org p] by auto
qed simp

end

end
