(* ===== verification/ConfigTypes.thy ===== *)
theory ConfigTypes
  imports Interfaces
begin

text \<open>
  The configuration enumerations of shared/btagent_shared/types/config.py: Traffic Light
  Protocol levels, autonomy levels, model providers and tiers, each with the string its
  StrEnum member carries, and the per-integration autonomy overrides.
\<close>

datatype tlp = RED | AMBER_STRICT | AMBER | GREEN | WHITE

fun tlp_value :: "tlp \<Rightarrow> string" where
  "tlp_value RED = ''red''"
| "tlp_value AMBER_STRICT = ''amber_strict''"
| "tlp_value AMBER = ''amber''"
| "tlp_value GREEN = ''green''"
| "tlp_value WHITE = ''white''"

definition all_tlp :: "tlp list" where
  "all_tlp = [RED, AMBER_STRICT, AMBER, GREEN, WHITE]"

text \<open>\<^verbatim>\<open>TLP(s)\<close>, None where Python raises ValueError.\<close>

definition tlp_of :: "string \<Rightarrow> tlp option" where
  "tlp_of s = enum_of_string all_tlp tlp_value s"

datatype autonomy_level =
  L0_MANUAL | L1_ASSISTED | L2_SUPERVISED | L3_AUTONOMOUS | L4_FULL_AUTO

fun autonomy_value :: "autonomy_level \<Rightarrow> string" where
  "autonomy_value L0_MANUAL = ''L0''"
| "autonomy_value L1_ASSISTED = ''L1''"
| "autonomy_value L2_SUPERVISED = ''L2''"
| "autonomy_value L3_AUTONOMOUS = ''L3''"
| "autonomy_value L4_FULL_AUTO = ''L4''"

datatype model_provider = ANTHROPIC | OPENAI | VERTEX_AI | AZURE | BEDROCK | OLLAMA

fun provider_value :: "model_provider \<Rightarrow> string" where
  "provider_value ANTHROPIC = ''anthropic''"
| "provider_value OPENAI = ''openai''"
| "provider_value VERTEX_AI = ''vertex_ai''"
| "provider_value AZURE = ''azure''"
| "provider_value BEDROCK = ''bedrock''"
| "provider_value OLLAMA = ''ollama''"

datatype model_tier = FAST | STANDARD | PREMIUM | LOCAL

fun tier_value :: "model_tier \<Rightarrow> string" where
  "tier_value FAST = ''fast''"
| "tier_value STANDARD = ''standard''"
| "tier_value PREMIUM = ''premium''"
| "tier_value LOCAL = ''local''"

record integration_autonomy =
  siem_query :: autonomy_level
  edr_query :: autonomy_level
  cti_lookup :: autonomy_level
  host_isolation :: autonomy_level
  firewall_rule :: autonomy_level
  account_disable :: autonomy_level
  playbook_execution :: autonomy_level

text \<open>\<^verbatim>\<open>IntegrationAutonomy()\<close>, every field at its default.\<close>

definition default_autonomy :: integration_autonomy where
  "default_autonomy = \<lparr>
     siem_query = L3_AUTONOMOUS, edr_query = L3_AUTONOMOUS, cti_lookup = L3_AUTONOMOUS,
     host_isolation = L0_MANUAL, firewall_rule = L0_MANUAL, account_disable = L0_MANUAL,
     playbook_execution = L2_SUPERVISED \<rparr>"

lemma set_all_tlp [simp]: "set all_tlp = UNIV"
  by (auto simp: all_tlp_def) (metis tlp.exhaust)

interpretation tlp_enum: str_enum all_tlp tlp_value
proof
  show "m = m'" if "tlp_value m = tlp_value m'" for m m'
    using that by (cases m; cases m') simp_all
qed simp

interpretation autonomy_enum:
  str_enum "[L0_MANUAL, L1_ASSISTED, L2_SUPERVISED, L3_AUTONOMOUS, L4_FULL_AUTO]" autonomy_value
proof
  show "m = m'" if "autonomy_value m = autonomy_value m'" for m m'
    using that by (cases m; cases m') simp_all
  show "m \<in> set [L0_MANUAL, L1_ASSISTED, L2_SUPERVISED, L3_AUTONOMOUS, L4_FULL_AUTO]" for m
    by (cases m) simp_all
qed

interpretation provider_enum: str_enum "[ANTHROPIC, OPENAI, VERTEX_AI, AZURE, BEDROCK, OLLAMA]" provider_value
proof
  show "m = m'" if "provider_value m = provider_value m'" for m m'
    using that by (cases m; cases m') simp_all
  show "m \<in> set [ANTHROPIC, OPENAI, VERTEX_AI, AZURE, BEDROCK, OLLAMA]" for m
    by (cases m) simp_all
qed

lemma inj_tlp_value: "inj tlp_value"
  by (rule tlp_enum.inj_val)

lemma tlp_of_iff: "tlp_of s = Some t \<longleftrightarrow> s = tlp_value t"
  by (simp add: tlp_of_def tlp_enum.parse_iff)

lemma tlp_of_value [simp]: "tlp_of (tlp_value t) = Some t"
  by (simp add: tlp_of_iff)

lemma tlp_of_SomeD: "tlp_of s = Some t \<Longrightarrow> s = tlp_value t"
  by (simp add: tlp_of_iff)

lemma lower_tlp_value [simp]: "lower (tlp_value t) = tlp_value t"
  by (cases t) (simp_all add: lower_char_def)

end
