(* ===== verification/TlpPolicy.thy ===== *)
theory TlpPolicy
  imports ConfigTypes
begin

text \<open>
  The organisation-scoped egress policies of
  shared/btagent_shared/security/tlp_policy.py: the restriction order on TLP levels,
  policy matching, the evaluator with its fail-safe precedence, and the violation
  events with their process-local sink.
\<close>

section \<open>Restriction rank\<close>

fun tlp_rank :: "tlp \<Rightarrow> nat" where
  "tlp_rank WHITE = 0"
| "tlp_rank GREEN = 1"
| "tlp_rank AMBER = 2"
| "tlp_rank AMBER_STRICT = 3"
| "tlp_rank RED = 4"

lemma tlp_rank_inj [simp]: "tlp_rank x = tlp_rank y \<longleftrightarrow> x = y"
  by (cases x; cases y) simp_all

lemma tlp_rank_le_RED [simp]: "tlp_rank t \<le> 4"
  by (cases t) simp_all

text \<open>The order of the levels is the order of their ranks.\<close>

instantiation tlp :: linorder
begin

definition less_eq_tlp :: "tlp \<Rightarrow> tlp \<Rightarrow> bool" where
  "less_eq_tlp x y = (tlp_rank x \<le> tlp_rank y)"

definition less_tlp :: "tlp \<Rightarrow> tlp \<Rightarrow> bool" where
  "less_tlp x y = (tlp_rank x < tlp_rank y)"

instance
  by standard (auto simp: less_eq_tlp_def less_tlp_def)

end

section \<open>Egress channels\<close>

datatype egress_kind = STIX_EXPORT | REPORT_EXPORT | KNOWLEDGE_INGEST | MCP_RETURN | EVENT_EMIT

fun kind_value :: "egress_kind \<Rightarrow> string" where
  "kind_value STIX_EXPORT = ''stix_export''"
| "kind_value REPORT_EXPORT = ''report_export''"
| "kind_value KNOWLEDGE_INGEST = ''knowledge_ingest''"
| "kind_value MCP_RETURN = ''mcp_return''"
| "kind_value EVENT_EMIT = ''event_emit''"

text \<open>The members in declaration order.\<close>

definition egress_kinds_enum :: "egress_kind list" where
  "egress_kinds_enum = [STIX_EXPORT, REPORT_EXPORT, KNOWLEDGE_INGEST, MCP_RETURN, EVENT_EMIT]"

definition policy_enforced_kinds :: "egress_kind list" where
  "policy_enforced_kinds = [STIX_EXPORT, REPORT_EXPORT, KNOWLEDGE_INGEST]"

text \<open>A raw string is in the frozenset when it equals a member's value.\<close>

definition is_policy_enforced :: "string \<Rightarrow> bool" where
  "is_policy_enforced k = (k \<in> set (map kind_value policy_enforced_kinds))"

text \<open>\<^verbatim>\<open>None\<close> and the empty selection both mean every channel.\<close>

definition advisory_egress_kinds :: "string list option \<Rightarrow> egress_kind list" where
  "advisory_egress_kinds ks =
     (let selected = (case ks of None \<Rightarrow> [] | Some xs \<Rightarrow> xs) in
      filter (\<lambda>k. k \<notin> set policy_enforced_kinds \<and> (selected = [] \<or> kind_value k \<in> set selected))
        egress_kinds_enum)"

section \<open>Policies\<close>

text \<open>A datetime is naive or carries a zone; an aware one is its instant in microseconds.\<close>

datatype datetime = Naive int | Aware int

fun aware :: "datetime \<Rightarrow> int" where
  "aware (Naive t) = t"
| "aware (Aware t) = t"

datatype policy_action = ALLOW | DENY | DOWNGRADE_THEN_ALLOW

record tlp_policy =
  pol_id :: string
  pol_org_id :: string
  pol_action :: policy_action
  pol_egress_kinds :: "string list"
  pol_applies_to :: "tlp list"
  pol_downgrade_to :: "tlp option"
  pol_approver_id :: string
  pol_rationale :: string
  pol_valid_until :: "datetime option"
  pol_created_at :: datetime

definition policy_matches :: "tlp_policy \<Rightarrow> tlp \<Rightarrow> string \<Rightarrow> datetime \<Rightarrow> bool" where
  "policy_matches p t kind now =
     (if (case pol_valid_until p of None \<Rightarrow> False | Some u \<Rightarrow> aware now > aware u) then False
      else if pol_egress_kinds p \<noteq> [] \<and> kind \<notin> set (pol_egress_kinds p) then False
      else if pol_applies_to p \<noteq> [] \<and> t \<notin> set (pol_applies_to p) then False
      else True)"

datatype policy_reason =
    ExplicitDeny
  | DowngradedByPolicy tlp tlp
  | DowngradeNotLower
  | ExplicitAllow
  | DefaultDenyRed
  | DefaultAllowBelowRed

record policy_decision =
  dec_allowed :: bool
  dec_effective :: tlp
  dec_action :: policy_action
  dec_policy :: "string option"
  dec_reason :: policy_reason

text \<open>
  The evaluator: an explicit DENY wins, then the first DOWNGRADE, then the first ALLOW,
  then the default, which refuses exactly TLP:RED.
\<close>

definition evaluate_egress_policy ::
  "tlp \<Rightarrow> string \<Rightarrow> tlp_policy list \<Rightarrow> datetime \<Rightarrow> policy_decision" where
  "evaluate_egress_policy t kind policies now =
     (let matching = filter (\<lambda>p. policy_matches p t kind now) policies in
      case find (\<lambda>p. pol_action p = DENY) matching of
        Some d \<Rightarrow> \<lparr> dec_allowed = False, dec_effective = t, dec_action = DENY,
                    dec_policy = Some (pol_id d), dec_reason = ExplicitDeny \<rparr>
      | None \<Rightarrow>
        (case find (\<lambda>p. pol_action p = DOWNGRADE_THEN_ALLOW) matching of
           Some g \<Rightarrow>
             (let target = (case pol_downgrade_to g of None \<Rightarrow> GREEN | Some x \<Rightarrow> x) in
              if tlp_rank target < tlp_rank t then
                \<lparr> dec_allowed = True, dec_effective = target, dec_action = DOWNGRADE_THEN_ALLOW,
                  dec_policy = Some (pol_id g), dec_reason = DowngradedByPolicy t target \<rparr>
              else
                \<lparr> dec_allowed = True, dec_effective = t, dec_action = DOWNGRADE_THEN_ALLOW,
                  dec_policy = Some (pol_id g), dec_reason = DowngradeNotLower \<rparr>)
         | None \<Rightarrow>
           (case find (\<lambda>p. pol_action p = ALLOW) matching of
              Some a \<Rightarrow> \<lparr> dec_allowed = True, dec_effective = t, dec_action = ALLOW,
                          dec_policy = Some (pol_id a), dec_reason = ExplicitAllow \<rparr>
            | None \<Rightarrow>
              if t = RED then
                \<lparr> dec_allowed = False, dec_effective = t, dec_action = DENY,
                  dec_policy = None, dec_reason = DefaultDenyRed \<rparr>
              else
                \<lparr> dec_allowed = True, dec_effective = t, dec_action = ALLOW,
                  dec_policy = None, dec_reason = DefaultAllowBelowRed \<rparr>)))"

section \<open>Violation events and the sink\<close>

record violation_event =
  ev_type :: string
  ev_tlp :: tlp
  ev_kind :: string
  ev_channel :: string
  ev_org :: "string option"
  ev_policy :: "string option"
  ev_reason :: string
  ev_occurred_at :: datetime

text \<open>
  The module-level sink.  A registered sink is a callable that either accepts an event
  (True) or raises (False); \<^term>\<open>sink_calls\<close> lists the events it was called with, and
  \<^term>\<open>sink_errors\<close> counts the exceptions that were logged and swallowed.
\<close>

record sink_state =
  violation_sink :: "(violation_event \<Rightarrow> bool) option"
  sink_calls :: "violation_event list"
  sink_errors :: nat

definition set_violation_sink :: "(violation_event \<Rightarrow> bool) \<Rightarrow> sink_state \<Rightarrow> sink_state" where
  "set_violation_sink f s = s\<lparr>violation_sink := Some f\<rparr>"

definition clear_violation_sink :: "sink_state \<Rightarrow> sink_state" where
  "clear_violation_sink s = s\<lparr>violation_sink := None\<rparr>"

definition get_violation_sink :: "sink_state \<Rightarrow> (violation_event \<Rightarrow> bool) option" where
  "get_violation_sink s = violation_sink s"

definition emit_violation :: "violation_event \<Rightarrow> sink_state \<Rightarrow> sink_state" where
  "emit_violation ev s =
     (case violation_sink s of
        None \<Rightarrow> s
      | Some f \<Rightarrow>
          (let s' = s\<lparr>sink_calls := sink_calls s @ [ev]\<rparr> in
           if f ev then s' else s'\<lparr>sink_errors := Suc (sink_errors s')\<rparr>))"

lemma emit_violation_calls:
  "sink_calls (emit_violation ev s) =
     (if violation_sink s = None then sink_calls s else sink_calls s @ [ev])"
  by (simp add: emit_violation_def Let_def split: option.split)

lemma emit_violation_sink [simp]: "violation_sink (emit_violation ev s) = violation_sink s"
  by (simp add: emit_violation_def Let_def split: option.split)

section \<open>Specification of the evaluator\<close>

text \<open>The matching policies of one action.\<close>

abbreviation matching_with :: "policy_action \<Rightarrow> tlp \<Rightarrow> string \<Rightarrow> tlp_policy list \<Rightarrow> datetime \<Rightarrow> tlp_policy set" where
  "matching_with a t k ps now \<equiv> {p \<in> set ps. policy_matches p t k now \<and> pol_action p = a}"

lemma find_matching_None:
  "find (\<lambda>p. pol_action p = a) (filter (\<lambda>p. policy_matches p t k now) ps) = None
     \<longleftrightarrow> matching_with a t k ps now = {}"
  by auto

lemma find_matching_Some:
  "find (\<lambda>p. pol_action p = a) (filter (\<lambda>p. policy_matches p t k now) ps) = Some p
     \<Longrightarrow> p \<in> matching_with a t k ps now"
  by (auto dest: find_SomeD)

lemma eval_allowed_iff:
  "dec_allowed (evaluate_egress_policy t k ps now) \<longleftrightarrow>
     matching_with DENY t k ps now = {} \<and>
     (t \<noteq> RED \<or> matching_with ALLOW t k ps now \<union> matching_with DOWNGRADE_THEN_ALLOW t k ps now \<noteq> {})"
proof -
  let ?F = "\<lambda>a. find (\<lambda>p. pol_action p = a) (filter (\<lambda>p. policy_matches p t k now) ps)"
  have "dec_allowed (evaluate_egress_policy t k ps now) \<longleftrightarrow>
          ?F DENY = None \<and> (?F DOWNGRADE_THEN_ALLOW \<noteq> None \<or> ?F ALLOW \<noteq> None \<or> t \<noteq> RED)"
    unfolding evaluate_egress_policy_def Let_def
    by (simp split: option.split del: find_eq_None)
  then show ?thesis by (simp only: find_matching_None) blast
qed

lemma eval_never_raises_restriction:
  "dec_effective (evaluate_egress_policy t k ps now) \<le> t"
  by (auto simp: evaluate_egress_policy_def Let_def less_eq_tlp_def split: option.splits)

section \<open>Properties of the evaluator\<close>

text \<open>The first policy of a list that matches and has the action.\<close>

definition first_matching ::
  "policy_action \<Rightarrow> tlp \<Rightarrow> string \<Rightarrow> tlp_policy list \<Rightarrow> datetime \<Rightarrow> tlp_policy \<Rightarrow> bool" where
  "first_matching a t k ps now p \<longleftrightarrow>
     (\<exists>before after. ps = before @ p # after \<and> policy_matches p t k now \<and> pol_action p = a \<and>
        matching_with a t k before now = {})"

lemma find_first_matching:
  "find (\<lambda>p. pol_action p = a) (filter (\<lambda>p. policy_matches p t k now) ps) = Some p
     \<Longrightarrow> first_matching a t k ps now p"
proof (induction ps)
  case (Cons q ps)
  show ?case
  proof (cases "policy_matches q t k now \<and> pol_action q = a")
    case True
    then have "p = q" using Cons.prems by simp
    then show ?thesis using True unfolding first_matching_def by (intro exI[of _ "[]"] exI[of _ ps]) simp
  next
    case False
    then have "first_matching a t k ps now p" using Cons by (auto split: if_splits)
    then obtain before after where "ps = before @ p # after" "policy_matches p t k now" "pol_action p = a"
      "matching_with a t k before now = {}"
      unfolding first_matching_def by blast
    then show ?thesis using False unfolding first_matching_def by (intro exI[of _ "q # before"] exI[of _ after]) auto
  qed
qed simp

text \<open>The verdict by precedence: deny, downgrade, allow, the default.\<close>

definition verdict_of :: "tlp \<Rightarrow> (policy_action \<Rightarrow> bool) \<Rightarrow> policy_action" where
  "verdict_of t present =
     (if present DENY then DENY else if present DOWNGRADE_THEN_ALLOW then DOWNGRADE_THEN_ALLOW
      else if present ALLOW then ALLOW else if t = RED then DENY else ALLOW)"

lemma eval_verdict:
  "dec_action (evaluate_egress_policy t k ps now) = verdict_of t (\<lambda>a. matching_with a t k ps now \<noteq> {})"
proof -
  let ?F = "\<lambda>a. find (\<lambda>p. pol_action p = a) (filter (\<lambda>p. policy_matches p t k now) ps)"
  have "dec_action (evaluate_egress_policy t k ps now) = verdict_of t (\<lambda>a. ?F a \<noteq> None)"
    unfolding evaluate_egress_policy_def verdict_of_def Let_def
    by (simp split: option.split del: find_eq_None)
  then show ?thesis by (simp only: find_matching_None)
qed

lemma eval_allowed_action:
  "dec_allowed (evaluate_egress_policy t k ps now) = (dec_action (evaluate_egress_policy t k ps now) \<noteq> DENY)"
  by (simp add: evaluate_egress_policy_def Let_def split: option.split)

lemma eval_source:
  "case dec_policy (evaluate_egress_policy t k ps now) of
     None \<Rightarrow> filter (\<lambda>p. policy_matches p t k now) ps = [] \<and> dec_effective (evaluate_egress_policy t k ps now) = t
   | Some i \<Rightarrow>
       \<exists>p. first_matching (dec_action (evaluate_egress_policy t k ps now)) t k ps now p \<and> pol_id p = i \<and>
         dec_effective (evaluate_egress_policy t k ps now) =
           (if pol_action p = DOWNGRADE_THEN_ALLOW
            then min t (case pol_downgrade_to p of None \<Rightarrow> GREEN | Some x \<Rightarrow> x) else t)"
proof -
  let ?ms = "filter (\<lambda>p. policy_matches p t k now) ps"
  let ?F = "\<lambda>a. find (\<lambda>p. pol_action p = a) ?ms"
  have least: "min t x = (if tlp_rank x < tlp_rank t then x else t)" for x
    by (auto simp: min_def less_eq_tlp_def)
  consider (deny) p where "?F DENY = Some p"
    | (down) p where "?F DENY = None" "?F DOWNGRADE_THEN_ALLOW = Some p"
    | (allow) p where "?F DENY = None" "?F DOWNGRADE_THEN_ALLOW = None" "?F ALLOW = Some p"
    | (none) "?F DENY = None" "?F DOWNGRADE_THEN_ALLOW = None" "?F ALLOW = None"
    by (metis option.exhaust)
  then show ?thesis
  proof cases
    case deny
    then show ?thesis using find_first_matching[OF deny] find_SomeD[OF deny]
      by (auto simp: evaluate_egress_policy_def Let_def)
  next
    case down
    show ?thesis using find_first_matching[OF down(2)] find_SomeD[OF down(2)]
      unfolding evaluate_egress_policy_def Let_def down option.case least
      by (auto split: option.split)
  next
    case allow
    show ?thesis using find_first_matching[OF allow(3)] find_SomeD[OF allow(3)]
      unfolding evaluate_egress_policy_def Let_def allow option.case by auto
  next
    case none
    have "p \<notin> set ?ms" for p
      using none by (cases "pol_action p") (auto simp del: set_filter)
    then have "?ms = []" by (metis list.set_intros(1) neq_Nil_conv)
    then show ?thesis unfolding evaluate_egress_policy_def Let_def none option.case by auto
  qed
qed

text \<open>C9: The decision by precedence: a matching deny refuses, else a matching downgrade allows, else a
  matching allow allows, else only TLP:RED is refused.  So whether and how an egress is allowed
  depends on which policies match and not on their order.  The decision names the first
  matching policy of the deciding action, and lowers the classification only for a downgrade, to
  that policy's target (GREEN when it names none) unless the target is no lower; with no
  matching policy it names none.\<close>

theorem policy_precedence:
  "dec_action (evaluate_egress_policy t k ps now) =
     (if matching_with DENY t k ps now \<noteq> {} then DENY
      else if matching_with DOWNGRADE_THEN_ALLOW t k ps now \<noteq> {} then DOWNGRADE_THEN_ALLOW
      else if matching_with ALLOW t k ps now \<noteq> {} then ALLOW
      else if t = RED then DENY else ALLOW) \<and>
   dec_allowed (evaluate_egress_policy t k ps now) = (dec_action (evaluate_egress_policy t k ps now) \<noteq> DENY) \<and>
   (case dec_policy (evaluate_egress_policy t k ps now) of
      None \<Rightarrow> filter (\<lambda>p. policy_matches p t k now) ps = [] \<and> dec_effective (evaluate_egress_policy t k ps now) = t
    | Some i \<Rightarrow>
        \<exists>p. first_matching (dec_action (evaluate_egress_policy t k ps now)) t k ps now p \<and> pol_id p = i \<and>
          dec_effective (evaluate_egress_policy t k ps now) =
            (if pol_action p = DOWNGRADE_THEN_ALLOW
             then min t (case pol_downgrade_to p of None \<Rightarrow> GREEN | Some x \<Rightarrow> x) else t)) \<and>
   dec_effective (evaluate_egress_policy t k ps now) \<le> t \<and>
   (\<forall>qs. set qs = set ps \<longrightarrow>
      dec_action (evaluate_egress_policy t k qs now) = dec_action (evaluate_egress_policy t k ps now) \<and>
      dec_allowed (evaluate_egress_policy t k qs now) = dec_allowed (evaluate_egress_policy t k ps now))"
proof (intro conjI allI impI)
  show "dec_action (evaluate_egress_policy t k qs now) = dec_action (evaluate_egress_policy t k ps now)"
    and "dec_allowed (evaluate_egress_policy t k qs now) = dec_allowed (evaluate_egress_policy t k ps now)"
    if "set qs = set ps" for qs
    using that by (simp_all only: eval_allowed_action eval_verdict)
qed (rule eval_verdict[unfolded verdict_of_def] eval_allowed_action eval_source eval_never_raises_restriction)+

text \<open>Three policies that match, in both orders: the deny decides.\<close>

definition demo_policy :: "string \<Rightarrow> policy_action \<Rightarrow> tlp_policy" where
  "demo_policy i a = \<lparr>pol_id = i, pol_org_id = ''o'', pol_action = a, pol_egress_kinds = [], pol_applies_to = [],
     pol_downgrade_to = None, pol_approver_id = [], pol_rationale = [], pol_valid_until = None, pol_created_at = Naive 0\<rparr>"

lemma policy_precedence_witness:
  "let ps = [demo_policy ''p1'' ALLOW, demo_policy ''p2'' DOWNGRADE_THEN_ALLOW, demo_policy ''p3'' DENY] in
   dec_action (evaluate_egress_policy RED ''stix_export'' (rev ps) (Naive 1)) = DENY \<and>
   dec_action (evaluate_egress_policy RED ''stix_export'' (tl (rev ps)) (Naive 1)) = DOWNGRADE_THEN_ALLOW"
proof -
  let ?ps = "[demo_policy ''p1'' ALLOW, demo_policy ''p2'' DOWNGRADE_THEN_ALLOW, demo_policy ''p3'' DENY]"
  have "dec_action (evaluate_egress_policy RED ''stix_export'' (rev ?ps) (Naive 1)) =
      dec_action (evaluate_egress_policy RED ''stix_export'' ?ps (Naive 1))"
    by (rule policy_precedence[THEN conjunct2, THEN conjunct2, THEN conjunct2, THEN conjunct2, THEN spec, THEN mp,
        THEN conjunct1]) (rule set_rev)
  also have "\<dots> = DENY" by code_simp
  finally have "dec_action (evaluate_egress_policy RED ''stix_export'' (rev ?ps) (Naive 1)) = DENY" .
  moreover have "dec_action (evaluate_egress_policy RED ''stix_export'' (tl (rev ?ps)) (Naive 1)) = DOWNGRADE_THEN_ALLOW"
    by code_simp
  ultimately show ?thesis by (simp add: Let_def)
qed

end
