(* ===== verification/PyValue.thy ===== *)
theory PyValue
  imports Interfaces
begin

text \<open>
  The Python values that flow through the program as data: step outputs, payloads,
  decoded JSON.  A float is kept as an uninterpreted-by-this-theory datatype value;
  its arithmetic is in the theory of the condition evaluator.
\<close>

text \<open>
  A finite float is mantissa times two to the exponent; the mantissa is odd, or both
  are zero (\<^term>\<open>Fin 0 0\<close> is positive zero).
\<close>

datatype pyfloat = Fin int int | NegZero | Inf bool | NaN

datatype pyval =
    PNone
  | PBool bool
  | PInt int
  | PFloat pyfloat
  | PStr string
  | PList "pyval list"
  | PTuple "pyval list"
  | PDict "(pyval \<times> pyval) list"

text \<open>\<^verbatim>\<open>d.get(k)\<close> and \<^verbatim>\<open>k in d\<close> for a string key.\<close>

definition get_str :: "(pyval \<times> pyval) list \<Rightarrow> string \<Rightarrow> pyval option" where
  "get_str d k = map_of d (PStr k)"

lemma get_str_simps [simp]:
  "get_str [] k = None"
  "get_str ((k', v) # d) k = (if k' = PStr k then Some v else get_str d k)"
  by (simp_all add: get_str_def)

lemma get_str_in: "get_str d k = Some v \<Longrightarrow> (PStr k, v) \<in> set d"
  by (simp add: get_str_def map_of_SomeD)

text \<open>The direct children of a container, as a recursive walk visits them.\<close>

fun children :: "pyval \<Rightarrow> pyval list" where
  "children (PList xs) = xs"
| "children (PTuple xs) = xs"
| "children (PDict d) = map snd d"
| "children v = []"

lemma children_size: "c \<in> set (children v) \<Longrightarrow> size c < size v"
proof (cases v)
  case (PDict d)
  assume "c \<in> set (children v)"
  then obtain k where kc: "(k, c) \<in> set d" using PDict by auto
  have "size c < size (PDict d)"
    using kc by (induction d) auto
  then show ?thesis using PDict by simp
qed (auto simp: less_Suc_eq_le dest: size_list_estimation'[where f = size, OF _ order_refl])

text \<open>\<^term>\<open>at_depth v n w\<close>: \<^term>\<open>w\<close> sits \<^term>\<open>n\<close> container levels below \<^term>\<open>v\<close>.\<close>

inductive at_depth :: "pyval \<Rightarrow> nat \<Rightarrow> pyval \<Rightarrow> bool" where
  here: "at_depth v 0 v"
| below: "c \<in> set (children v) \<Longrightarrow> at_depth c n w \<Longrightarrow> at_depth v (Suc n) w"

inductive_cases at_depth_0E: "at_depth v 0 w"
inductive_cases at_depth_SucE: "at_depth v (Suc n) w"
inductive_simps at_depth_Suc_iff: "at_depth v (Suc n) w"
inductive_simps at_depth_0_iff [simp]: "at_depth v 0 w"

text \<open>Nesting depth: a scalar or an empty container has depth 0.\<close>

function depth :: "pyval \<Rightarrow> nat" where
  "depth v = (if children v = [] then 0 else Suc (Max (set (map depth (children v)))))"
  by auto
termination by (relation "measure size") (auto dest: children_size)

declare depth.simps [simp del]

lemma depth_child: "c \<in> set (children v) \<Longrightarrow> depth c < depth v"
proof -
  assume c: "c \<in> set (children v)"
  then have "depth c \<le> Max (set (map depth (children v)))" by simp
  moreover have "depth v = Suc (Max (set (map depth (children v))))"
    using c by (subst depth.simps) auto
  ultimately show ?thesis by simp
qed

lemma at_depth_le: "at_depth v n w \<Longrightarrow> n \<le> depth v"
  by (induction rule: at_depth.induct) (auto dest: depth_child)

lemma depth_attained: "\<exists>w. at_depth v (depth v) w"
proof (induction v rule: depth.induct)
  case (1 v)
  show ?case
  proof (cases "children v = []")
    case True
    then show ?thesis by (subst depth.simps) auto
  next
    case False
    have "Max (depth ` set (children v)) \<in> depth ` set (children v)"
      using False by (intro Max_in) auto
    then obtain c where c: "c \<in> set (children v)" "depth c = Max (depth ` set (children v))" by auto
    have d: "depth v = Suc (depth c)" using False c by (subst depth.simps) auto
    obtain w where "at_depth c (depth c) w" using 1 False c by blast
    then show ?thesis using c d by (auto intro: at_depth.below)
  qed
qed

end
