(* ===== verification/Tlp.thy ===== *)
theory Tlp
  imports TlpPolicy PyValue
begin

text \<open>
  The baseline egress gate of shared/btagent_shared/security/tlp.py: tag coercion, the
  recursive scan for TLP:RED tags with its depth limit, resolution of the
  investigation's classification, and the gate itself with its violation events.
  A member of the TLP StrEnum is a str whose text is its value, so inside a payload it is
  the \<^term>\<open>PStr\<close> of that text.
\<close>

definition tlp_field_names :: "string list" where
  "tlp_field_names = [''tlp_level'', ''tlp'', ''TLP'', ''TLPLevel'']"

definition max_scan_depth :: nat where
  "max_scan_depth = 64"

definition valid_egress_kinds :: "string list" where
  "valid_egress_kinds =
     [''stix_export'', ''knowledge_ingest'', ''mcp_return'', ''event_emit'', ''report_export'']"

fun coerce_tlp :: "pyval \<Rightarrow> tlp option" where
  "coerce_tlp (PStr s) = tlp_of (lower s)"
| "coerce_tlp v = None"

text \<open>A mapping that itself carries a TLP field coercing to RED.\<close>

fun red_tagged :: "pyval \<Rightarrow> bool" where
  "red_tagged (PDict d) =
     list_ex (\<lambda>k. case get_str d k of None \<Rightarrow> False | Some v \<Rightarrow> coerce_tlp v = Some RED)
       tlp_field_names"
| "red_tagged v = False"

function scan :: "pyval \<Rightarrow> nat \<Rightarrow> bool" where
  "scan node n =
     (if n > max_scan_depth then True
      else case node of
        PDict d \<Rightarrow> red_tagged (PDict d) \<or> list_ex (\<lambda>v. scan v (Suc n)) (map snd d)
      | PList xs \<Rightarrow> list_ex (\<lambda>v. scan v (Suc n)) xs
      | PTuple xs \<Rightarrow> list_ex (\<lambda>v. scan v (Suc n)) xs
      | _ \<Rightarrow> False)"
  by auto
termination
  using children_size[of _ "PList _"] children_size[of _ "PTuple _"] children_size[of _ "PDict _"]
  by (relation "measure (size \<circ> fst)") auto

declare scan.simps [simp del]

definition scan_payload_for_red :: "pyval \<Rightarrow> bool" where
  "scan_payload_for_red payload = scan payload 0"

text \<open>The forms a classification context arrives in; the last is any other object.\<close>

datatype class_ctx =
    CtxNone
  | CtxTlp tlp
  | CtxStr string
  | CtxDict "(pyval \<times> pyval) list"
  | CtxOther

text \<open>The loop over the field names: the first that coerces, and whether any was present.\<close>

fun resolve_fields :: "(pyval \<times> pyval) list \<Rightarrow> string list \<Rightarrow> bool \<Rightarrow> tlp" where
  "resolve_fields d [] saw = (if saw then RED else GREEN)"
| "resolve_fields d (k # ks) saw =
     (case get_str d k of
        None \<Rightarrow> resolve_fields d ks saw
      | Some v \<Rightarrow> (case coerce_tlp v of Some t \<Rightarrow> t | None \<Rightarrow> resolve_fields d ks True))"

fun resolve_classification :: "class_ctx \<Rightarrow> tlp" where
  "resolve_classification (CtxTlp t) = t"
| "resolve_classification (CtxStr s) =
     (case coerce_tlp (PStr s) of Some t \<Rightarrow> t | None \<Rightarrow> RED)"
| "resolve_classification (CtxDict d) = resolve_fields d tlp_field_names False"
| "resolve_classification CtxNone = GREEN"
| "resolve_classification CtxOther = GREEN"

datatype tlp_error = TLPViolation tlp string | UnknownEgressKind string

datatype tlp_log = LogCtxBlock string | LogPayloadBlock string | LogAmberStrict string

definition egress_channel :: "string \<Rightarrow> string" where
  "egress_channel kind = ''egress:'' @ kind"

definition emit_block_event ::
  "string \<Rightarrow> string option \<Rightarrow> string \<Rightarrow> datetime \<Rightarrow> sink_state \<Rightarrow> sink_state" where
  "emit_block_event kind org reason now s =
     emit_violation \<lparr> ev_type = ''tlp.violation_attempt'', ev_tlp = RED, ev_kind = kind,
       ev_channel = egress_channel kind, ev_org = org, ev_policy = None,
       ev_reason = reason, ev_occurred_at = now \<rparr> s"

text \<open>The gate: its outcome, the sink afterwards and the log lines it wrote.\<close>

definition assert_tlp_allows_egress ::
  "pyval \<Rightarrow> string \<Rightarrow> class_ctx \<Rightarrow> string option \<Rightarrow> datetime \<Rightarrow> sink_state
     \<Rightarrow> (tlp_error, unit) res \<times> sink_state \<times> tlp_log list" where
  "assert_tlp_allows_egress payload kind ctx org now s =
     (if kind \<notin> set valid_egress_kinds then (Inl (UnknownEgressKind kind), s, [])
      else
        let ctx_tlp = resolve_classification ctx in
        if ctx_tlp = RED then
          (Inl (TLPViolation RED (egress_channel kind)),
           emit_block_event kind org ''investigation classification is TLP:RED'' now s,
           [LogCtxBlock kind])
        else if scan_payload_for_red payload then
          (Inl (TLPViolation RED (egress_channel kind)),
           emit_block_event kind org ''payload contains TLP:RED-tagged data'' now s,
           [LogPayloadBlock kind])
        else (Inr (), s, if ctx_tlp = AMBER_STRICT then [LogAmberStrict kind] else []))"

section \<open>The scan against its specification\<close>

lemma red_tagged_iff:
  "red_tagged (PDict d) \<longleftrightarrow>
     (\<exists>k s. k \<in> set tlp_field_names \<and> get_str d k = Some (PStr s) \<and> lower s = ''red'')"
proof -
  have "coerce_tlp v = Some RED \<longleftrightarrow> (\<exists>s. v = PStr s \<and> lower s = ''red'')" for v
    by (cases v) (auto simp: tlp_of_iff)
  then show ?thesis
    by (auto simp: list_ex_iff split: option.splits)
qed

lemma scan_step:
  "scan v n \<longleftrightarrow> n > max_scan_depth \<or> red_tagged v \<or> (\<exists>c \<in> set (children v). scan c (Suc n))"
  by (subst scan.simps) (cases v; simp add: list_ex_iff; blast)

lemma scan_iff:
  "scan v n \<longleftrightarrow> (\<exists>m w. at_depth v m w \<and> (n + m > max_scan_depth \<or> red_tagged w))"
    (is "_ \<longleftrightarrow> ?R v n")
proof (induction "size v" arbitrary: v n rule: less_induct)
  case less
  have IH: "scan c (Suc n) \<longleftrightarrow> ?R c (Suc n)" if "c \<in> set (children v)" for c
    using less children_size[OF that] by blast
  have "?R v n \<longleftrightarrow> n > max_scan_depth \<or> red_tagged v \<or> (\<exists>c \<in> set (children v). ?R c (Suc n))"
  proof
    assume "?R v n"
    then obtain m w where mw: "at_depth v m w" "n + m > max_scan_depth \<or> red_tagged w" by blast
    show "n > max_scan_depth \<or> red_tagged v \<or> (\<exists>c \<in> set (children v). ?R c (Suc n))"
    proof (cases m)
      case 0
      then show ?thesis using mw by auto
    next
      case (Suc k)
      then obtain c where "c \<in> set (children v)" "at_depth c k w"
        using mw(1) by (auto simp: at_depth_Suc_iff)
      then show ?thesis using mw(2) Suc by (intro disjI2 bexI[of _ c] exI[of _ k] exI[of _ w]) auto
    qed
  next
    assume "n > max_scan_depth \<or> red_tagged v \<or> (\<exists>c \<in> set (children v). ?R c (Suc n))"
    then consider "n > max_scan_depth \<or> red_tagged v"
      | c m w where "c \<in> set (children v)" "at_depth c m w" "Suc n + m > max_scan_depth \<or> red_tagged w"
      by blast
    then show "?R v n"
    proof cases
      case 1
      then show ?thesis by (intro exI[of _ 0] exI[of _ v]) auto
    next
      case 2
      then have "at_depth v (Suc m) w" by (blast intro: at_depth.below)
      then show ?thesis using 2(3) by (intro exI[of _ "Suc m"] exI[of _ w]) auto
    qed
  qed
  then show ?case using scan_step[of v n] IH by blast
qed

lemma scan_payload_iff:
  "scan_payload_for_red v \<longleftrightarrow> depth v > max_scan_depth \<or> (\<exists>n w. at_depth v n w \<and> red_tagged w)"
proof -
  have "(\<exists>m w. at_depth v m w \<and> m > k) \<longleftrightarrow> depth v > k" for k
    using at_depth_le depth_attained by (metis less_le_trans)
  then show ?thesis
    unfolding scan_payload_for_red_def scan_iff add_0 by blast
qed

lemma resolve_fields_GREEN_not_RED:
  "resolve_fields d ks saw \<noteq> RED \<Longrightarrow>
     (\<exists>k \<in> set ks. \<exists>v. get_str d k = Some v \<and> coerce_tlp v = Some (resolve_fields d ks saw))
     \<or> (\<not> saw \<and> (\<forall>k \<in> set ks. get_str d k = None))"
  by (induction d ks saw rule: resolve_fields.induct) (auto split: option.splits if_splits)

section \<open>Properties of the gate\<close>

text \<open>C3: The gate lets a payload leave exactly when the channel is known, the resolved
  classification is not TLP:RED, the payload is nested at most 64 levels deep and no mapping
  at any level of it carries a TLP field that reads as RED.\<close>

theorem egress_allowed_iff:
  "fst (assert_tlp_allows_egress payload kind ctx org now s) = Inr () \<longleftrightarrow>
     kind \<in> set valid_egress_kinds \<and> resolve_classification ctx \<noteq> RED \<and>
     depth payload \<le> max_scan_depth \<and> (\<nexists>n w. at_depth payload n w \<and> red_tagged w)"
  by (auto simp: assert_tlp_allows_egress_def Let_def scan_payload_iff not_le)

text \<open>Every refusal on a known channel is a TLP:RED violation of that channel and hands
  the registered sink exactly one event naming the channel and organisation; an allowed egress
  and an unknown channel hand it none, and the gate never unregisters the sink.\<close>

theorem egress_refusal_reported:
  "case assert_tlp_allows_egress payload kind ctx org now s of (r, s', logs) \<Rightarrow>
     violation_sink s' = violation_sink s \<and>
     (case r of
        Inr _ \<Rightarrow> s' = s
      | Inl (UnknownEgressKind k) \<Rightarrow> s' = s \<and> k = kind
      | Inl (TLPViolation t ch) \<Rightarrow>
          t = RED \<and> ch = egress_channel kind \<and>
          (\<exists>reason. sink_calls s' = (if violation_sink s = None then sink_calls s
             else sink_calls s @ [\<lparr> ev_type = ''tlp.violation_attempt'', ev_tlp = RED,
               ev_kind = kind, ev_channel = ''egress:'' @ kind, ev_org = org, ev_policy = None,
               ev_reason = reason, ev_occurred_at = now \<rparr>])))"
  by (auto simp: assert_tlp_allows_egress_def Let_def emit_block_event_def emit_violation_calls
       egress_channel_def)

end
