(* ===== verification/TlpService.thy ===== *)
theory TlpService
  imports Tlp
begin

text \<open>
  The organisation policy table of backend/btagent_backend/services/tlp_policy_service.py
  and the runtime guard of services/tlp_egress_guard.py.  The table is the list of its
  rows; a query that fails is an error of the lookup.  The identifier generator and the
  clock are arguments.
\<close>

section \<open>Policy rows\<close>

record policy_row =
  row_id :: string
  row_org_id :: string
  row_action :: string
  row_egress_kinds :: "string list option"
  row_applies_to :: "string list option"
  row_downgrade_to :: "string option"
  row_approver_id :: "string option"
  row_rationale :: "string option"
  row_valid_until :: "datetime option"
  row_created_by :: "string option"
  row_created_at :: datetime

datatype service_error = ValueError string | LookupFailed

fun action_value :: "policy_action \<Rightarrow> string" where
  "action_value ALLOW = ''allow''"
| "action_value DENY = ''deny''"
| "action_value DOWNGRADE_THEN_ALLOW = ''downgrade_then_allow''"

definition action_of :: "string \<Rightarrow> (service_error, policy_action) res" where
  "action_of s = (case enum_of_string [ALLOW, DENY, DOWNGRADE_THEN_ALLOW] action_value s of
     Some a \<Rightarrow> Inr a | None \<Rightarrow> Inl (ValueError s))"

definition tlp_of_res :: "string \<Rightarrow> (service_error, tlp) res" where
  "tlp_of_res s = (case tlp_of s of Some t \<Rightarrow> Inr t | None \<Rightarrow> Inl (ValueError s))"

definition row_to_domain :: "policy_row \<Rightarrow> (service_error, tlp_policy) res" where
  "row_to_domain r =
     bind_res (action_of (row_action r)) (\<lambda>a.
     bind_res (map_res tlp_of_res (case row_applies_to r of None \<Rightarrow> [] | Some xs \<Rightarrow> xs)) (\<lambda>ts.
     bind_res (case row_downgrade_to r of
                 None \<Rightarrow> Inr None
               | Some s \<Rightarrow> if s = [] then Inr None
                          else bind_res (tlp_of_res s) (\<lambda>t. Inr (Some t))) (\<lambda>dg.
     Inr \<lparr> pol_id = row_id r, pol_org_id = row_org_id r, pol_action = a,
           pol_egress_kinds = (case row_egress_kinds r of None \<Rightarrow> [] | Some xs \<Rightarrow> xs),
           pol_applies_to = ts, pol_downgrade_to = dg,
           pol_approver_id = (case row_approver_id r of None \<Rightarrow> [] | Some s \<Rightarrow> s),
           pol_rationale = (case row_rationale r of None \<Rightarrow> [] | Some s \<Rightarrow> s),
           pol_valid_until = row_valid_until r, pol_created_at = row_created_at r \<rparr>)))"

section \<open>The service\<close>

text \<open>\<^verbatim>\<open>ORDER BY created_at DESC\<close>: a stable sort on the negated instant.\<close>

definition list_policies :: "policy_row list \<Rightarrow> string \<Rightarrow> (service_error, tlp_policy list) res" where
  "list_policies table org =
     map_res row_to_domain
       (sort_key (\<lambda>r. - aware (row_created_at r)) (filter (\<lambda>r. row_org_id r = org) table))"

definition row_by_id :: "policy_row list \<Rightarrow> string \<Rightarrow> policy_row option" where
  "row_by_id table pid = find (\<lambda>r. row_id r = pid) table"

definition get_policy ::
  "policy_row list \<Rightarrow> string \<Rightarrow> string \<Rightarrow> (service_error, tlp_policy option) res" where
  "get_policy table org pid =
     (case row_by_id table pid of
        None \<Rightarrow> Inr None
      | Some r \<Rightarrow> if row_org_id r \<noteq> org then Inr None
                 else bind_res (row_to_domain r) (\<lambda>p. Inr (Some p)))"

definition create_policy ::
  "string \<Rightarrow> datetime \<Rightarrow> string \<Rightarrow> policy_action \<Rightarrow> string list \<Rightarrow> tlp list \<Rightarrow> tlp option
     \<Rightarrow> string \<Rightarrow> string \<Rightarrow> datetime option \<Rightarrow> string option \<Rightarrow> policy_row list
     \<Rightarrow> (service_error, tlp_policy) res \<times> policy_row list" where
  "create_policy new_id now org action kinds tlps downgrade approver rationale valid_until
     created_by table =
     (let row = \<lparr> row_id = new_id, row_org_id = org, row_action = action_value action,
        row_egress_kinds = Some kinds, row_applies_to = Some (map tlp_value tlps),
        row_downgrade_to = map_option tlp_value downgrade, row_approver_id = Some approver,
        row_rationale = Some rationale, row_valid_until = valid_until,
        row_created_by = created_by, row_created_at = now \<rparr>
      in (row_to_domain row, table @ [row]))"

definition delete_policy :: "string \<Rightarrow> string \<Rightarrow> policy_row list \<Rightarrow> bool \<times> policy_row list" where
  "delete_policy org pid table =
     (case row_by_id table pid of
        None \<Rightarrow> (False, table)
      | Some r \<Rightarrow> if row_org_id r \<noteq> org then (False, table)
                 else (True, filter (\<lambda>q. row_id q \<noteq> pid) table))"

text \<open>A database that answers holds its table; one that fails raises in the query.\<close>

definition service_evaluate ::
  "policy_row list option \<Rightarrow> string \<Rightarrow> tlp \<Rightarrow> string \<Rightarrow> datetime
     \<Rightarrow> (service_error, policy_decision) res" where
  "service_evaluate db org t kind now =
     (case db of
        None \<Rightarrow> Inl LookupFailed
      | Some table \<Rightarrow>
          bind_res (list_policies table org) (\<lambda>ps. Inr (evaluate_egress_policy t kind ps now)))"

section \<open>The runtime guard\<close>

text \<open>The classification argument: absent, a TLP member or a string.\<close>

datatype tlp_arg = NoTlp | TlpArg tlp | TlpText string

fun guard_coerce :: "tlp_arg \<Rightarrow> tlp" where
  "guard_coerce (TlpArg t) = t"
| "guard_coerce NoTlp = GREEN"
| "guard_coerce (TlpText s) = (case tlp_of (lower s) of Some t \<Rightarrow> t | None \<Rightarrow> RED)"

text \<open>How a reason reads in an event.\<close>

fun reason_text :: "policy_reason \<Rightarrow> string" where
  "reason_text ExplicitDeny = ''explicit deny policy''"
| "reason_text (DowngradedByPolicy a b) =
     ''downgraded '' @ tlp_value a @ ''->'' @ tlp_value b @ '' by policy''"
| "reason_text DowngradeNotLower =
     ''downgrade target not lower; allowed at original classification''"
| "reason_text ExplicitAllow = ''explicit allow policy''"
| "reason_text DefaultDenyRed = ''default-deny: TLP:RED''"
| "reason_text DefaultAllowBelowRed = ''default-allow: classification below RED''"

definition assert_org_policy_allows_egress ::
  "policy_row list option \<Rightarrow> string \<Rightarrow> tlp_arg \<Rightarrow> string \<Rightarrow> datetime \<Rightarrow> sink_state
     \<Rightarrow> (tlp_error, unit) res \<times> sink_state" where
  "assert_org_policy_allows_egress db org arg kind now s =
     (let resolved = guard_coerce arg in
      case service_evaluate db org resolved kind now of
        Inl e \<Rightarrow> (Inr (), s)
      | Inr d \<Rightarrow>
          if dec_allowed d then (Inr (), s)
          else (Inl (TLPViolation resolved (egress_channel kind)),
                emit_violation \<lparr> ev_type = ''tlp.violation_attempt'', ev_tlp = resolved,
                  ev_kind = kind, ev_channel = egress_channel kind, ev_org = Some org,
                  ev_policy = dec_policy d, ev_reason = reason_text (dec_reason d),
                  ev_occurred_at = now \<rparr> s))"

section \<open>Lemmas\<close>

interpretation action_enum: str_enum "[ALLOW, DENY, DOWNGRADE_THEN_ALLOW]" action_value
proof
  show "m = m'" if "action_value m = action_value m'" for m m'
    using that by (cases m; cases m') simp_all
  show "m \<in> set [ALLOW, DENY, DOWNGRADE_THEN_ALLOW]" for m
    by (cases m) simp_all
qed

lemma action_of_value [simp]: "action_of (action_value a) = Inr a"
  by (simp add: action_of_def action_enum.parse_val)

lemma map_res_tlp_values [simp]: "map_res tlp_of_res (map tlp_value ts) = Inr ts"
  by (induction ts) (simp_all add: tlp_of_res_def)

lemma tlp_value_neq_Nil [simp]: "tlp_value t \<noteq> []"
  by (cases t) simp_all

lemma row_to_domain_org: "row_to_domain r = Inr p \<Longrightarrow> pol_org_id p = row_org_id r \<and> pol_id p = row_id r"
  by (auto simp: row_to_domain_def split: option.splits)

lemma list_policies_org:
  "list_policies table org = Inr ps \<Longrightarrow> p \<in> set ps \<Longrightarrow> pol_org_id p = org"
  unfolding list_policies_def by (auto dest!: map_res_in row_to_domain_org)

lemma list_policies_only_own_rows:
  "filter (\<lambda>r. row_org_id r = org) t1 = filter (\<lambda>r. row_org_id r = org) t2
     \<Longrightarrow> list_policies t1 org = list_policies t2 org"
  by (simp add: list_policies_def)

lemma row_by_id_SomeD: "row_by_id t pid = Some r \<Longrightarrow> r \<in> set t \<and> row_id r = pid"
  by (auto simp: row_by_id_def dest: find_SomeD)

lemma delete_other_org:
  assumes "org' \<noteq> org" and "distinct (map row_id table)"
  shows "filter (\<lambda>r. row_org_id r = org') (snd (delete_policy org pid table)) =
         filter (\<lambda>r. row_org_id r = org') table"
proof (cases "row_by_id table pid")
  case (Some r)
  have "row_id q \<noteq> pid" if "q \<in> set table" "row_org_id q = org'" "row_org_id r = org" for q
  proof
    assume "row_id q = pid"
    then have "q = r"
      using that row_by_id_SomeD[OF Some] assms(2) by (auto simp: distinct_map dest: inj_onD)
    then show False using that assms(1) by simp
  qed
  then show ?thesis
    using Some by (auto simp: delete_policy_def intro!: filter_cong)
qed (simp add: delete_policy_def)

section \<open>The table is shared\<close>

text \<open>The operations as events; the primary key refuses an id that is taken.\<close>

datatype policy_event =
    AddPolicy string datetime policy_action "string list" "tlp list" "tlp option" string string
      "datetime option" "string option"
  | DropPolicy string

fun policy_step :: "string \<times> policy_event \<Rightarrow> policy_row list \<Rightarrow> policy_row list" where
  "policy_step (org, AddPolicy i now a kinds ts dg approver rationale until by) table =
     (if i \<in> row_id ` set table then table
      else snd (create_policy i now org a kinds ts dg approver rationale until by table))"
| "policy_step (org, DropPolicy i) table = snd (delete_policy org i table)"

interpretation policies: tenant_table policy_step "\<lambda>table. distinct (map row_id table)"
  "\<lambda>org table. filter (\<lambda>r. row_org_id r = org) table"
proof
  show "distinct (map row_id (policy_step p table))" if "distinct (map row_id table)" for p table
    using that by (cases "(p, table)" rule: policy_step.cases)
      (auto simp: create_policy_def delete_policy_def distinct_map_filter Let_def split: option.split)
  show "filter (\<lambda>r. row_org_id r = org) (policy_step p table) = filter (\<lambda>r. row_org_id r = org) table"
    if "distinct (map row_id table)" "org \<noteq> fst p" for p org table
    using that by (cases "(p, table)" rule: policy_step.cases)
      (simp_all add: create_policy_def delete_other_org Let_def)
qed

section \<open>Properties of the service and the guard\<close>

text \<open>
  The specification on the rows as they are stored, text by text: the level an argument is judged
  at, whether a row can be read, and whether a row of the organisation governs an egress.
\<close>

definition judged_level :: "tlp_arg \<Rightarrow> tlp" where
  "judged_level arg =
     (case arg of
        NoTlp \<Rightarrow> GREEN
      | TlpArg t \<Rightarrow> t
      | TlpText s \<Rightarrow>
          if lower s = ''white'' then WHITE else if lower s = ''green'' then GREEN
          else if lower s = ''amber'' then AMBER else if lower s = ''amber_strict'' then AMBER_STRICT else RED)"

definition level_texts :: "string list" where
  "level_texts = [''red'', ''amber_strict'', ''amber'', ''green'', ''white'']"

definition readable :: "policy_row \<Rightarrow> bool" where
  "readable r \<longleftrightarrow>
     row_action r \<in> {''allow'', ''deny'', ''downgrade_then_allow''} \<and>
     (case row_applies_to r of None \<Rightarrow> True | Some ls \<Rightarrow> set ls \<subseteq> set level_texts) \<and>
     (case row_downgrade_to r of None \<Rightarrow> True | Some l \<Rightarrow> l = [] \<or> l \<in> set level_texts)"

definition governs :: "string \<Rightarrow> string \<Rightarrow> tlp \<Rightarrow> string \<Rightarrow> datetime \<Rightarrow> policy_row \<Rightarrow> bool" where
  "governs org action t kind now r \<longleftrightarrow>
     row_org_id r = org \<and> row_action r = action \<and>
     (case row_egress_kinds r of None \<Rightarrow> True | Some ks \<Rightarrow> ks = [] \<or> kind \<in> set ks) \<and>
     (case row_applies_to r of None \<Rightarrow> True | Some ls \<Rightarrow> ls = [] \<or> tlp_value t \<in> set ls) \<and>
     (case row_valid_until r of None \<Rightarrow> True | Some u \<Rightarrow> aware now \<le> aware u)"

lemma guard_coerce_level: "guard_coerce arg = judged_level arg"
proof (cases arg)
  case (TlpText s)
  show ?thesis
  proof (cases "tlp_of (lower s)")
    case None
    then have "lower s \<notin> range tlp_value" by (simp add: tlp_of_def tlp_enum.parse_None)
    then have "lower s \<noteq> ''white''" "lower s \<noteq> ''green''" "lower s \<noteq> ''amber''" "lower s \<noteq> ''amber_strict''"
      by (metis range_eqI tlp_value.simps)+
    then show ?thesis using TlpText None by (simp add: judged_level_def)
  next
    case (Some t)
    then show ?thesis using TlpText tlp_of_SomeD[OF Some] by (cases t) (simp_all add: judged_level_def)
  qed
qed (simp_all add: judged_level_def)

lemma map_res_isl: "(\<exists>e. map_res f xs = Inl e) \<longleftrightarrow> (\<exists>x \<in> set xs. isl (f x))"
proof (induction xs)
  case (Cons x xs)
  then show ?case by (cases "f x"; cases "map_res f xs") auto
qed simp

lemma level_texts_range: "set level_texts = range tlp_value"
proof -
  have "tlp_value t \<in> set level_texts" for t by (cases t) (simp_all add: level_texts_def)
  moreover have "set level_texts \<subseteq> tlp_value ` {RED, AMBER_STRICT, AMBER, GREEN, WHITE}"
    by (simp add: level_texts_def)
  ultimately show ?thesis by blast
qed

lemma tlp_of_res_isl: "isl (tlp_of_res s) \<longleftrightarrow> s \<notin> set level_texts"
proof (cases "tlp_of s")
  case None
  then have "s \<notin> range tlp_value" by (simp add: tlp_of_def tlp_enum.parse_None)
  then show ?thesis using None by (simp add: tlp_of_res_def level_texts_range)
next
  case (Some t)
  then show ?thesis using tlp_of_SomeD[OF Some] by (simp add: tlp_of_res_def level_texts_range)
qed

lemma tlp_of_res_Inr: "tlp_of_res s = Inr t \<longleftrightarrow> s = tlp_value t"
proof (cases "tlp_of s")
  case (Some u)
  then show ?thesis using tlp_of_iff[of s u] tlp_of_iff[of s t] by (auto simp: tlp_of_res_def)
qed (use tlp_of_iff[of s t] in \<open>auto simp: tlp_of_res_def\<close>)

lemma action_of_isl: "isl (action_of s) \<longleftrightarrow> s \<notin> {''allow'', ''deny'', ''downgrade_then_allow''}"
  by (simp add: action_of_def enum_of_string_def)

lemma action_of_Inr: "action_of s = Inr a \<longleftrightarrow> s = action_value a"
proof
  show "action_of s = Inr a" if "s = action_value a" using that by simp
  show "s = action_value a" if "action_of s = Inr a"
    using that enum_of_string_SomeD[of "[ALLOW, DENY, DOWNGRADE_THEN_ALLOW]" action_value s a]
    by (auto simp: action_of_def split: option.splits)
qed

lemma isl_bind: "isl (bind_res r f) \<longleftrightarrow> isl r \<or> (\<exists>a. r = Inr a \<and> isl (f a))"
  by (cases r) auto

lemma readable_iff: "isl (row_to_domain r) \<longleftrightarrow> \<not> readable r"
proof -
  have many: "isl (map_res tlp_of_res ls) \<longleftrightarrow> \<not> set ls \<subseteq> set level_texts" for ls
    using map_res_isl[of tlp_of_res ls] by (auto simp: isl_def tlp_of_res_isl[unfolded isl_def])
  have some: "(\<exists>a. x = Inr a) \<longleftrightarrow> \<not> isl x" for x :: "(service_error, 'q) res"
    by (cases x) auto
  show ?thesis
    unfolding row_to_domain_def readable_def isl_bind
    by (cases "row_applies_to r"; cases "row_downgrade_to r")
      (auto simp: some isl_bind action_of_isl many tlp_of_res_isl split: if_splits)
qed

lemma row_to_domain_matches:
  assumes "row_to_domain r = Inr p"
  shows "(row_org_id r = org \<and> policy_matches p t kind now \<and> pol_action p = a) = governs org (action_value a) t kind now r"
proof -
  have ts: "(t \<in> set us) = (tlp_value t \<in> set ls)" if "map_res tlp_of_res ls = Inr us" for ls us
    using that
  proof (induction ls arbitrary: us)
    case (Cons l ls)
    then obtain u us' where us: "us = u # us'" "l = tlp_value u" "map_res tlp_of_res ls = Inr us'"
      by (auto simp: tlp_of_res_Inr)
    then show ?case using Cons.IH[OF us(3)] tlp_enum.vals_differ by auto
  qed simp
  have nil: "(us = []) = (ls = [])" if "map_res tlp_of_res ls = Inr us" for ls us
    using map_res_length[OF that] by auto
  have act: "(b = a) = (action_value b = action_value a)" for b
    using action_enum.vals_differ by blast
  have p: "row_action r = action_value (pol_action p)"
      "map_res tlp_of_res (case row_applies_to r of None \<Rightarrow> [] | Some xs \<Rightarrow> xs) = Inr (pol_applies_to p)"
      "pol_egress_kinds p = (case row_egress_kinds r of None \<Rightarrow> [] | Some xs \<Rightarrow> xs)"
      "pol_valid_until p = row_valid_until r"
    using assms by (auto simp: row_to_domain_def action_of_Inr)
  show ?thesis
    using ts[OF p(2)] nil[OF p(2)] p(1,3,4) act
    by (cases "row_applies_to r"; cases "row_egress_kinds r"; cases "row_valid_until r")
      (auto simp: governs_def policy_matches_def)
qed

lemma list_policies_Inl: "(\<exists>e. list_policies table org = Inl e) \<longleftrightarrow> list_ex (\<lambda>r. row_org_id r = org \<and> \<not> readable r) table"
  unfolding list_policies_def map_res_isl by (auto simp: readable_iff list_ex_iff)

lemma governed:
  "list_all2 (\<lambda>r p. row_to_domain r = Inr p) rs ps \<Longrightarrow> list_all (\<lambda>r. row_org_id r = org) rs \<Longrightarrow>
   (\<exists>p \<in> set ps. policy_matches p t kind now \<and> pol_action p = a) \<longleftrightarrow>
   (\<exists>r \<in> set rs. governs org (action_value a) t kind now r)"
proof (induction rs ps rule: list_all2_induct)
  case (Cons r rs p ps)
  then show ?case using row_to_domain_matches[of r p org t kind now a] by simp
qed simp

lemma matching_governs:
  assumes "list_policies table org = Inr ps"
  shows "matching_with a t kind ps now = {} \<longleftrightarrow> filter (governs org (action_value a) t kind now) table = []"
proof -
  let ?rows = "sort_key (\<lambda>r. - aware (row_created_at r)) (filter (\<lambda>r. row_org_id r = org) table)"
  have rows: "list_all2 (\<lambda>r p. row_to_domain r = Inr p) ?rows ps"
    using assms by (simp add: list_policies_def map_res_Inr)
  have "(\<exists>p \<in> set ps. policy_matches p t kind now \<and> pol_action p = a) \<longleftrightarrow>
      (\<exists>r \<in> set ?rows. governs org (action_value a) t kind now r)"
    using governed[OF rows, of org] by (simp add: list_all_iff)
  then show ?thesis by (auto simp: filter_empty_conv governs_def)
qed

text \<open>C8: The guard lets an egress pass exactly when some policy row of the organisation cannot be read,
  or no row of the organisation that governs the egress denies it and TLP:RED data is governed by
  an allow or a downgrade; and it passes when the lookup fails.  A row governs an egress when it
  is the organisation's, has not expired, and names the channel and the level or leaves them
  open.  The level is the one passed; a text is read without regard to case, an absent one is
  GREEN, and one that is no level is judged as TLP:RED.\<close>

theorem guard_passes_iff:
  "(fst (assert_org_policy_allows_egress (Some table) org arg kind now s) = Inr () \<longleftrightarrow>
     list_ex (\<lambda>r. row_org_id r = org \<and> \<not> readable r) table \<or>
     (filter (governs org ''deny'' (judged_level arg) kind now) table = [] \<and>
      \<not> (judged_level arg = RED \<and> filter (governs org ''allow'' RED kind now) table = [] \<and>
         filter (governs org ''downgrade_then_allow'' RED kind now) table = []))) \<and>
   assert_org_policy_allows_egress None org arg kind now s = (Inr (), s)"
proof
  show "fst (assert_org_policy_allows_egress (Some table) org arg kind now s) = Inr () \<longleftrightarrow>
     list_ex (\<lambda>r. row_org_id r = org \<and> \<not> readable r) table \<or>
     (filter (governs org ''deny'' (judged_level arg) kind now) table = [] \<and>
      \<not> (judged_level arg = RED \<and> filter (governs org ''allow'' RED kind now) table = [] \<and>
         filter (governs org ''downgrade_then_allow'' RED kind now) table = []))"
  proof (cases "list_policies table org")
    case (Inl e)
    then show ?thesis
      using list_policies_Inl[of table org] by (simp add: assert_org_policy_allows_egress_def service_evaluate_def)
  next
    case (Inr ps)
    have "\<not> list_ex (\<lambda>r. row_org_id r = org \<and> \<not> readable r) table" using list_policies_Inl[of table org] Inr by simp
    moreover have "fst (assert_org_policy_allows_egress (Some table) org arg kind now s) = Inr () \<longleftrightarrow>
        dec_allowed (evaluate_egress_policy (judged_level arg) kind ps now)"
      by (simp add: assert_org_policy_allows_egress_def service_evaluate_def Inr Let_def guard_coerce_level)
    moreover note allowed = eval_allowed_iff[of "judged_level arg" kind ps now]
    moreover have "matching_with DENY (judged_level arg) kind ps now = {} \<longleftrightarrow>
        filter (governs org ''deny'' (judged_level arg) kind now) table = []"
      using matching_governs[OF Inr, where a = DENY] by simp
    moreover have "matching_with ALLOW RED kind ps now = {} \<longleftrightarrow> filter (governs org ''allow'' RED kind now) table = []"
      using matching_governs[OF Inr, where a = ALLOW] by simp
    moreover have "matching_with DOWNGRADE_THEN_ALLOW RED kind ps now = {} \<longleftrightarrow>
        filter (governs org ''downgrade_then_allow'' RED kind now) table = []"
      using matching_governs[OF Inr, where a = DOWNGRADE_THEN_ALLOW] by simp
    ultimately show ?thesis by (cases "judged_level arg = RED") (simp_all only: Un_empty, simp_all)
  qed
qed (simp add: assert_org_policy_allows_egress_def service_evaluate_def)

text \<open>Organisations are isolated: evaluating for one reads only its own rows, and a
  deletion requested by one leaves the rows, and so the decisions, of every other as they were.\<close>

theorem policy_tenant_isolation:
  assumes "org' \<noteq> org" and "distinct (map row_id table)"
  shows "service_evaluate (Some (snd (delete_policy org pid table))) org' t kind now =
           service_evaluate (Some table) org' t kind now \<and>
         service_evaluate (Some (filter (\<lambda>r. row_org_id r = org') table)) org' t kind now =
           service_evaluate (Some table) org' t kind now"
  using list_policies_only_own_rows[OF delete_other_org[OF assms]]
  by (simp add: service_evaluate_def list_policies_def)

definition sample_row :: "string \<Rightarrow> string \<Rightarrow> policy_row" where
  "sample_row pid org = \<lparr> row_id = pid, row_org_id = org, row_action = ''deny'',
     row_egress_kinds = Some [''report_export''], row_applies_to = Some [''amber''],
     row_downgrade_to = None, row_approver_id = None, row_rationale = None,
     row_valid_until = None, row_created_by = None, row_created_at = Aware 5 \<rparr>"

lemma policy_tenant_isolation_witness:
  "service_evaluate (Some (snd (delete_policy ''a'' ''p1''
       [sample_row ''p1'' ''b'', sample_row ''p2'' ''a'']))) ''b'' AMBER ''report_export'' (Aware 9) =
   service_evaluate (Some [sample_row ''p1'' ''b'', sample_row ''p2'' ''a'']) ''b'' AMBER
     ''report_export'' (Aware 9)"
  using policy_tenant_isolation[of "''b''" "''a''" "[sample_row ''p1'' ''b'', sample_row ''p2'' ''a'']"]
  by (simp add: sample_row_def)

end
