(* ===== verification/PyFloat.thy ===== *)
theory PyFloat
  imports PyValue
begin

text \<open>
  Python's float: IEEE binary64 arithmetic on dyadic numbers with integer mantissa and
  exponent.  Every operation computes the exact rational result and rounds it once, to
  nearest with ties to even, as the hardware does; the remainder and floor division follow
  CPython's definition.  The shortest decimal text of a float is at the end.
\<close>

section \<open>Rounding a rational\<close>

fun bitlen :: "nat \<Rightarrow> nat" where
  "bitlen n = (if n = 0 then 0 else Suc (bitlen (n div 2)))"

declare bitlen.simps [simp del]

text \<open>Strip factors of two off the mantissa.\<close>

function norm_float :: "int \<Rightarrow> int \<Rightarrow> pyfloat" where
  "norm_float m e =
     (if m = 0 then Fin 0 0
      else if even m then norm_float (m div 2) (e + 1)
      else Fin m e)"
  by auto
termination
  by (relation "measure (\<lambda>(m, e). nat \<bar>m\<bar>)") (auto elim!: evenE)

declare norm_float.simps [simp del]

definition round_half_even :: "int \<Rightarrow> int \<Rightarrow> int" where
  "round_half_even n d =
     (let q = n div d; r = n mod d in
      if 2 * r > d \<or> (2 * r = d \<and> odd q) then q + 1 else q)"

definition pow2 :: "int \<Rightarrow> int" where
  "pow2 e = 2 ^ nat e"

text \<open>The float nearest to the rational n / d, for d positive.\<close>

definition round_ratio :: "int \<Rightarrow> int \<Rightarrow> pyfloat" where
  "round_ratio n d =
     (if n = 0 then Fin 0 0
      else
        let a = \<bar>n\<bar>;
            e0 = int (bitlen (nat a)) - int (bitlen (nat d));
            l = (if a * pow2 (- e0) \<ge> d * pow2 e0 then e0 else e0 - 1);
            e = max (l - 52) (- 1074);
            q = round_half_even (a * pow2 (- e)) (d * pow2 e)
        in if q = 0 then (if n < 0 then NegZero else Fin 0 0)
           else if e \<ge> 0 \<and> q * pow2 e \<ge> pow2 1024 then Inf (n < 0)
           else norm_float (if n < 0 then - q else q) e)"

text \<open>\<^term>\<open>Inf True\<close> is minus infinity.  The exact value of a finite float, as a ratio.\<close>

fun ratio :: "pyfloat \<Rightarrow> int \<times> int" where
  "ratio (Fin m e) = (m * pow2 e, pow2 (- e))"
| "ratio _ = (0, 1)"

fun negative :: "pyfloat \<Rightarrow> bool" where
  "negative (Fin m e) = (m < 0)"
| "negative NegZero = True"
| "negative (Inf s) = s"
| "negative NaN = False"

fun is_zero :: "pyfloat \<Rightarrow> bool" where
  "is_zero (Fin m e) = (m = 0)"
| "is_zero NegZero = True"
| "is_zero _ = False"

definition signed_zero :: "bool \<Rightarrow> pyfloat" where
  "signed_zero s = (if s then NegZero else Fin 0 0)"

section \<open>Arithmetic\<close>

fun fneg :: "pyfloat \<Rightarrow> pyfloat" where
  "fneg (Fin m e) = (if m = 0 then NegZero else Fin (- m) e)"
| "fneg NegZero = Fin 0 0"
| "fneg (Inf s) = Inf (\<not> s)"
| "fneg NaN = NaN"

fun fadd :: "pyfloat \<Rightarrow> pyfloat \<Rightarrow> pyfloat" where
  "fadd NaN y = NaN"
| "fadd x NaN = NaN"
| "fadd (Inf s) (Inf t) = (if s = t then Inf s else NaN)"
| "fadd (Inf s) y = Inf s"
| "fadd x (Inf t) = Inf t"
| "fadd NegZero NegZero = NegZero"
| "fadd x y = (case (ratio x, ratio y) of ((a, b), (c, d)) \<Rightarrow> round_ratio (a * d + c * b) (b * d))"

definition fsub :: "pyfloat \<Rightarrow> pyfloat \<Rightarrow> pyfloat" where
  "fsub x y = fadd x (fneg y)"

fun fmul :: "pyfloat \<Rightarrow> pyfloat \<Rightarrow> pyfloat" where
  "fmul NaN y = NaN"
| "fmul x NaN = NaN"
| "fmul (Inf s) y = (if is_zero y then NaN else Inf (s \<noteq> negative y))"
| "fmul x (Inf t) = (if is_zero x then NaN else Inf (negative x \<noteq> t))"
| "fmul x y =
     (if is_zero x \<or> is_zero y then signed_zero (negative x \<noteq> negative y)
      else case (ratio x, ratio y) of ((a, b), (c, d)) \<Rightarrow> round_ratio (a * c) (b * d))"

text \<open>Division by a zero raises in Python, so the divisor is not zero here.\<close>

fun fdiv :: "pyfloat \<Rightarrow> pyfloat \<Rightarrow> pyfloat" where
  "fdiv NaN y = NaN"
| "fdiv x NaN = NaN"
| "fdiv (Inf s) (Inf t) = NaN"
| "fdiv (Inf s) y = Inf (s \<noteq> negative y)"
| "fdiv x (Inf t) = signed_zero (negative x \<noteq> t)"
| "fdiv x y =
     (if is_zero x then signed_zero (negative x \<noteq> negative y)
      else case (ratio x, ratio y) of ((a, b), (c, d)) \<Rightarrow>
        round_ratio (sgn c * (a * d)) (b * \<bar>c\<bar>))"

text \<open>C's fmod: the exact remainder, with the sign of the dividend.\<close>

fun c_fmod :: "pyfloat \<Rightarrow> pyfloat \<Rightarrow> pyfloat" where
  "c_fmod NaN y = NaN"
| "c_fmod x NaN = NaN"
| "c_fmod (Inf s) y = NaN"
| "c_fmod x (Inf t) = x"
| "c_fmod x y =
     (case (ratio x, ratio y) of ((a, b), (c, d)) \<Rightarrow>
        let r = (\<bar>a\<bar> * d) mod (\<bar>c\<bar> * b) in
        if r = 0 then signed_zero (negative x) else round_ratio (sgn a * r) (b * d))"

definition py_float_mod :: "pyfloat \<Rightarrow> pyfloat \<Rightarrow> pyfloat" where
  "py_float_mod v w =
     (let m = c_fmod v w in
      if \<not> is_zero m then (if negative w \<noteq> negative m \<and> m \<noteq> NaN \<and> w \<noteq> NaN then fadd m w else m)
      else signed_zero (negative w))"

fun ffloor :: "pyfloat \<Rightarrow> pyfloat" where
  "ffloor (Fin m e) = (if m = 0 then Fin 0 0 else
     let q = (m * pow2 e) div pow2 (- e) in if q = 0 then Fin 0 0 else norm_float q 0)"
| "ffloor x = x"

text \<open>Exact comparison, False with a NaN.\<close>

fun fless :: "pyfloat \<Rightarrow> pyfloat \<Rightarrow> bool" where
  "fless NaN y = False"
| "fless x NaN = False"
| "fless (Inf s) (Inf t) = (s \<and> \<not> t)"
| "fless (Inf s) y = s"
| "fless x (Inf t) = (\<not> t)"
| "fless x y = (case (ratio x, ratio y) of ((a, b), (c, d)) \<Rightarrow> a * d < c * b)"

definition feq :: "pyfloat \<Rightarrow> pyfloat \<Rightarrow> bool" where
  "feq x y = (x \<noteq> NaN \<and> (x = y \<or> is_zero x \<and> is_zero y))"

definition py_float_floordiv :: "pyfloat \<Rightarrow> pyfloat \<Rightarrow> pyfloat" where
  "py_float_floordiv v w =
     (let m = c_fmod v w;
          q = fdiv (fsub v m) w;
          q' = (if \<not> is_zero m \<and> m \<noteq> NaN \<and> w \<noteq> NaN \<and> negative w \<noteq> negative m then fsub q (Fin 1 0) else q)
      in if is_zero q' then signed_zero (negative (fdiv v w))
         else let f = ffloor q' in
              if fless (Fin 1 (- 1)) (fsub q' f) then fadd f (Fin 1 0) else f)"

text \<open>An int as a float: None where Python raises OverflowError.\<close>

definition float_of_int :: "int \<Rightarrow> pyfloat option" where
  "float_of_int n = (case round_ratio n 1 of Inf s \<Rightarrow> None | f \<Rightarrow> Some f)"

text \<open>True division of ints: correctly rounded, None on overflow; the divisor is not zero.\<close>

definition int_truediv :: "int \<Rightarrow> int \<Rightarrow> pyfloat option" where
  "int_truediv a b =
     (if a = 0 then Some (Fin 0 0)
      else case round_ratio (sgn b * a) \<bar>b\<bar> of Inf s \<Rightarrow> None | f \<Rightarrow> Some f)"

text \<open>Exact comparison of an int with a float.\<close>

fun int_less_float :: "int \<Rightarrow> pyfloat \<Rightarrow> bool" where
  "int_less_float n (Fin m e) = (n * pow2 (- e) < m * pow2 e)"
| "int_less_float n NegZero = (n < 0)"
| "int_less_float n (Inf s) = (\<not> s)"
| "int_less_float n NaN = False"

fun float_less_int :: "pyfloat \<Rightarrow> int \<Rightarrow> bool" where
  "float_less_int (Fin m e) n = (m * pow2 e < n * pow2 (- e))"
| "float_less_int NegZero n = (0 < n)"
| "float_less_int (Inf s) n = s"
| "float_less_int NaN n = False"

fun int_eq_float :: "int \<Rightarrow> pyfloat \<Rightarrow> bool" where
  "int_eq_float n (Fin m e) = (n * pow2 (- e) = m * pow2 e)"
| "int_eq_float n NegZero = (n = 0)"
| "int_eq_float n _ = False"

section \<open>Shortest decimal text\<close>

definition digit_char :: "nat \<Rightarrow> char" where
  "digit_char d = char_of (48 + d)"

function nat_digits :: "nat \<Rightarrow> string" where
  "nat_digits n =
     (if n < 10 then [digit_char n] else nat_digits (n div 10) @ [digit_char (n mod 10)])"
  by auto
termination by (relation "measure id") auto

declare nat_digits.simps [simp del]

definition int_str :: "int \<Rightarrow> string" where
  "int_str i = (if i < 0 then ''-'' @ nat_digits (nat (- i)) else nat_digits (nat i))"

text \<open>\<^term>\<open>dec_exp a b\<close> is the power p of ten with 10^(p-1) at most a/b and a/b below 10^p.\<close>

definition dec_exp :: "int \<Rightarrow> int \<Rightarrow> int" where
  "dec_exp a b =
     (let p0 = int (length (nat_digits (nat a))) - int (length (nat_digits (nat b))) in
      if a * 10 ^ nat (- p0) \<ge> b * 10 ^ nat p0 then p0 + 1 else p0)"

text \<open>The n-digit decimals below and above a/b (scaled integers), nearest first.\<close>

definition dec_candidates :: "int \<Rightarrow> int \<Rightarrow> int \<Rightarrow> nat \<Rightarrow> int list" where
  "dec_candidates a b p n =
     (let k = int n - p;
          num = a * 10 ^ nat k; den = b * 10 ^ nat (- k);
          q = num div den
      in if 2 * (num mod den) < den \<or> (2 * (num mod den) = den \<and> even q) then [q, q + 1] else [q + 1, q])"

definition dec_value :: "int \<Rightarrow> int \<Rightarrow> nat \<Rightarrow> pyfloat" where
  "dec_value q p n = (let k = int n - p in round_ratio (q * 10 ^ nat (- k)) (10 ^ nat k))"

fun shortest :: "pyfloat \<Rightarrow> int \<Rightarrow> int \<Rightarrow> int \<Rightarrow> nat \<Rightarrow> nat \<Rightarrow> int \<times> nat" where
  "shortest f a b p n 0 = (hd (dec_candidates a b p n), n)"
| "shortest f a b p n (Suc k) =
     (case find (\<lambda>q. dec_value q p n = f) (dec_candidates a b p n) of
        Some q \<Rightarrow> (q, n)
      | None \<Rightarrow> shortest f a b p (Suc n) k)"

definition strip_zeros :: "string \<Rightarrow> string" where
  "strip_zeros s = rev (dropWhile (\<lambda>c. c = CHR ''0'') (rev s))"

definition exp_text :: "int \<Rightarrow> string" where
  "exp_text e = (if e < 0 then ''e-'' else ''e+'') @
     (if \<bar>e\<bar> < 10 then ''0'' else []) @ nat_digits (nat \<bar>e\<bar>)"

text \<open>
  The digits (without trailing zeros) and the decimal point position decide between
  positional and exponent notation, as repr does.
\<close>

definition layout :: "string \<Rightarrow> int \<Rightarrow> string" where
  "layout ds pt =
     (let n = int (length ds) in
      if - 4 < pt \<and> pt \<le> 16 then
        (if pt \<le> 0 then ''0.'' @ replicate (nat (- pt)) CHR ''0'' @ ds
         else if n \<le> pt then ds @ replicate (nat (pt - n)) CHR ''0'' @ ''.0''
         else take (nat pt) ds @ ''.'' @ drop (nat pt) ds)
      else take 1 ds @ (if n > 1 then ''.'' @ drop 1 ds else []) @ exp_text (pt - 1))"

fun float_repr :: "pyfloat \<Rightarrow> string" where
  "float_repr (Fin m e) =
     (if m = 0 then ''0.0''
      else let a = \<bar>m\<bar> * pow2 e; b = pow2 (- e); p = dec_exp a b;
               r = shortest (Fin \<bar>m\<bar> e) a b p 1 17;
               ds = nat_digits (nat (fst r));
               pt = p + (int (length ds) - int (snd r))
           in (if m < 0 then ''-'' else []) @ layout (strip_zeros ds) pt)"
| "float_repr NegZero = ''-0.0''"
| "float_repr (Inf s) = (if s then ''-inf'' else ''inf'')"
| "float_repr NaN = ''nan''"

end
