(* ===== verification/PyRuntime.thy ===== *)
theory PyRuntime
  imports PyFloat
begin

text \<open>
  The operations of Python's built-in values that the engine relies on: truth, equality,
  ordering, hashing, indexing, membership, arithmetic, len/min/max, \<^verbatim>\<open>str\<close> and \<^verbatim>\<open>repr\<close>,
  and \<^verbatim>\<open>dict(x)\<close>.  An operation that raises returns the exception as \<^term>\<open>Inl\<close>.
\<close>

datatype py_exn = TypeErr | ValueErr | KeyErr | IndexErr | ZeroDivErr | OverflowErr

fun py_truth :: "pyval \<Rightarrow> bool" where
  "py_truth PNone = False"
| "py_truth (PBool b) = b"
| "py_truth (PInt i) = (i \<noteq> 0)"
| "py_truth (PFloat f) = (\<not> is_zero f)"
| "py_truth (PStr s) = (s \<noteq> [])"
| "py_truth (PList xs) = (xs \<noteq> [])"
| "py_truth (PTuple xs) = (xs \<noteq> [])"
| "py_truth (PDict d) = (d \<noteq> [])"

text \<open>The numeric tower: a bool is an int.\<close>

datatype num = NInt int | NFloat pyfloat

fun num_of :: "pyval \<Rightarrow> num option" where
  "num_of (PBool b) = Some (NInt (if b then 1 else 0))"
| "num_of (PInt i) = Some (NInt i)"
| "num_of (PFloat f) = Some (NFloat f)"
| "num_of _ = None"

fun num_eq :: "num \<Rightarrow> num \<Rightarrow> bool" where
  "num_eq (NInt a) (NInt b) = (a = b)"
| "num_eq (NInt a) (NFloat f) = int_eq_float a f"
| "num_eq (NFloat f) (NInt a) = int_eq_float a f"
| "num_eq (NFloat f) (NFloat g) = feq f g"

fun num_less :: "num \<Rightarrow> num \<Rightarrow> bool" where
  "num_less (NInt a) (NInt b) = (a < b)"
| "num_less (NInt a) (NFloat f) = int_less_float a f"
| "num_less (NFloat f) (NInt a) = float_less_int f a"
| "num_less (NFloat f) (NFloat g) = fless f g"

section \<open>Equality\<close>

text \<open>Two dicts are equal when they have as many items and every item of one is in the other.\<close>

function py_eq :: "pyval \<Rightarrow> pyval \<Rightarrow> bool" where
  "py_eq a b =
     (case num_of a of
        Some x \<Rightarrow> (case num_of b of Some y \<Rightarrow> num_eq x y | None \<Rightarrow> False)
      | None \<Rightarrow>
        (case a of
           PNone \<Rightarrow> b = PNone
         | PStr s \<Rightarrow> b = PStr s
         | PList xs \<Rightarrow> (case b of PList ys \<Rightarrow> length xs = length ys \<and>
               list_all (\<lambda>p. py_eq (fst p) (snd p)) (zip xs ys) | _ \<Rightarrow> False)
         | PTuple xs \<Rightarrow> (case b of PTuple ys \<Rightarrow> length xs = length ys \<and>
               list_all (\<lambda>p. py_eq (fst p) (snd p)) (zip xs ys) | _ \<Rightarrow> False)
         | PDict d \<Rightarrow> (case b of PDict e \<Rightarrow> length d = length e \<and>
               list_all (\<lambda>kv. list_ex (\<lambda>kw. py_eq (fst kv) (fst kw) \<and> py_eq (snd kv) (snd kw)) e) d
             | _ \<Rightarrow> False)
         | _ \<Rightarrow> False))"
  by auto

lemma size_key: "kv \<in> set d \<Longrightarrow> size (fst kv) < size (PDict d) \<and> size (snd kv) < size (PDict d)"
  by (induction d) auto

lemma size_zip_fst: "p \<in> set (zip xs ys) \<Longrightarrow> size (fst p) < Suc (size_list size (xs :: pyval list))"
  using children_size[of "fst p" "PList xs"] by (cases p) (auto dest: set_zip_leftD)

termination py_eq
  using size_key size_zip_fst
  by (relation "measure (size \<circ> fst)") (auto, fastforce+)

declare py_eq.simps [simp del]

fun hashable :: "pyval \<Rightarrow> bool" where
  "hashable (PList xs) = False"
| "hashable (PDict d) = False"
| "hashable (PTuple xs) = list_all hashable xs"
| "hashable _ = True"

text \<open>Dict lookup by key equality.\<close>

definition dget :: "(pyval \<times> pyval) list \<Rightarrow> pyval \<Rightarrow> pyval option" where
  "dget d k = map_option snd (find (\<lambda>kv. py_eq (fst kv) k) d)"

definition dset :: "(pyval \<times> pyval) list \<Rightarrow> pyval \<Rightarrow> pyval \<Rightarrow> (pyval \<times> pyval) list" where
  "dset d k v =
     (if dget d k = None then d @ [(k, v)]
      else map (\<lambda>kv. if py_eq (fst kv) k then (fst kv, v) else kv) d)"

section \<open>Ordering\<close>

datatype ordop = OLt | OLe | OGe | OGt

fun ord_on :: "ordop \<Rightarrow> bool \<Rightarrow> bool \<Rightarrow> bool \<Rightarrow> bool" where
  "ord_on OLt l e g = l"
| "ord_on OLe l e g = (l \<or> e)"
| "ord_on OGe l e g = (g \<or> e)"
| "ord_on OGt l e g = g"

definition ord_int :: "ordop \<Rightarrow> int \<Rightarrow> int \<Rightarrow> bool" where
  "ord_int r a b = ord_on r (a < b) (a = b) (b < a)"

fun str_less :: "string \<Rightarrow> string \<Rightarrow> bool" where
  "str_less [] t = (t \<noteq> [])"
| "str_less (c # s) [] = False"
| "str_less (c # s) (d # t) =
     ((of_char c :: nat) < of_char d \<or> (c = d \<and> str_less s t))"

text \<open>Sequences compare at the first position where they differ, else by length.\<close>

fun py_ord :: "ordop \<Rightarrow> pyval \<Rightarrow> pyval \<Rightarrow> (py_exn, bool) res"
and seq_ord :: "ordop \<Rightarrow> pyval list \<Rightarrow> pyval list \<Rightarrow> (py_exn, bool) res" where
  "py_ord r (PList xs) (PList ys) = seq_ord r xs ys"
| "py_ord r (PTuple xs) (PTuple ys) = seq_ord r xs ys"
| "py_ord r (PStr s) (PStr t) = Inr (ord_on r (str_less s t) (s = t) (str_less t s))"
| "py_ord r a b =
     (case (num_of a, num_of b) of
        (Some x, Some y) \<Rightarrow> Inr (ord_on r (num_less x y) (num_eq x y) (num_less y x))
      | _ \<Rightarrow> Inl TypeErr)"
| "seq_ord r (x # xs) (y # ys) = (if py_eq x y then seq_ord r xs ys else py_ord r x y)"
| "seq_ord r xs ys = Inr (ord_int r (int (length xs)) (int (length ys)))"

section \<open>Indexing and membership\<close>

fun index_of :: "pyval \<Rightarrow> int option" where
  "index_of (PInt i) = Some i"
| "index_of (PBool b) = Some (if b then 1 else 0)"
| "index_of _ = None"

definition seq_item :: "'a list \<Rightarrow> pyval \<Rightarrow> (py_exn, 'a) res" where
  "seq_item xs k =
     (case index_of k of
        None \<Rightarrow> Inl TypeErr
      | Some i \<Rightarrow>
          (let n = int (length xs); j = (if i < 0 then i + n else i) in
           if 0 \<le> j \<and> j < n then Inr (xs ! nat j) else Inl IndexErr))"

fun py_getitem :: "pyval \<Rightarrow> pyval \<Rightarrow> (py_exn, pyval) res" where
  "py_getitem (PDict d) k =
     (if \<not> hashable k then Inl TypeErr
      else case dget d k of None \<Rightarrow> Inl KeyErr | Some v \<Rightarrow> Inr v)"
| "py_getitem (PList xs) k = seq_item xs k"
| "py_getitem (PTuple xs) k = seq_item xs k"
| "py_getitem (PStr s) k = bind_res (seq_item s k) (\<lambda>c. Inr (PStr [c]))"
| "py_getitem v k = Inl TypeErr"

text \<open>\<^verbatim>\<open>a in b\<close>.\<close>

fun py_contains :: "pyval \<Rightarrow> pyval \<Rightarrow> (py_exn, bool) res" where
  "py_contains a (PStr t) = (case a of PStr s \<Rightarrow> Inr (substring s t) | _ \<Rightarrow> Inl TypeErr)"
| "py_contains a (PList xs) = Inr (list_ex (\<lambda>x. py_eq x a) xs)"
| "py_contains a (PTuple xs) = Inr (list_ex (\<lambda>x. py_eq x a) xs)"
| "py_contains a (PDict d) = (if hashable a then Inr (dget d a \<noteq> None) else Inl TypeErr)"
| "py_contains a b = Inl TypeErr"

section \<open>Arithmetic\<close>

datatype arith = Add | Sub | Mult | Div | FloorDiv | Mod

definition to_float :: "num \<Rightarrow> (py_exn, pyfloat) res" where
  "to_float x = (case x of
     NFloat f \<Rightarrow> Inr f
   | NInt i \<Rightarrow> (case float_of_int i of None \<Rightarrow> Inl OverflowErr | Some f \<Rightarrow> Inr f))"

fun int_arith :: "arith \<Rightarrow> int \<Rightarrow> int \<Rightarrow> (py_exn, pyval) res" where
  "int_arith Add a b = Inr (PInt (a + b))"
| "int_arith Sub a b = Inr (PInt (a - b))"
| "int_arith Mult a b = Inr (PInt (a * b))"
| "int_arith Div a b =
     (if b = 0 then Inl ZeroDivErr
      else case int_truediv a b of None \<Rightarrow> Inl OverflowErr | Some f \<Rightarrow> Inr (PFloat f))"
| "int_arith FloorDiv a b = (if b = 0 then Inl ZeroDivErr else Inr (PInt (a div b)))"
| "int_arith Mod a b = (if b = 0 then Inl ZeroDivErr else Inr (PInt (a mod b)))"

fun float_arith :: "arith \<Rightarrow> pyfloat \<Rightarrow> pyfloat \<Rightarrow> (py_exn, pyval) res" where
  "float_arith Add x y = Inr (PFloat (fadd x y))"
| "float_arith Sub x y = Inr (PFloat (fsub x y))"
| "float_arith Mult x y = Inr (PFloat (fmul x y))"
| "float_arith Div x y = (if is_zero y then Inl ZeroDivErr else Inr (PFloat (fdiv x y)))"
| "float_arith FloorDiv x y =
     (if is_zero y then Inl ZeroDivErr else Inr (PFloat (py_float_floordiv x y)))"
| "float_arith Mod x y = (if is_zero y then Inl ZeroDivErr else Inr (PFloat (py_float_mod x y)))"

fun num_arith :: "arith \<Rightarrow> num \<Rightarrow> num \<Rightarrow> (py_exn, pyval) res" where
  "num_arith r (NInt a) (NInt b) = int_arith r a b"
| "num_arith r x y =
     bind_res (to_float x) (\<lambda>f. bind_res (to_float y) (\<lambda>g. float_arith r f g))"

text \<open>
  The binary operators on values.  Repetition of a sequence and printf formatting are not
  among the results: the caller refuses those operands before it gets here.
\<close>

fun py_arith :: "arith \<Rightarrow> pyval \<Rightarrow> pyval \<Rightarrow> (py_exn, pyval) res" where
  "py_arith Add (PStr s) (PStr t) = Inr (PStr (s @ t))"
| "py_arith Add (PList xs) (PList ys) = Inr (PList (xs @ ys))"
| "py_arith Add (PTuple xs) (PTuple ys) = Inr (PTuple (xs @ ys))"
| "py_arith r a b =
     (case (num_of a, num_of b) of
        (Some x, Some y) \<Rightarrow> num_arith r x y
      | _ \<Rightarrow> Inl TypeErr)"

fun py_neg :: "pyval \<Rightarrow> (py_exn, pyval) res" where
  "py_neg v = (case num_of v of
     None \<Rightarrow> Inl TypeErr | Some (NInt i) \<Rightarrow> Inr (PInt (- i)) | Some (NFloat f) \<Rightarrow> Inr (PFloat (fneg f)))"

fun py_pos :: "pyval \<Rightarrow> (py_exn, pyval) res" where
  "py_pos v = (case num_of v of
     None \<Rightarrow> Inl TypeErr | Some (NInt i) \<Rightarrow> Inr (PInt i) | Some (NFloat f) \<Rightarrow> Inr (PFloat f))"

section \<open>Built-in functions\<close>

fun py_iter :: "pyval \<Rightarrow> (py_exn, pyval list) res" where
  "py_iter (PList xs) = Inr xs"
| "py_iter (PTuple xs) = Inr xs"
| "py_iter (PStr s) = Inr (map (\<lambda>c. PStr [c]) s)"
| "py_iter (PDict d) = Inr (map fst d)"
| "py_iter v = Inl TypeErr"

fun py_len :: "pyval \<Rightarrow> (py_exn, nat) res" where
  "py_len (PList xs) = Inr (length xs)"
| "py_len (PTuple xs) = Inr (length xs)"
| "py_len (PStr s) = Inr (length s)"
| "py_len (PDict d) = Inr (length d)"
| "py_len v = Inl TypeErr"

text \<open>The fold of min (OLt) and max (OGt): a later item replaces the best when it compares.\<close>

fun best_of :: "ordop \<Rightarrow> pyval \<Rightarrow> pyval list \<Rightarrow> (py_exn, pyval) res" where
  "best_of r b [] = Inr b"
| "best_of r b (x # xs) = bind_res (py_ord r x b) (\<lambda>c. best_of r (if c then x else b) xs)"

definition py_minmax :: "ordop \<Rightarrow> pyval list \<Rightarrow> (py_exn, pyval) res" where
  "py_minmax r args =
     (case args of
        [] \<Rightarrow> Inl TypeErr
      | [v] \<Rightarrow> bind_res (py_iter v) (\<lambda>xs. case xs of [] \<Rightarrow> Inl ValueErr | y # ys \<Rightarrow> best_of r y ys)
      | y # ys \<Rightarrow> best_of r y ys)"

section \<open>Text\<close>

text \<open>Conversion of an int with more than 4300 digits raises ValueError.\<close>

definition int_max_str_digits :: nat where
  "int_max_str_digits = 4300"

definition int_text :: "int \<Rightarrow> (py_exn, string) res" where
  "int_text i = (if \<bar>i\<bar> < 10 ^ int_max_str_digits then Inr (int_str i) else Inl ValueErr)"

definition hex_digit :: "nat \<Rightarrow> char" where
  "hex_digit n = (if n < 10 then char_of (48 + n) else char_of (87 + n))"

definition repr_char :: "char \<Rightarrow> char \<Rightarrow> string" where
  "repr_char q c =
     (let n = (of_char c :: nat) in
      if c = q \<or> c = CHR 92 then [CHR 92, c]
      else if n = 9 then [CHR 92, CHR ''t'']
      else if n = 10 then [CHR 92, CHR ''n'']
      else if n = 13 then [CHR 92, CHR ''r'']
      else if n < 32 \<or> (127 \<le> n \<and> n \<le> 160) \<or> n = 173
        then [CHR 92, CHR ''x'', hex_digit (n div 16), hex_digit (n mod 16)]
      else [c])"

definition str_repr :: "string \<Rightarrow> string" where
  "str_repr s =
     (let q = (if CHR 39 \<in> set s \<and> CHR 34 \<notin> set s then CHR 34 else CHR 39) in
      [q] @ concat (map (repr_char q) s) @ [q])"

fun join_text :: "string \<Rightarrow> string list \<Rightarrow> string" where
  "join_text sep [] = []"
| "join_text sep [s] = s"
| "join_text sep (s # t # ss) = s @ sep @ join_text sep (t # ss)"

fun py_repr :: "pyval \<Rightarrow> (py_exn, string) res" where
  "py_repr PNone = Inr ''None''"
| "py_repr (PBool b) = Inr (if b then ''True'' else ''False'')"
| "py_repr (PInt i) = int_text i"
| "py_repr (PFloat f) = Inr (float_repr f)"
| "py_repr (PStr s) = Inr (str_repr s)"
| "py_repr (PList xs) =
     bind_res (map_res py_repr xs) (\<lambda>ts. Inr (''['' @ join_text '', '' ts @ '']''))"
| "py_repr (PTuple xs) =
     bind_res (map_res py_repr xs) (\<lambda>ts.
       Inr (''('' @ join_text '', '' ts @ (if length xs = 1 then '',)'' else '')'')))"
| "py_repr (PDict d) =
     bind_res (map_res (\<lambda>kv. bind_res (py_repr (fst kv)) (\<lambda>a.
        bind_res (py_repr (snd kv)) (\<lambda>b. Inr (a @ '': '' @ b)))) d) (\<lambda>ts.
       Inr (CHR ''{'' # join_text '', '' ts @ ''}''))"

definition py_str :: "pyval \<Rightarrow> (py_exn, string) res" where
  "py_str v = (case v of PStr s \<Rightarrow> Inr s | _ \<Rightarrow> py_repr v)"

section \<open>Building dicts\<close>

text \<open>\<^verbatim>\<open>dict(x)\<close>: a copy of a mapping, or the pairs an iterable yields.\<close>

fun dict_of_pairs :: "pyval list \<Rightarrow> (pyval \<times> pyval) list \<Rightarrow> (py_exn, (pyval \<times> pyval) list) res" where
  "dict_of_pairs [] d = Inr d"
| "dict_of_pairs (x # xs) d =
     bind_res (py_iter x) (\<lambda>kv.
       case kv of
         [k, v] \<Rightarrow> if hashable k then dict_of_pairs xs (dset d k v) else Inl TypeErr
       | _ \<Rightarrow> Inl ValueErr)"

fun py_dict :: "pyval \<Rightarrow> (py_exn, (pyval \<times> pyval) list) res" where
  "py_dict (PDict d) = Inr d"
| "py_dict v = bind_res (py_iter v) (\<lambda>xs. dict_of_pairs xs [])"

section \<open>Lemmas\<close>

lemma num_of_PStr [simp]: "num_of (PStr s) = None"
  by simp

lemma py_eq_PStr [simp]: "py_eq v (PStr s) \<longleftrightarrow> v = PStr s"
  by (subst py_eq.simps) (cases v; auto)

lemma py_eq_PStr_left [simp]: "py_eq (PStr s) v \<longleftrightarrow> v = PStr s"
  by (subst py_eq.simps) (auto split: option.splits)

lemma py_eq_PNone [simp]: "py_eq v PNone \<longleftrightarrow> v = PNone"
  by (subst py_eq.simps) (cases v; simp)

lemma dget_PStr: "dget d (PStr s) = get_str d s"
  by (induction d) (auto simp: dget_def)

lemma dget_Nil [simp]: "dget [] k = None"
  by (simp add: dget_def)

lemma py_arith_errors:
  "py_arith r a b = Inl e \<Longrightarrow> e = TypeErr \<or> e = ZeroDivErr \<or> e = OverflowErr"
proof -
  have int: "int_arith r x y = Inl e \<Longrightarrow> e = ZeroDivErr \<or> e = OverflowErr" for x y
    by (cases r) (auto split: if_splits option.splits)
  have flt: "float_arith r x y = Inl e \<Longrightarrow> e = ZeroDivErr" for x y
    by (cases r) (auto split: if_splits)
  have tof: "to_float x = Inl e \<Longrightarrow> e = OverflowErr" for x
    by (auto simp: to_float_def split: num.splits option.splits)
  have num: "num_arith r x y = Inl e \<Longrightarrow> e = ZeroDivErr \<or> e = OverflowErr" for x y
    by (cases x; cases y) (auto elim!: bind_res_InlE dest: int flt tof)
  show "py_arith r a b = Inl e \<Longrightarrow> e = TypeErr \<or> e = ZeroDivErr \<or> e = OverflowErr"
    using num by (induction r a b rule: py_arith.induct)
      (auto split: option.splits simp del: num_arith.simps)
qed

lemma py_ord_errors:
  shows "py_ord r a b = Inl e \<Longrightarrow> e = TypeErr"
    and "seq_ord r xs ys = Inl e \<Longrightarrow> e = TypeErr"
  by (induction r a b and r xs ys rule: py_ord_seq_ord.induct)
     (auto split: option.splits if_splits)

lemma py_contains_errors: "py_contains a b = Inl e \<Longrightarrow> e = TypeErr"
  by (cases b) (auto split: pyval.splits if_splits)

lemma py_getitem_errors:
  "py_getitem v k = Inl e \<Longrightarrow> e = TypeErr \<or> e = KeyErr \<or> e = IndexErr"
  by (cases v) (auto simp: seq_item_def Let_def bind_res_eq_Inl split: option.splits if_splits)

lemma best_of_errors: "best_of r b xs = Inl e \<Longrightarrow> e = TypeErr"
  by (induction r b xs rule: best_of.induct) (auto simp: bind_res_eq_Inl dest: py_ord_errors)

lemma py_iter_errors: "py_iter v = Inl e \<Longrightarrow> e = TypeErr"
  by (cases v) auto

lemma py_len_errors: "py_len v = Inl e \<Longrightarrow> e = TypeErr"
  by (cases v) auto

lemma py_minmax_errors: "py_minmax r args = Inl e \<Longrightarrow> e = TypeErr \<or> e = ValueErr"
  unfolding py_minmax_def
  by (auto split: list.splits elim!: bind_res_InlE dest: best_of_errors py_iter_errors
      simp del: best_of.simps)

end
