(* ===== verification/PromptFence.thy ===== *)
theory PromptFence
  imports PyRuntime
begin

text \<open>
  The prompt fence of shared/btagent_shared/prompt_fence.py: embedded fence tags in untrusted
  text are escaped before the text is wrapped.  The regular expression is written out as a
  matcher at a position; the substitution scans left to right, as \<^verbatim>\<open>re.sub\<close> does.
\<close>

definition ws_char :: "char \<Rightarrow> bool" where
  "ws_char c = (let n = (of_char c :: nat) in
     (9 \<le> n \<and> n \<le> 13) \<or> (28 \<le> n \<and> n \<le> 32) \<or> n = 133 \<or> n = 160)"

text \<open>Word characters of the pattern: letters, digits, underscore (Latin-1 included).\<close>

definition word_char :: "char \<Rightarrow> bool" where
  "word_char c = (let n = (of_char c :: nat) in
     (48 \<le> n \<and> n \<le> 57) \<or> (65 \<le> n \<and> n \<le> 90) \<or> n = 95 \<or> (97 \<le> n \<and> n \<le> 122) \<or>
     n \<in> {170, 178, 179, 181, 185, 186, 188, 189, 190} \<or>
     (192 \<le> n \<and> n \<noteq> 215 \<and> n \<noteq> 247))"

definition tag_names :: "string list" where
  "tag_names = [''external-data'', ''agent-memory'', ''knowledge-context'']"

definition skip_ws :: "string \<Rightarrow> string" where
  "skip_ws s = dropWhile ws_char s"

text \<open>The rest of the text after a name, matched without regard to case.\<close>

fun eat_name :: "string \<Rightarrow> string \<Rightarrow> string option" where
  "eat_name [] s = Some s"
| "eat_name (c # name) [] = None"
| "eat_name (c # name) (d # s) = (if lower_char d = c then eat_name name s else None)"

text \<open>The name must end at a word boundary.\<close>

definition boundary :: "string \<Rightarrow> bool" where
  "boundary s = (case s of [] \<Rightarrow> True | c # _ \<Rightarrow> \<not> word_char c)"

definition eat_tag :: "string \<Rightarrow> string \<Rightarrow> string option" where
  "eat_tag s name = (case eat_name name s of
     Some r \<Rightarrow> if boundary r then Some r else None | None \<Rightarrow> None)"

definition eat_slash :: "string \<Rightarrow> string" where
  "eat_slash s = (case s of [] \<Rightarrow> [] | c # r \<Rightarrow> if c = CHR ''/'' then r else s)"

text \<open>After the opening bracket: the text behind the tag name, if a tag name is there.\<close>

definition tag_head :: "string \<Rightarrow> string option" where
  "tag_head s = (let t = skip_ws (eat_slash (skip_ws s)) in
     find (\<lambda>_. True) (List.map_filter (eat_tag t) tag_names))"

text \<open>The matched text and the text after it, for a match at the head of the string.\<close>

definition match_sentinel :: "string \<Rightarrow> (string \<times> string) option" where
  "match_sentinel s =
     (case s of
        [] \<Rightarrow> None
      | c # t \<Rightarrow>
          if c = CHR ''<'' then
            (case tag_head t of
               None \<Rightarrow> None
             | Some r \<Rightarrow>
                 (case dropWhile (\<lambda>d. d \<noteq> CHR ''>'') r of
                    [] \<Rightarrow> None
                  | _ # rest \<Rightarrow> Some (take (length s - length rest) s, rest)))
          else None)"

definition escape_brackets :: "string \<Rightarrow> string" where
  "escape_brackets s = concat (map (\<lambda>c.
     if c = CHR ''<'' then ''&lt;'' else if c = CHR ''>'' then ''&gt;'' else [c]) s)"

lemma eat_name_length: "eat_name n s = Some r \<Longrightarrow> length r \<le> length s"
  by (induction n s rule: eat_name.induct) (auto split: if_splits)

lemma skip_ws_length: "length (skip_ws s) \<le> length s"
  by (simp add: skip_ws_def length_dropWhile_le)

lemma eat_slash_length: "length (eat_slash s) \<le> length s"
  by (simp add: eat_slash_def split: list.split)

lemma tag_head_length: "tag_head s = Some r \<Longrightarrow> length r \<le> length s"
proof -
  assume "tag_head s = Some r"
  then obtain name where "eat_tag (skip_ws (eat_slash (skip_ws s))) name = Some r"
    by (auto simp: tag_head_def Let_def List.map_filter_def dest!: find_SomeD)
  then show ?thesis
    using eat_name_length skip_ws_length eat_slash_length
    by (auto simp: eat_tag_def split: option.splits if_splits) (meson le_trans)
qed

lemma match_sentinel_length: "match_sentinel s = Some (m, rest) \<Longrightarrow> length rest < length s"
proof -
  assume "match_sentinel s = Some (m, rest)"
  then obtain c t r d where s: "s = c # t" "tag_head t = Some r"
      "dropWhile (\<lambda>d. d \<noteq> CHR ''>'') r = d # rest"
    by (auto simp: match_sentinel_def split: list.splits if_splits option.splits)
  then have "length (d # rest) \<le> length r" by (metis length_dropWhile_le)
  then show ?thesis using tag_head_length[OF s(2)] s(1) by simp
qed

function neutralize_sentinels :: "string \<Rightarrow> string" where
  "neutralize_sentinels s =
     (case match_sentinel s of
        Some (m, rest) \<Rightarrow> escape_brackets m @ neutralize_sentinels rest
      | None \<Rightarrow> (case s of [] \<Rightarrow> [] | c # t \<Rightarrow> c # neutralize_sentinels t))"
  by auto
termination
  by (relation "measure length") (auto dest: match_sentinel_length)

declare neutralize_sentinels.simps [simp del]

datatype fence_error = UnknownFenceTag string

definition wrap_fenced :: "string \<Rightarrow> string \<Rightarrow> (fence_error, string) res" where
  "wrap_fenced text tag =
     (if tag \<notin> set tag_names then Inl (UnknownFenceTag tag)
      else Inr (''<'' @ tag @ ''>'' @ [CHR 10] @ neutralize_sentinels text @ [CHR 10]
                @ ''</'' @ tag @ ''>''))"

definition wrap_external_data :: "string \<Rightarrow> (fence_error, string) res" where
  "wrap_external_data text = wrap_fenced text ''external-data''"

section \<open>No live tag survives\<close>

text \<open>A text is inert when no position in it starts a fence tag.\<close>

definition inert :: "string \<Rightarrow> bool" where
  "inert s \<longleftrightarrow> (\<forall>p t. s = p @ t \<longrightarrow> match_sentinel t = None)"

lemma match_sentinel_not_lt: "c \<noteq> CHR ''<'' \<Longrightarrow> match_sentinel (c # t) = None"
  by (simp add: match_sentinel_def)

lemma inert_Nil: "inert []"
  by (simp add: inert_def match_sentinel_def)

lemma inert_Cons: "inert (c # t) \<longleftrightarrow> match_sentinel (c # t) = None \<and> inert t"
  by (auto simp: inert_def Cons_eq_append_conv)

lemma inert_append_no_lt: "CHR ''<'' \<notin> set p \<Longrightarrow> inert t \<Longrightarrow> inert (p @ t)"
  by (induction p) (auto simp: inert_Cons match_sentinel_not_lt)

lemma escape_no_lt: "CHR ''<'' \<notin> set (escape_brackets s)"
  by (auto simp: escape_brackets_def)

text \<open>
  Replacing the first escaped bracket changes the text at a character that no part of the
  tag name can match, so an opening bracket before it that was not a tag does not become one.
\<close>

definition stopper :: "char \<Rightarrow> bool" where
  "stopper d \<longleftrightarrow> d = CHR ''<'' \<or> d = CHR ''&''"

lemma stopper_props:
  assumes "stopper d"
  shows "\<not> ws_char d" "d \<noteq> CHR ''/''" "\<not> word_char d" "lower_char d = d"
  using assms by (auto simp: stopper_def ws_char_def word_char_def lower_char_def)

lemma skip_ws_stop:
  "stopper d \<Longrightarrow> skip_ws (p @ d # x) = skip_ws p @ d # x"
  by (induction p) (auto simp: skip_ws_def stopper_props)

lemma eat_slash_stop: "stopper d \<Longrightarrow> eat_slash (p @ d # x) = eat_slash p @ d # x"
  by (cases p) (auto simp: eat_slash_def stopper_props)

lemma eat_name_stop:
  "stopper d \<Longrightarrow> d \<notin> set name \<Longrightarrow>
     eat_name name (p @ d # x) = map_option (\<lambda>r. r @ d # x) (eat_name name p)"
  by (induction name p rule: eat_name.induct) (auto simp: stopper_props split: option.splits) 

lemma eat_name_stop_Nil: "stopper d \<Longrightarrow> d \<notin> set (c # name) \<Longrightarrow> eat_name (c # name) (d # x) = None"
  using stopper_props(4)[of d] by auto

lemma eat_tag_stop:
  assumes "stopper d" and "d \<notin> set name"
  shows "eat_tag (p @ d # x) name = map_option (\<lambda>r. r @ d # x) (eat_tag p name)"
proof -
  have "boundary (r @ d # x) = boundary r" for r
    using assms(1) by (cases r) (auto simp: boundary_def stopper_props)
  then show ?thesis
    using eat_name_stop[OF assms, of p x] by (auto simp: eat_tag_def split: option.splits)
qed

lemma tag_head_stop:
  assumes "stopper d"
  shows "tag_head (p @ d # x) = map_option (\<lambda>r. r @ d # x) (tag_head p)"
proof -
  have "d \<notin> set name" if "name \<in> set tag_names" for name
    using assms that by (auto simp: stopper_def tag_names_def)
  then have "eat_tag (q @ d # x) name = map_option (\<lambda>r. r @ d # x) (eat_tag q name)"
    if "name \<in> set tag_names" for name q
    using eat_tag_stop[OF assms] that by blast
  then show ?thesis
    unfolding tag_head_def Let_def skip_ws_stop[OF assms] eat_slash_stop[OF assms]
    by (auto simp: tag_names_def List.map_filter_def split: option.splits)
qed

lemma match_gt_later:
  "match_sentinel (CHR ''<'' # p @ d # x) = None \<Longrightarrow> stopper d \<Longrightarrow> CHR ''>'' \<in> set x \<Longrightarrow>
     tag_head p = None"
proof (rule ccontr)
  assume none: "match_sentinel (CHR ''<'' # p @ d # x) = None"
    and d: "stopper d" and gt: "CHR ''>'' \<in> set x" and "tag_head p \<noteq> None"
  then obtain r where "tag_head (p @ d # x) = Some (r @ d # x)"
    using tag_head_stop[OF d, of p x] by auto
  moreover have "dropWhile (\<lambda>c. c \<noteq> CHR ''>'') (r @ d # x) \<noteq> []"
    using gt by (auto simp: dropWhile_eq_Nil_conv)
  ultimately show False
    using none by (auto simp: match_sentinel_def split: list.splits)
qed

lemma match_sentinel_SomeD:
  assumes "match_sentinel t = Some (m, rest)"
  obtains r x where "t = CHR ''<'' # r" "CHR ''>'' \<in> set r" "escape_brackets m = CHR ''&'' # x"
proof -
  obtain r h d where t: "t = CHR ''<'' # r" "tag_head r = Some h"
      "dropWhile (\<lambda>d. d \<noteq> CHR ''>'') h = d # rest" "m = take (length t - length rest) t"
    using assms by (auto simp: match_sentinel_def split: list.splits if_splits option.splits)
  have "\<exists>p. r = p @ h"
  proof -
    have name: "eat_name n s = Some u \<Longrightarrow> \<exists>p. s = p @ u" for n s u
      by (induction n s rule: eat_name.induct) (auto split: if_splits intro: exI[of _ "_ # _"])
    have ws: "\<exists>p. s = p @ skip_ws s" for s
      unfolding skip_ws_def by (metis takeWhile_dropWhile_id)
    have sl: "\<exists>p. s = p @ eat_slash s" for s
      by (cases s) (auto simp: eat_slash_def)
    obtain n where "eat_tag (skip_ws (eat_slash (skip_ws r))) n = Some h"
      using t(2) by (auto simp: tag_head_def Let_def List.map_filter_def dest!: find_SomeD)
    then obtain p3 where "skip_ws (eat_slash (skip_ws r)) = p3 @ h"
      using name by (auto simp: eat_tag_def split: option.splits if_splits)
    then show ?thesis using ws[of r] sl[of "skip_ws r"] ws[of "eat_slash (skip_ws r)"]
      by (metis append.assoc)
  qed
  moreover have "d = CHR ''>''" using t(3) by (auto simp: dropWhile_eq_Cons_conv)
  then have "CHR ''>'' \<in> set h" using t(3) by (metis dropWhile_eq_Cons_conv in_set_conv_decomp)
  ultimately have gt: "CHR ''>'' \<in> set r" by auto
  have "length rest < length t" using match_sentinel_length[OF assms] .
  then obtain m' where "m = CHR ''<'' # m'"
    using t(1,4) by (cases "length t - length rest") auto
  then have "escape_brackets m = CHR ''&'' # (''lt;'' @ escape_brackets m')"
    by (simp add: escape_brackets_def)
  then show thesis using that t(1) gt by blast
qed

lemma neutralize_shape:
  "neutralize_sentinels t = t \<or>
   (\<exists>p r x. t = p @ CHR ''<'' # r \<and> neutralize_sentinels t = p @ CHR ''&'' # x \<and> CHR ''>'' \<in> set r)"
proof (induction t rule: neutralize_sentinels.induct)
  case (1 t)
  show ?case
  proof (cases "match_sentinel t")
    case (Some mr)
    obtain m rest where mr: "mr = (m, rest)" by (cases mr)
    obtain r x where "t = CHR ''<'' # r" "CHR ''>'' \<in> set r" "escape_brackets m = CHR ''&'' # x"
      using match_sentinel_SomeD[OF Some[unfolded mr]] .
    moreover have "neutralize_sentinels t = escape_brackets m @ neutralize_sentinels rest"
      using Some mr by (subst neutralize_sentinels.simps) simp
    ultimately show ?thesis by (intro disjI2 exI[of _ "[]"] exI[of _ r] exI[of _ "x @ neutralize_sentinels rest"]) auto
  next
    case None
    show ?thesis
    proof (cases t)
      case Nil
      then show ?thesis using None by (subst neutralize_sentinels.simps) simp
    next
      case (Cons c u)
      have eq: "neutralize_sentinels t = c # neutralize_sentinels u"
        using None Cons by (subst neutralize_sentinels.simps) simp
      consider "neutralize_sentinels u = u"
        | p r x where "u = p @ CHR ''<'' # r" "neutralize_sentinels u = p @ CHR ''&'' # x" "CHR ''>'' \<in> set r"
        using 1(1)[OF None Cons] by blast
      then show ?thesis
      proof cases
        case 2
        then show ?thesis using eq Cons by (intro disjI2 exI[of _ "c # p"] exI[of _ r] exI[of _ x]) simp
      qed (use eq Cons in simp)
    qed
  qed
qed

lemma neutralize_inert: "inert (neutralize_sentinels s)"
proof (induction s rule: neutralize_sentinels.induct)
  case (1 s)
  show ?case
  proof (cases "match_sentinel s")
    case (Some mr)
    obtain m rest where mr: "mr = (m, rest)" by (cases mr)
    have "neutralize_sentinels s = escape_brackets m @ neutralize_sentinels rest"
      using Some mr by (subst neutralize_sentinels.simps) simp
    then show ?thesis using 1(2)[OF Some mr[symmetric]] by (simp add: inert_append_no_lt escape_no_lt)
  next
    case None
    show ?thesis
    proof (cases s)
      case Nil
      then show ?thesis using None by (subst neutralize_sentinels.simps) (simp add: inert_Nil)
    next
      case (Cons c t)
      have eq: "neutralize_sentinels s = c # neutralize_sentinels t"
        using None Cons by (subst neutralize_sentinels.simps) simp
      have "match_sentinel (c # neutralize_sentinels t) = None"
      proof (cases "c = CHR ''<''")
        case True
        consider "neutralize_sentinels t = t"
          | p r x where "t = p @ CHR ''<'' # r" "neutralize_sentinels t = p @ CHR ''&'' # x" "CHR ''>'' \<in> set r"
          using neutralize_shape[of t] by blast
        then show ?thesis
        proof cases
          case 2
          have "tag_head p = None"
            using match_gt_later[of p "CHR ''<''" r] None Cons True 2(1,3) by (simp add: stopper_def)
          then have "tag_head (p @ CHR ''&'' # x) = None"
            using tag_head_stop[of "CHR ''&''" p x] by (simp add: stopper_def)
          then show ?thesis using 2(2) by (simp add: match_sentinel_def)
        qed (use None Cons in simp)
      qed (simp add: match_sentinel_not_lt)
      then show ?thesis using eq 1(1)[OF None Cons] by (simp add: inert_Cons)
    qed
  qed
qed

lemma neutralize_id: "inert s \<Longrightarrow> neutralize_sentinels s = s"
proof (induction s)
  case Nil
  then show ?case by (subst neutralize_sentinels.simps) (simp add: match_sentinel_def)
next
  case (Cons c t)
  then show ?case by (subst neutralize_sentinels.simps) (simp add: inert_Cons)
qed

section \<open>Properties\<close>

text \<open>C26: Neutralised text contains no live fence tag at any position, whatever its case, inner
  whitespace or attributes; text that contained none is left as it is, so neutralising twice
  changes nothing more.\<close>

theorem neutralize_removes_every_fence:
  "inert (neutralize_sentinels s) \<and> (inert s \<longleftrightarrow> neutralize_sentinels s = s) \<and>
   neutralize_sentinels (neutralize_sentinels s) = neutralize_sentinels s"
  using neutralize_inert neutralize_id by metis

end
