(* ===== verification/Conditions.thy ===== *)
theory Conditions
  imports PyRuntime
begin

text \<open>
  The condition evaluator of engine/btagent_engine/runtime/conditions.py.  The parser of the
  standard library is an argument that maps source text to a syntax tree or a failure;
  attribute lookup on values that are not mappings is the argument \<^term>\<open>ga\<close>.  The
  interpreter's recursion limit is the depth of nested visits, \<^term>\<open>lim\<close>.  Complex and
  Ellipsis literals are not represented.
\<close>

section \<open>Syntax\<close>

datatype cmpop = CLt | CLtE | CEq | CNotEq | CGtE | CGt | CIn | CNotIn | CIs | CIsNot
datatype boolop = BAnd | BOr
datatype unop = UNot | USub | UAdd | UInvert
datatype binop = BArith arith | BPow | BOther

datatype cexpr =
    EConst pyval
  | EBytes
  | EName string
  | EList "cexpr list"
  | ETuple "cexpr list"
  | ESubscript cexpr cexpr
  | EAttr cexpr string
  | ECompare cexpr "(cmpop \<times> cexpr) list"
  | EBool boolop "cexpr list"
  | EUnary unop cexpr
  | EBin binop cexpr cexpr
  | ECall cexpr "cexpr list" bool
  | EOther string

section \<open>Errors\<close>

datatype cond_reason =
    NotAString | EmptyExpression | SyntaxProblem | TooComplex | TooDeep
  | Disallowed string | BytesLiteral | UnknownVariable string
  | IndexNotConstant | SubscriptFailed | PrivateName string | FieldMissing string
  | AttributeMissing string | UnsupportedCompare | CompareFailed | UnsupportedUnary
  | UnaryFailed | PowerNotAllowed | UnsupportedBinary | SequenceRepetition
  | PrintfFormatting | ArithmeticFailed | NotADirectCall | NotAllowlisted string
  | KeywordArguments string | CallFailed string

datatype cond_exn = CondErr cond_reason | RecursionErr | Escaped py_exn

definition wrap :: "py_exn set \<Rightarrow> cond_reason \<Rightarrow> (py_exn, 'a) res \<Rightarrow> (cond_exn, 'a) res" where
  "wrap caught r x = (case x of
     Inr a \<Rightarrow> Inr a
   | Inl e \<Rightarrow> if e \<in> caught then Inl (CondErr r) else Inl (Escaped e))"

section \<open>Operators\<close>

fun compare_op :: "cmpop \<Rightarrow> (pyval \<Rightarrow> pyval \<Rightarrow> (py_exn, bool) res) option" where
  "compare_op CLt = Some (py_ord OLt)"
| "compare_op CLtE = Some (py_ord OLe)"
| "compare_op CEq = Some (\<lambda>a b. Inr (py_eq a b))"
| "compare_op CNotEq = Some (\<lambda>a b. Inr (\<not> py_eq a b))"
| "compare_op CGtE = Some (py_ord OGe)"
| "compare_op CGt = Some (py_ord OGt)"
| "compare_op CIn = Some py_contains"
| "compare_op CNotIn = Some (\<lambda>a b. bind_res (py_contains a b) (\<lambda>r. Inr (\<not> r)))"
| "compare_op CIs = None"
| "compare_op CIsNot = None"

fun unary_op :: "unop \<Rightarrow> (pyval \<Rightarrow> (py_exn, pyval) res) option" where
  "unary_op UNot = Some (\<lambda>a. Inr (PBool (\<not> py_truth a)))"
| "unary_op USub = Some py_neg"
| "unary_op UAdd = Some py_pos"
| "unary_op UInvert = None"

fun is_sequence :: "pyval \<Rightarrow> bool" where
  "is_sequence (PStr s) = True"
| "is_sequence (PList xs) = True"
| "is_sequence (PTuple xs) = True"
| "is_sequence v = False"

fun is_str :: "pyval \<Rightarrow> bool" where
  "is_str (PStr s) = True"
| "is_str v = False"

definition bin_apply :: "arith \<Rightarrow> pyval \<Rightarrow> pyval \<Rightarrow> (cond_exn, pyval) res" where
  "bin_apply r a b =
     (if r = Mult \<and> (is_sequence a \<or> is_sequence b) then Inl (CondErr SequenceRepetition)
      else if r = Mod \<and> is_str a then Inl (CondErr PrintfFormatting)
      else wrap {TypeErr, ZeroDivErr} ArithmeticFailed (py_arith r a b))"

definition allowed_callables :: "string list" where
  "allowed_callables = [''len'', ''min'', ''max'']"

definition call_builtin :: "string \<Rightarrow> pyval list \<Rightarrow> (py_exn, pyval) res" where
  "call_builtin f args =
     (if f = ''len'' then
        (case args of [v] \<Rightarrow> bind_res (py_len v) (\<lambda>n. Inr (PInt (int n))) | _ \<Rightarrow> Inl TypeErr)
      else if f = ''min'' then py_minmax OLt args
      else py_minmax OGt args)"

definition private_name :: "string \<Rightarrow> bool" where
  "private_name a = (case a of [] \<Rightarrow> False | c # _ \<Rightarrow> c = CHR ''_'')"

definition read_attr :: "(pyval \<Rightarrow> string \<Rightarrow> pyval option) \<Rightarrow> pyval \<Rightarrow> string \<Rightarrow> (cond_exn, pyval) res" where
  "read_attr ga target a =
     (case target of
        PDict d \<Rightarrow> (case get_str d a of Some v \<Rightarrow> Inr v | None \<Rightarrow> Inl (CondErr (FieldMissing a)))
      | _ \<Rightarrow> (case ga target a of Some v \<Rightarrow> Inr v | None \<Rightarrow> Inl (CondErr (AttributeMissing a))))"

section \<open>The walker\<close>

fun visit :: "(pyval \<Rightarrow> string \<Rightarrow> pyval option) \<Rightarrow> (string \<times> pyval) list \<Rightarrow> nat \<Rightarrow> cexpr
    \<Rightarrow> (cond_exn, pyval) res"
and visit_all :: "(pyval \<Rightarrow> string \<Rightarrow> pyval option) \<Rightarrow> (string \<times> pyval) list \<Rightarrow> nat \<Rightarrow> cexpr list
    \<Rightarrow> (cond_exn, pyval list) res"
and visit_chain :: "(pyval \<Rightarrow> string \<Rightarrow> pyval option) \<Rightarrow> (string \<times> pyval) list \<Rightarrow> nat \<Rightarrow> pyval
    \<Rightarrow> (cmpop \<times> cexpr) list \<Rightarrow> (cond_exn, pyval) res"
and visit_bool :: "(pyval \<Rightarrow> string \<Rightarrow> pyval option) \<Rightarrow> (string \<times> pyval) list \<Rightarrow> nat \<Rightarrow> boolop
    \<Rightarrow> pyval \<Rightarrow> cexpr list \<Rightarrow> (cond_exn, pyval) res"
where
  "visit ga ctx 0 e = Inl RecursionErr"
| "visit ga ctx (Suc lim) (EConst v) = Inr v"
| "visit ga ctx (Suc lim) EBytes = Inl (CondErr BytesLiteral)"
| "visit ga ctx (Suc lim) (EName x) =
     (case map_of ctx x of None \<Rightarrow> Inl (CondErr (UnknownVariable x)) | Some v \<Rightarrow> Inr v)"
| "visit ga ctx (Suc lim) (EList es) =
     bind_res (visit_all ga ctx lim es) (\<lambda>vs. Inr (PList vs))"
| "visit ga ctx (Suc lim) (ETuple es) =
     bind_res (visit_all ga ctx lim es) (\<lambda>vs. Inr (PTuple vs))"
| "visit ga ctx (Suc lim) (ESubscript c i) =
     bind_res (visit ga ctx lim c) (\<lambda>v.
       case i of
         EConst k \<Rightarrow> wrap {KeyErr, IndexErr, TypeErr} SubscriptFailed (py_getitem v k)
       | EBytes \<Rightarrow> Inl (CondErr SubscriptFailed)
       | _ \<Rightarrow> Inl (CondErr IndexNotConstant))"
| "visit ga ctx (Suc lim) (EAttr t a) =
     (if private_name a then Inl (CondErr (PrivateName a))
      else bind_res (visit ga ctx lim t) (\<lambda>v. read_attr ga v a))"
| "visit ga ctx (Suc lim) (ECompare l rest) =
     bind_res (visit ga ctx lim l) (\<lambda>v. visit_chain ga ctx lim v rest)"
| "visit ga ctx (Suc lim) (EBool b es) = visit_bool ga ctx lim b (PBool (b = BAnd)) es"
| "visit ga ctx (Suc lim) (EUnary u e) =
     (case unary_op u of
        None \<Rightarrow> Inl (CondErr UnsupportedUnary)
      | Some f \<Rightarrow> bind_res (visit ga ctx lim e) (\<lambda>v. wrap {TypeErr} UnaryFailed (f v)))"
| "visit ga ctx (Suc lim) (EBin b l r) =
     (case b of
        BPow \<Rightarrow> Inl (CondErr PowerNotAllowed)
      | BOther \<Rightarrow> Inl (CondErr UnsupportedBinary)
      | BArith op \<Rightarrow> bind_res (visit ga ctx lim l) (\<lambda>x.
                    bind_res (visit ga ctx lim r) (\<lambda>y. bin_apply op x y)))"
| "visit ga ctx (Suc lim) (ECall f args kw) =
     (case f of
        EName name \<Rightarrow>
          if name \<notin> set allowed_callables then Inl (CondErr (NotAllowlisted name))
          else if kw then Inl (CondErr (KeywordArguments name))
          else bind_res (visit_all ga ctx lim args) (\<lambda>vs.
               wrap {TypeErr, ValueErr} (CallFailed name) (call_builtin name vs))
      | _ \<Rightarrow> Inl (CondErr NotADirectCall))"
| "visit ga ctx (Suc lim) (EOther what) = Inl (CondErr (Disallowed what))"
| "visit_all ga ctx lim [] = Inr []"
| "visit_all ga ctx lim (e # es) =
     bind_res (visit ga ctx lim e) (\<lambda>v. bind_res (visit_all ga ctx lim es) (\<lambda>vs. Inr (v # vs)))"
| "visit_chain ga ctx lim left [] = Inr (PBool True)"
| "visit_chain ga ctx lim left ((op, e) # rest) =
     (case compare_op op of
        None \<Rightarrow> Inl (CondErr UnsupportedCompare)
      | Some f \<Rightarrow> bind_res (visit ga ctx lim e) (\<lambda>right.
                 bind_res (wrap {TypeErr} CompareFailed (f left right)) (\<lambda>b.
                 if b then visit_chain ga ctx lim right rest else Inr (PBool False))))"
| "visit_bool ga ctx lim b prev [] = Inr prev"
| "visit_bool ga ctx lim b prev (e # es) =
     bind_res (visit ga ctx lim e) (\<lambda>v.
       if py_truth v = (b = BAnd) then visit_bool ga ctx lim b v es else Inr v)"

section \<open>Entry points\<close>

datatype parse_result = Parsed cexpr | ParseSyntax | ParseTooComplex

definition is_space :: "char \<Rightarrow> bool" where
  "is_space c = (let n = (of_char c :: nat) in
     (9 \<le> n \<and> n \<le> 13) \<or> (28 \<le> n \<and> n \<le> 32) \<or> n = 133 \<or> n = 160)"

definition evaluate_condition ::
  "(string \<Rightarrow> parse_result) \<Rightarrow> (pyval \<Rightarrow> string \<Rightarrow> pyval option) \<Rightarrow> nat \<Rightarrow> pyval
     \<Rightarrow> (string \<times> pyval) list \<Rightarrow> (cond_exn, pyval) res" where
  "evaluate_condition parse ga lim expression ctx =
     (case expression of
        PStr s \<Rightarrow>
          if list_all is_space s then Inl (CondErr EmptyExpression)
          else (case parse s of
            ParseSyntax \<Rightarrow> Inl (CondErr SyntaxProblem)
          | ParseTooComplex \<Rightarrow> Inl (CondErr TooComplex)
          | Parsed e \<Rightarrow> (case visit ga ctx lim e of
              Inl RecursionErr \<Rightarrow> Inl (CondErr TooDeep)
            | r \<Rightarrow> r))
      | _ \<Rightarrow> Inl (CondErr NotAString))"

definition coerce_to_branch :: "pyval \<Rightarrow> (py_exn, string) res" where
  "coerce_to_branch v =
     (case v of PBool b \<Rightarrow> Inr (if b then ''true'' else ''false'') | _ \<Rightarrow> py_str v)"

text \<open>The context binds one name, the outputs of the recorded steps.\<close>

definition build_condition_context :: "(string \<times> pyval) list \<Rightarrow> (string \<times> pyval) list" where
  "build_condition_context outputs =
     [(''node'', PDict (map (\<lambda>kv. (PStr (fst kv), snd kv)) outputs))]"

section \<open>The error contract\<close>

definition contained :: "cond_exn \<Rightarrow> bool" where
  "contained x = (case x of CondErr _ \<Rightarrow> True | RecursionErr \<Rightarrow> True | Escaped e \<Rightarrow> e = OverflowErr)"

lemma contained_simps [simp]:
  "contained (CondErr r)" "contained RecursionErr" "contained (Escaped e) \<longleftrightarrow> e = OverflowErr"
  by (simp_all add: contained_def)

lemma wrap_contained:
  "wrap caught r x = Inl y \<Longrightarrow> (\<And>e. x = Inl e \<Longrightarrow> e \<in> caught \<or> e = OverflowErr) \<Longrightarrow> contained y"
  by (auto simp: wrap_def split: sum.splits if_splits)

lemma wrap_Inr [simp]: "wrap caught r x = Inr a \<longleftrightarrow> x = Inr a"
  by (auto simp: wrap_def split: sum.splits)

lemma compare_op_errors: "compare_op op = Some f \<Longrightarrow> f a b = Inl e \<Longrightarrow> e = TypeErr"
  by (cases op) (auto dest: py_ord_errors py_contains_errors elim!: bind_res_InlE)

lemma unary_op_errors: "unary_op u = Some f \<Longrightarrow> f v = Inl e \<Longrightarrow> e = TypeErr"
  by (cases u) (auto split: option.splits num.splits)

lemma bin_apply_contained: "bin_apply r a b = Inl y \<Longrightarrow> contained y"
  by (auto simp: bin_apply_def split: if_splits elim!: wrap_contained dest: py_arith_errors)

lemma call_builtin_errors: "call_builtin f args = Inl e \<Longrightarrow> e = TypeErr \<or> e = ValueErr"
  by (auto simp: call_builtin_def split: if_splits list.splits elim!: bind_res_InlE
      dest: py_len_errors py_minmax_errors)

lemma read_attr_contained: "read_attr ga v a = Inl y \<Longrightarrow> contained y"
  by (auto simp: read_attr_def split: pyval.splits option.splits)

lemma subscript_contained:
  "wrap {KeyErr, IndexErr, TypeErr} SubscriptFailed (py_getitem v k) = Inl y \<Longrightarrow> contained y"
  by (rule wrap_contained) (auto dest: py_getitem_errors)

lemma visit_contained:
  shows "visit ga ctx lim e = Inl y \<Longrightarrow> contained y"
    and "visit_all ga ctx lim es = Inl y \<Longrightarrow> contained y"
    and "visit_chain ga ctx lim l rest = Inl y \<Longrightarrow> contained y"
    and "visit_bool ga ctx lim b p es = Inl y \<Longrightarrow> contained y"
proof (induction ga ctx lim e and ga ctx lim es and ga ctx lim l rest and ga ctx lim b p es
    arbitrary: y and y and y and y rule: visit_visit_all_visit_chain_visit_bool.induct)
  case (7 ga ctx lim c i)
  then show ?case
    by (auto elim!: bind_res_InlE split: cexpr.splits dest: subscript_contained)
next
  case (8 ga ctx lim t a)
  then show ?case
    by (auto elim!: bind_res_InlE split: if_splits dest: read_attr_contained)
next
  case (11 ga ctx lim u e)
  then show ?case
    by (auto elim!: bind_res_InlE wrap_contained split: option.splits dest: unary_op_errors)
next
  case (12 ga ctx lim b l r)
  then show ?case
    by (auto elim!: bind_res_InlE split: binop.splits dest: bin_apply_contained)
next
  case (13 ga ctx lim f args kw)
  then show ?case
    by (auto elim!: bind_res_InlE wrap_contained split: cexpr.splits if_splits dest: call_builtin_errors)
next
  case (18 ga ctx lim left op e rest)
  then show ?case
    by (auto elim!: bind_res_InlE wrap_contained split: option.splits if_splits dest: compare_op_errors)
qed (auto elim!: bind_res_InlE split: option.splits if_splits)

section \<open>Only public attributes are read\<close>

lemma visit_public:
  assumes "\<And>v a. \<not> private_name a \<Longrightarrow> ga v a = ga' v a"
  shows "visit ga ctx lim e = visit ga' ctx lim e"
    and "visit_all ga ctx lim es = visit_all ga' ctx lim es"
    and "visit_chain ga ctx lim l rest = visit_chain ga' ctx lim l rest"
    and "visit_bool ga ctx lim b p es = visit_bool ga' ctx lim b p es"
proof -
  have "(\<And>v a. \<not> private_name a \<Longrightarrow> ga v a = ga' v a) \<Longrightarrow> visit ga ctx lim e = visit ga' ctx lim e"
    and "(\<And>v a. \<not> private_name a \<Longrightarrow> ga v a = ga' v a) \<Longrightarrow> visit_all ga ctx lim es = visit_all ga' ctx lim es"
    and "(\<And>v a. \<not> private_name a \<Longrightarrow> ga v a = ga' v a) \<Longrightarrow>
           visit_chain ga ctx lim l rest = visit_chain ga' ctx lim l rest"
    and "(\<And>v a. \<not> private_name a \<Longrightarrow> ga v a = ga' v a) \<Longrightarrow>
           visit_bool ga ctx lim b p es = visit_bool ga' ctx lim b p es"
  proof (induction ga ctx lim e and ga ctx lim es and ga ctx lim l rest and ga ctx lim b p es
      rule: visit_visit_all_visit_chain_visit_bool.induct)
    case (8 ga ctx lim t a)
    then show ?case
      by (cases "visit ga' ctx lim t") (auto simp: read_attr_def split: pyval.splits)
  next
    case (13 ga ctx lim f args kw)
    then show ?case by (cases f) auto
  qed (auto intro!: bind_res_cong split: option.splits binop.splits)
  then show "visit ga ctx lim e = visit ga' ctx lim e"
    "visit_all ga ctx lim es = visit_all ga' ctx lim es"
    "visit_chain ga ctx lim l rest = visit_chain ga' ctx lim l rest"
    "visit_bool ga ctx lim b p es = visit_bool ga' ctx lim b p es"
    using assms by blast+
qed

section \<open>Evaluation cannot amplify its inputs\<close>

text \<open>
  The weight of a value counts characters, items and the bits of integers; the weight of an
  expression counts its constants and, at each name, the value the name is bound to.
\<close>

fun weight :: "pyval \<Rightarrow> nat" where
  "weight PNone = 1"
| "weight (PBool b) = 2"
| "weight (PInt i) = Suc (bitlen (nat \<bar>i\<bar>))"
| "weight (PFloat f) = 1"
| "weight (PStr s) = Suc (length s)"
| "weight (PList xs) = Suc (sum_list (map weight xs))"
| "weight (PTuple xs) = Suc (sum_list (map weight xs))"
| "weight (PDict d) = Suc (sum_list (map (\<lambda>kv. weight (fst kv) + weight (snd kv)) d))"

fun expr_weight :: "(string \<times> pyval) list \<Rightarrow> cexpr \<Rightarrow> nat" where
  "expr_weight ctx (EConst v) = weight v"
| "expr_weight ctx EBytes = 1"
| "expr_weight ctx (EName x) = (case map_of ctx x of None \<Rightarrow> 1 | Some v \<Rightarrow> weight v)"
| "expr_weight ctx (EList es) = Suc (sum_list (map (expr_weight ctx) es))"
| "expr_weight ctx (ETuple es) = Suc (sum_list (map (expr_weight ctx) es))"
| "expr_weight ctx (ESubscript c i) = expr_weight ctx c"
| "expr_weight ctx (EAttr t a) = expr_weight ctx t"
| "expr_weight ctx (ECompare l rest) = 2"
| "expr_weight ctx (EBool b es) = Suc (Suc (sum_list (map (expr_weight ctx) es)))"
| "expr_weight ctx (EUnary u e) = Suc (expr_weight ctx e)"
| "expr_weight ctx (EBin b l r) = Suc (expr_weight ctx l + expr_weight ctx r)"
| "expr_weight ctx (ECall f args kw) = Suc (Suc (sum_list (map (expr_weight ctx) args)))"
| "expr_weight ctx (EOther w) = 1"

lemma weight_pos: "0 < weight v"
  by (cases v) auto

lemma bitlen_le_iff: "bitlen n \<le> k \<longleftrightarrow> n < 2 ^ k"
proof (induction k arbitrary: n)
  case 0
  then show ?case by (subst bitlen.simps) auto
next
  case (Suc k)
  have "n div 2 < 2 ^ k \<longleftrightarrow> n < 2 ^ Suc k"
    by (simp add: div_less_iff_less_mult mult.commute)
  then show ?case using Suc[of "n div 2"] by (subst bitlen.simps) simp
qed

lemma bitlen_less: "n < 2 ^ bitlen n"
  using bitlen_le_iff[of n "bitlen n"] by simp

lemma bitlen_mono: "m \<le> n \<Longrightarrow> bitlen m \<le> bitlen n"
  using bitlen_less[of n] by (simp add: bitlen_le_iff)

lemma bitlen_add: "bitlen (m + n) \<le> Suc (bitlen m + bitlen n)"
proof -
  have "m < 2 ^ (bitlen m + bitlen n)" "n < 2 ^ (bitlen m + bitlen n)"
    using bitlen_less[of m] bitlen_less[of n]
    by (meson le_add1 le_add2 less_le_trans one_le_numeral power_increasing)+
  then show ?thesis by (simp add: bitlen_le_iff)
qed

lemma bitlen_mult: "bitlen (m * n) \<le> bitlen m + bitlen n"
  using bitlen_less[of m] bitlen_less[of n]
  by (simp add: bitlen_le_iff power_add mult_strict_mono')

lemma bitlen_self: "bitlen n \<le> n"
  by (simp add: bitlen_le_iff)

lemma weight_int_le: "\<bar>i\<bar> \<le> \<bar>j\<bar> \<Longrightarrow> weight (PInt i) \<le> weight (PInt j)"
  by (simp add: bitlen_mono)

lemma abs_div_le: "\<bar>a div b\<bar> \<le> \<bar>a :: int\<bar>"
proof -
  have pos: "\<bar>x div y\<bar> \<le> \<bar>x\<bar>" if y: "0 < y" for x y :: int
  proof (cases "0 \<le> x")
    case True
    then have "x div y \<le> x" using y by (smt (verit) div_by_1 zdiv_mono2)
    then show ?thesis using True y by (simp add: pos_imp_zdiv_nonneg_iff)
  next
    case False
    then have "x \<le> x div y" using y by (smt (verit) div_by_1 zdiv_mono2_neg)
    moreover have "x div y < 0" using False y by (simp add: neg_imp_zdiv_neg_iff pos_imp_zdiv_neg_iff)
    ultimately show ?thesis by linarith
  qed
  consider "b = 0" | "0 < b" | "b < 0" by linarith
  then show ?thesis
  proof cases
    case 3
    then have "\<bar>(- a) div (- b)\<bar> \<le> \<bar>- a\<bar>" by (intro pos) simp
    then show ?thesis by simp
  qed (auto intro: pos)
qed

lemma abs_mod_le: "b \<noteq> 0 \<Longrightarrow> \<bar>a mod b\<bar> \<le> \<bar>b :: int\<bar>"
  using abs_mod_less[of b a] by simp

lemma int_arith_weight:
  "int_arith r a b = Inr v \<Longrightarrow> weight v \<le> Suc (Suc (Suc (bitlen (nat \<bar>a\<bar>) + bitlen (nat \<bar>b\<bar>))))"
proof -
  assume run: "int_arith r a b = Inr v"
  have add: "bitlen (nat \<bar>x + y\<bar>) \<le> Suc (bitlen (nat \<bar>x\<bar>) + bitlen (nat \<bar>y\<bar>))" for x y :: int
  proof -
    have "nat \<bar>x + y\<bar> \<le> nat \<bar>x\<bar> + nat \<bar>y\<bar>" by linarith
    then show ?thesis using bitlen_mono bitlen_add le_trans by blast
  qed
  have mult: "bitlen (nat \<bar>x * y\<bar>) \<le> bitlen (nat \<bar>x\<bar>) + bitlen (nat \<bar>y\<bar>)" for x y :: int
    using bitlen_mult[of "nat \<bar>x\<bar>" "nat \<bar>y\<bar>"] by (simp add: abs_mult nat_mult_distrib)
  have dv: "bitlen (nat \<bar>x div y\<bar>) \<le> bitlen (nat \<bar>x\<bar>)" for x y :: int
    using abs_div_le[of x y] by (simp add: bitlen_mono)
  have md: "bitlen (nat \<bar>x mod y\<bar>) \<le> bitlen (nat \<bar>y\<bar>)" if "y \<noteq> 0" for x y :: int
    using abs_mod_le[OF that, of x] by (simp add: bitlen_mono)
  show ?thesis
  proof (cases r)
    case Add
    then have "v = PInt (a + b)" using run by simp
    then show ?thesis using add[of a b] by simp
  next
    case Sub
    then have "v = PInt (a + - b)" using run by simp
    then show ?thesis using add[of a "- b"] by simp
  next
    case Mult
    then have "v = PInt (a * b)" using run by simp
    then show ?thesis using mult[of a b] by simp
  next
    case Div
    then have "weight v = 1" using run by (auto split: if_splits option.splits)
    then show ?thesis by simp
  next
    case FloorDiv
    then have "v = PInt (a div b)" using run by (auto split: if_splits)
    then show ?thesis using dv[of a b] by simp
  next
    case Mod
    then have "v = PInt (a mod b)" "b \<noteq> 0" using run by (auto split: if_splits)
    then show ?thesis using md[of b a] by simp
  qed
qed

lemma float_arith_weight: "float_arith r x y = Inr v \<Longrightarrow> weight v = 1"
  by (cases r) (auto split: if_splits)

lemma num_weight: "num_of a = Some (NInt i) \<Longrightarrow> Suc (bitlen (nat \<bar>i\<bar>)) \<le> weight a"
  by (cases a) (auto simp: bitlen_le_iff split: if_splits)

lemma num_arith_weight:
  assumes "num_of a = Some x" and "num_of b = Some y" and "num_arith r x y = Inr v"
  shows "weight v \<le> Suc (weight a + weight b)"
proof (cases "(x, y)")
  case (Pair x' y')
  have float: ?thesis if "weight v = 1" using that weight_pos[of a] by simp
  show ?thesis
  proof (cases x; cases y)
    fix i j assume ij: "x = NInt i" "y = NInt j"
    then have "weight v \<le> Suc (Suc (Suc (bitlen (nat \<bar>i\<bar>) + bitlen (nat \<bar>j\<bar>))))"
      using assms(3) by (simp add: int_arith_weight)
    then show ?thesis using num_weight[of a i] num_weight[of b j] assms(1,2) ij by simp
  qed (use assms(3) float in \<open>auto dest!: float_arith_weight\<close>)
qed

lemma py_arith_Inr:
  "py_arith r a b = Inr v \<Longrightarrow>
     (\<exists>s t. a = PStr s \<and> b = PStr t \<and> v = PStr (s @ t)) \<or>
     (\<exists>xs ys. a = PList xs \<and> b = PList ys \<and> v = PList (xs @ ys)) \<or>
     (\<exists>xs ys. a = PTuple xs \<and> b = PTuple ys \<and> v = PTuple (xs @ ys)) \<or>
     (\<exists>x y. num_of a = Some x \<and> num_of b = Some y \<and> num_arith r x y = Inr v)"
  by (induction r a b rule: py_arith.induct)
     (simp_all split: option.splits del: num_arith.simps num_of.simps)

lemma py_arith_weight: "py_arith r a b = Inr v \<Longrightarrow> weight v \<le> Suc (weight a + weight b)"
  by (elim py_arith_Inr[elim_format] disjE exE conjE) (auto intro: num_arith_weight)

lemma member_weight: "x \<in> set xs \<Longrightarrow> weight x \<le> sum_list (map weight xs)"
  by (induction xs) auto

lemma get_str_weight: "get_str d k = Some v \<Longrightarrow> weight v < weight (PDict d)"
  by (induction d) (auto split: if_splits)

lemma dget_weight: "dget d k = Some v \<Longrightarrow> weight v < weight (PDict d)"
  by (induction d) (auto simp: dget_def split: if_splits)

lemma seq_item_in: "seq_item xs k = Inr x \<Longrightarrow> x \<in> set xs"
  by (auto simp: seq_item_def Let_def split: option.splits if_splits)

lemma py_getitem_weight: "py_getitem c k = Inr v \<Longrightarrow> weight v \<le> weight c"
  by (cases c)
     (auto dest!: seq_item_in split: option.splits if_splits
       simp: Suc_le_eq dest: dget_weight member_weight length_pos_if_in_set
       intro: le_SucI)

lemma py_iter_weight: "py_iter v = Inr xs \<Longrightarrow> x \<in> set xs \<Longrightarrow> weight x \<le> weight v"
proof (cases v)
  case (PDict d)
  assume "py_iter v = Inr xs" "x \<in> set xs"
  then obtain w where "(x, w) \<in> set d" using PDict by auto
  then have "weight x \<le> sum_list (map (\<lambda>kv. weight (fst kv) + weight (snd kv)) d)"
    by (induction d) auto
  then show ?thesis using PDict by simp
next
  case (PStr s)
  assume "py_iter v = Inr xs" "x \<in> set xs"
  then show ?thesis using PStr by (cases s) auto
qed (auto dest: member_weight)

lemma best_of_in: "best_of r b xs = Inr v \<Longrightarrow> v \<in> insert b (set xs)"
proof (induction r b xs rule: best_of.induct)
  case (2 r b x xs)
  then obtain c where c: "py_ord r x b = Inr c" "best_of r (if c then x else b) xs = Inr v" by auto
  then have "v \<in> insert (if c then x else b) (set xs)" using "2.IH" by blast
  then show ?case by (auto split: if_splits)
qed simp

lemma py_minmax_weight: "py_minmax r args = Inr v \<Longrightarrow> weight v \<le> sum_list (map weight args)"
proof -
  assume run: "py_minmax r args = Inr v"
  consider (one) w where "args = [w]" | (many) y ys where "args = y # ys" "ys \<noteq> []"
    using run by (cases args) (auto simp: py_minmax_def)
  then show ?thesis
  proof cases
    case one
    then obtain zs where zs: "py_iter w = Inr zs"
        "(case zs of [] \<Rightarrow> Inl ValueErr | y # ys \<Rightarrow> best_of r y ys) = Inr v"
      using run by (auto simp: py_minmax_def)
    then obtain y ys where "py_iter w = Inr (y # ys)" "best_of r y ys = Inr v" by (cases zs) auto
    then show ?thesis using one best_of_in[of r y ys v] py_iter_weight[of w "y # ys" v] by simp
  next
    case many
    then have "best_of r y ys = Inr v" using run by (auto simp: py_minmax_def split: list.splits)
    then show ?thesis using many best_of_in[of r y ys v] member_weight[of v args] by simp
  qed
qed

lemma length_le_weight: "length xs \<le> sum_list (map weight xs)"
proof (induction xs)
  case (Cons x xs)
  then show ?case using weight_pos[of x] by simp
qed simp

lemma py_len_weight: "py_len v = Inr n \<Longrightarrow> n < weight v"
proof (cases v)
  case (PDict d)
  assume "py_len v = Inr n"
  moreover have "length d \<le> sum_list (map (\<lambda>kv. weight (fst kv) + weight (snd kv)) d)"
  proof (induction d)
    case (Cons kv d)
    then show ?case using weight_pos[of "fst kv"] by simp
  qed simp
  ultimately show ?thesis using PDict by simp
qed (use length_le_weight in \<open>auto simp: less_Suc_eq_le\<close>)

lemma call_builtin_weight:
  "call_builtin f args = Inr v \<Longrightarrow> weight v \<le> Suc (Suc (sum_list (map weight args)))"
proof (cases "f = ''len''")
  case True
  assume run: "call_builtin f args = Inr v"
  then obtain w n where "args = [w]" "py_len w = Inr n" "v = PInt (int n)"
    using True by (auto simp: call_builtin_def split: list.splits)
  then show ?thesis using py_len_weight[of w n] bitlen_self[of n] by simp
next
  case False
  assume "call_builtin f args = Inr v"
  then show ?thesis
    using False py_minmax_weight by (auto simp: call_builtin_def le_SucI split: if_splits)
qed

lemma unary_op_weight: "unary_op u = Some f \<Longrightarrow> f a = Inr v \<Longrightarrow> weight v \<le> Suc (weight a)"
  using weight_pos[of a] num_weight[of a]
  by (cases u) (fastforce split: option.splits num.splits)+

text \<open>Attribute values of other objects must not outgrow their holder.\<close>

definition attrs_small :: "(pyval \<Rightarrow> string \<Rightarrow> pyval option) \<Rightarrow> bool" where
  "attrs_small ga \<longleftrightarrow> (\<forall>v a w. ga v a = Some w \<longrightarrow> weight w \<le> weight v)"

lemma read_attr_weight:
  "attrs_small ga \<Longrightarrow> read_attr ga t a = Inr v \<Longrightarrow> weight v \<le> weight t"
proof -
  assume small: "attrs_small ga" and run: "read_attr ga t a = Inr v"
  consider (dict) d where "t = PDict d" "get_str d a = Some v" | (other) "ga t a = Some v"
    using run by (cases t) (auto simp: read_attr_def split: option.splits)
  then show ?thesis
    using small by cases (auto simp: attrs_small_def dest: get_str_weight intro: less_imp_le)
qed

lemma bin_apply_weight: "bin_apply r a b = Inr v \<Longrightarrow> weight v \<le> Suc (weight a + weight b)"
  by (auto simp: bin_apply_def split: if_splits intro: py_arith_weight)

lemma visit_weight:
  shows "visit ga ctx lim e = Inr v \<Longrightarrow> attrs_small ga \<Longrightarrow> weight v \<le> expr_weight ctx e"
    and "visit_all ga ctx lim es = Inr vs \<Longrightarrow> attrs_small ga \<Longrightarrow>
           sum_list (map weight vs) \<le> sum_list (map (expr_weight ctx) es)"
    and "visit_chain ga ctx lim l rest = Inr v \<Longrightarrow> attrs_small ga \<Longrightarrow> weight v \<le> 2"
    and "visit_bool ga ctx lim b p es = Inr v \<Longrightarrow> attrs_small ga \<Longrightarrow>
           weight v \<le> weight p + sum_list (map (expr_weight ctx) es)"
proof (induction ga ctx lim e and ga ctx lim es and ga ctx lim l rest and ga ctx lim b p es
    arbitrary: v and vs and v and v rule: visit_visit_all_visit_chain_visit_bool.induct)
  case (7 ga ctx lim c i)
  then obtain k w where "i = EConst k" "visit ga ctx lim c = Inr w" "py_getitem w k = Inr v"
    by (cases i) auto
  then show ?case using 7 py_getitem_weight[of w k v] by fastforce
next
  case (8 ga ctx lim t a)
  then show ?case by (auto split: if_splits dest: read_attr_weight intro: order_trans)
next
  case (11 ga ctx lim u e)
  then obtain f w where "unary_op u = Some f" "visit ga ctx lim e = Inr w" "f w = Inr v"
    by (auto split: option.splits)
  then show ?case using 11 unary_op_weight[of u f w v] by fastforce
next
  case (12 ga ctx lim b l r)
  then obtain op x y where b: "b = BArith op" and "visit ga ctx lim l = Inr x"
      "visit ga ctx lim r = Inr y" "bin_apply op x y = Inr v"
    by (auto split: binop.splits)
  then show ?case using 12 bin_apply_weight[of op x y v] by fastforce
next
  case (13 ga ctx lim f args kw)
  then obtain name vs where "f = EName name" "name \<in> set allowed_callables" "\<not> kw"
      "visit_all ga ctx lim args = Inr vs" "call_builtin name vs = Inr v"
    by (auto split: cexpr.splits if_splits)
  then show ?case using 13 call_builtin_weight[of name vs v] by fastforce
next
  case (16 ga ctx lim e es)
  then obtain w ws where w: "visit ga ctx lim e = Inr w" "visit_all ga ctx lim es = Inr ws" "vs = w # ws"
    by auto
  then show ?case using "16.IH"(1)[OF w(1) 16(4)] "16.IH"(2)[OF w(1,2) 16(4)] by simp
next
  case (20 ga ctx lim b p e es)
  then obtain w where w: "visit ga ctx lim e = Inr w"
      "(if py_truth w = (b = BAnd) then visit_bool ga ctx lim b w es else Inr w) = Inr v" by auto
  then show ?case using "20.IH"(1)[OF w(1) 20(4)] "20.IH"(2)[OF w(1) _ _ 20(4)]
    by (fastforce split: if_splits)
qed (fastforce split: option.splits if_splits)+

section \<open>Properties\<close>

lemma evaluate_condition_Inr:
  "evaluate_condition parse ga lim (PStr s) ctx = Inr v \<Longrightarrow>
     \<exists>e. parse s = Parsed e \<and> visit ga ctx lim e = Inr v"
  by (auto simp: evaluate_condition_def split: if_splits parse_result.splits sum.splits cond_exn.splits)

lemma evaluate_condition_escape:
  "evaluate_condition parse ga lim ex ctx = Inl y \<Longrightarrow> (\<exists>r. y = CondErr r) \<or> y = Escaped OverflowErr"
  by (auto simp: evaluate_condition_def split: pyval.splits if_splits parse_result.splits
      sum.splits cond_exn.splits dest: visit_contained(1))

text \<open>Whatever the expression and the context, evaluation either returns a value or raises the
  documented ConditionEvaluationError; the one exception that can escape the single-error
  contract is OverflowError.\<close>

theorem condition_error_contract:
  "case evaluate_condition parse ga lim ex ctx of
     Inr v \<Rightarrow> True
   | Inl y \<Rightarrow> y \<in> range CondErr \<union> {Escaped OverflowErr}"
  by (auto split: sum.splits dest: evaluate_condition_escape)

lemma bitlen_pow2: "bitlen (2 ^ k) = Suc k"
  using bitlen_le_iff[of "2 ^ k" k] bitlen_le_iff[of "2 ^ k" "Suc k"] by simp

lemma round_ratio_overflow: "round_ratio (2 ^ 1024) 1 = Inf False"
proof -
  have len: "bitlen (nat \<bar>2 ^ 1024\<bar>) = 1025" "bitlen (nat 1) = 1"
    using bitlen_pow2[of 1024] bitlen_pow2[of 0] by (simp_all add: nat_power_eq)
  have split: "(2 :: int) ^ 1024 = 2 ^ 52 * 2 ^ 972" by (simp flip: power_add)
  have dm: "(2 :: int) ^ 1024 div 2 ^ 972 = 2 ^ 52" "(2 :: int) ^ 1024 mod 2 ^ 972 = 0"
    unfolding split by (simp_all only: nonzero_mult_div_cancel_right mod_mult_self2_is_0) simp
  have "round_half_even (2 ^ 1024) (2 ^ 972) = 2 ^ 52"
    unfolding round_half_even_def Let_def dm by (simp del: power_numeral)
  then show ?thesis
    unfolding round_ratio_def Let_def len
    by (simp add: pow2_def split[symmetric] del: power_numeral)
qed

lemma huge_int_conversions:
  "int_truediv (2 ^ 1024) 1 = None" "float_of_int (2 ^ 1024) = None"
  using round_ratio_overflow by (simp_all add: int_truediv_def float_of_int_def del: power_numeral)

text \<open>The contract is broken on concrete inputs: dividing the integer 2^1024 by 1, or
  adding a float to it, escapes as OverflowError instead of ConditionEvaluationError.\<close>

theorem condition_overflow_escapes:
  "evaluate_condition (\<lambda>_. Parsed (EBin (BArith Div) (EConst (PInt (2 ^ 1024))) (EConst (PInt 1))))
     (\<lambda>_ _. None) (Suc (Suc lim)) (PStr ''x'') [] = Inl (Escaped OverflowErr) \<and>
   evaluate_condition (\<lambda>_. Parsed (EBin (BArith Add) (EName ''n'') (EConst (PFloat (Fin 1 0)))))
     (\<lambda>_ _. None) (Suc (Suc lim)) (PStr ''x'') [(''n'', PInt (2 ^ 1024))] = Inl (Escaped OverflowErr)"
  by (simp add: evaluate_condition_def is_space_def bin_apply_def wrap_def to_float_def
      huge_int_conversions del: power_numeral)

text \<open>C27: Sandbox: the outcome of a condition depends on public attributes only.  Two worlds whose
  objects differ in any attributes that begin with an underscore evaluate every expression
  alike, so no expression reads one.\<close>

theorem condition_reads_public_attributes:
  assumes "\<And>v a. \<not> private_name a \<Longrightarrow> ga v a = ga' v a"
  shows "evaluate_condition parse ga lim ex ctx = evaluate_condition parse ga' lim ex ctx"
proof -
  have "visit ga ctx lim e = visit ga' ctx lim e" for e
    using assms by (rule visit_public(1))
  then show ?thesis by (simp only: evaluate_condition_def)
qed

lemma condition_reads_public_attributes_witness:
  "evaluate_condition (\<lambda>_. Parsed (EAttr (EConst (PInt 3)) ''__class__''))
     (\<lambda>v a. if a = ''__class__'' then Some (PStr ''type'') else None) 10 (PStr ''x'') [] =
   evaluate_condition (\<lambda>_. Parsed (EAttr (EConst (PInt 3)) ''__class__''))
     (\<lambda>v a. None) 10 (PStr ''x'') []"
proof (rule condition_reads_public_attributes)
  fix v a
  assume "\<not> private_name a"
  moreover have "private_name ''__class__''" by (simp add: private_name_def)
  ultimately show "(if a = ''__class__'' then Some (PStr ''type'') else None) = None" by auto
qed

text \<open>No expression amplifies its inputs: the value of a condition weighs at most as much as the
  constants written in it and the bound values it names, plus two per operator, where weight
  counts characters, items and integer bits.\<close>

theorem condition_no_amplification:
  assumes "evaluate_condition parse ga lim (PStr s) ctx = Inr v" and "parse s = Parsed e"
    and "attrs_small ga"
  shows "weight v \<le> expr_weight ctx e"
  using assms evaluate_condition_Inr[OF assms(1)] visit_weight(1) by auto

lemma condition_no_amplification_witness:
  "weight (PStr ''abcd'') \<le> expr_weight [] (EBin (BArith Add) (EConst (PStr ''ab'')) (EConst (PStr ''cd'')))"
  by (rule condition_no_amplification
      [where parse = "\<lambda>_. Parsed (EBin (BArith Add) (EConst (PStr ''ab'')) (EConst (PStr ''cd'')))"
         and ga = "\<lambda>_ _. None" and lim = "Suc (Suc 0)" and s = "''x''"])
     (simp_all add: attrs_small_def evaluate_condition_def is_space_def bin_apply_def wrap_def)

end
