(* ===== verification/HashChain.thy ===== *)
theory HashChain
  imports Interfaces
begin

text \<open>
  Append-only logs whose entries carry the hash of their predecessor.  The interface of such a
  log is a locale; the evidence chain of the engine and the audit ledger of the backend are its
  two instances.
\<close>

text \<open>A list of entries chained from a start hash: each names the hash before it and carries its own.\<close>

fun chained :: "('r \<Rightarrow> 'h) \<Rightarrow> ('r \<Rightarrow> 'h) \<Rightarrow> ('r \<Rightarrow> 'h) \<Rightarrow> 'h \<Rightarrow> 'r list \<Rightarrow> bool" where
  "chained prev link hash h [] = True"
| "chained prev link hash h (r # rs) =
     (prev r = h \<and> hash r = link r \<and> chained prev link hash (link r) rs)"

definition chain_head :: "('r \<Rightarrow> 'h) \<Rightarrow> 'h \<Rightarrow> 'r list \<Rightarrow> 'h" where
  "chain_head link g rs = (if rs = [] then g else link (last rs))"

lemma chain_head_simps [simp]:
  "chain_head link g [] = g"
  "chain_head link g (r # rs) = chain_head link (link r) rs"
  "chain_head link g (rs @ [r]) = link r"
  by (simp_all add: chain_head_def)

lemma chained_append:
  "chained prev link hash h (xs @ ys) \<longleftrightarrow>
     chained prev link hash h xs \<and> chained prev link hash (chain_head link h xs) ys"
  by (induction xs arbitrary: h) auto

lemma chained_snoc:
  "chained prev link hash h (xs @ [r]) \<longleftrightarrow>
     chained prev link hash h xs \<and> prev r = chain_head link h xs \<and> hash r = link r"
  by (simp add: chained_append)

text \<open>Two different contents with one digest.\<close>

definition collision :: "('p \<Rightarrow> 'h) \<Rightarrow> 'p set \<Rightarrow> bool" where
  "collision digest S \<longleftrightarrow> (\<exists>x \<in> S. \<exists>y \<in> S. x \<noteq> y \<and> digest x = digest y)"

lemma no_collisionD: "\<not> collision digest S \<Longrightarrow> x \<in> S \<Longrightarrow> y \<in> S \<Longrightarrow> digest x = digest y \<Longrightarrow> x = y"
  by (auto simp: collision_def)

lemma collision_mono: "collision digest S \<Longrightarrow> S \<subseteq> T \<Longrightarrow> collision digest T"
  by (auto simp: collision_def)

locale hash_chain =
  fixes prev :: "'r \<Rightarrow> 'h" and link :: "'r \<Rightarrow> 'h" and content :: "'r \<Rightarrow> 'p"
    and digest :: "'p \<Rightarrow> 'h" and genesis :: 'h and wf :: "'r \<Rightarrow> bool"
  assumes content_prev: "wf r \<Longrightarrow> wf r' \<Longrightarrow> content r = content r' \<Longrightarrow> prev r = prev r'"
begin

lemma tamper_evident:
  assumes "chained prev link (\<lambda>r. digest (content r)) genesis xs"
    and "chained prev link (\<lambda>r. digest (content r)) genesis ys"
    and "list_all wf xs" and "list_all wf ys"
    and "chain_head link genesis xs = chain_head link genesis ys"
    and "\<not> collision digest (content ` set (xs @ ys))"
    and "genesis \<notin> digest ` content ` set (xs @ ys)"
  shows "map content xs = map content ys"
  using assms
proof (induction xs arbitrary: ys rule: rev_induct)
  case Nil
  then show ?case
  proof (cases ys rule: rev_cases)
    case (snoc ys' y)
    have "digest (content y) = link y" "genesis = link y"
      using Nil.prems(2,5) snoc by (simp_all add: chained_snoc)
    then show ?thesis using Nil.prems(7) snoc by simp
  qed simp
next
  case (snoc x xs)
  show ?case
  proof (cases ys rule: rev_cases)
    case Nil
    have "digest (content x) = link x" "link x = genesis"
      using snoc.prems(1,5) Nil by (simp_all add: chained_snoc)
    then show ?thesis using snoc.prems(7) by simp
  next
    case ys: (snoc ys' y)
    have "digest (content x) = digest (content y)"
      using snoc.prems(1,2,5) ys by (simp add: chained_snoc)
    then have xy: "content x = content y"
      by (intro no_collisionD[OF snoc.prems(6)]) (simp_all add: ys)
    then have "prev x = prev y"
      using content_prev snoc.prems(3,4) ys by simp
    then have "chain_head link genesis xs = chain_head link genesis ys'"
      using snoc.prems(1,2) ys by (simp add: chained_snoc)
    moreover have "content ` set (xs @ ys') \<subseteq> content ` set ((xs @ [x]) @ ys)"
      using ys by auto
    then have "\<not> collision digest (content ` set (xs @ ys'))"
      using snoc.prems(6) collision_mono by blast
    moreover have "genesis \<notin> digest ` content ` set (xs @ ys')"
      using snoc.prems(7) ys by simp
    ultimately have "map content xs = map content ys'"
      using snoc.IH[of ys'] snoc.prems(1-4) ys by (simp add: chained_snoc)
    then show ?thesis using ys xy by simp
  qed
qed

lemma prefix_chained:
  "chained prev link (\<lambda>r. digest (content r)) h (xs @ ys) \<Longrightarrow>
   chained prev link (\<lambda>r. digest (content r)) h xs"
  by (simp add: chained_append)

end

section \<open>Texts joined by a separator\<close>

fun join_with :: "char \<Rightarrow> string list \<Rightarrow> string" where
  "join_with c [] = []"
| "join_with c [x] = x"
| "join_with c (x # xs) = x @ c # join_with c xs"

lemma append_sep_eq:
  assumes "x @ c # s = y @ c # t" and "c \<notin> set x" and "c \<notin> set y"
  shows "x = y \<and> s = t"
  using assms
proof (induction x arbitrary: y)
  case Nil
  then show ?case by (cases y) auto
next
  case (Cons a x)
  then show ?case by (cases y) auto
qed

lemma join_with_inj:
  "join_with c xs = join_with c ys \<Longrightarrow> length xs = length ys \<Longrightarrow>
   \<forall>x \<in> set xs. c \<notin> set x \<Longrightarrow> \<forall>y \<in> set ys. c \<notin> set y \<Longrightarrow> xs = ys"
proof (induction c xs arbitrary: ys rule: join_with.induct)
  case (2 c x)
  then show ?case by (cases ys) auto
next
  case (3 c x x' xs)
  then obtain y y' ys' where ys: "ys = y # y' # ys'"
    by (metis length_Suc_conv list.size(4))
  have "x @ c # join_with c (x' # xs) = y @ c # join_with c (y' # ys')"
    using 3(2) ys by simp
  moreover have "c \<notin> set x" "c \<notin> set y" using 3(4,5) ys by simp_all
  ultimately have xy: "x = y" "join_with c (x' # xs) = join_with c (y' # ys')"
    using append_sep_eq[of x c _ y] by blast+
  have "x' # xs = y' # ys'"
    by (rule 3(1)[OF xy(2)]) (use 3(3-5) ys in simp_all)
  then show ?case using xy ys by simp
qed simp

end
