(* ===== verification/Connector.thy ===== *)
theory Connector
  imports ConfigTypes PyValue
begin

text \<open>
  Connector manifests (shared/btagent_shared/types/connector.py): what an integration can do,
  and the policy each capability declares.  The descriptive fields (descriptions, credential
  type, transport, routing spec) are left out of the capability, except whether a routing spec
  is present.
\<close>

datatype cost_class = CHEAP | MODERATE | EXPENSIVE

fun cost_value :: "cost_class \<Rightarrow> string" where
  "cost_value CHEAP = ''cheap''"
| "cost_value MODERATE = ''moderate''"
| "cost_value EXPENSIVE = ''expensive''"

datatype blast_radius = NONE | SINGLE_USER | SINGLE_HOST | SUBNET | ORG | GLOBAL

datatype capability_kind = Query | Action | Stream

text \<open>OCSF event classes are the strings of the StrEnum.\<close>

definition ocsf_event_classes :: "string list" where
  "ocsf_event_classes =
     [''process_activity'', ''file_activity'', ''kernel_activity'', ''memory_activity'',
      ''module_activity'', ''detection_finding'', ''vulnerability_finding'',
      ''compliance_finding'', ''incident_finding'', ''authentication'', ''authorize_session'',
      ''entity_management'', ''user_inventory'', ''group_management'', ''network_activity'',
      ''http_activity'', ''dns_activity'', ''email_activity'', ''ssh_activity'',
      ''ntp_activity'', ''device_inventory'', ''device_config_state'', ''audit_activity'',
      ''api_activity'', ''application_lifecycle'', ''database_activity'',
      ''threat_intelligence'']"

record capability =
  cap_id :: string
  cap_kind :: capability_kind
  cap_ocsf_emits :: "string list"
  cap_tlp_egress :: tlp
  cap_cost_class :: cost_class
  cap_hitl_required :: bool
  cap_has_routing :: bool

text \<open>A capability with only its id given: the defaults of its kind.\<close>

definition default_capability :: "capability_kind \<Rightarrow> string \<Rightarrow> capability" where
  "default_capability k i =
     \<lparr> cap_id = i, cap_kind = k, cap_ocsf_emits = [], cap_tlp_egress = GREEN,
       cap_cost_class = CHEAP, cap_hitl_required = (k = Action), cap_has_routing = False \<rparr>"

record manifest =
  mf_name :: string
  mf_queries :: "capability list"
  mf_actions :: "capability list"
  mf_streams :: "capability list"

definition all_capabilities :: "manifest \<Rightarrow> capability list" where
  "all_capabilities m = mf_queries m @ mf_actions m @ mf_streams m"

definition capability_of :: "manifest \<Rightarrow> string \<Rightarrow> capability option" where
  "capability_of m i = find (\<lambda>c. cap_id c = i) (all_capabilities m)"

definition capabilities_emitting :: "manifest \<Rightarrow> string \<Rightarrow> capability list" where
  "capabilities_emitting m cls = filter (\<lambda>c. cls \<in> set (cap_ocsf_emits c)) (all_capabilities m)"

definition declarative_capabilities :: "manifest \<Rightarrow> capability list" where
  "declarative_capabilities m = filter cap_has_routing (all_capabilities m)"

lemma capability_of_SomeD:
  "capability_of m i = Some c \<Longrightarrow> c \<in> set (all_capabilities m) \<and> cap_id c = i"
  by (auto simp: capability_of_def dest: find_SomeD)

end
