(* ===== verification/Workflow.thy ===== *)
theory Workflow
  imports PyRuntime
begin

text \<open>
  The compiled workflow of engine/btagent_engine/compiler/workflow.py: a directed graph of
  step ids with labelled edges, and its lookups.
\<close>

type_synonym config = "(string \<times> pyval) list"

record workflow_edge =
  we_source :: string
  we_target :: string
  we_label :: string

record workflow_node =
  wn_step_id :: string
  wn_node_id :: string
  wn_name :: string
  wn_config :: config

record workflow =
  wf_name :: string
  wf_version :: string
  wf_description :: string
  wf_trigger :: config
  wf_nodes :: "workflow_node list"
  wf_edges :: "workflow_edge list"

definition wf_step :: "workflow \<Rightarrow> string \<Rightarrow> workflow_node option" where
  "wf_step w sid = find (\<lambda>n. wn_step_id n = sid) (wf_nodes w)"

definition out_edges :: "workflow \<Rightarrow> string \<Rightarrow> workflow_edge list" where
  "out_edges w sid = filter (\<lambda>e. we_source e = sid) (wf_edges w)"

definition in_edges :: "workflow \<Rightarrow> string \<Rightarrow> workflow_edge list" where
  "in_edges w sid = filter (\<lambda>e. we_target e = sid) (wf_edges w)"

definition wf_step_ids :: "workflow \<Rightarrow> string set" where
  "wf_step_ids w = wn_step_id ` set (wf_nodes w)"

text \<open>The graph as a relation: the edges whose two ends are steps.\<close>

definition step_graph :: "string set \<Rightarrow> workflow_edge list \<Rightarrow> (string \<times> string) set" where
  "step_graph V es = {(we_source e, we_target e) |e. e \<in> set es \<and> we_source e \<in> V \<and> we_target e \<in> V}"

lemma step_graph_iff:
  "(a, b) \<in> step_graph V es \<longleftrightarrow> a \<in> V \<and> b \<in> V \<and> (\<exists>e \<in> set es. we_source e = a \<and> we_target e = b)"
  by (auto simp: step_graph_def)

lemma step_graph_sub: "step_graph V es \<subseteq> V \<times> V"
  by (auto simp: step_graph_def)

lemma finite_step_graph: "finite V \<Longrightarrow> finite (step_graph V es)"
  by (rule finite_subset[OF step_graph_sub]) simp

lemma wf_step_SomeD: "wf_step w sid = Some n \<Longrightarrow> n \<in> set (wf_nodes w) \<and> wn_step_id n = sid"
  by (auto simp: wf_step_def dest: find_SomeD)

lemma wf_step_None_iff: "wf_step w sid = None \<longleftrightarrow> sid \<notin> wf_step_ids w"
  by (auto simp: wf_step_def wf_step_ids_def)

lemma wf_step_distinct:
  assumes "distinct (map wn_step_id (wf_nodes w))" and "n \<in> set (wf_nodes w)"
  shows "wf_step w (wn_step_id n) = Some n"
proof (cases "wf_step w (wn_step_id n)")
  case None
  then show ?thesis using assms(2) by (auto simp: wf_step_None_iff wf_step_ids_def)
next
  case (Some m)
  then show ?thesis
    using assms by (auto dest!: wf_step_SomeD simp: distinct_map dest: inj_onD)
qed

end
