(* ===== verification/Middleware.thy ===== *)
theory Middleware
  imports Connector Workflow
begin

text \<open>
  Nodes, their context and registry (engine/btagent_engine/node/) and the Runner that wraps
  a middleware chain around a node (engine/btagent_engine/middleware/base.py).  A node body
  is a parameter: a function of its input, the context and a world it may change.  Schema
  validation is part of the node record, since each node brings its own pydantic schema.
\<close>

section \<open>Nodes\<close>

datatype node_category = TRIGGER | INTEGRATION | REASONING | KNOWLEDGE | DECISION | DATA | OUTPUT

fun category_value :: "node_category \<Rightarrow> string" where
  "category_value TRIGGER = ''trigger''"
| "category_value INTEGRATION = ''integration''"
| "category_value REASONING = ''reasoning''"
| "category_value KNOWLEDGE = ''knowledge''"
| "category_value DECISION = ''decision''"
| "category_value DATA = ''data''"
| "category_value OUTPUT = ''output''"

record node_meta =
  nm_id :: string
  nm_name :: string
  nm_version :: string
  nm_category :: node_category

text \<open>
  The context: identifiers, classification, and of its metadata the two keys the gates read.
  The executor writes them before each node; no middleware does.
\<close>

record node_ctx =
  ctx_run_id :: string
  ctx_workflow_run_id :: "string option"
  ctx_investigation_id :: "string option"
  ctx_org_id :: string
  ctx_user_id :: "string option"
  ctx_tlp_level :: string
  ctx_current_step :: "string option"
  ctx_approved_steps :: "string list"

definition step_is_approved :: "node_ctx \<Rightarrow> bool" where
  "step_is_approved ctx \<longleftrightarrow>
     (case ctx_current_step ctx of None \<Rightarrow> False | Some s \<Rightarrow> s \<in> set (ctx_approved_steps ctx))"

text \<open>
  A node: its metadata and the manifest and capability its class declares, which is what the
  middleware looks at, then the validation of its input and output and its body.
\<close>

record node_info =
  nd_meta :: node_meta
  nd_manifest :: "manifest option"
  nd_capability_id :: "string option"

record ('w, 'e) node = node_info +
  nd_validate_in :: "config \<Rightarrow> ('e, config) res"
  nd_run :: "config \<Rightarrow> node_ctx \<Rightarrow> 'w \<Rightarrow> ('e, config) res \<times> 'w"
  nd_validate_out :: "config \<Rightarrow> ('e, config) res"

section \<open>The registry\<close>

text \<open>
  A process-wide dictionary from node id to class.  A class is its node record together with
  an identity, since Python compares classes by identity.
\<close>

datatype registry_error = NodeAlreadyRegisteredError string

type_synonym 'c registry = "(string \<times> 'c) list"

definition reg_register ::
  "('c \<Rightarrow> string) \<Rightarrow> 'c \<Rightarrow> 'c registry \<Rightarrow> (registry_error, 'c) res \<times> 'c registry" where
  "reg_register id_of c r =
     (case map_of r (id_of c) of
        Some old \<Rightarrow> if old \<noteq> c then (Inl (NodeAlreadyRegisteredError (id_of c)), r)
                    else (Inr c, dict_put (id_of c) c r)
      | None \<Rightarrow> (Inr c, dict_put (id_of c) c r))"

definition reg_unregister :: "string \<Rightarrow> 'c registry \<Rightarrow> 'c registry" where
  "reg_unregister i r = filter (\<lambda>kv. fst kv \<noteq> i) r"

definition reg_get :: "'c registry \<Rightarrow> string \<Rightarrow> 'c option" where
  "reg_get r i = map_of r i"

definition reg_all :: "'c registry \<Rightarrow> 'c registry" where
  "reg_all r = r"

definition reg_clear :: "'c registry \<Rightarrow> 'c registry" where
  "reg_clear r = []"

inductive registry_reachable :: "('c \<Rightarrow> string) \<Rightarrow> 'c registry \<Rightarrow> bool" for id_of where
  reg_empty: "registry_reachable id_of []"
| reg_add: "registry_reachable id_of r \<Longrightarrow> registry_reachable id_of (snd (reg_register id_of c r))"
| reg_remove: "registry_reachable id_of r \<Longrightarrow> registry_reachable id_of (reg_unregister i r)"
| reg_wipe: "registry_reachable id_of r \<Longrightarrow> registry_reachable id_of (reg_clear r)"

section \<open>Middleware and Runner\<close>

record ('w, 'e) middleware =
  mw_name :: string
  mw_before :: "node_info \<Rightarrow> config \<Rightarrow> node_ctx \<Rightarrow> 'w \<Rightarrow> ('e, unit) res \<times> 'w"
  mw_after :: "node_info \<Rightarrow> config \<Rightarrow> config \<Rightarrow> node_ctx \<Rightarrow> 'w \<Rightarrow> ('e, unit) res \<times> 'w"
  mw_on_error :: "node_info \<Rightarrow> config \<Rightarrow> 'e \<Rightarrow> node_ctx \<Rightarrow> 'w \<Rightarrow> ('e, unit) res \<times> 'w"

text \<open>The base class: every hook a no-op.\<close>

definition noop_middleware :: "string \<Rightarrow> ('w, 'e) middleware" where
  "noop_middleware n =
     \<lparr> mw_name = n, mw_before = (\<lambda>_ _ _ w. (Inr (), w)), mw_after = (\<lambda>_ _ _ _ w. (Inr (), w)),
       mw_on_error = (\<lambda>_ _ _ _ w. (Inr (), w)) \<rparr>"

text \<open>Awaiting hooks one after the other; the first that raises ends the loop.\<close>

fun run_hooks :: "('m \<Rightarrow> 'w \<Rightarrow> ('e, unit) res \<times> 'w) \<Rightarrow> 'm list \<Rightarrow> 'w \<Rightarrow> ('e, unit) res \<times> 'w" where
  "run_hooks h [] w = (Inr (), w)"
| "run_hooks h (m # ms) w =
     (case h m w of (Inl e, w') \<Rightarrow> (Inl e, w') | (Inr _, w') \<Rightarrow> run_hooks h ms w')"

definition runner_execute ::
  "('w, 'e) middleware list \<Rightarrow> ('w, 'e) node \<Rightarrow> config \<Rightarrow> node_ctx \<Rightarrow> 'w
     \<Rightarrow> ('e, config) res \<times> 'w" where
  "runner_execute mws n payload ctx w =
     (case nd_validate_in n payload of
        Inl e \<Rightarrow> (Inl e, w)
      | Inr inp \<Rightarrow>
         (case run_hooks (\<lambda>m. mw_before m (node_info.truncate n) inp ctx) mws w of
            (Inl e, w1) \<Rightarrow> (Inl e, w1)
          | (Inr _, w1) \<Rightarrow>
             (case nd_run n inp ctx w1 of
                (Inl e, w2) \<Rightarrow>
                  (case run_hooks (\<lambda>m. mw_on_error m (node_info.truncate n) inp e ctx) (rev mws) w2 of
                     (Inl e', w3) \<Rightarrow> (Inl e', w3)
                   | (Inr _, w3) \<Rightarrow> (Inl e, w3))
              | (Inr raw, w2) \<Rightarrow>
                  (case nd_validate_out n raw of
                     Inl e \<Rightarrow> (Inl e, w2)
                   | Inr out \<Rightarrow>
                      (case run_hooks (\<lambda>m. mw_after m (node_info.truncate n) inp out ctx) (rev mws) w2 of
                         (Inl e, w3) \<Rightarrow> (Inl e, w3)
                       | (Inr _, w3) \<Rightarrow> (Inr out, w3))))))"

section \<open>The registry keeps ids and classes in step\<close>

lemma reachable_registry_ids:
  "registry_reachable id_of r \<Longrightarrow> distinct (map fst r) \<and> (\<forall>(i, c) \<in> set r. id_of c = i)"
proof (induction rule: registry_reachable.induct)
  case (reg_add r c)
  have "id_of c' = i" if "(i, c') \<in> set (dict_put (id_of c) c r)" for i c'
  proof -
    have "map_of (dict_put (id_of c) c r) i = Some c'"
      using that reg_add.IH by (intro map_of_is_SomeI) (auto simp: distinct_update)
    then show ?thesis
      using reg_add.IH by (auto split: if_splits dest: map_of_SomeD)
  qed
  then show ?case
    using reg_add.IH by (auto simp: reg_register_def distinct_update split: option.splits)
qed (auto simp: reg_unregister_def reg_clear_def distinct_map_filter)

text \<open>In every reachable registry a node id resolves only to a class that declares it, and a
  registration either leaves the registry as it was with the documented error, when another
  class holds the id, or makes the class resolvable and changes no other id.\<close>

theorem registry_resolves_declared_ids:
  assumes "registry_reachable id_of r"
  shows "(reg_get r i = Some c \<longrightarrow> id_of c = i) \<and>
    (case reg_register id_of c r of
       (Inl e, r') \<Rightarrow> e = NodeAlreadyRegisteredError (id_of c) \<and> r' = r \<and>
                     (\<exists>old. reg_get r (id_of c) = Some old \<and> old \<noteq> c)
     | (Inr c', r') \<Rightarrow> c' = c \<and> reg_get r' = (reg_get r)(id_of c \<mapsto> c))"
  using reachable_registry_ids[OF assms]
  by (auto simp: reg_get_def reg_register_def fun_eq_iff split: option.splits dest: map_of_SomeD)

lemma registry_resolves_declared_ids_witness:
  "reg_get [(''n'', ''n'')] ''n'' = Some ''n'' \<and> id ''n'' = ''n''"
proof -
  have "registry_reachable id (snd (reg_register id ''n'' []))"
    by (intro reg_add reg_empty)
  then have "registry_reachable id [(''n'', ''n'')]" by (simp add: reg_register_def)
  from registry_resolves_declared_ids[OF this, of "''n''" "''n''"] show ?thesis
    by (simp add: reg_get_def)
qed

section \<open>The order of the hooks\<close>

text \<open>The same middlewares and node with a trace of the calls made.\<close>

datatype phase = Before string | Ran | After string | OnError string

definition traced :: "('w, 'e) middleware \<Rightarrow> ('w \<times> phase list, 'e) middleware" where
  "traced m =
     \<lparr> mw_name = mw_name m,
       mw_before = (\<lambda>n i c wt. apsnd (\<lambda>w. (w, snd wt @ [Before (mw_name m)])) (mw_before m n i c (fst wt))),
       mw_after = (\<lambda>n i out c wt. apsnd (\<lambda>w. (w, snd wt @ [After (mw_name m)])) (mw_after m n i out c (fst wt))),
       mw_on_error = (\<lambda>n i e c wt. apsnd (\<lambda>w. (w, snd wt @ [OnError (mw_name m)])) (mw_on_error m n i e c (fst wt))) \<rparr>"

definition traced_node :: "('w, 'e) node \<Rightarrow> ('w \<times> phase list, 'e) node" where
  "traced_node n =
     \<lparr> nd_meta = nd_meta n, nd_manifest = nd_manifest n, nd_capability_id = nd_capability_id n,
       nd_validate_in = nd_validate_in n,
       nd_run = (\<lambda>i c wt. apsnd (\<lambda>w. (w, snd wt @ [Ran])) (nd_run n i c (fst wt))),
       nd_validate_out = nd_validate_out n \<rparr>"

lemma traced_hooks:
  assumes "\<And>m w tr. h' m (w, tr) = apsnd (\<lambda>w'. (w', tr @ [ph m])) (h m w)"
  shows "run_hooks h' ms (w, tr) = (r, wt) \<Longrightarrow>
    run_hooks h ms w = (r, fst wt) \<and>
    (\<exists>k. snd wt = tr @ map ph (take k ms) \<and> (isl r \<or> k = length ms))"
proof (induction ms arbitrary: w tr)
  case Nil
  then show ?case by auto
next
  case (Cons m ms)
  obtain x w1 where x: "h m w = (x, w1)" by fastforce
  show ?case
  proof (cases x)
    case (Inl e)
    then show ?thesis using Cons.prems x assms[of m w tr] by (auto intro!: exI[of _ 1])
  next
    case (Inr u)
    then have "run_hooks h' ms (w1, tr @ [ph m]) = (r, wt)"
      using Cons.prems x assms[of m w tr] by simp
    from Cons.IH[OF this] obtain k where
      "run_hooks h ms w1 = (r, fst wt)" "snd wt = tr @ ph m # map ph (take k ms)"
      "isl r \<or> k = length ms" by auto
    then show ?thesis using x Inr by (auto intro!: exI[of _ "Suc k"])
  qed
qed

lemma traced_hooks_map:
  assumes "\<And>m w tr. h' (traced m) (w, tr) = apsnd (\<lambda>w'. (w', tr @ [ph (mw_name m)])) (h m w)"
    and "run_hooks h' (map traced ms) (w, tr) = (r, wt)"
  shows "run_hooks h ms w = (r, fst wt) \<and>
    (\<exists>k. snd wt = tr @ map ph (take k (map mw_name ms)) \<and> (isl r \<or> k = length ms))"
proof -
  have "run_hooks h' (map traced ms) wt0 = run_hooks (\<lambda>m. h' (traced m)) ms wt0" for wt0
    by (induction ms arbitrary: wt0) (auto split: sum.splits prod.splits)
  then show ?thesis
    using traced_hooks[of "\<lambda>m. h' (traced m)" "\<lambda>m. ph (mw_name m)" h ms w tr r wt] assms
    by (simp add: take_map comp_def)
qed

lemma traced_info [simp]: "node_info.truncate (traced_node n) = node_info.truncate n"
  by (simp add: traced_node_def node_info.defs)

definition runner_trace :: "string list \<Rightarrow> ('e, config) res \<Rightarrow> bool \<Rightarrow> phase list \<Rightarrow> bool" where
  "runner_trace ns r failed tr \<longleftrightarrow>
     (isl r \<and> (\<exists>k. tr = map Before (take k ns))) \<or>
     (isl r \<and> failed \<and> (\<exists>k. tr = map Before ns @ Ran # map OnError (take k (rev ns)))) \<or>
     (isl r \<and> \<not> failed \<and> (\<exists>k. tr = map Before ns @ Ran # map After (take k (rev ns)))) \<or>
     (\<not> isl r \<and> \<not> failed \<and> tr = map Before ns @ Ran # map After (rev ns))"

text \<open>Whether the node's body raises, when the run gets that far.\<close>

definition body_raises ::
  "('w, 'e) middleware list \<Rightarrow> ('w, 'e) node \<Rightarrow> config \<Rightarrow> node_ctx \<Rightarrow> 'w \<Rightarrow> bool" where
  "body_raises mws n payload ctx w =
     (case nd_validate_in n payload of
        Inl e \<Rightarrow> False
      | Inr inp \<Rightarrow> isl (fst (nd_run n inp ctx
          (snd (run_hooks (\<lambda>m. mw_before m (node_info.truncate n) inp ctx) mws w)))))"

lemma traced_before:
  "run_hooks (\<lambda>m. mw_before m ni i c) (map traced ms) (w, tr) = (r, wt) \<Longrightarrow>
   run_hooks (\<lambda>m. mw_before m ni i c) ms w = (r, fst wt) \<and>
   (\<exists>k. snd wt = tr @ map Before (take k (map mw_name ms)) \<and> (isl r \<or> k = length ms))"
  by (rule traced_hooks_map) (simp_all add: traced_def)

lemma traced_after:
  "run_hooks (\<lambda>m. mw_after m ni i out c) (rev (map traced ms)) (w, tr) = (r, wt) \<Longrightarrow>
   run_hooks (\<lambda>m. mw_after m ni i out c) (rev ms) w = (r, fst wt) \<and>
   (\<exists>k. snd wt = tr @ map After (take k (rev (map mw_name ms))) \<and> (isl r \<or> k = length ms))"
  using traced_hooks_map[of "\<lambda>m. mw_after m ni i out c" After "\<lambda>m. mw_after m ni i out c" "rev ms" w tr r wt]
  by (simp add: traced_def rev_map)

lemma traced_on_error:
  "run_hooks (\<lambda>m. mw_on_error m ni i e c) (rev (map traced ms)) (w, tr) = (r, wt) \<Longrightarrow>
   run_hooks (\<lambda>m. mw_on_error m ni i e c) (rev ms) w = (r, fst wt) \<and>
   (\<exists>k. snd wt = tr @ map OnError (take k (rev (map mw_name ms))) \<and> (isl r \<or> k = length ms))"
  using traced_hooks_map[of "\<lambda>m. mw_on_error m ni i e c" OnError "\<lambda>m. mw_on_error m ni i e c" "rev ms" w tr r wt]
  by (simp add: traced_def rev_map)

lemma runner_traced:
  assumes "runner_execute (map traced mws) (traced_node n) payload ctx (w, []) = (r, (w', tr))"
  shows "runner_execute mws n payload ctx w = (r, w') \<and>
         runner_trace (map mw_name mws) r (body_raises mws n payload ctx w) tr"
proof (cases "nd_validate_in n payload")
  case (Inl e)
  then have "r = Inl e" "w' = w" "tr = []"
    using assms by (simp_all add: runner_execute_def traced_node_def)
  then show ?thesis
    using Inl by (simp add: runner_execute_def runner_trace_def exI[of _ 0])
next
  case inp: (Inr inp)
  let ?ni = "node_info.truncate n" and ?ns = "map mw_name mws"
  note run = assms[unfolded runner_execute_def traced_info]
  obtain b w1 t1 where b: "run_hooks (\<lambda>m. mw_before m ?ni inp ctx) (map traced mws) (w, []) = (b, (w1, t1))"
    by (metis surj_pair)
  note tb = traced_before[OF b]
  show ?thesis
  proof (cases b)
    case (Inl e)
    then show ?thesis
      using run inp b tb by (auto simp: runner_execute_def traced_node_def runner_trace_def)
  next
    case (Inr u)
    then have t1: "t1 = map Before ?ns" and hb: "run_hooks (\<lambda>m. mw_before m ?ni inp ctx) mws w = (Inr u, w1)"
      using tb by auto
    obtain x w2 where x: "nd_run n inp ctx w1 = (x, w2)" by fastforce
    have failed: "body_raises mws n payload ctx w = isl x"
      using inp hb x by (simp add: body_raises_def)
    show ?thesis
    proof (cases x)
      case (Inl e)
      obtain y w3 t3 where y: "run_hooks (\<lambda>m. mw_on_error m ?ni inp e ctx) (rev (map traced mws)) (w2, t1 @ [Ran]) = (y, (w3, t3))"
        by (metis surj_pair)
      obtain k where k: "t3 = map Before ?ns @ Ran # map OnError (take k (rev ?ns))"
        using traced_on_error[OF y] t1 by auto
      have "isl r" "tr = t3" "runner_execute mws n payload ctx w = (r, w')"
        using run inp b Inr x Inl y traced_on_error[OF y] hb
        by (auto simp: runner_execute_def traced_node_def split: sum.splits)
      then show ?thesis using k failed Inl unfolding runner_trace_def by auto
    next
      case raw: (Inr raw)
      show ?thesis
      proof (cases "nd_validate_out n raw")
        case (Inl e)
        then have r: "r = Inl e" "tr = t1 @ [Ran]" "w' = w2"
          using run inp b Inr x raw by (simp_all add: traced_node_def)
        then have "runner_execute mws n payload ctx w = (r, w')"
          using inp hb x raw Inl by (simp add: runner_execute_def)
        then show ?thesis
          using r t1 failed raw unfolding runner_trace_def by (auto intro: exI[of _ 0])
      next
        case out: (Inr out)
        obtain y w3 t3 where y: "run_hooks (\<lambda>m. mw_after m ?ni inp out ctx) (rev (map traced mws)) (w2, t1 @ [Ran]) = (y, (w3, t3))"
          by (metis surj_pair)
        obtain k where k: "t3 = map Before ?ns @ Ran # map After (take k (rev ?ns))"
            "isl y \<or> k = length mws"
          using traced_after[OF y] t1 by auto
        have r: "r = (case y of Inl e \<Rightarrow> Inl e | Inr _ \<Rightarrow> Inr out)" "tr = t3" "w' = w3"
          using run inp b Inr x raw out y by (cases y; simp add: traced_node_def)+
        then have "runner_execute mws n payload ctx w = (r, w')"
          using inp hb x raw out traced_after[OF y] by (cases y) (simp_all add: runner_execute_def)
        moreover have "isl r \<longleftrightarrow> isl y" using r(1) by (cases y) simp_all
        ultimately show ?thesis using r(2) k failed raw unfolding runner_trace_def by auto
      qed
    qed
  qed
qed

text \<open>The Runner's hook order.  Tracing the calls changes nothing else, and the trace is one of
  four: a first part of the before hooks in registration order; all of them, the body that
  raised, and error hooks in reverse order; all of them, the body, and after hooks in reverse
  order up to one that raised; or, on success, all before hooks, the body, all after hooks in
  reverse.  So the body runs only behind every before hook, and error hooks run only when the
  body itself raised: never for an exception of a before or after hook.\<close>

theorem runner_hook_order:
  "case runner_execute (map traced mws) (traced_node n) payload ctx (w, []) of (r, (w', tr)) \<Rightarrow>
     runner_execute mws n payload ctx w = (r, w') \<and>
     runner_trace (map mw_name mws) r (body_raises mws n payload ctx w) tr"
proof -
  obtain r w' tr where "runner_execute (map traced mws) (traced_node n) payload ctx (w, []) = (r, (w', tr))"
    by (metis surj_pair)
  then show ?thesis using runner_traced by fastforce
qed

text \<open>Without the trace: the body runs only if every before hook returned.\<close>

lemma runner_blocked:
  assumes "nd_validate_in n payload = Inr inp"
    and "run_hooks (\<lambda>m. mw_before m (node_info.truncate n) inp ctx) mws w = (Inl e, w')"
  shows "runner_execute mws n payload ctx w = (Inl e, w')"
  using assms by (simp add: runner_execute_def)

lemma run_hooks_passed:
  "run_hooks h ms w = (Inr u, w') \<Longrightarrow> m \<in> set ms \<Longrightarrow> \<exists>w1 w2. h m w1 = (Inr (), w2)"
  by (induction ms arbitrary: w) (auto split: prod.splits sum.splits)

section \<open>Gates\<close>

text \<open>
  A gate is a before hook that returns only when it permits the run.  What it permits may depend
  on a part of the world, its view, which the other hooks of the chain leave alone.
\<close>

locale gate =
  fixes hook :: "node_info \<Rightarrow> config \<Rightarrow> node_ctx \<Rightarrow> 'w \<Rightarrow> ('e, unit) res \<times> 'w"
    and view :: "'w \<Rightarrow> 'v"
    and permits :: "node_info \<Rightarrow> config \<Rightarrow> node_ctx \<Rightarrow> 'v \<Rightarrow> bool"
  assumes lets_pass: "hook n i c w = (Inr u, w') \<Longrightarrow> permits n i c (view w)"
begin

lemma passed_permits:
  assumes "run_hooks (\<lambda>m. mw_before m n i c) mws w = (Inr u, w')"
    and "m \<in> set mws" "mw_before m = hook"
    and "\<And>m w. m \<in> set mws \<Longrightarrow> view (snd (mw_before m n i c w)) = view w"
  shows "permits n i c (view w)"
  using assms
proof (induction mws arbitrary: w)
  case (Cons x mws)
  obtain r w1 where x: "mw_before x n i c w = (r, w1)" by fastforce
  have w1: "view w1 = view w" using Cons.prems(4)[of x w] x by simp
  have rest: "run_hooks (\<lambda>m. mw_before m n i c) mws w1 = (Inr u, w')" and "r = Inr ()"
    using Cons.prems(1) x by (auto split: sum.splits)
  show ?case
  proof (cases "m = x")
    case True
    then show ?thesis using lets_pass Cons.prems(3) x \<open>r = Inr ()\<close> by simp
  next
    case False
    then show ?thesis using Cons.IH[OF rest] Cons.prems w1 by simp
  qed
qed simp

text \<open>A chain that holds the gate never starts the body of a run the gate does not permit: the
  run fails, and its result and the state it leaves do not depend on the body.\<close>

lemma blocks_body:
  assumes "m \<in> set mws" "mw_before m = hook" and "nd_validate_in n payload = Inr inp"
    and "\<not> permits (node_info.truncate n) inp ctx (view w)"
    and "\<And>m w. m \<in> set mws \<Longrightarrow> view (snd (mw_before m (node_info.truncate n) inp ctx w)) = view w"
  shows "isl (fst (runner_execute mws n payload ctx w)) \<and>
    runner_execute mws (n\<lparr>nd_run := body\<rparr>) payload ctx w = runner_execute mws n payload ctx w"
proof -
  obtain e w' where blocked: "run_hooks (\<lambda>m. mw_before m (node_info.truncate n) inp ctx) mws w = (Inl e, w')"
    using passed_permits[OF _ assms(1,2,5)] assms(4) by (metis obj_sumE surj_pair)
  have "runner_execute mws n payload ctx w = (Inl e, w')" by (rule runner_blocked[OF assms(3) blocked])
  moreover have "runner_execute mws (n\<lparr>nd_run := body\<rparr>) payload ctx w = (Inl e, w')"
    by (rule runner_blocked) (use assms(3) blocked in \<open>simp_all add: node_info.defs\<close>)
  ultimately show ?thesis by simp
qed

end

end
