(* ===== verification/Hitl.thy ===== *)
theory Hitl
  imports Middleware
begin

text \<open>
  Human-in-the-loop gates of engine/btagent_engine/middleware/hitl.py: the autonomy table, the
  containment tokens, and the two middlewares that pause a run, with the exceptions the engine
  raises.  Exception messages are left out where the fields determine them.
\<close>

section \<open>Exceptions of the engine\<close>

datatype engine_exn =
    HITLPause string autonomy_level autonomy_level
  | HITLGatePause string string string
  | PendingHITLApproval string string
  | ConnectorPolicyViolation string
  | OCSFContractViolation string "string list"
  | NestedWorkflowError "string option" string
  | NodeException string
  | NodeBaseException string

section \<open>The autonomy table\<close>

definition node_autonomy_map :: "(string \<times> string) list" where
  "node_autonomy_map =
     [(''splunk'', ''siem_query''), (''elastic'', ''siem_query''), (''sentinelone'', ''edr_query''),
      (''sentinel'', ''siem_query''), (''siem'', ''siem_query''), (''crowdstrike'', ''edr_query''),
      (''defender'', ''edr_query''), (''carbon_black'', ''edr_query''), (''edr'', ''edr_query''),
      (''virustotal'', ''cti_lookup''), (''misp'', ''cti_lookup''), (''otx'', ''cti_lookup''),
      (''abuse'', ''cti_lookup''), (''greynoise'', ''cti_lookup''), (''shodan'', ''cti_lookup''),
      (''cti'', ''cti_lookup''), (''isolate'', ''host_isolation''),
      (''quarantine'', ''host_isolation''), (''contain'', ''host_isolation''),
      (''mitigate'', ''host_isolation''), (''firewall'', ''firewall_rule''),
      (''block_ip'', ''firewall_rule''), (''block_domain'', ''firewall_rule''),
      (''disable_account'', ''account_disable''), (''disable_user'', ''account_disable''),
      (''lock_account'', ''account_disable''), (''playbook'', ''playbook_execution''),
      (''soar'', ''playbook_execution'')]"

definition always_gate_categories :: "string list" where
  "always_gate_categories = [''host_isolation'', ''firewall_rule'', ''account_disable'']"

definition containment_tokens :: "string list" where
  "containment_tokens = map fst (filter (\<lambda>tf. snd tf \<in> set always_gate_categories) node_autonomy_map)"

definition is_containment_node :: "string \<Rightarrow> bool" where
  "is_containment_node nid \<longleftrightarrow> list_ex (\<lambda>tok. substring tok (lower nid)) containment_tokens"

text \<open>\<^verbatim>\<open>getattr(integration_autonomy, field_name)\<close>, on the names of the map.\<close>

definition autonomy_field :: "integration_autonomy \<Rightarrow> string \<Rightarrow> autonomy_level" where
  "autonomy_field ia f =
     (if f = ''siem_query'' then siem_query ia
      else if f = ''edr_query'' then edr_query ia
      else if f = ''cti_lookup'' then cti_lookup ia
      else if f = ''host_isolation'' then host_isolation ia
      else if f = ''firewall_rule'' then firewall_rule ia
      else if f = ''account_disable'' then account_disable ia
      else playbook_execution ia)"

definition resolve_node_autonomy :: "string \<Rightarrow> integration_autonomy \<Rightarrow> autonomy_level" where
  "resolve_node_autonomy nid ia =
     (case find (\<lambda>tf. substring (fst tf) (lower nid)) node_autonomy_map of
        Some tf \<Rightarrow> autonomy_field ia (snd tf)
      | None \<Rightarrow> L2_SUPERVISED)"

definition level_order :: "autonomy_level list" where
  "level_order = [L0_MANUAL, L1_ASSISTED, L2_SUPERVISED, L3_AUTONOMOUS, L4_FULL_AUTO]"

text \<open>\<^verbatim>\<open>tuple.index\<close>.\<close>

fun index_in :: "'a list \<Rightarrow> 'a \<Rightarrow> nat" where
  "index_in [] x = 0"
| "index_in (y # ys) x = (if x = y then 0 else Suc (index_in ys x))"

definition level_index :: "autonomy_level \<Rightarrow> nat" where
  "level_index l = index_in level_order l"

definition requires_approval :: "string \<Rightarrow> autonomy_level \<Rightarrow> integration_autonomy \<Rightarrow> bool" where
  "requires_approval nid agent ia =
     (if is_containment_node nid then True
      else
        let nl = resolve_node_autonomy nid ia in
        if agent = L0_MANUAL then True
        else if agent = L1_ASSISTED then level_index nl < level_index L3_AUTONOMOUS
        else if agent = L2_SUPERVISED then level_index nl \<le> level_index L1_ASSISTED
        else nl = L0_MANUAL)"

section \<open>The middlewares\<close>

definition hitl_before ::
  "autonomy_level \<Rightarrow> integration_autonomy \<Rightarrow> node_info \<Rightarrow> config \<Rightarrow> node_ctx \<Rightarrow> 'w
     \<Rightarrow> (engine_exn, unit) res \<times> 'w" where
  "hitl_before agent ia n inp ctx w =
     (if nm_category (nd_meta n) \<noteq> INTEGRATION then (Inr (), w)
      else if step_is_approved ctx then (Inr (), w)
      else if \<not> requires_approval (nm_id (nd_meta n)) agent ia then (Inr (), w)
      else (Inl (HITLPause (nm_id (nd_meta n)) (resolve_node_autonomy (nm_id (nd_meta n)) ia) agent), w))"

definition hitl_middleware ::
  "autonomy_level \<Rightarrow> integration_autonomy \<Rightarrow> ('w, engine_exn) middleware" where
  "hitl_middleware agent ia = (noop_middleware ''hitl'')\<lparr>mw_before := hitl_before agent ia\<rparr>"

text \<open>\<^verbatim>\<open>getattr(input, name, "") or default\<close> on a string field.\<close>

definition text_or :: "config \<Rightarrow> string \<Rightarrow> string \<Rightarrow> string" where
  "text_or c k d = (case map_of c k of Some (PStr s) \<Rightarrow> if s = [] then d else s | _ \<Rightarrow> d)"

definition gate_node_id :: string where "gate_node_id = ''decision.hitl_gate''"

definition hitl_gate_before ::
  "node_info \<Rightarrow> config \<Rightarrow> node_ctx \<Rightarrow> 'w \<Rightarrow> (engine_exn, unit) res \<times> 'w" where
  "hitl_gate_before n inp ctx w =
     (if nm_id (nd_meta n) \<noteq> gate_node_id then (Inr (), w)
      else if step_is_approved ctx then (Inr (), w)
      else (Inl (HITLGatePause (nm_id (nd_meta n)) (text_or inp ''required_role'' ''senior_analyst'')
                   (text_or inp ''prompt'' [])), w))"

definition hitl_gate_middleware :: "('w, engine_exn) middleware" where
  "hitl_gate_middleware = (noop_middleware ''hitl_gate'')\<lparr>mw_before := hitl_gate_before\<rparr>"

section \<open>Lemmas\<close>

lemma level_index_simps [simp]:
  "level_index L0_MANUAL = 0" "level_index L1_ASSISTED = 1" "level_index L2_SUPERVISED = 2"
  "level_index L3_AUTONOMOUS = 3" "level_index L4_FULL_AUTO = 4"
  by (simp_all add: level_index_def level_order_def)

lemma level_index_0 [simp]: "level_index l = 0 \<longleftrightarrow> l = L0_MANUAL"
  by (cases l) simp_all

lemma requires_approval_table:
  "requires_approval nid agent ia \<longleftrightarrow>
     is_containment_node nid \<or>
     level_index (resolve_node_autonomy nid ia) <
       (case agent of L0_MANUAL \<Rightarrow> 5 | L1_ASSISTED \<Rightarrow> 3 | L2_SUPERVISED \<Rightarrow> 2 | _ \<Rightarrow> 1)"
  by (cases agent; cases "resolve_node_autonomy nid ia") (simp_all add: requires_approval_def)

lemma containment_iff:
  "is_containment_node nid \<longleftrightarrow>
     (\<exists>tok f. (tok, f) \<in> set node_autonomy_map \<and> f \<in> set always_gate_categories \<and> substring tok (lower nid))"
  by (auto simp: is_containment_node_def containment_tokens_def list_ex_iff)

text \<open>The field names in the map are fields of the record, so no lookup falls through.\<close>

lemma node_autonomy_map_fields:
  "snd ` set node_autonomy_map \<subseteq>
     {''siem_query'', ''edr_query'', ''cti_lookup'', ''host_isolation'', ''firewall_rule'',
      ''account_disable'', ''playbook_execution''}"
  by (simp add: node_autonomy_map_def)

section \<open>Properties\<close>

text \<open>The approval policy is its table and nothing else: containment always needs a human;
  otherwise the integration's level must reach the level the agent's autonomy asks for (all
  levels are too low for L0, L3 for L1, L2 for L2, L1 for L3 and L4).  More agent autonomy
  never adds an approval.\<close>

theorem requires_approval_policy:
  "(requires_approval nid agent ia \<longleftrightarrow>
      is_containment_node nid \<or>
      level_index (resolve_node_autonomy nid ia) <
        (case agent of L0_MANUAL \<Rightarrow> 5 | L1_ASSISTED \<Rightarrow> 3 | L2_SUPERVISED \<Rightarrow> 2 | _ \<Rightarrow> 1)) \<and>
   \<not> (requires_approval nid agent ia \<and> level_index agent' \<le> level_index agent \<and>
      \<not> requires_approval nid agent' ia)"
  unfolding requires_approval_table by (cases agent; cases agent') auto

lemma hitl_before_passes:
  "hitl_before agent ia n inp ctx w = (Inr u, w') \<longleftrightarrow>
     w' = w \<and> \<not> (nm_category (nd_meta n) = INTEGRATION \<and> \<not> step_is_approved ctx \<and>
                  requires_approval (nm_id (nd_meta n)) agent ia)"
  by (auto simp: hitl_before_def)

lemma hitl_gate_before_passes:
  "hitl_gate_before n inp ctx w = (Inr u, w') \<longleftrightarrow>
     w' = w \<and> \<not> (nm_id (nd_meta n) = gate_node_id \<and> \<not> step_is_approved ctx)"
  by (auto simp: hitl_gate_before_def)

lemma hitl_before_hook [simp]: "mw_before (hitl_middleware agent ia) = hitl_before agent ia"
  by (simp add: hitl_middleware_def)

lemma hitl_gate_before_hook [simp]: "mw_before hitl_gate_middleware = hitl_gate_before"
  by (simp add: hitl_gate_middleware_def)

definition autonomy_permits ::
  "autonomy_level \<Rightarrow> integration_autonomy \<Rightarrow> node_info \<Rightarrow> config \<Rightarrow> node_ctx \<Rightarrow> unit \<Rightarrow> bool" where
  "autonomy_permits agent ia n inp ctx u \<longleftrightarrow>
     \<not> (nm_category (nd_meta n) = INTEGRATION \<and> requires_approval (nm_id (nd_meta n)) agent ia) \<or>
     step_is_approved ctx"

definition step_permits :: "node_info \<Rightarrow> config \<Rightarrow> node_ctx \<Rightarrow> unit \<Rightarrow> bool" where
  "step_permits n inp ctx u \<longleftrightarrow> nm_id (nd_meta n) \<noteq> gate_node_id \<or> step_is_approved ctx"

interpretation hitl: gate "hitl_before agent ia" "\<lambda>_. ()" "autonomy_permits agent ia" for agent ia
  by unfold_locales (auto simp: hitl_before_passes autonomy_permits_def)

interpretation hitl_step: gate hitl_gate_before "\<lambda>_. ()" step_permits
  by unfold_locales (auto simp: hitl_gate_before_passes step_permits_def)

end
