(* ===== verification/ConnectorPolicy.thy ===== *)
theory ConnectorPolicy
  imports Hitl TlpPolicy
begin

text \<open>
  The manifest-driven policy middleware (engine/btagent_engine/middleware/connector_policy.py)
  and the check of declared against observed event classes that runs after it
  (middleware/ocsf_normalize.py).  The metadata bag of the context, which these two write, is a
  field of the world.
\<close>

record engine_world =
  ew_metadata :: "(string \<times> pyval) list"

definition capability_id_key :: string where "capability_id_key = ''connector.capability_id''"
definition cost_class_key :: string where "cost_class_key = ''connector.cost_class''"
definition manifest_name_key :: string where "manifest_name_key = ''connector.name''"
definition ocsf_summary_key :: string where "ocsf_summary_key = ''connector.ocsf_summary''"

fun tlp_order :: "tlp \<Rightarrow> nat" where
  "tlp_order WHITE = 0"
| "tlp_order GREEN = 1"
| "tlp_order AMBER = 2"
| "tlp_order AMBER_STRICT = 3"
| "tlp_order RED = 4"

definition tlp_allows :: "tlp \<Rightarrow> tlp \<Rightarrow> bool" where
  "tlp_allows capability_max active \<longleftrightarrow> tlp_order active \<le> tlp_order capability_max"

text \<open>Which capability a node stands for: the input, the class, or the only one there is.\<close>

definition resolve_capability :: "manifest \<Rightarrow> node_info \<Rightarrow> config \<Rightarrow> capability option" where
  "resolve_capability m n inp =
     (let fall =
        (case nd_capability_id n of
           Some i \<Rightarrow> capability_of m i
         | None \<Rightarrow>
             if length (mf_queries m) + length (mf_actions m) + length (mf_streams m) = 1 then
               (case mf_queries m of c # _ \<Rightarrow> Some c
                | [] \<Rightarrow> (case mf_actions m of c # _ \<Rightarrow> Some c
                        | [] \<Rightarrow> (case mf_streams m of c # _ \<Rightarrow> Some c | [] \<Rightarrow> None)))
             else None)
      in case map_of inp ''_capability_id'' of
           None \<Rightarrow> fall
         | Some PNone \<Rightarrow> fall
         | Some (PStr i) \<Rightarrow> capability_of m i
         | Some _ \<Rightarrow> None)"

definition policy_before ::
  "tlp option \<Rightarrow> node_info \<Rightarrow> config \<Rightarrow> node_ctx \<Rightarrow> 'a engine_world_scheme
     \<Rightarrow> (engine_exn, unit) res \<times> 'a engine_world_scheme" where
  "policy_before active_tlp n inp ctx w =
     (case nd_manifest n of
        None \<Rightarrow> (Inr (), w)
      | Some m \<Rightarrow>
         (case resolve_capability m n inp of
            None \<Rightarrow> (Inl (ConnectorPolicyViolation ''no capability resolved''), w)
          | Some c \<Rightarrow>
             let active = (case active_tlp of None \<Rightarrow> RED | Some t \<Rightarrow> t) in
             if \<not> tlp_allows (cap_tlp_egress c) active
             then (Inl (ConnectorPolicyViolation ''tlp egress refused''), w)
             else if cap_hitl_required c \<and> \<not> step_is_approved ctx
             then (Inl (PendingHITLApproval (cap_id c) (mf_name m)), w)
             else (Inr (), w\<lparr>ew_metadata :=
               dict_put cost_class_key (PStr (cost_value (cap_cost_class c)))
                 (dict_put capability_id_key (PStr (cap_id c))
                   (dict_put manifest_name_key (PStr (mf_name m)) (ew_metadata w)))\<rparr>)))"

definition policy_middleware :: "tlp option \<Rightarrow> ('a engine_world_scheme, engine_exn) middleware" where
  "policy_middleware t = (noop_middleware ''connector_policy'')\<lparr>mw_before := policy_before t\<rparr>"

section \<open>Observed event classes\<close>

fun str_of :: "pyval \<Rightarrow> string option" where
  "str_of (PStr s) = Some s"
| "str_of v = None"

text \<open>\<^verbatim>\<open>list(dict.fromkeys(xs))\<close>: the first occurrences, in order.\<close>

fun dedupe :: "'a list \<Rightarrow> 'a list" where
  "dedupe [] = []"
| "dedupe (x # xs) = x # filter (\<lambda>y. y \<noteq> x) (dedupe xs)"

fun event_class :: "pyval \<Rightarrow> string option" where
  "event_class (PDict d) = (case get_str d ''class'' of Some v \<Rightarrow> str_of v | None \<Rightarrow> None)"
| "event_class v = None"

definition extract_ocsf_claims :: "config \<Rightarrow> string list" where
  "extract_ocsf_claims out =
     dedupe
       ((case map_of out ''ocsf_event_class'' of Some (PStr s) \<Rightarrow> [s] | _ \<Rightarrow> []) @
        (case map_of out ''ocsf_emits'' of Some (PList cs) \<Rightarrow> List.map_filter str_of cs | _ \<Rightarrow> []) @
        (case map_of out ''events'' of Some (PList es) \<Rightarrow> List.map_filter event_class es | _ \<Rightarrow> []))"

definition parse_ocsf :: "string \<Rightarrow> string option" where
  "parse_ocsf s = enum_of_string ocsf_event_classes (\<lambda>c. c) s"

definition claim_observed :: "string list \<Rightarrow> string \<Rightarrow> bool" where
  "claim_observed declared claim =
     (case parse_ocsf claim of None \<Rightarrow> False | Some c \<Rightarrow> c \<in> set declared)"

definition ocsf_summary :: "string \<Rightarrow> string \<Rightarrow> string list \<Rightarrow> string list \<Rightarrow> string list \<Rightarrow> pyval" where
  "ocsf_summary conn cap declared observed undeclared =
     PDict [(PStr ''connector'', PStr conn), (PStr ''capability'', PStr cap),
       (PStr ''declared'', PList (map PStr declared)),
       (PStr ''observed'', PList (map PStr (dedupe observed))),
       (PStr ''undeclared_seen'', PList (map PStr undeclared))]"

definition ocsf_after ::
  "node_info \<Rightarrow> config \<Rightarrow> config \<Rightarrow> node_ctx \<Rightarrow> 'a engine_world_scheme
     \<Rightarrow> (engine_exn, unit) res \<times> 'a engine_world_scheme" where
  "ocsf_after n inp out ctx w =
     (case (nd_manifest n, map_of (ew_metadata w) capability_id_key) of
        (Some m, Some (PStr i)) \<Rightarrow>
          (case capability_of m i of
             None \<Rightarrow> (Inr (), w)
           | Some c \<Rightarrow>
              if cap_ocsf_emits c = [] then (Inr (), w)
              else
                let claims = extract_ocsf_claims out;
                    observed = filter (claim_observed (cap_ocsf_emits c)) claims;
                    undeclared = filter (\<lambda>x. \<not> claim_observed (cap_ocsf_emits c) x) claims;
                    conn = (case map_of (ew_metadata w) manifest_name_key of
                              Some (PStr s) \<Rightarrow> if s = [] then mf_name m else s | _ \<Rightarrow> mf_name m);
                    w' = w\<lparr>ew_metadata := dict_put ocsf_summary_key
                           (ocsf_summary conn i (cap_ocsf_emits c) observed undeclared) (ew_metadata w)\<rparr>
                in if undeclared \<noteq> [] then (Inl (OCSFContractViolation (mf_name m) undeclared), w')
                   else (Inr (), w'))
      | _ \<Rightarrow> (Inr (), w))"

definition ocsf_middleware :: "('a engine_world_scheme, engine_exn) middleware" where
  "ocsf_middleware = (noop_middleware ''ocsf_normalizer'')\<lparr>mw_after := ocsf_after\<rparr>"

section \<open>Lemmas\<close>

lemma tlp_order_rank [simp]: "tlp_order = tlp_rank"
proof
  show "tlp_order t = tlp_rank t" for t by (cases t) simp_all
qed

lemma tlp_allows_le: "tlp_allows mx active \<longleftrightarrow> active \<le> mx"
  by (simp add: tlp_allows_def less_eq_tlp_def)

lemma set_dedupe [simp]: "set (dedupe xs) = set xs"
  by (induction xs) auto

lemma distinct_dedupe [simp]: "distinct (dedupe xs)"
  by (induction xs) auto

lemma set_map_filter: "set (List.map_filter f xs) = {y. \<exists>x \<in> set xs. f x = Some y}"
  by (induction xs) (auto simp: List.map_filter_def split: option.splits)

lemma policy_before_hook [simp]: "mw_before (policy_middleware t) = policy_before t"
  by (simp add: policy_middleware_def)

lemma ocsf_after_hook [simp]: "mw_after ocsf_middleware = ocsf_after"
  by (simp add: ocsf_middleware_def)

lemma noop_hooks [simp]:
  "mw_before (noop_middleware s) = (\<lambda>_ _ _ w. (Inr (), w))"
  "mw_after (noop_middleware s) = (\<lambda>_ _ _ _ w. (Inr (), w))"
  "mw_on_error (noop_middleware s) = (\<lambda>_ _ _ _ w. (Inr (), w))"
  by (simp_all add: noop_middleware_def)

text \<open>When the policy lets a node with a manifest run.\<close>

lemma policy_before_passes:
  assumes "nd_manifest n = Some m"
  shows "(\<exists>w'. policy_before t n inp ctx w = (Inr (), w')) \<longleftrightarrow>
    (\<exists>c. resolve_capability m n inp = Some c \<and>
       (case t of None \<Rightarrow> RED | Some a \<Rightarrow> a) \<le> cap_tlp_egress c \<and>
       \<not> (cap_hitl_required c \<and> \<not> step_is_approved ctx))"
  using assms by (auto simp: policy_before_def tlp_allows_le Let_def split: option.splits)

definition policy_permits :: "tlp option \<Rightarrow> node_info \<Rightarrow> config \<Rightarrow> node_ctx \<Rightarrow> unit \<Rightarrow> bool" where
  "policy_permits t n inp ctx u \<longleftrightarrow>
     (case nd_manifest n of
        None \<Rightarrow> True
      | Some m \<Rightarrow> \<exists>c. resolve_capability m n inp = Some c \<and>
          (case t of None \<Rightarrow> RED | Some a \<Rightarrow> a) \<le> cap_tlp_egress c \<and>
          (\<not> cap_hitl_required c \<or> step_is_approved ctx))"

interpretation connector_policy: gate "policy_before t" "\<lambda>_. ()" "policy_permits t" for t
proof
  show "policy_permits t n i c ()" if "policy_before t n i c w = (Inr u, w')" for n i c w u w'
    using that policy_before_passes[of n _ t i c w]
    by (fastforce simp: policy_permits_def split: option.split)
qed

lemma resolve_capability_in:
  "resolve_capability m n inp = Some c \<Longrightarrow> c \<in> set (all_capabilities m)"
  by (auto simp: resolve_capability_def Let_def all_capabilities_def
      dest!: capability_of_SomeD[unfolded all_capabilities_def]
      split: option.splits pyval.splits list.splits if_splits)

section \<open>Properties\<close>

text \<open>What the connector policy decides for a node with a manifest: it runs exactly when a
  capability of the manifest is resolved, the active classification (RED when none is set) is
  at most the capability's egress level, and the capability needs no human or the step was
  approved.  An approval never lifts the egress check, and a refusal leaves the metadata as it
  was.\<close>

theorem connector_policy_decides:
  "case nd_manifest n of
     None \<Rightarrow> policy_before t n inp ctx w = (Inr (), w)
   | Some m \<Rightarrow>
      (case policy_before t n inp ctx w of
         (Inr _, w') \<Rightarrow>
           \<exists>c. resolve_capability m n inp = Some c \<and> c \<in> set (all_capabilities m) \<and>
             (case t of None \<Rightarrow> RED | Some a \<Rightarrow> a) \<le> cap_tlp_egress c \<and>
             \<not> (cap_hitl_required c \<and> \<not> step_is_approved ctx) \<and>
             map_of (ew_metadata w') capability_id_key = Some (PStr (cap_id c))
       | (Inl (PendingHITLApproval i nm), w') \<Rightarrow>
           w' = w \<and> nm = mf_name m \<and> \<not> step_is_approved ctx \<and>
           (\<exists>c. resolve_capability m n inp = Some c \<and> cap_id c = i \<and> cap_hitl_required c \<and>
              (case t of None \<Rightarrow> RED | Some a \<Rightarrow> a) \<le> cap_tlp_egress c)
       | (Inl (ConnectorPolicyViolation r), w') \<Rightarrow>
           w' = w \<and> \<not> (\<exists>c. resolve_capability m n inp = Some c \<and>
              (case t of None \<Rightarrow> RED | Some a \<Rightarrow> a) \<le> cap_tlp_egress c)
       | _ \<Rightarrow> False)"
  by (auto simp: policy_before_def tlp_allows_le Let_def resolve_capability_in
      capability_id_key_def cost_class_key_def manifest_name_key_def split: option.splits)

text \<open>After the policy let a node run, the event classes its output claims are all declared by
  the capability, or the run fails with the contract violation that names exactly the claims
  that are not declared.\<close>

theorem ocsf_claims_declared:
  assumes "policy_before t n inp ctx w = (Inr (), w1)" and "nd_manifest n = Some m"
    and "resolve_capability m n inp = Some c" and "capability_of m (cap_id c) = Some c"
    and "cap_ocsf_emits c \<noteq> []"
  shows "case ocsf_after n inp out ctx w1 of
     (Inr _, _) \<Rightarrow> set (extract_ocsf_claims out) \<subseteq> set (cap_ocsf_emits c) \<inter> set ocsf_event_classes
   | (Inl e, _) \<Rightarrow> (\<exists>bad. e = OCSFContractViolation (mf_name m) bad \<and> bad \<noteq> [] \<and>
       set bad = set (extract_ocsf_claims out) - (set (cap_ocsf_emits c) \<inter> set ocsf_event_classes))"
proof -
  have key: "map_of (ew_metadata w1) capability_id_key = Some (PStr (cap_id c))"
    using assms(1-3) by (auto simp: policy_before_def Let_def capability_id_key_def
        cost_class_key_def manifest_name_key_def split: if_splits)
  have obs: "claim_observed ds x \<longleftrightarrow> x \<in> set ds \<inter> set ocsf_event_classes" for ds x
    by (auto simp: claim_observed_def parse_ocsf_def enum_of_string_def find_Some_iff
        split: option.splits dest!: find_SomeD)
  show ?thesis
    using key assms(2,4,5)
    by (auto simp: ocsf_after_def Let_def obs filter_empty_conv)
qed

section \<open>A sample connector\<close>

definition sample_capability :: capability where
  "sample_capability = (default_capability Query ''search'')\<lparr>cap_ocsf_emits := [''authentication'']\<rparr>"

definition sample_manifest :: manifest where
  "sample_manifest = \<lparr> mf_name = ''siem'', mf_queries = [sample_capability], mf_actions = [], mf_streams = [] \<rparr>"

definition sample_info :: node_info where
  "sample_info = \<lparr> nd_meta = \<lparr> nm_id = ''siem.search'', nm_name = [], nm_version = [], nm_category = INTEGRATION \<rparr>,
     nd_manifest = Some sample_manifest, nd_capability_id = None \<rparr>"

definition sample_ctx :: node_ctx where
  "sample_ctx = \<lparr> ctx_run_id = ''r'', ctx_workflow_run_id = None, ctx_investigation_id = None,
     ctx_org_id = ''o'', ctx_user_id = None, ctx_tlp_level = ''green'', ctx_current_step = None,
     ctx_approved_steps = [] \<rparr>"

lemma ocsf_claims_declared_witness:
  "\<exists>w1. policy_before (Some GREEN) sample_info [] sample_ctx \<lparr> ew_metadata = [] \<rparr> = (Inr (), w1) \<and>
     fst (ocsf_after sample_info [] [(''ocsf_event_class'', PStr ''dns_activity'')] sample_ctx w1) =
       Inl (OCSFContractViolation ''siem'' [''dns_activity''])"
proof -
  let ?out = "[(''ocsf_event_class'', PStr ''dns_activity'')]"
  have cap: "resolve_capability sample_manifest sample_info [] = Some sample_capability"
      "capability_of sample_manifest (cap_id sample_capability) = Some sample_capability"
      "cap_ocsf_emits sample_capability = [''authentication'']"
    by (simp_all add: resolve_capability_def sample_manifest_def sample_info_def
        sample_capability_def default_capability_def capability_of_def all_capabilities_def)
  have mf: "nd_manifest sample_info = Some sample_manifest" "mf_name sample_manifest = ''siem''"
    by (simp_all add: sample_info_def sample_manifest_def)
  have "cap_tlp_egress sample_capability = GREEN" "\<not> cap_hitl_required sample_capability"
    by (simp_all add: sample_capability_def default_capability_def)
  then obtain w1 where w1: "policy_before (Some GREEN) sample_info [] sample_ctx \<lparr> ew_metadata = [] \<rparr> = (Inr (), w1)"
    using policy_before_passes[OF mf(1), of "Some GREEN" "[]" sample_ctx "\<lparr> ew_metadata = [] \<rparr>"] cap(1)
    by auto
  have claims: "extract_ocsf_claims ?out = [''dns_activity'']"
    by (simp add: extract_ocsf_claims_def)
  have "\<exists>bad. fst (ocsf_after sample_info [] ?out sample_ctx w1) = Inl (OCSFContractViolation ''siem'' bad) \<and>
      bad = [''dns_activity'']"
  proof -
    have "filter (\<lambda>x. \<not> claim_observed [''authentication''] x) [''dns_activity''] = [''dns_activity'']"
      by (simp add: claim_observed_def parse_ocsf_def enum_of_string_def ocsf_event_classes_def)
    then show ?thesis
      using ocsf_claims_declared[OF w1 mf(1) cap(1,2), of ?out] cap mf claims
      by (auto simp: ocsf_after_def Let_def split: prod.splits sum.splits option.splits pyval.splits if_splits)
  qed
  then show ?thesis using w1 by auto
qed

end
