(* ===== verification/EvidenceChain.thy ===== *)
theory EvidenceChain
  imports HashChain ConnectorPolicy
begin

text \<open>
  The evidence chain (engine/btagent_engine/middleware/evidence_chain.py) and its projection to
  a lineage graph with verification and replay (engine/btagent_engine/lineage.py).  SHA-256,
  the JSON dump of a model and the ISO text of a timestamp are parameters.
\<close>

record 'ts evidence_record =
  er_run_id :: string
  er_node_id :: string
  er_prev_hash :: string
  er_link_hash :: string
  er_input_hash :: string
  er_output_hash :: string
  er_timestamp :: 'ts

text \<open>The library functions the chain uses.\<close>

record 'ts digests =
  dg_sha256 :: "string \<Rightarrow> string"
  dg_dump :: "config \<Rightarrow> string"
  dg_iso :: "'ts \<Rightarrow> string"

definition genesis_hash :: string where
  "genesis_hash = replicate 64 (CHR ''0'')"

definition nul :: char where "nul = CHR 0x00"

definition sha256_of :: "'ts digests \<Rightarrow> config \<Rightarrow> string" where
  "sha256_of dg payload = dg_sha256 dg (dg_dump dg payload)"

definition link_text :: "string \<Rightarrow> string \<Rightarrow> string \<Rightarrow> string \<Rightarrow> string \<Rightarrow> string \<Rightarrow> string" where
  "link_text node_id inp out run_id ts prev = join_with nul [node_id, inp, out, run_id, ts, prev]"

definition link_hash ::
  "'ts digests \<Rightarrow> string \<Rightarrow> string \<Rightarrow> string \<Rightarrow> string \<Rightarrow> string \<Rightarrow> string \<Rightarrow> string" where
  "link_hash dg node_id inp out run_id ts prev = dg_sha256 dg (link_text node_id inp out run_id ts prev)"

text \<open>The world gains the records and a clock, read once per record.\<close>

record 'ts evidence_world = engine_world +
  ew_records :: "'ts evidence_record list"
  ew_clock :: "nat \<Rightarrow> 'ts"
  ew_ticks :: nat

definition make_record :: "'ts digests \<Rightarrow> string \<Rightarrow> string \<Rightarrow> string \<Rightarrow> config \<Rightarrow> config \<Rightarrow> 'ts \<Rightarrow> 'ts evidence_record" where
  "make_record dg run_id node_id prev inp out ts =
     \<lparr> er_run_id = run_id, er_node_id = node_id, er_prev_hash = prev,
       er_link_hash = link_hash dg node_id (sha256_of dg inp) (sha256_of dg out) run_id (dg_iso dg ts) prev,
       er_input_hash = sha256_of dg inp, er_output_hash = sha256_of dg out, er_timestamp = ts \<rparr>"

definition evidence_after ::
  "'ts digests \<Rightarrow> node_info \<Rightarrow> config \<Rightarrow> config \<Rightarrow> node_ctx \<Rightarrow> ('ts, 'a) evidence_world_scheme
     \<Rightarrow> (engine_exn, unit) res \<times> ('ts, 'a) evidence_world_scheme" where
  "evidence_after dg n inp out ctx w =
     (let prev = (if ew_records w = [] then genesis_hash else er_link_hash (last (ew_records w)));
          rec = make_record dg (ctx_run_id ctx) (nm_id (nd_meta n)) prev inp out (ew_clock w (ew_ticks w))
      in (Inr (), w\<lparr>ew_records := ew_records w @ [rec], ew_ticks := Suc (ew_ticks w)\<rparr>))"

definition evidence_middleware ::
  "'ts digests \<Rightarrow> (('ts, 'a) evidence_world_scheme, engine_exn) middleware" where
  "evidence_middleware dg = (noop_middleware ''evidence_chain'')\<lparr>mw_after := evidence_after dg\<rparr>"

section \<open>Lineage\<close>

record lineage_node =
  ln_id :: string
  ln_run_id :: string
  ln_node_id :: string
  ln_input_hash :: string
  ln_output_hash :: string
  ln_timestamp :: string
  ln_sequence :: nat

record lineage_edge =
  le_source :: string
  le_target :: string
  le_kind :: string

record lineage_graph =
  lg_nodes :: "lineage_node list"
  lg_edges :: "lineage_edge list"
  lg_intact :: bool
  lg_broken_at :: "string option"

definition record_text :: "'ts digests \<Rightarrow> 'ts evidence_record \<Rightarrow> string" where
  "record_text dg r = link_text (er_node_id r) (er_input_hash r) (er_output_hash r) (er_run_id r)
     (dg_iso dg (er_timestamp r)) (er_prev_hash r)"

definition recomputed_hash :: "'ts digests \<Rightarrow> 'ts evidence_record \<Rightarrow> string" where
  "recomputed_hash dg r = link_hash dg (er_node_id r) (er_input_hash r) (er_output_hash r) (er_run_id r)
     (dg_iso dg (er_timestamp r)) (er_prev_hash r)"

text \<open>The loop of \<^verbatim>\<open>verify_chain\<close> with the hash it expects next.\<close>

fun verify_from :: "'ts digests \<Rightarrow> string \<Rightarrow> 'ts evidence_record list \<Rightarrow> bool \<times> string option" where
  "verify_from dg expected [] = (True, None)"
| "verify_from dg expected (r # rs) =
     (if er_prev_hash r \<noteq> expected then (False, Some (er_link_hash r))
      else if recomputed_hash dg r \<noteq> er_link_hash r then (False, Some (er_link_hash r))
      else verify_from dg (er_link_hash r) rs)"

definition verify_chain :: "'ts digests \<Rightarrow> 'ts evidence_record list \<Rightarrow> bool \<times> string option" where
  "verify_chain dg rs = verify_from dg genesis_hash rs"

definition lineage_node_of :: "'ts digests \<Rightarrow> nat \<Rightarrow> 'ts evidence_record \<Rightarrow> lineage_node" where
  "lineage_node_of dg i r =
     \<lparr> ln_id = er_link_hash r, ln_run_id = er_run_id r, ln_node_id = er_node_id r,
       ln_input_hash = er_input_hash r, ln_output_hash = er_output_hash r,
       ln_timestamp = dg_iso dg (er_timestamp r), ln_sequence = i \<rparr>"

definition build_lineage_graph :: "'ts digests \<Rightarrow> bool \<Rightarrow> 'ts evidence_record list \<Rightarrow> lineage_graph" where
  "build_lineage_graph dg verify rs =
     (let verdict = (if verify then verify_chain dg rs else (True, None)) in
      \<lparr> lg_nodes = map (\<lambda>(i, r). lineage_node_of dg i r) (enumerate 0 rs),
        lg_edges = map (\<lambda>r. \<lparr> le_source = er_prev_hash r, le_target = er_link_hash r, le_kind = ''chain'' \<rparr>)
          (filter (\<lambda>r. er_prev_hash r \<noteq> genesis_hash) rs),
        lg_intact = fst verdict, lg_broken_at = snd verdict \<rparr>)"

text \<open>The prefix up to the first record with the hash; KeyError (None) without one.\<close>

fun replay_to :: "'ts evidence_record list \<Rightarrow> string \<Rightarrow> 'ts evidence_record list option" where
  "replay_to [] h = None"
| "replay_to (r # rs) h =
     (if er_link_hash r = h then Some [r] else map_option (\<lambda>p. r # p) (replay_to rs h))"

section \<open>Verification is being chained\<close>

abbreviation ev_chained :: "'ts digests \<Rightarrow> string \<Rightarrow> 'ts evidence_record list \<Rightarrow> bool" where
  "ev_chained dg \<equiv> chained er_prev_hash er_link_hash (\<lambda>r. dg_sha256 dg (record_text dg r))"

lemma recomputed_hash_text: "recomputed_hash dg r = dg_sha256 dg (record_text dg r)"
  by (simp add: recomputed_hash_def record_text_def link_hash_def)

lemma verify_from_ok: "fst (verify_from dg h rs) \<longleftrightarrow> ev_chained dg h rs"
  by (induction rs arbitrary: h) (auto simp: recomputed_hash_text)

lemma verify_from_broken:
  "verify_from dg h rs = (False, b) \<Longrightarrow>
   \<exists>xs r ys. rs = xs @ r # ys \<and> ev_chained dg h xs \<and> \<not> ev_chained dg h (xs @ [r]) \<and> b = Some (er_link_hash r)"
proof (induction rs arbitrary: h)
  case (Cons r rs)
  show ?case
  proof (cases "er_prev_hash r = h \<and> recomputed_hash dg r = er_link_hash r")
    case True
    then have "verify_from dg (er_link_hash r) rs = (False, b)" using Cons.prems by simp
    from Cons.IH[OF this] obtain xs r' ys where "rs = xs @ r' # ys" "ev_chained dg (er_link_hash r) xs"
        "\<not> ev_chained dg (er_link_hash r) (xs @ [r'])" "b = Some (er_link_hash r')"
      by blast
    then show ?thesis
      using True by (intro exI[of _ "r # xs"]) (auto simp: recomputed_hash_text)
  next
    case False
    then show ?thesis
      using Cons.prems by (intro exI[of _ "[]"]) (auto simp: recomputed_hash_text split: if_splits)
  qed
qed simp

lemma make_record_hash:
  "er_link_hash (make_record dg rid nid prev inp out ts) = dg_sha256 dg (record_text dg (make_record dg rid nid prev inp out ts))"
  "er_prev_hash (make_record dg rid nid prev inp out ts) = prev"
  by (simp_all add: make_record_def record_text_def link_hash_def)

lemma evidence_after_chained:
  "ev_chained dg genesis_hash (ew_records w) \<Longrightarrow>
   ev_chained dg genesis_hash (ew_records (snd (evidence_after dg n inp out ctx w)))"
  by (simp add: evidence_after_def Let_def chained_snoc make_record_hash chain_head_def)

lemma evidence_after_grows:
  "\<exists>r. ew_records (snd (evidence_after dg n inp out ctx w)) = ew_records w @ [r] \<and>
     er_node_id r = nm_id (nd_meta n) \<and> er_run_id r = ctx_run_id ctx \<and>
     er_input_hash r = sha256_of dg inp \<and> er_output_hash r = sha256_of dg out"
  by (simp add: evidence_after_def Let_def make_record_def)

lemma evidence_after_hook [simp]: "mw_after (evidence_middleware dg) = evidence_after dg"
  by (simp add: evidence_middleware_def)

text \<open>Records whose texts have no NUL: hashes, ULIDs, ISO dates and node ids have none.\<close>

definition separable :: "'ts digests \<Rightarrow> 'ts evidence_record \<Rightarrow> bool" where
  "separable dg r \<longleftrightarrow>
     list_all (\<lambda>t. nul \<notin> set t)
       [er_node_id r, er_input_hash r, er_output_hash r, er_run_id r, dg_iso dg (er_timestamp r), er_prev_hash r]"

lemma record_text_inj:
  assumes "separable dg r" and "separable dg r'" and "record_text dg r = record_text dg r'"
  shows "er_node_id r = er_node_id r' \<and> er_input_hash r = er_input_hash r' \<and>
    er_output_hash r = er_output_hash r' \<and> er_run_id r = er_run_id r' \<and>
    dg_iso dg (er_timestamp r) = dg_iso dg (er_timestamp r') \<and> er_prev_hash r = er_prev_hash r'"
proof -
  let ?fs = "\<lambda>r. [er_node_id r, er_input_hash r, er_output_hash r, er_run_id r, dg_iso dg (er_timestamp r), er_prev_hash r]"
  have "?fs r = ?fs r'"
    by (rule join_with_inj[of nul])
      (use assms in \<open>simp_all add: record_text_def link_text_def separable_def\<close>)
  then show ?thesis by simp
qed

interpretation evidence: hash_chain er_prev_hash er_link_hash "record_text dg" "dg_sha256 dg" genesis_hash "separable dg"
  for dg
  by unfold_locales (use record_text_inj in blast)

section \<open>Properties\<close>

text \<open>C36: Verification is exact: it accepts a list exactly when every record names the record
  before it (the first one the genesis hash) and carries the hash of its own fields, and
  otherwise reports the first record at which that fails.\<close>

theorem verify_chain_exact:
  "case verify_chain dg rs of
     (True, b) \<Rightarrow> ev_chained dg genesis_hash rs \<and> b = None
   | (False, b) \<Rightarrow> \<exists>xs r ys. rs = xs @ r # ys \<and> ev_chained dg genesis_hash xs \<and>
       \<not> ev_chained dg genesis_hash (xs @ [r]) \<and> b = Some (er_link_hash r)"
proof -
  have none: "verify_from dg h rs = (True, b) \<Longrightarrow> b = None" for h b
    by (induction rs arbitrary: h) (auto split: if_splits)
  obtain ok b where v: "verify_chain dg rs = (ok, b)" by fastforce
  show ?thesis
  proof (cases ok)
    case True
    then show ?thesis
      using v none[of genesis_hash b] verify_from_ok[of dg genesis_hash rs] by (simp add: verify_chain_def)
  next
    case False
    then show ?thesis
      using v verify_from_broken[of dg genesis_hash rs b] by (simp add: verify_chain_def)
  qed
qed

text \<open>Tampering shows: two verified chains that end in the same hash agree in every field the
  view displays (node, run, input, output, time), record by record, unless SHA-256 collides on
  two of the hashed texts or maps one of them to the genesis hash.\<close>

theorem evidence_tamper_evident:
  assumes "fst (verify_chain dg xs)" and "fst (verify_chain dg ys)"
    and "list_all (separable dg) xs" and "list_all (separable dg) ys"
    and "chain_head er_link_hash genesis_hash xs = chain_head er_link_hash genesis_hash ys"
    and "\<not> collision (dg_sha256 dg) (record_text dg ` set (xs @ ys))"
    and "genesis_hash \<notin> dg_sha256 dg ` record_text dg ` set (xs @ ys)"
  shows "list_all2 (\<lambda>r r'. er_node_id r = er_node_id r' \<and> er_input_hash r = er_input_hash r' \<and>
    er_output_hash r = er_output_hash r' \<and> er_run_id r = er_run_id r' \<and>
    dg_iso dg (er_timestamp r) = dg_iso dg (er_timestamp r') \<and> er_prev_hash r = er_prev_hash r') xs ys"
proof -
  have "map (record_text dg) xs = map (record_text dg) ys"
    by (rule evidence.tamper_evident)
      (use assms in \<open>simp_all add: verify_chain_def verify_from_ok\<close>)
  then have "list_all2 (\<lambda>r r'. record_text dg r = record_text dg r') xs ys"
    by (simp add: list_eq_iff_nth_eq list_all2_conv_all_nth)
  then show ?thesis
    using assms(3,4) record_text_inj[of dg]
    unfolding list_all2_conv_all_nth list_all_length by (metis (no_types, lifting))
qed

text \<open>Replay to a recorded step gives the chain up to the first record with its hash: a prefix
  that ends there and has the hash nowhere before, verified when the whole chain is; without
  such a record it is the KeyError.\<close>

theorem replay_is_verified_prefix:
  "case replay_to rs h of
     None \<Rightarrow> h \<notin> er_link_hash ` set rs
   | Some p \<Rightarrow> \<exists>xs r ys. p = xs @ [r] \<and> rs = p @ ys \<and> er_link_hash r = h \<and>
       h \<notin> er_link_hash ` set xs \<and> \<not> (fst (verify_chain dg rs) \<and> \<not> fst (verify_chain dg p))"
proof -
  have split: "case replay_to rs h of
     None \<Rightarrow> h \<notin> er_link_hash ` set rs
   | Some p \<Rightarrow> \<exists>xs r ys. p = xs @ [r] \<and> rs = p @ ys \<and> er_link_hash r = h \<and> h \<notin> er_link_hash ` set xs"
  proof (induction rs)
    case (Cons a rs)
    show ?case
    proof (cases "er_link_hash a = h")
      case ne: False
      show ?thesis
      proof (cases "replay_to rs h")
        case (Some p)
        then obtain xs r ys where "p = xs @ [r]" "rs = p @ ys" "er_link_hash r = h" "h \<notin> er_link_hash ` set xs"
          using Cons.IH by auto
        then show ?thesis
          using ne Some by (auto intro!: exI[of _ "a # xs"])
      qed (use ne Cons.IH in auto)
    qed auto
  qed simp
  have "fst (verify_chain dg p)" if "fst (verify_chain dg (p @ ys))" for p ys
    using that evidence.prefix_chained by (simp add: verify_chain_def verify_from_ok)
  then show ?thesis using split by (auto split: option.splits)
qed

section \<open>A sample chain\<close>

definition plain_digests :: "string digests" where
  "plain_digests = \<lparr> dg_sha256 = (\<lambda>s. s), dg_dump = (\<lambda>_. ''d''), dg_iso = (\<lambda>t. t) \<rparr>"

definition sample_record :: "string evidence_record" where
  "sample_record = make_record plain_digests ''run'' ''node'' genesis_hash [] [] ''now''"

lemma sample_record_chain:
  "fst (verify_chain plain_digests [sample_record])"
  "list_all (separable plain_digests) [sample_record]"
  "genesis_hash \<notin> dg_sha256 plain_digests ` record_text plain_digests ` set ([sample_record] @ [sample_record])"
proof -
  show "fst (verify_chain plain_digests [sample_record])"
    by (simp add: verify_chain_def verify_from_ok sample_record_def make_record_hash recomputed_hash_text)
  show "list_all (separable plain_digests) [sample_record]"
    by (simp add: separable_def sample_record_def make_record_def plain_digests_def sha256_of_def
        genesis_hash_def nul_def)
  have "nul \<in> set (record_text plain_digests sample_record)"
    by (simp add: record_text_def link_text_def)
  moreover have "nul \<notin> set genesis_hash" by (simp add: genesis_hash_def nul_def)
  ultimately show "genesis_hash \<notin> dg_sha256 plain_digests ` record_text plain_digests ` set ([sample_record] @ [sample_record])"
    by (auto simp: plain_digests_def)
qed

lemma evidence_tamper_evident_witness:
  "fst (verify_chain plain_digests [sample_record]) \<and>
   list_all2 (\<lambda>r r'. er_node_id r = er_node_id r' \<and> er_input_hash r = er_input_hash r' \<and>
    er_output_hash r = er_output_hash r' \<and> er_run_id r = er_run_id r' \<and>
    dg_iso plain_digests (er_timestamp r) = dg_iso plain_digests (er_timestamp r') \<and>
    er_prev_hash r = er_prev_hash r') [sample_record] [sample_record]"
  using sample_record_chain
    evidence_tamper_evident[of plain_digests "[sample_record]" "[sample_record]"]
  by (simp add: collision_def)

end
