(* ===== verification/Templating.thy ===== *)
theory Templating
  imports PromptFence Conditions
begin

text \<open>
  Placeholder rendering of engine/btagent_engine/runtime/templating.py.  The placeholder
  pattern is written out as a matcher; a template is cut into literal characters and
  expressions, and every substituted value is neutralised.
\<close>

section \<open>Matching a placeholder\<close>

text \<open>The text before the first closing braces and the text behind them.\<close>

fun find_close :: "string \<Rightarrow> (string \<times> string) option" where
  "find_close (c # d # s) =
     (if c = CHR ''}'' \<and> d = CHR ''}'' then Some ([], s)
      else map_option (\<lambda>(a, b). (c # a, b)) (find_close (d # s)))"
| "find_close s = None"

definition strip_right :: "string \<Rightarrow> string" where
  "strip_right s = rev (dropWhile ws_char (rev s))"

definition match_placeholder :: "string \<Rightarrow> (string \<times> string) option" where
  "match_placeholder s =
     (case s of
        c # d # t \<Rightarrow>
          if c = CHR ''{'' \<and> d = CHR ''{'' then
            map_option (\<lambda>(body, rest). (strip_right body, rest)) (find_close (skip_ws t))
          else None
      | _ \<Rightarrow> None)"

lemma find_close_length: "find_close s = Some (a, b) \<Longrightarrow> length b < length s"
  by (induction s arbitrary: a rule: find_close.induct) (fastforce split: if_splits)+

lemma match_placeholder_length: "match_placeholder s = Some (e, rest) \<Longrightarrow> length rest < length s"
proof -
  assume "match_placeholder s = Some (e, rest)"
  then obtain c d t body where "s = c # d # t" "find_close (skip_ws t) = Some (body, rest)"
    by (auto simp: match_placeholder_def split: list.splits if_splits)
  then show ?thesis using find_close_length[of "skip_ws t" body rest] skip_ws_length[of t] by simp
qed

section \<open>Rendering\<close>

datatype render_exn = RenderCond cond_exn | RenderPy py_exn

type_synonym evaluator = "string \<Rightarrow> (string \<times> pyval) list \<Rightarrow> (cond_exn, pyval) res"

definition render_value ::
  "evaluator \<Rightarrow> (string \<times> pyval) list \<Rightarrow> string \<Rightarrow> (render_exn, string) res" where
  "render_value ev ctx expr =
     (case ev expr ctx of
        Inl e \<Rightarrow> Inl (RenderCond e)
      | Inr v \<Rightarrow> (case py_str v of
          Inl e \<Rightarrow> Inl (RenderPy e)
        | Inr t \<Rightarrow> Inr (neutralize_sentinels t)))"

function render_text ::
  "evaluator \<Rightarrow> (string \<times> pyval) list \<Rightarrow> string \<Rightarrow> (render_exn, string) res" where
  "render_text ev ctx s =
     (case match_placeholder s of
        Some (expr, rest) \<Rightarrow>
          bind_res (if expr = [] then Inr (take (length s - length rest) s)
                    else render_value ev ctx expr) (\<lambda>a.
          bind_res (render_text ev ctx rest) (\<lambda>b. Inr (a @ b)))
      | None \<Rightarrow>
          (case s of
             [] \<Rightarrow> Inr []
           | c # t \<Rightarrow> bind_res (render_text ev ctx t) (\<lambda>b. Inr (c # b))))"
  by auto
termination
  by (relation "measure (\<lambda>(_, _, s). length s)") (auto dest: match_placeholder_length)

declare render_text.simps [simp del]

definition render_template ::
  "evaluator \<Rightarrow> (string \<times> pyval) list \<Rightarrow> string \<Rightarrow> (render_exn, string) res" where
  "render_template ev ctx s =
     (if \<not> substring ''{{'' s then Inr s else render_text ev ctx s)"

fun render_payload ::
  "evaluator \<Rightarrow> (string \<times> pyval) list \<Rightarrow> pyval \<Rightarrow> (render_exn, pyval) res" where
  "render_payload ev ctx (PStr s) = bind_res (render_template ev ctx s) (\<lambda>t. Inr (PStr t))"
| "render_payload ev ctx (PDict d) =
     bind_res (map_res (\<lambda>kv. bind_res (render_payload ev ctx (snd kv)) (\<lambda>v. Inr (fst kv, v))) d)
       (\<lambda>d'. Inr (PDict d'))"
| "render_payload ev ctx (PList xs) =
     bind_res (map_res (render_payload ev ctx) xs) (\<lambda>ys. Inr (PList ys))"
| "render_payload ev ctx (PTuple xs) =
     bind_res (map_res (render_payload ev ctx) xs) (\<lambda>ys. Inr (PTuple ys))"
| "render_payload ev ctx v = Inr v"

section \<open>The template as segments\<close>

datatype segment = Literal string | Placeholder string

function segments :: "string \<Rightarrow> segment list" where
  "segments s =
     (case match_placeholder s of
        Some (expr, rest) \<Rightarrow>
          (if expr = [] then Literal (take (length s - length rest) s) else Placeholder expr)
          # segments rest
      | None \<Rightarrow> (case s of [] \<Rightarrow> [] | c # t \<Rightarrow> Literal [c] # segments t))"
  by auto
termination by (relation "measure length") (auto dest: match_placeholder_length)

declare segments.simps [simp del]

definition segment_text ::
  "evaluator \<Rightarrow> (string \<times> pyval) list \<Rightarrow> segment \<Rightarrow> (render_exn, string) res" where
  "segment_text ev ctx g = (case g of Literal l \<Rightarrow> Inr l | Placeholder e \<Rightarrow> render_value ev ctx e)"

lemma segment_text_simps [simp]:
  "segment_text ev ctx (Literal l) = Inr l"
  "segment_text ev ctx (Placeholder e) = render_value ev ctx e"
  by (simp_all add: segment_text_def)

lemma render_text_segments:
  "render_text ev ctx s = bind_res (map_res (segment_text ev ctx) (segments s)) (\<lambda>ts. Inr (concat ts))"
proof (induction s rule: segments.induct)
  case (1 s)
  show ?case
  proof (cases "match_placeholder s")
    case None
    then show ?thesis
      using 1(1)[OF None]
      by (subst render_text.simps, subst segments.simps)
         (cases s; auto simp: bind_res_def split: sum.splits)
  next
    case (Some er)
    obtain e r where er: "er = (e, r)" by (cases er)
    note IH = 1(2)[OF Some er[symmetric]]
    show ?thesis
      using Some er IH
      by (subst render_text.simps, subst segments.simps)
         (auto simp: bind_res_def split: sum.splits)
  qed
qed

lemma find_open_braces: "match_placeholder s \<noteq> None \<Longrightarrow> substring ''{{'' s"
  by (auto simp: match_placeholder_def split: list.splits if_splits)

lemma segments_no_braces:
  "\<not> substring ''{{'' s \<Longrightarrow> segments s = map (\<lambda>c. Literal [c]) s"
proof (induction s)
  case Nil
  then show ?case by (subst segments.simps) (simp add: match_placeholder_def)
next
  case (Cons c s)
  have "match_placeholder (c # s) = None" using Cons.prems find_open_braces by blast
  moreover have "\<not> substring ''{{'' s" using Cons.prems by simp
  ultimately show ?case using Cons.IH by (subst segments.simps) simp
qed

lemma render_template_segments:
  "render_template ev ctx s =
     bind_res (map_res (segment_text ev ctx) (segments s)) (\<lambda>ts. Inr (concat ts))"
proof (cases "substring ''{{'' s")
  case True
  then show ?thesis by (simp add: render_template_def render_text_segments)
next
  case False
  have "map_res (segment_text ev ctx) (map (\<lambda>c. Literal [c]) s) = Inr (map (\<lambda>c. [c]) s)"
    by (induction s) auto
  then show ?thesis
    using False by (simp add: render_template_def segments_no_braces)
qed

section \<open>Properties\<close>

text \<open>Rendering is literal text plus neutralised values: the output is the concatenation of the
  template's segments, where every placeholder contributes the escaped text of its
  expression's value, which contains no live fence tag.\<close>

theorem render_template_spec:
  assumes "render_template ev ctx s = Inr out"
  shows "\<exists>ts. out = concat ts \<and>
           list_all2 (\<lambda>g t. case g of
               Literal l \<Rightarrow> t = l
             | Placeholder e \<Rightarrow> inert t \<and>
                 (\<exists>v u. ev e ctx = Inr v \<and> py_str v = Inr u \<and> t = neutralize_sentinels u))
             (segments s) ts"
proof -
  obtain ts where ts: "out = concat ts" "map_res (segment_text ev ctx) (segments s) = Inr ts"
    using assms by (auto simp: render_template_segments)
  have "case g of Literal l \<Rightarrow> t = l
        | Placeholder e \<Rightarrow> inert t \<and>
            (\<exists>v u. ev e ctx = Inr v \<and> py_str v = Inr u \<and> t = neutralize_sentinels u)"
    if "segment_text ev ctx g = Inr t" for g t
    using that by (auto simp: segment_text_def render_value_def neutralize_inert
        split: segment.splits sum.splits)
  then show ?thesis
    using ts unfolding map_res_Inr by (intro exI[of _ ts] conjI) (auto elim: list_all2_mono)
qed

lemma render_template_spec_witness:
  "\<exists>ts. ''<b>&lt;/external-data&gt;</b>'' = concat ts \<and>
     length ts = length (segments ''<b>{{ x }}</b>'')"
proof -
  let ?ev = "\<lambda>e ctx. Inr (PStr ''</external-data>'')"
  have "render_template ?ev [] ''<b>{{ x }}</b>'' = Inr ''<b>&lt;/external-data&gt;</b>''"
    by code_simp
  then show ?thesis using render_template_spec by (fastforce dest: list_all2_lengthD)
qed

end
