(* ===== verification/Kahn.thy ===== *)
theory Kahn
  imports Workflow "HOL-Library.List_Lexorder"
begin

text \<open>
  The cycle detection of engine/btagent_engine/compiler/compiler.py, Kahn's algorithm, and
  its correctness: it reports exactly the steps a cycle leads to, so it reports nothing
  exactly when the step graph is acyclic.  The in-degree dictionary is an association list;
  the order in which a set is iterated does not matter for the result.
\<close>

section \<open>The algorithm\<close>

type_synonym degrees = "(string \<times> int) list"

definition deg_of :: "degrees \<Rightarrow> string \<Rightarrow> int" where
  "deg_of d v = (case map_of d v of None \<Rightarrow> 0 | Some n \<Rightarrow> n)"

text \<open>Edges between steps only.\<close>

definition inner_edges :: "string list \<Rightarrow> workflow_edge list \<Rightarrow> workflow_edge list" where
  "inner_edges ids es = filter (\<lambda>e. we_source e \<in> set ids \<and> we_target e \<in> set ids) es"

definition adjacency :: "workflow_edge list \<Rightarrow> string \<Rightarrow> string list" where
  "adjacency es v = map we_target (filter (\<lambda>e. we_source e = v) es)"

fun count_in :: "workflow_edge list \<Rightarrow> degrees \<Rightarrow> degrees" where
  "count_in [] d = d"
| "count_in (e # es) d = count_in es (dict_put (we_target e) (deg_of d (we_target e) + 1) d)"

text \<open>The inner loop: decrement each successor, enqueue it when it reaches zero.\<close>

fun relax :: "string list \<Rightarrow> degrees \<Rightarrow> string list \<Rightarrow> degrees \<times> string list" where
  "relax [] d q = (d, q)"
| "relax (v # vs) d q =
     (let n = deg_of d v - 1; d' = dict_put v n d in
      relax vs d' (if n = 0 then q @ [v] else q))"

definition positive :: "degrees \<Rightarrow> string list" where
  "positive d = map fst (filter (\<lambda>p. snd p > 0) d)"

lemma length_positive_put:
  assumes "deg_of d v = n"
  shows "length (positive (dict_put v (n - 1) d)) + (if n = 1 then 1 else 0) \<le> length (positive d)"
  using assms
proof (induction d)
  case Nil
  then show ?case by (auto simp: positive_def deg_of_def)
next
  case (Cons p d)
  then show ?case
    by (cases p) (auto simp: positive_def deg_of_def split: if_splits)
qed

lemma in_set_count: "v \<in> set xs \<longleftrightarrow> 0 < count_list xs v"
  by (induction xs) auto

lemma relax_measure:
  "relax vs d q = (d', q') \<Longrightarrow> length (positive d') + length q' \<le> length (positive d) + length q"
proof (induction vs d q rule: relax.induct)
  case (2 v vs d q)
  then show ?case
    using length_positive_put[of d v "deg_of d v"] by (fastforce simp: Let_def split: if_splits)
qed simp

function kahn :: "workflow_edge list \<Rightarrow> degrees \<Rightarrow> string list \<Rightarrow> nat \<Rightarrow> degrees \<times> nat" where
  "kahn es d [] visited = (d, visited)"
| "kahn es d (cur # q) visited =
     (case relax (adjacency es cur) d q of (d', q') \<Rightarrow> kahn es d' q' (Suc visited))"
  by pat_completeness auto
termination
  by (relation "measure (\<lambda>(es, d, q, n). length (positive d) + length q)")
     (auto dest: relax_measure[OF sym])

definition detect_cycles :: "workflow_node list \<Rightarrow> workflow_edge list \<Rightarrow> string list" where
  "detect_cycles nodes edges =
     (let ids = remdups (map wn_step_id nodes);
          es = inner_edges ids edges;
          d0 = count_in es (map (\<lambda>v. (v, 0)) ids);
          q0 = map fst (filter (\<lambda>p. snd p = 0) d0)
      in case kahn es d0 q0 0 of (d, visited) \<Rightarrow>
           if visited < length ids then sort (positive d) else [])"

section \<open>Correctness\<close>

lemma deg_of_put [simp]: "deg_of (dict_put v n d) u = (if u = v then n else deg_of d u)"
  by (simp add: deg_of_def)

lemma dom_put [simp]: "fst ` set (dict_put v n d) = insert v (fst ` set d)"
  by (induction d) auto

lemma count_in_deg:
  "deg_of (count_in es d) v = deg_of d v + int (length (filter (\<lambda>e. we_target e = v) es))"
  by (induction es d rule: count_in.induct) auto

lemma count_in_keys:
  "fst ` set (count_in es d) = fst ` set d \<union> we_target ` set es \<and>
   (distinct (map fst d) \<longrightarrow> distinct (map fst (count_in es d)))"
  by (induction es d rule: count_in.induct) auto

text \<open>
  What one relaxation does, when no successor is listed more often than its in-degree: each
  in-degree drops by the number of its occurrences and those that reach zero join the queue.
\<close>

lemma relax_spec:
  assumes "relax vs d q = (d', q')" and "\<And>v. int (count_list vs v) \<le> deg_of d v"
    and "distinct (map fst d)" and "set vs \<subseteq> fst ` set d"
  shows "(\<forall>v. deg_of d' v = deg_of d v - int (count_list vs v)) \<and> distinct (map fst d') \<and>
         fst ` set d' = fst ` set d \<and>
         (\<exists>new. q' = q @ new \<and> distinct new \<and> set new = {v \<in> set vs. deg_of d' v = 0})"
  using assms
proof (induction vs d q rule: relax.induct)
  case (2 v vs d q)
  let ?n = "deg_of d v - 1"
  let ?d = "dict_put v ?n d"
  have le: "int (count_list vs u) \<le> deg_of ?d u" for u
    using "2.prems"(2)[of u] by auto
  have run: "relax vs ?d (if ?n = 0 then q @ [v] else q) = (d', q')"
    using "2.prems"(1) by (simp add: Let_def)
  have keys: "fst ` set ?d = fst ` set d" using "2.prems"(4) by auto
  have IH: "(\<forall>u. deg_of d' u = deg_of ?d u - int (count_list vs u)) \<and> distinct (map fst d') \<and>
        fst ` set d' = fst ` set ?d \<and>
        (\<exists>new. q' = (if ?n = 0 then q @ [v] else q) @ new \<and> distinct new \<and>
           set new = {u \<in> set vs. deg_of d' u = 0})"
    using "2.IH"[OF refl refl run le] "2.prems"(3,4) keys by auto
  then obtain new where new: "q' = (if ?n = 0 then q @ [v] else q) @ new" "distinct new"
      "set new = {u \<in> set vs. deg_of d' u = 0}" by blast
  have deg: "deg_of d' u = deg_of d u - int (count_list (v # vs) u)" for u
    using IH by auto
  show ?case
  proof (cases "?n = 0")
    case True
    then have "count_list vs v = 0" using le[of v] by simp
    then have "v \<notin> set vs" by (simp add: count_list_0_iff)
    moreover have "deg_of d' v = 0" using deg[of v] \<open>count_list vs v = 0\<close> True by simp
    ultimately show ?thesis
      using IH new True keys deg by (intro conjI exI[of _ "v # new"]) auto
  next
    case False
    have "v \<in> set vs" if "deg_of d' v = 0"
      using that deg[of v] False by (auto simp: in_set_count)
    then show ?thesis
      using IH new False keys deg by (intro conjI exI[of _ new]) auto
  qed
qed auto

text \<open>
  The loop invariant.  \<^term>\<open>P\<close> is the set of steps already taken off the queue: its
  members have no predecessor outside it, and the graph on it has no cycle.
\<close>

definition pending_in :: "workflow_edge list \<Rightarrow> string set \<Rightarrow> string \<Rightarrow> workflow_edge list" where
  "pending_in es P v = filter (\<lambda>e. we_target e = v \<and> we_source e \<notin> P) es"

definition kahn_inv ::
  "string set \<Rightarrow> workflow_edge list \<Rightarrow> string set \<Rightarrow> degrees \<Rightarrow> string list \<Rightarrow> bool" where
  "kahn_inv V es P d q \<longleftrightarrow>
     P \<subseteq> V \<and> set q \<subseteq> V \<and> set q \<inter> P = {} \<and> distinct q \<and> distinct (map fst d) \<and> fst ` set d = V \<and>
     (\<forall>v. deg_of d v = int (length (pending_in es P v))) \<and>
     (\<forall>v \<in> V. deg_of d v = 0 \<longleftrightarrow> v \<in> P \<union> set q) \<and>
     acyclic (step_graph V es \<inter> P \<times> P)"

lemma kahn_inv_zero:
  "kahn_inv V es P d q \<Longrightarrow> v \<in> V \<Longrightarrow> deg_of d v = 0 \<longleftrightarrow> v \<in> P \<union> set q"
  unfolding kahn_inv_def by blast

lemma count_list_adjacency:
  "count_list (adjacency es c) v = length (filter (\<lambda>e. we_target e = v \<and> we_source e = c) es)"
  by (induction es) (auto simp: adjacency_def)

lemma pending_insert:
  assumes "c \<notin> P"
  shows "int (length (pending_in es (insert c P) v)) =
         int (length (pending_in es P v)) - int (count_list (adjacency es c) v)"
proof -
  have "length (pending_in es P v) =
        length (pending_in es (insert c P) v) + count_list (adjacency es c) v"
    unfolding count_list_adjacency pending_in_def using assms by (induction es) auto
  then show ?thesis by simp
qed

lemma acyclic_add_sink:
  assumes "acyclic (R \<inter> P \<times> P)" and "\<And>x. (c, x) \<in> R \<Longrightarrow> x \<notin> insert c P"
  shows "acyclic (R \<inter> insert c P \<times> insert c P)"
proof -
  let ?Q = "R \<inter> insert c P \<times> insert c P"
  have sub: "(x, y) \<in> (R \<inter> P \<times> P)\<^sup>+ \<or> y = c" if "(x, y) \<in> ?Q\<^sup>+" for x y
    using that
  proof (induction rule: trancl_induct)
    case (base y)
    then show ?case using assms(2) by auto
  next
    case (step y z)
    then have "y \<noteq> c" using assms(2) by auto
    then have "(x, y) \<in> (R \<inter> P \<times> P)\<^sup>+" using step by simp
    moreover have "y \<in> P" using \<open>y \<noteq> c\<close> step by auto
    ultimately show ?case using step by (cases "z = c") (auto intro: trancl_into_trancl)
  qed
  have out: False if "(c, y) \<in> ?Q\<^sup>+" for y
    using that assms(2) by (auto dest: tranclD)
  show ?thesis
    unfolding acyclic_def
  proof
    fix x
    show "(x, x) \<notin> ?Q\<^sup>+"
      using sub[of x x] out assms(1) by (auto simp: acyclic_def)
  qed
qed

lemma pending_zero_pred:
  "length (pending_in es P v) = 0 \<longleftrightarrow> (\<forall>e \<in> set es. we_target e = v \<longrightarrow> we_source e \<in> P)"
  by (auto simp: pending_in_def filter_empty_conv)

lemma kahn_inv_step:
  assumes inv: "kahn_inv V es P d (cur # q)" and es: "we_target ` set es \<subseteq> V"
    and run: "relax (adjacency es cur) d q = (d', q')"
  shows "kahn_inv V es (insert cur P) d' q'"
proof -
  have cur: "cur \<in> V" "cur \<notin> P" "cur \<notin> set q"
    using inv by (auto simp: kahn_inv_def)
  have degs: "deg_of d v = int (length (pending_in es P v))" for v
    using inv by (simp add: kahn_inv_def)
  have le: "int (count_list (adjacency es cur) v) \<le> deg_of d v" for v
    using pending_insert[OF cur(2), of es v] degs[of v] by linarith
  have adjV: "set (adjacency es cur) \<subseteq> V" using es by (auto simp: adjacency_def)
  have keys: "distinct (map fst d)" "fst ` set d = V"
    using inv by (simp_all add: kahn_inv_def)
  obtain new where
    deg': "\<And>v. deg_of d' v = deg_of d v - int (count_list (adjacency es cur) v)"
    and keys': "distinct (map fst d')" "fst ` set d' = V"
    and q': "q' = q @ new" "distinct new" "set new = {v \<in> set (adjacency es cur). deg_of d' v = 0}"
    using relax_spec[OF run le keys(1)] keys(2) adjV by auto
  have pend: "deg_of d' v = int (length (pending_in es (insert cur P) v))" for v
    using deg'[of v] degs[of v] pending_insert[OF cur(2), of es v] by linarith
  have new_old: "deg_of d v > 0" if "v \<in> set new" for v
  proof -
    have "v \<in> set (adjacency es cur)" "deg_of d' v = 0" using that q'(3) by auto
    then show ?thesis using deg'[of v] by (simp add: in_set_count)
  qed
  have zero: "deg_of d' v = 0 \<longleftrightarrow> v \<in> insert cur P \<union> set q'" if "v \<in> V" for v
  proof -
    have old: "deg_of d v = 0 \<longleftrightarrow> v \<in> P \<union> set (cur # q)" using kahn_inv_zero[OF inv that] .
    show ?thesis
    proof (cases "deg_of d v = 0")
      case True
      then have "deg_of d' v = 0" using deg'[of v] pend[of v] by linarith
      then show ?thesis using True old q' by auto
    next
      case False
      then have "deg_of d' v = 0 \<longleftrightarrow> v \<in> set new"
        using q'(3) deg'[of v] by (auto simp: in_set_count)
      then show ?thesis using False old q' by auto
    qed
  qed
  have "v \<notin> P \<union> set (cur # q)" if "v \<in> set new" for v
  proof -
    have "v \<in> V" using that q'(3) adjV by auto
    then show ?thesis using new_old[OF that] kahn_inv_zero[OF inv, of v] by auto
  qed
  then have "set new \<inter> (insert cur P \<union> set q) = {}" by auto
  moreover have "acyclic (step_graph V es \<inter> insert cur P \<times> insert cur P)"
  proof (rule acyclic_add_sink)
    show "acyclic (step_graph V es \<inter> P \<times> P)" using inv by (simp add: kahn_inv_def)
  next
    fix x assume edge: "(cur, x) \<in> step_graph V es"
    then obtain e where e: "e \<in> set es" "we_source e = cur" "we_target e = x" and "x \<in> V"
      by (auto simp: step_graph_iff)
    have "\<not> (\<forall>e \<in> set es. we_target e = x \<longrightarrow> we_source e \<in> P)" using e cur(2) by auto
    then have "deg_of d x \<noteq> 0" using degs[of x] pending_zero_pred[of es P x] by simp
    then show "x \<notin> insert cur P" using kahn_inv_zero[OF inv \<open>x \<in> V\<close>] by auto
  qed
  moreover have "insert cur P \<subseteq> V" "set q \<subseteq> V" "distinct q" "set q \<inter> P = {}"
    using inv cur by (auto simp: kahn_inv_def)
  moreover have "set new \<subseteq> V" using q'(3) adjV by auto
  ultimately show ?thesis
    unfolding kahn_inv_def q'(1) using cur keys' q'(2)
    by (intro conjI allI ballI pend zero[unfolded q'(1)]) auto
qed

lemma kahn_final:
  assumes "kahn es d q n = (d', n')" and "kahn_inv V es P d q" and "we_target ` set es \<subseteq> V"
    and "finite V" and "n = card P"
  shows "\<exists>P'. kahn_inv V es P' d' [] \<and> n' = card P'"
  using assms
proof (induction es d q n arbitrary: P rule: kahn.induct)
  case (2 es d cur q visited)
  obtain d1 q1 where r: "relax (adjacency es cur) d q = (d1, q1)" by fastforce
  have "cur \<notin> P" "finite P"
    using "2.prems"(2,4) by (auto simp: kahn_inv_def intro: finite_subset)
  then show ?case
    using "2.IH"[OF r[symmetric], of "insert cur P"] "2.prems" kahn_inv_step r by simp
qed auto

lemma kahn_inv_start:
  assumes "es = inner_edges ids edges" and "distinct ids"
    and "d = count_in es (map (\<lambda>v. (v, 0)) ids)"
  shows "kahn_inv (set ids) es {} d (map fst (filter (\<lambda>p. snd p = 0) d))"
proof -
  let ?z = "map (\<lambda>v. (v, 0 :: int)) ids"
  have tgt: "we_target ` set es \<subseteq> set ids" using assms(1) by (auto simp: inner_edges_def)
  have keys: "distinct (map fst d)" "fst ` set d = set ids"
    using count_in_keys[of es ?z] assms(2,3) tgt by (auto simp: comp_def image_image)
  have "deg_of ?z v = 0" for v by (induction ids) (auto simp: deg_of_def)
  then have degs: "deg_of d v = int (length (pending_in es {} v))" for v
    using count_in_deg[of es ?z v] assms(3) by (simp add: pending_in_def)
  have zero: "deg_of d v = 0 \<longleftrightarrow> v \<in> set (map fst (filter (\<lambda>p. snd p = 0) d))" if "v \<in> set ids" for v
  proof -
    have "v \<in> fst ` set d" using keys(2) that by simp
    then obtain n where n: "(v, n) \<in> set d" by auto
    then have "deg_of d v = n" using keys(1) by (simp add: deg_of_def)
    moreover have "m = n" if "(v, m) \<in> set d" for m
      using eq_key_imp_eq_value[OF keys(1) that n] .
    moreover have "v \<in> set (map fst (filter (\<lambda>p. snd p = 0) d)) \<longleftrightarrow> (v, 0) \<in> set d"
      by (auto simp: image_iff)
    ultimately show ?thesis using n by metis
  qed
  have "distinct (map fst (filter (\<lambda>p. snd p = 0) d))"
    using keys(1) by (rule distinct_map_filter)
  moreover have "set (map fst (filter (\<lambda>p. snd p = 0) d)) \<subseteq> set ids" using keys(2) by auto
  ultimately show ?thesis
    unfolding kahn_inv_def using keys zero by (intro conjI allI ballI degs) (auto simp: acyclic_def)
qed

text \<open>
  What the loop leaves behind: a set of steps whose in-degree stayed positive, each with a
  predecessor among them, while the rest is acyclic and closed under predecessors.
\<close>

lemma detect_cycles_rest:
  fixes nodes edges
  defines "V \<equiv> wn_step_id ` set nodes"
  defines "R \<equiv> step_graph V edges"
  shows "\<exists>W. W \<subseteq> V \<and> set (detect_cycles nodes edges) = W \<and>
           (\<forall>v \<in> W. \<exists>u \<in> W. (u, v) \<in> R) \<and>
           (\<forall>u v. (u, v) \<in> R \<longrightarrow> v \<in> V - W \<longrightarrow> u \<in> V - W) \<and> acyclic (R \<inter> (V - W) \<times> (V - W))"
proof -
  define ids where "ids = remdups (map wn_step_id nodes)"
  define es where "es = inner_edges ids edges"
  define d0 where "d0 = count_in es (map (\<lambda>v. (v, 0)) ids)"
  obtain d n where run: "kahn es d0 (map fst (filter (\<lambda>p. snd p = 0) d0)) 0 = (d, n)" by fastforce
  have V: "set ids = V" "distinct ids" "finite V" by (auto simp: ids_def V_def)
  have tgt: "we_target ` set es \<subseteq> V" using V by (auto simp: es_def inner_edges_def)
  have R: "R = step_graph V es"
    using V by (auto simp: R_def step_graph_def es_def inner_edges_def)
  obtain P where P: "kahn_inv V es P d []" "n = card P"
    using kahn_final[OF run kahn_inv_start[OF es_def V(2) d0_def, unfolded V(1)] tgt V(3)] by auto
  have PV: "P \<subseteq> V" and keys: "distinct (map fst d)" "fst ` set d = V"
    and degs: "\<And>v. deg_of d v = int (length (pending_in es P v))"
    and acyc: "acyclic (step_graph V es \<inter> P \<times> P)"
    using P(1) by (auto simp: kahn_inv_def)
  have pred: "u \<in> P" if "(u, v) \<in> R" "v \<in> P" for u v
  proof -
    have "v \<in> V" using that(2) PV by blast
    then have "deg_of d v = 0" using kahn_inv_zero[OF P(1)] that(2) by auto
    then show ?thesis using that(1) degs[of v] pending_zero_pred[of es P v]
      by (auto simp: R step_graph_iff)
  qed
  have rest: "\<exists>u \<in> V - P. (u, v) \<in> R" if "v \<in> V - P" for v
  proof -
    have "deg_of d v \<noteq> 0" using kahn_inv_zero[OF P(1), of v] that by auto
    then obtain e where "e \<in> set es" "we_target e = v" "we_source e \<notin> P"
      using degs[of v] pending_zero_pred[of es P v] by auto
    then show ?thesis using that V
      by (intro bexI[of _ "we_source e"]) (auto simp: R step_graph_iff es_def inner_edges_def)
  qed
  have pos: "set (positive d) = V - P"
  proof (intro set_eqI iffI)
    fix v assume "v \<in> set (positive d)"
    then obtain k where k: "(v, k) \<in> set d" "k > 0" by (auto simp: positive_def)
    then have "deg_of d v = k" "v \<in> V" using keys by (force simp: deg_of_def)+
    then show "v \<in> V - P" using k kahn_inv_zero[OF P(1), of v] by auto
  next
    fix v assume v: "v \<in> V - P"
    then obtain k where k: "(v, k) \<in> set d" using keys(2) by auto
    then have "deg_of d v = k" using keys(1) by (simp add: deg_of_def)
    moreover have "deg_of d v \<noteq> 0" using v kahn_inv_zero[OF P(1), of v] by auto
    ultimately have "k > 0" using degs[of v] by linarith
    then show "v \<in> set (positive d)" using k by (force simp: positive_def)
  qed
  have "set (detect_cycles nodes edges) = V - P"
  proof -
    have "length ids = card V" using V by (metis distinct_card)
    then have "n < length ids \<longleftrightarrow> P \<noteq> V"
      using P(2) PV V(3) by (metis card_mono card_subset_eq le_neq_implies_less less_irrefl)
    moreover have "detect_cycles nodes edges = (if n < length ids then sort (positive d) else [])"
      using run by (simp add: detect_cycles_def Let_def ids_def[symmetric] es_def[symmetric] d0_def[symmetric])
    ultimately show ?thesis using pos by (cases "P = V") auto
  qed
  moreover have "V - (V - P) = P" using PV by blast
  ultimately show ?thesis
    using rest pred acyc R by (intro exI[of _ "V - P"]) auto
qed

text \<open>In a finite set where each member has a predecessor, every member is reached by a cycle.\<close>

lemma pred_closed_reached_by_cycle:
  assumes "finite V" and "R \<subseteq> V \<times> V" and "\<And>v. v \<in> W \<Longrightarrow> \<exists>u \<in> W. (u, v) \<in> R" and "v \<in> W"
  shows "\<exists>u. (u, u) \<in> R\<^sup>+ \<and> (u, v) \<in> R\<^sup>*"
proof (rule ccontr)
  assume neg: "\<nexists>u. (u, u) \<in> R\<^sup>+ \<and> (u, v) \<in> R\<^sup>*"
  define A where "A = {u \<in> W. (u, v) \<in> R\<^sup>*}"
  define Q where "Q = R \<inter> A \<times> A"
  have "acyclic Q"
    unfolding acyclic_def
  proof (intro allI notI)
    fix x assume x: "(x, x) \<in> Q\<^sup>+"
    have "Q \<subseteq> R" by (auto simp: Q_def)
    then have "(x, x) \<in> R\<^sup>+" using x trancl_mono by blast
    moreover have "x \<in> A" using x by (auto simp: Q_def dest: tranclD)
    ultimately show False using neg by (auto simp: A_def)
  qed
  moreover have "finite Q" using assms(1,2) by (auto simp: Q_def intro: finite_subset)
  ultimately have "wf Q" by (simp add: finite_acyclic_wf)
  moreover have "v \<in> A" using assms(4) by (simp add: A_def)
  ultimately obtain z where z: "z \<in> A" "\<And>y. (y, z) \<in> Q \<Longrightarrow> y \<notin> A" by (metis wfE_min)
  obtain u where u: "u \<in> W" "(u, z) \<in> R" using assms(3) z(1) by (auto simp: A_def)
  then have "u \<in> A" using z(1) unfolding A_def by (blast intro: converse_rtrancl_into_rtrancl)
  then show False using z(2)[of u] z(1) u by (auto simp: Q_def)
qed

lemma trancl_stays:
  assumes "\<And>a b. (a, b) \<in> R \<Longrightarrow> b \<in> X \<Longrightarrow> a \<in> X"
  shows "(u, v) \<in> R\<^sup>+ \<Longrightarrow> v \<in> X \<Longrightarrow> u \<in> X \<and> (u, v) \<in> (R \<inter> X \<times> X)\<^sup>+"
proof (induction rule: trancl_induct)
  case (base y)
  then show ?case using assms by auto
next
  case (step y z)
  then have "y \<in> X" using assms by blast
  then show ?case using step by (auto intro: trancl_into_trancl)
qed

section \<open>Properties\<close>

lemma cycle_report:
  "set (detect_cycles nodes edges) =
     {v \<in> wn_step_id ` set nodes. \<exists>u. (u, u) \<in> (step_graph (wn_step_id ` set nodes) edges)\<^sup>+ \<and>
        (u, v) \<in> (step_graph (wn_step_id ` set nodes) edges)\<^sup>*}
   \<and> sorted (detect_cycles nodes edges)
   \<and> (detect_cycles nodes edges = [] \<longleftrightarrow> acyclic (step_graph (wn_step_id ` set nodes) edges))"
proof -
  define V where "V = wn_step_id ` set nodes"
  define R where "R = step_graph V edges"
  obtain W where W0: "W \<subseteq> V \<and> set (detect_cycles nodes edges) = W \<and>
      (\<forall>v \<in> W. \<exists>u \<in> W. (u, v) \<in> R) \<and>
      (\<forall>u v. (u, v) \<in> R \<longrightarrow> v \<in> V - W \<longrightarrow> u \<in> V - W) \<and> acyclic (R \<inter> (V - W) \<times> (V - W))"
    using detect_cycles_rest[of nodes edges, folded V_def, folded R_def] by (rule exE)
  have W: "W \<subseteq> V" "set (detect_cycles nodes edges) = W"
      "\<And>v. v \<in> W \<Longrightarrow> \<exists>u \<in> W. (u, v) \<in> R"
      "\<And>u v. (u, v) \<in> R \<Longrightarrow> v \<in> V - W \<Longrightarrow> u \<in> V - W" "acyclic (R \<inter> (V - W) \<times> (V - W))"
    using W0 by blast+
  have fin: "finite V" "R \<subseteq> V \<times> V" using step_graph_sub by (auto simp: V_def R_def)
  have "W = {v \<in> V. \<exists>u. (u, u) \<in> R\<^sup>+ \<and> (u, v) \<in> R\<^sup>*}"
  proof (intro set_eqI iffI)
    fix v assume "v \<in> W"
    then show "v \<in> {v \<in> V. \<exists>u. (u, u) \<in> R\<^sup>+ \<and> (u, v) \<in> R\<^sup>*}"
      using pred_closed_reached_by_cycle[OF fin W(3)] W(1) by blast
  next
    fix v assume "v \<in> {v \<in> V. \<exists>u. (u, u) \<in> R\<^sup>+ \<and> (u, v) \<in> R\<^sup>*}"
    then obtain u where u: "v \<in> V" "(u, u) \<in> R\<^sup>+" "(u, v) \<in> R\<^sup>*" by auto
    show "v \<in> W"
    proof (rule ccontr)
      assume "v \<notin> W"
      have "u \<in> V - W"
        using u(3)
      proof (induction rule: converse_rtrancl_induct)
        case base
        then show ?case using u(1) \<open>v \<notin> W\<close> by simp
      next
        case (step y z)
        then show ?case using W(4) by blast
      qed
      then have "(u, u) \<in> (R \<inter> (V - W) \<times> (V - W))\<^sup>+"
        using trancl_stays[of R "V - W", OF _ u(2)] W(4) by blast
      then show False using W(5) by (simp add: acyclic_def)
    qed
  qed
  moreover have "W = {} \<longleftrightarrow> acyclic R"
  proof
    assume "W = {}"
    then show "acyclic R" using W(5) fin(2) by (simp add: Int_absorb2)
  next
    assume "acyclic R"
    then show "W = {}" using calculation by (auto simp: acyclic_def)
  qed
  moreover have "sorted (detect_cycles nodes edges)"
    by (auto simp: detect_cycles_def Let_def split: prod.split)
  moreover have "detect_cycles nodes edges = [] \<longleftrightarrow> W = {}" using W(2) by auto
  ultimately show ?thesis unfolding V_def[symmetric] R_def[symmetric] using W(2) by simp
qed

text \<open>C25: Cycle detection reports exactly the steps that some cycle of the step graph leads to
  (the members of cycles and everything downstream of them), sorted; in particular it reports
  nothing exactly when the step graph is acyclic.\<close>

theorem detect_cycles_exact:
  "set (detect_cycles nodes edges) =
     {v \<in> wn_step_id ` set nodes. \<exists>u. (u, u) \<in> (step_graph (wn_step_id ` set nodes) edges)\<^sup>+ \<and>
        (u, v) \<in> (step_graph (wn_step_id ` set nodes) edges)\<^sup>*}
   \<and> sorted (detect_cycles nodes edges)
   \<and> (detect_cycles nodes edges = [] \<longleftrightarrow> acyclic (step_graph (wn_step_id ` set nodes) edges))"
  by (rule cycle_report)

end
