(* ===== verification/Compiler.thy ===== *)
theory Compiler
  imports Kahn
begin

text \<open>
  The playbook compiler of engine/btagent_engine/compiler/compiler.py: from the document a
  YAML parser returns to a workflow graph, with its caps, key allowlists and error cases.
  The YAML parser and the integer coercion of the validation library are arguments
  (\<^term>\<open>load\<close>, \<^term>\<open>as_int\<close>).  Text fields accept exactly strings.
\<close>

section \<open>Caps, keys and errors\<close>

definition max_playbook_bytes :: nat where "max_playbook_bytes = 1 * 1024 * 1024"
definition max_steps :: nat where "max_steps = 500"
definition max_parallel_branches :: nat where "max_parallel_branches = 32"
definition max_branch_depth :: nat where "max_branch_depth = 100"

definition allowed_top_level_keys :: "string list" where
  "allowed_top_level_keys =
     [''name'', ''version'', ''description'', ''trigger'', ''steps'', ''metadata'']"

definition allowed_trigger_keys :: "string list" where
  "allowed_trigger_keys = [''type'', ''parameters'']"

definition base_step_keys :: "string list" where
  "base_step_keys =
     [''id'', ''type'', ''name'', ''description'', ''config'', ''next_step'', ''on_failure'']"

definition step_keys_by_type :: "(string \<times> string list) list" where
  "step_keys_by_type =
     [(''action'', base_step_keys @ [''tool_name'', ''arguments'', ''timeout_seconds'']),
      (''decision'', base_step_keys @ [''condition'', ''true_branch'', ''false_branch'']),
      (''hitl_gate'', base_step_keys @ [''prompt'', ''timeout_seconds'', ''required_role'']),
      (''parallel_fork'', base_step_keys @ [''branches'']),
      (''join'', base_step_keys),
      (''end'', base_step_keys)]"

definition builtin_node_ids :: "(string \<times> string) list" where
  "builtin_node_ids =
     [(''decision'', ''decision.branch''), (''parallel_fork'', ''decision.parallel''),
      (''hitl_gate'', ''decision.hitl_gate'')]"

datatype compile_error =
    PlaybookTooLarge
  | PlaybookNotMapping
  | UnknownTopKeys "pyval list"
  | MissingField string
  | StepsNotList
  | TooManySteps nat
  | TriggerNotMapping
  | UnknownTriggerKeys "pyval list"
  | StepNotMapping
  | StepMissingId
  | UnknownStepType string pyval
  | UnknownStepKeys string "pyval list"
  | InvalidOnFailure string pyval
  | BranchesNotList string
  | TooManyBranches string nat
  | BranchNotList string nat
  | BranchTooLong string nat nat
  | BranchRefInvalid string nat nat
  | DuplicateStepId string
  | CycleDetected "string list"

text \<open>What a compilation can raise: the documented error, or an exception of a callee.\<close>

datatype compile_exn =
    PlaybookCompileError compile_error
  | YamlError
  | ValidationError
  | Builtin py_exn

type_synonym 'a compiled = "(compile_exn, 'a) res"

definition lift_py :: "(py_exn, 'a) res \<Rightarrow> 'a compiled" where
  "lift_py r = (case r of Inl e \<Rightarrow> Inl (Builtin e) | Inr a \<Rightarrow> Inr a)"

definition ensure :: "bool \<Rightarrow> compile_exn \<Rightarrow> unit compiled" where
  "ensure b e = (if b then Inr () else Inl e)"

text \<open>Bytes of the UTF-8 encoding; code points from 128 take two.\<close>

definition utf8_len :: "string \<Rightarrow> nat" where
  "utf8_len s = sum_list (map (\<lambda>c. if (of_char c :: nat) < 128 then 1 else 2) s)"

text \<open>
  \<^verbatim>\<open>sorted\<close> over a set of keys raises when two of them cannot be compared: keys of a decoded
  document compare when all are text or all are numbers.
\<close>

definition sortable :: "pyval list \<Rightarrow> bool" where
  "sortable ks = (length ks \<le> 1 \<or> list_all (\<lambda>k. case k of PStr s \<Rightarrow> True | _ \<Rightarrow> False) ks
     \<or> list_all (\<lambda>k. num_of k \<noteq> None) ks)"

definition reject_unknown ::
  "string list \<Rightarrow> (pyval list \<Rightarrow> compile_error) \<Rightarrow> (pyval \<times> pyval) list \<Rightarrow> unit compiled" where
  "reject_unknown allowed err d =
     (let unknown = filter (\<lambda>k. k \<notin> PStr ` set allowed) (map fst d) in
      if unknown = [] then Inr ()
      else if sortable unknown then Inl (PlaybookCompileError (err unknown))
      else Inl (Builtin TypeErr))"

section \<open>Parsing steps\<close>

record compiled_step =
  cs_id :: string
  cs_type :: string
  cs_name :: string
  cs_description :: string
  cs_config :: config
  cs_next_step :: "string option"
  cs_on_failure :: string
  cs_tool_name :: string
  cs_arguments :: config
  cs_timeout_seconds :: "int option"
  cs_condition :: string
  cs_true_branch :: string
  cs_false_branch :: string
  cs_prompt :: string
  cs_required_role :: string
  cs_branches :: "string list list"

definition parse_yaml :: "(string \<Rightarrow> pyval option) \<Rightarrow> string \<Rightarrow> (pyval \<times> pyval) list compiled" where
  "parse_yaml load text =
     (if utf8_len text > max_playbook_bytes then Inl (PlaybookCompileError PlaybookTooLarge)
      else case load text of
        None \<Rightarrow> Inl YamlError
      | Some (PDict d) \<Rightarrow> Inr d
      | Some _ \<Rightarrow> Inl (PlaybookCompileError PlaybookNotMapping))"

fun branch_refs :: "string \<Rightarrow> nat \<Rightarrow> nat \<Rightarrow> pyval list \<Rightarrow> string list compiled" where
  "branch_refs sid i j [] = Inr []"
| "branch_refs sid i j (r # rs) =
     (case r of
        PStr s \<Rightarrow> if s = [] then Inl (PlaybookCompileError (BranchRefInvalid sid i j))
                  else bind_res (branch_refs sid i (Suc j) rs) (\<lambda>ss. Inr (s # ss))
      | _ \<Rightarrow> Inl (PlaybookCompileError (BranchRefInvalid sid i j)))"

fun validate_branch_list :: "string \<Rightarrow> nat \<Rightarrow> pyval list \<Rightarrow> string list list compiled" where
  "validate_branch_list sid i [] = Inr []"
| "validate_branch_list sid i (b # bs) =
     (case b of
        PList refs \<Rightarrow>
          if length refs > max_branch_depth
          then Inl (PlaybookCompileError (BranchTooLong sid i (length refs)))
          else bind_res (branch_refs sid i 0 refs) (\<lambda>r.
               bind_res (validate_branch_list sid (Suc i) bs) (\<lambda>rest. Inr (r # rest)))
      | _ \<Rightarrow> Inl (PlaybookCompileError (BranchNotList sid i)))"

definition validate_branches :: "string \<Rightarrow> pyval \<Rightarrow> string list list compiled" where
  "validate_branches sid v =
     (case v of
        PList bs \<Rightarrow>
          if length bs > max_parallel_branches
          then Inl (PlaybookCompileError (TooManyBranches sid (length bs)))
          else validate_branch_list sid 0 bs
      | _ \<Rightarrow> Inl (PlaybookCompileError (BranchesNotList sid)))"

text \<open>Field access with a default, and the field checks of the record's validation.\<close>

definition get_or :: "(pyval \<times> pyval) list \<Rightarrow> string \<Rightarrow> pyval \<Rightarrow> pyval" where
  "get_or d k dflt = (case get_str d k of None \<Rightarrow> dflt | Some v \<Rightarrow> v)"

fun str_field :: "pyval \<Rightarrow> string compiled" where
  "str_field (PStr s) = Inr s"
| "str_field v = Inl ValidationError"

fun opt_str_field :: "pyval \<Rightarrow> string option compiled" where
  "opt_str_field PNone = Inr None"
| "opt_str_field (PStr s) = Inr (Some s)"
| "opt_str_field v = Inl ValidationError"

definition opt_int_field :: "(pyval \<Rightarrow> int option) \<Rightarrow> pyval \<Rightarrow> int option compiled" where
  "opt_int_field as_int v =
     (if v = PNone then Inr None
      else case as_int v of None \<Rightarrow> Inl ValidationError | Some i \<Rightarrow> Inr (Some i))"

definition config_field :: "(pyval \<times> pyval) list \<Rightarrow> config compiled" where
  "config_field d =
     map_res (\<lambda>kv. bind_res (str_field (fst kv)) (\<lambda>k. Inr (k, snd kv))) d"

definition parse_step :: "(pyval \<Rightarrow> int option) \<Rightarrow> pyval \<Rightarrow> compiled_step compiled" where
  "parse_step as_int raw =
     (case raw of
        PDict d \<Rightarrow>
          (case get_str d ''id'' of
             Some (PStr sid) \<Rightarrow>
               if sid = [] then Inl (PlaybookCompileError StepMissingId)
               else
                 (let ty = get_or d ''type'' (PStr ''action'') in
                  if \<not> hashable ty then Inl (Builtin TypeErr)
                  else case ty of
                    PStr t \<Rightarrow>
                      (case map_of step_keys_by_type t of
                         None \<Rightarrow> Inl (PlaybookCompileError (UnknownStepType sid ty))
                       | Some keys \<Rightarrow>
                           bind_res (reject_unknown keys (UnknownStepKeys sid) d) (\<lambda>_.
                           (let onf = get_or d ''on_failure'' (PStr ''abort'') in
                            if \<not> hashable onf then Inl (Builtin TypeErr)
                            else if onf \<notin> {PStr ''skip'', PStr ''abort'', PStr ''retry''}
                            then Inl (PlaybookCompileError (InvalidOnFailure sid onf))
                            else
                              bind_res (if t = ''parallel_fork''
                                        then validate_branches sid (get_or d ''branches'' (PList []))
                                        else Inr []) (\<lambda>branches.
                              bind_res (lift_py (py_dict (get_or d ''config'' (PDict [])))) (\<lambda>cfg0.
                              bind_res (lift_py (py_dict (get_or d ''arguments'' (PDict [])))) (\<lambda>arg0.
                              bind_res (str_field onf) (\<lambda>on_failure.
                              bind_res (str_field (get_or d ''name'' (PStr []))) (\<lambda>name.
                              bind_res (str_field (get_or d ''description'' (PStr []))) (\<lambda>descr.
                              bind_res (config_field cfg0) (\<lambda>cfg.
                              bind_res (opt_str_field (get_or d ''next_step'' PNone)) (\<lambda>nxt.
                              bind_res (str_field (get_or d ''tool_name'' (PStr []))) (\<lambda>tool.
                              bind_res (config_field arg0) (\<lambda>args.
                              bind_res (opt_int_field as_int (get_or d ''timeout_seconds'' PNone)) (\<lambda>tmo.
                              bind_res (str_field (get_or d ''condition'' (PStr []))) (\<lambda>cond.
                              bind_res (str_field (get_or d ''true_branch'' (PStr []))) (\<lambda>tb.
                              bind_res (str_field (get_or d ''false_branch'' (PStr []))) (\<lambda>fb.
                              bind_res (str_field (get_or d ''prompt'' (PStr []))) (\<lambda>prompt.
                              bind_res (str_field (get_or d ''required_role'' (PStr ''senior_analyst''))) (\<lambda>role.
                              Inr \<lparr> cs_id = sid, cs_type = t, cs_name = name,
                                cs_description = descr, cs_config = cfg, cs_next_step = nxt,
                                cs_on_failure = on_failure, cs_tool_name = tool,
                                cs_arguments = args, cs_timeout_seconds = tmo,
                                cs_condition = cond, cs_true_branch = tb, cs_false_branch = fb,
                                cs_prompt = prompt, cs_required_role = role,
                                cs_branches = branches \<rparr>)))))))))))))))))))
                  | _ \<Rightarrow> Inl (PlaybookCompileError (UnknownStepType sid ty)))
           | _ \<Rightarrow> Inl (PlaybookCompileError StepMissingId))
      | _ \<Rightarrow> Inl (PlaybookCompileError StepNotMapping))"

section \<open>Graph construction\<close>

definition resolve_node_id :: "compiled_step \<Rightarrow> string" where
  "resolve_node_id s =
     (if cs_type s = ''action''
      then (if cs_tool_name s \<noteq> [] then cs_tool_name s else ''action.unresolved'')
      else case map_of builtin_node_ids (cs_type s) of
        Some nid \<Rightarrow> nid
      | None \<Rightarrow> ''compiler.'' @ cs_type s)"

definition set_default :: "string \<Rightarrow> pyval \<Rightarrow> config \<Rightarrow> config" where
  "set_default k v c = (if map_of c k = None then c @ [(k, v)] else c)"

definition set_default_timeout :: "compiled_step \<Rightarrow> config \<Rightarrow> config" where
  "set_default_timeout s c =
     (case cs_timeout_seconds s of
        None \<Rightarrow> c | Some n \<Rightarrow> set_default ''timeout_seconds'' (PInt n) c)"

definition step_config :: "compiled_step \<Rightarrow> config" where
  "step_config s =
     (if cs_type s = ''action'' then
        set_default_timeout s (fold (\<lambda>kv c. set_default (fst kv) (snd kv) c) (cs_arguments s) (cs_config s))
      else if cs_type s = ''decision'' then
        set_default ''condition'' (PStr (cs_condition s)) (cs_config s)
      else if cs_type s = ''hitl_gate'' then
        set_default_timeout s
          (set_default ''required_role'' (PStr (cs_required_role s))
            (set_default ''prompt'' (PStr (cs_prompt s)) (cs_config s)))
      else if cs_type s = ''parallel_fork'' then
        set_default ''branches'' (PList (map (\<lambda>b. PList (map PStr b)) (cs_branches s))) (cs_config s)
      else cs_config s)"

definition build_node :: "compiled_step \<Rightarrow> workflow_node" where
  "build_node s = \<lparr> wn_step_id = cs_id s, wn_node_id = resolve_node_id s,
     wn_name = cs_name s, wn_config = step_config s \<rparr>"

text \<open>An edge is emitted when its target is set and names a step.\<close>

definition edge_if :: "string set \<Rightarrow> string \<Rightarrow> string option \<Rightarrow> string \<Rightarrow> workflow_edge list" where
  "edge_if ids src tgt label =
     (case tgt of
        None \<Rightarrow> []
      | Some t \<Rightarrow> if t \<noteq> [] \<and> t \<in> ids
                 then [\<lparr> we_source = src, we_target = t, we_label = label \<rparr>] else [])"

text \<open>The links inside one branch, between neighbours that are both steps.\<close>

fun chain_edges :: "string set \<Rightarrow> string list \<Rightarrow> workflow_edge list" where
  "chain_edges ids (a # b # rest) =
     (if a \<in> ids \<and> b \<in> ids then [\<lparr> we_source = a, we_target = b, we_label = ''next'' \<rparr>] else [])
     @ chain_edges ids (b # rest)"
| "chain_edges ids _ = []"

definition branch_label :: "nat \<Rightarrow> string" where
  "branch_label i = ''branch.'' @ nat_digits i"

fun branch_edges :: "string set \<Rightarrow> string \<Rightarrow> nat \<Rightarrow> string list list \<Rightarrow> workflow_edge list" where
  "branch_edges ids src i [] = []"
| "branch_edges ids src i (b # bs) =
     (case b of
        [] \<Rightarrow> []
      | h # _ \<Rightarrow> if h \<in> ids
                then [\<lparr> we_source = src, we_target = h, we_label = branch_label i \<rparr>] else [])
     @ chain_edges ids b @ branch_edges ids src (Suc i) bs"

definition build_edges :: "string set \<Rightarrow> compiled_step \<Rightarrow> workflow_edge list" where
  "build_edges ids s =
     (if cs_type s = ''decision'' then
        edge_if ids (cs_id s) (Some (cs_true_branch s)) ''true''
        @ edge_if ids (cs_id s) (Some (cs_false_branch s)) ''false''
        @ edge_if ids (cs_id s) (cs_next_step s) ''next''
      else if cs_type s = ''parallel_fork'' then
        branch_edges ids (cs_id s) 0 (cs_branches s)
        @ edge_if ids (cs_id s) (cs_next_step s) ''join''
      else edge_if ids (cs_id s) (cs_next_step s) ''next'')"

section \<open>The compiler\<close>

fun parse_steps ::
  "(pyval \<Rightarrow> int option) \<Rightarrow> string list \<Rightarrow> pyval list \<Rightarrow> compiled_step list compiled" where
  "parse_steps as_int seen [] = Inr []"
| "parse_steps as_int seen (r # rs) =
     bind_res (parse_step as_int r) (\<lambda>s.
       if cs_id s \<in> set seen then Inl (PlaybookCompileError (DuplicateStepId (cs_id s)))
       else bind_res (parse_steps as_int (cs_id s # seen) rs) (\<lambda>ss. Inr (s # ss)))"

definition assemble ::
  "(pyval \<times> pyval) list \<Rightarrow> (pyval \<times> pyval) list \<Rightarrow> compiled_step list \<Rightarrow> workflow compiled" where
  "assemble d trig steps =
     (let nodes = map build_node steps;
          ids = set (map wn_step_id nodes);
          edges = concat (map (build_edges ids) steps);
          cyc = detect_cycles nodes edges
      in if cyc \<noteq> [] then Inl (PlaybookCompileError (CycleDetected cyc))
         else
           bind_res (lift_py (py_str (get_or d ''version'' (PStr ''1.0'')))) (\<lambda>version.
           bind_res (lift_py (py_str (get_or d ''description'' (PStr [])))) (\<lambda>descr.
           bind_res (lift_py (py_dict (get_or trig ''parameters'' (PDict [])))) (\<lambda>params.
           bind_res (str_field (get_or d ''name'' PNone)) (\<lambda>name.
             Inr \<lparr> wf_name = name, wf_version = version, wf_description = descr,
               wf_trigger = [(''type'', get_or trig ''type'' PNone), (''parameters'', PDict params)],
               wf_nodes = nodes, wf_edges = edges \<rparr>)))))"

definition compile_playbook ::
  "(string \<Rightarrow> pyval option) \<Rightarrow> (pyval \<Rightarrow> int option) \<Rightarrow> string \<Rightarrow> workflow compiled" where
  "compile_playbook load as_int text =
     bind_res (parse_yaml load text) (\<lambda>d.
     bind_res (reject_unknown allowed_top_level_keys UnknownTopKeys d) (\<lambda>_.
     bind_res (ensure (get_str d ''name'' \<noteq> None) (PlaybookCompileError (MissingField ''name''))) (\<lambda>_.
     bind_res (ensure (get_str d ''trigger'' \<noteq> None) (PlaybookCompileError (MissingField ''trigger''))) (\<lambda>_.
     (case get_str d ''steps'' of
        Some (PList raws) \<Rightarrow>
          bind_res (ensure (length raws \<le> max_steps)
                     (PlaybookCompileError (TooManySteps (length raws)))) (\<lambda>_.
          (case get_or d ''trigger'' PNone of
             PDict trig \<Rightarrow>
               bind_res (reject_unknown allowed_trigger_keys UnknownTriggerKeys trig) (\<lambda>_.
               bind_res (ensure (get_str trig ''type'' \<noteq> None)
                          (PlaybookCompileError (MissingField ''type''))) (\<lambda>_.
               bind_res (parse_steps as_int [] raws) (\<lambda>steps. assemble d trig steps)))
           | _ \<Rightarrow> Inl (PlaybookCompileError TriggerNotMapping)))
      | _ \<Rightarrow> Inl (PlaybookCompileError StepsNotList))))))"

section \<open>Lemmas\<close>

lemma ensure_Inr [simp]: "ensure b e = Inr u \<longleftrightarrow> b"
  by (simp add: ensure_def)

lemma reject_unknown_Inr:
  "reject_unknown allowed err d = Inr u \<longleftrightarrow> fst ` set d \<subseteq> PStr ` set allowed"
  by (auto simp: reject_unknown_def Let_def filter_empty_conv)

lemma branch_refs_Inr: "branch_refs sid i j rs = Inr ss \<Longrightarrow> [] \<notin> set ss \<and> rs = map PStr ss"
  by (induction sid i j rs arbitrary: ss rule: branch_refs.induct)
     (auto split: pyval.splits if_splits)

lemma validate_branch_list_Inr:
  "validate_branch_list sid i bs = Inr r \<Longrightarrow>
     length r = length bs \<and> (\<forall>b \<in> set r. length b \<le> max_branch_depth \<and> [] \<notin> set b)"
proof (induction sid i bs arbitrary: r rule: validate_branch_list.induct)
  case (2 sid i b bs)
  obtain refs ss rest where b: "b = PList refs" "length refs \<le> max_branch_depth"
      "branch_refs sid i 0 refs = Inr ss" "validate_branch_list sid (Suc i) bs = Inr rest" "r = ss # rest"
    using "2.prems" by (auto split: pyval.split_asm if_split_asm)
  then show ?case
    using "2.IH"[of refs ss rest] branch_refs_Inr[of sid i 0 refs ss] by auto
qed simp

lemma validate_branches_Inr:
  "validate_branches sid v = Inr r \<Longrightarrow>
     length r \<le> max_parallel_branches \<and> (\<forall>b \<in> set r. length b \<le> max_branch_depth \<and> [] \<notin> set b)"
  by (auto simp: validate_branches_def split: pyval.splits if_splits dest!: validate_branch_list_Inr)

text \<open>What an accepted step satisfies.\<close>

definition step_ok :: "compiled_step \<Rightarrow> bool" where
  "step_ok s \<longleftrightarrow> cs_id s \<noteq> [] \<and> cs_type s \<in> fst ` set step_keys_by_type \<and>
     cs_on_failure s \<in> {''skip'', ''abort'', ''retry''} \<and>
     length (cs_branches s) \<le> max_parallel_branches \<and>
     (\<forall>b \<in> set (cs_branches s). length b \<le> max_branch_depth \<and> [] \<notin> set b)"

lemma str_field_Inr [simp]: "str_field v = Inr s \<longleftrightarrow> v = PStr s"
  by (cases v) auto

lemma branches_choice:
  "(if c then validate_branches sid v else Inr []) = Inr r \<Longrightarrow>
     length r \<le> max_parallel_branches \<and> (\<forall>b \<in> set r. length b \<le> max_branch_depth \<and> [] \<notin> set b)"
  by (cases c) (auto dest: validate_branches_Inr)

lemma parse_step_ok: "parse_step as_int raw = Inr s \<Longrightarrow> step_ok s"
  unfolding parse_step_def Let_def step_ok_def
  by (auto split: pyval.splits option.splits if_splits
      dest!: branches_choice validate_branches_Inr map_of_SomeD simp: rev_image_eqI)

lemma parse_steps_Inr:
  "parse_steps as_int seen rs = Inr ss \<Longrightarrow>
     length ss = length rs \<and> distinct (map cs_id ss) \<and> cs_id ` set ss \<inter> set seen = {} \<and>
     list_all2 (\<lambda>r s. parse_step as_int r = Inr s) rs ss"
proof (induction as_int seen rs arbitrary: ss rule: parse_steps.induct)
  case (2 as_int seen r rs)
  then obtain s rest where s: "parse_step as_int r = Inr s" "cs_id s \<notin> set seen"
      "parse_steps as_int (cs_id s # seen) rs = Inr rest" "ss = s # rest"
    by (auto split: if_splits)
  then show ?case using "2.IH"[OF s(1,2,3)] by auto
qed simp

lemma parse_steps_ok: "parse_steps as_int seen rs = Inr ss \<Longrightarrow> list_all step_ok ss"
  by (induction as_int seen rs arbitrary: ss rule: parse_steps.induct)
     (auto split: if_split_asm dest: parse_step_ok)

lemma compile_playbook_Inr:
  assumes "compile_playbook load as_int text = Inr w"
  obtains d trig raws steps where "load text = Some (PDict d)"
    "utf8_len text \<le> max_playbook_bytes" "get_str d ''steps'' = Some (PList raws)"
    "length raws \<le> max_steps" "parse_steps as_int [] raws = Inr steps" "assemble d trig steps = Inr w"
proof -
  obtain d where d: "parse_yaml load text = Inr d"
    and r: "(case get_str d ''steps'' of
        Some (PList raws) \<Rightarrow>
          bind_res (ensure (length raws \<le> max_steps)
                     (PlaybookCompileError (TooManySteps (length raws)))) (\<lambda>_.
          (case get_or d ''trigger'' PNone of
             PDict trig \<Rightarrow>
               bind_res (reject_unknown allowed_trigger_keys UnknownTriggerKeys trig) (\<lambda>_.
               bind_res (ensure (get_str trig ''type'' \<noteq> None)
                          (PlaybookCompileError (MissingField ''type''))) (\<lambda>_.
               bind_res (parse_steps as_int [] raws) (\<lambda>steps. assemble d trig steps)))
           | _ \<Rightarrow> Inl (PlaybookCompileError TriggerNotMapping)))
      | _ \<Rightarrow> Inl (PlaybookCompileError StepsNotList)) = Inr w"
    using assms unfolding compile_playbook_def by (simp only: bind_res_eq_Inr) blast
  obtain raws where raws: "get_str d ''steps'' = Some (PList raws)"
    using r by (cases "get_str d ''steps''") (simp_all split: pyval.split_asm)
  obtain trig where trig: "get_or d ''trigger'' PNone = PDict trig"
    using r raws by (cases "get_or d ''trigger'' PNone") simp_all
  have rest: "length raws \<le> max_steps"
      "\<exists>steps. parse_steps as_int [] raws = Inr steps \<and> assemble d trig steps = Inr w"
    using r by (simp_all add: raws trig)
  have "load text = Some (PDict d) \<and> utf8_len text \<le> max_playbook_bytes"
    using d unfolding parse_yaml_def
    by (cases "load text") (auto split: if_split_asm pyval.split_asm)
  then show thesis using that raws rest by blast
qed

lemma assemble_Inr:
  "assemble d trig steps = Inr w \<Longrightarrow>
     wf_nodes w = map build_node steps \<and>
     wf_edges w = concat (map (build_edges (cs_id ` set steps)) steps) \<and>
     detect_cycles (wf_nodes w) (wf_edges w) = []"
  by (auto simp: assemble_def Let_def build_node_def image_image comp_def split: if_splits)

lemma edge_if_set:
  "e \<in> set (edge_if ids src tgt label) \<longleftrightarrow>
     (\<exists>t. tgt = Some t \<and> t \<noteq> [] \<and> t \<in> ids \<and> e = \<lparr> we_source = src, we_target = t, we_label = label \<rparr>)"
  by (auto simp: edge_if_def split: option.splits)

lemma chain_edges_ends:
  "e \<in> set (chain_edges ids b) \<Longrightarrow> we_source e \<in> ids \<and> we_target e \<in> ids"
  by (induction ids b rule: chain_edges.induct) (auto split: if_splits)

lemma branch_edges_ends:
  "e \<in> set (branch_edges ids src i bs) \<Longrightarrow> (we_source e \<in> ids \<or> we_source e = src) \<and> we_target e \<in> ids"
  by (induction ids src i bs rule: branch_edges.induct)
     (auto split: list.splits if_splits dest: chain_edges_ends)

lemma build_edges_ends:
  "e \<in> set (build_edges ids s) \<Longrightarrow> (we_source e \<in> ids \<or> we_source e = cs_id s) \<and> we_target e \<in> ids"
  by (auto simp: build_edges_def edge_if_set split: if_splits dest: branch_edges_ends)

section \<open>The edges a playbook means\<close>

inductive playbook_edge :: "compiled_step list \<Rightarrow> string \<Rightarrow> string \<Rightarrow> string \<Rightarrow> bool"
  for steps where
  true_branch: "s \<in> set steps \<Longrightarrow> cs_type s = ''decision'' \<Longrightarrow> cs_true_branch s \<in> cs_id ` set steps
    \<Longrightarrow> playbook_edge steps (cs_id s) (cs_true_branch s) ''true''"
| false_branch: "s \<in> set steps \<Longrightarrow> cs_type s = ''decision'' \<Longrightarrow> cs_false_branch s \<in> cs_id ` set steps
    \<Longrightarrow> playbook_edge steps (cs_id s) (cs_false_branch s) ''false''"
| next_step: "s \<in> set steps \<Longrightarrow> cs_type s \<noteq> ''parallel_fork'' \<Longrightarrow> cs_next_step s = Some t
    \<Longrightarrow> t \<in> cs_id ` set steps \<Longrightarrow> playbook_edge steps (cs_id s) t ''next''"
| join: "s \<in> set steps \<Longrightarrow> cs_type s = ''parallel_fork'' \<Longrightarrow> cs_next_step s = Some t
    \<Longrightarrow> t \<in> cs_id ` set steps \<Longrightarrow> playbook_edge steps (cs_id s) t ''join''"
| branch_head: "s \<in> set steps \<Longrightarrow> cs_type s = ''parallel_fork'' \<Longrightarrow> i < length (cs_branches s)
    \<Longrightarrow> cs_branches s ! i = h # rest \<Longrightarrow> h \<in> cs_id ` set steps
    \<Longrightarrow> playbook_edge steps (cs_id s) h (branch_label i)"
| branch_link: "s \<in> set steps \<Longrightarrow> cs_type s = ''parallel_fork'' \<Longrightarrow> b \<in> set (cs_branches s)
    \<Longrightarrow> Suc j < length b \<Longrightarrow> b ! j \<in> cs_id ` set steps \<Longrightarrow> b ! Suc j \<in> cs_id ` set steps
    \<Longrightarrow> playbook_edge steps (b ! j) (b ! Suc j) ''next''"

abbreviation edge :: "string \<Rightarrow> string \<Rightarrow> string \<Rightarrow> workflow_edge" where
  "edge a b l \<equiv> \<lparr> we_source = a, we_target = b, we_label = l \<rparr>"

lemma chain_edges_iff:
  "edge a b l \<in> set (chain_edges ids br) \<longleftrightarrow>
     (\<exists>j. Suc j < length br \<and> br ! j = a \<and> br ! Suc j = b \<and> a \<in> ids \<and> b \<in> ids \<and> l = ''next'')"
proof (induction ids br rule: chain_edges.induct)
  case (1 ids x y rest)
  have split: "(\<exists>j. Suc j < length (x # y # rest) \<and> Q j) \<longleftrightarrow>
      Q 0 \<or> (\<exists>j. Suc j < length (y # rest) \<and> Q (Suc j))" for Q
    by (auto simp: less_Suc_eq_0_disj)
  show ?case
    by (subst split) (use 1 in auto)
qed auto

lemma branch_edges_iff:
  "edge a b l \<in> set (branch_edges ids src k bs) \<longleftrightarrow>
     (\<exists>i rest. i < length bs \<and> bs ! i = b # rest \<and> b \<in> ids \<and> a = src \<and> l = branch_label (k + i)) \<or>
     (\<exists>br \<in> set bs. edge a b l \<in> set (chain_edges ids br))"
proof (induction ids src k bs rule: branch_edges.induct)
  case (2 ids src k c bs)
  have split: "(\<exists>i rest. i < length (c # bs) \<and> (c # bs) ! i = b # rest \<and> P i) \<longleftrightarrow>
      (\<exists>rest. c = b # rest \<and> P 0) \<or> (\<exists>i rest. i < length bs \<and> bs ! i = b # rest \<and> P (Suc i))" for P
    by (auto simp: less_Suc_eq_0_disj)
  have head: "edge a b l \<in> set (case c of [] \<Rightarrow> []
      | h # _ \<Rightarrow> if h \<in> ids then [edge src h (branch_label k)] else []) \<longleftrightarrow>
      (\<exists>rest. c = b # rest \<and> b \<in> ids \<and> a = src \<and> l = branch_label k)"
    by (auto split: list.splits)
  show ?case
    unfolding branch_edges.simps set_append Un_iff head 2
    by (subst split) auto
qed simp

lemma build_edges_iff:
  assumes "list_all step_ok steps"
  shows "(\<exists>s \<in> set steps. edge a b l \<in> set (build_edges (cs_id ` set steps) s)) \<longleftrightarrow>
         playbook_edge steps a b l"
proof
  assume "\<exists>s \<in> set steps. edge a b l \<in> set (build_edges (cs_id ` set steps) s)"
  then obtain s where s: "s \<in> set steps" "edge a b l \<in> set (build_edges (cs_id ` set steps) s)" by blast
  then show "playbook_edge steps a b l"
    by (auto simp: build_edges_def edge_if_set branch_edges_iff chain_edges_iff
        split: if_splits intro: playbook_edge.intros)
next
  have ne: "[] \<notin> cs_id ` set steps" using assms by (auto simp: list_all_iff step_ok_def)
  assume "playbook_edge steps a b l"
  then show "\<exists>s \<in> set steps. edge a b l \<in> set (build_edges (cs_id ` set steps) s)"
  proof cases
    case (branch_head s i rest)
    then show ?thesis
      by (intro bexI[of _ s]) (auto simp: build_edges_def branch_edges_iff intro: exI[of _ i])
  next
    case (branch_link s b j)
    then show ?thesis
      by (intro bexI[of _ s]) (auto simp: build_edges_def branch_edges_iff chain_edges_iff)
  next
    case (true_branch s)
    then show ?thesis
      using ne by (intro bexI[of _ s]) (auto simp: build_edges_def edge_if_set)
  next
    case (false_branch s)
    then show ?thesis
      using ne by (intro bexI[of _ s]) (auto simp: build_edges_def edge_if_set)
  next
    case (next_step s)
    then have "b \<noteq> []" using ne by metis
    then show ?thesis
      using next_step by (intro bexI[of _ s]) (auto simp: build_edges_def edge_if_set)
  next
    case (join s)
    then have "b \<noteq> []" using ne by metis
    then show ?thesis
      using join by (intro bexI[of _ s]) (auto simp: build_edges_def edge_if_set)
  qed
qed

lemma compile_playbook_graph:
  assumes "compile_playbook load as_int text = Inr w"
  shows "distinct (map wn_step_id (wf_nodes w)) \<and> length (wf_nodes w) \<le> max_steps \<and>
         [] \<notin> wf_step_ids w \<and>
         (\<forall>e \<in> set (wf_edges w). we_source e \<in> wf_step_ids w \<and> we_target e \<in> wf_step_ids w) \<and>
         acyclic (step_graph (wf_step_ids w) (wf_edges w))"
proof -
  obtain d trig raws steps where c: "length raws \<le> max_steps"
      "parse_steps as_int [] raws = Inr steps" "assemble d trig steps = Inr w"
    using compile_playbook_Inr[OF assms] by metis
  note steps = parse_steps_Inr[OF c(2)] and w = assemble_Inr[OF c(3)]
  have ids: "wf_step_ids w = cs_id ` set steps"
    using w by (simp add: wf_step_ids_def build_node_def image_image)
  have ne: "[] \<notin> cs_id ` set steps"
    using parse_steps_ok[OF c(2)] by (auto simp: list_all_iff step_ok_def)
  have "acyclic (step_graph (wn_step_id ` set (wf_nodes w)) (wf_edges w))"
    using cycle_report[of "wf_nodes w" "wf_edges w"] w by blast
  moreover have "we_source e \<in> wf_step_ids w \<and> we_target e \<in> wf_step_ids w" if "e \<in> set (wf_edges w)" for e
    using that w ids build_edges_ends by fastforce
  ultimately show ?thesis
    using c(1) steps w ne ids
    by (simp add: wf_step_ids_def build_node_def comp_def)
qed

section \<open>Properties\<close>

text \<open>C24: A compiled workflow is a well-formed graph: at most 500 nodes with distinct non-empty
  ids, every edge between two of its steps, and no cycle.\<close>

theorem compile_playbook_well_formed:
  assumes "compile_playbook load as_int text = Inr w"
  shows "distinct (map wn_step_id (wf_nodes w)) \<and> length (wf_nodes w) \<le> max_steps \<and>
         [] \<notin> wf_step_ids w \<and>
         (\<forall>e \<in> set (wf_edges w). we_source e \<in> wf_step_ids w \<and> we_target e \<in> wf_step_ids w) \<and>
         acyclic (step_graph (wf_step_ids w) (wf_edges w))"
  using compile_playbook_graph[OF assms] .

text \<open>C23: The compiler translates the document it was given: its steps one to one and in order,
  each within the branch caps and of a known type, and the edges of the result are exactly the
  branches, successors, joins and branch links the steps declare between existing steps.\<close>

theorem compile_playbook_faithful:
  assumes "compile_playbook load as_int text = Inr w"
  shows "\<exists>d raws steps. load text = Some (PDict d) \<and> get_str d ''steps'' = Some (PList raws) \<and>
           list_all2 (\<lambda>r s. parse_step as_int r = Inr s) raws steps \<and> list_all step_ok steps \<and>
           wf_nodes w = map build_node steps \<and>
           (\<forall>a b l. edge a b l \<in> set (wf_edges w) \<longleftrightarrow> playbook_edge steps a b l)"
proof -
  obtain d trig raws steps where c: "load text = Some (PDict d)" "get_str d ''steps'' = Some (PList raws)"
      "parse_steps as_int [] raws = Inr steps" "assemble d trig steps = Inr w"
    using compile_playbook_Inr[OF assms] by metis
  note steps = parse_steps_Inr[OF c(3)] and w = assemble_Inr[OF c(4)]
  note ok = parse_steps_ok[OF c(3)]
  have "edge a b l \<in> set (wf_edges w) \<longleftrightarrow> playbook_edge steps a b l" for a b l
    using w build_edges_iff[OF ok, of a b l] by auto
  then show ?thesis using c steps w ok by blast
qed

section \<open>A sample playbook\<close>

definition sample_step :: "string \<Rightarrow> (pyval \<times> pyval) list \<Rightarrow> pyval" where
  "sample_step sid extra = PDict ((PStr ''id'', PStr sid) # extra)"

definition sample_playbook :: "pyval list \<Rightarrow> pyval" where
  "sample_playbook steps = PDict
     [(PStr ''name'', PStr ''p''),
      (PStr ''trigger'', PDict [(PStr ''type'', PStr ''manual'')]),
      (PStr ''steps'', PList steps)]"

definition branching_playbook :: pyval where
  "branching_playbook = sample_playbook
     [sample_step ''a'' [(PStr ''type'', PStr ''decision''), (PStr ''condition'', PStr ''x''),
        (PStr ''true_branch'', PStr ''b''), (PStr ''false_branch'', PStr ''c'')],
      sample_step ''b'' [(PStr ''next_step'', PStr ''c'')],
      sample_step ''c'' []]"

lemma branching_playbook_compiles:
  "\<exists>w. compile_playbook (\<lambda>_. Some branching_playbook) (\<lambda>_. None) [] = Inr w \<and>
       edge ''a'' ''b'' ''true'' \<in> set (wf_edges w)"
proof -
  have "case compile_playbook (\<lambda>_. Some branching_playbook) (\<lambda>_. None) [] of
          Inl _ \<Rightarrow> False | Inr w \<Rightarrow> edge ''a'' ''b'' ''true'' \<in> set (wf_edges w)"
    by code_simp
  then show ?thesis by (auto split: sum.splits)
qed

lemma compile_playbook_well_formed_witness:
  "\<exists>w. compile_playbook (\<lambda>_. Some branching_playbook) (\<lambda>_. None) [] = Inr w \<and>
       acyclic (step_graph (wf_step_ids w) (wf_edges w))"
  using branching_playbook_compiles compile_playbook_well_formed by blast

lemma compile_playbook_faithful_witness:
  "\<exists>steps. list_all step_ok steps \<and> playbook_edge steps ''a'' ''b'' ''true''"
  using branching_playbook_compiles
    compile_playbook_faithful[of "\<lambda>_. Some branching_playbook" "\<lambda>_. None" "[]"] by blast

text \<open>A structural mistake can leave the compiler as another exception than the documented
  PlaybookCompileError: a null config, a null arguments block and a list as step type raise
  TypeError, a numeric next step a validation error; a cycle is the documented error.\<close>

theorem compile_playbook_undocumented_errors:
  "compile_playbook (\<lambda>_. Some (sample_playbook [sample_step ''a'' [(PStr ''config'', PNone)]]))
     (\<lambda>_. None) [] = Inl (Builtin TypeErr) \<and>
   compile_playbook (\<lambda>_. Some (sample_playbook [sample_step ''a'' [(PStr ''arguments'', PNone)]]))
     (\<lambda>_. None) [] = Inl (Builtin TypeErr) \<and>
   compile_playbook (\<lambda>_. Some (sample_playbook [sample_step ''a'' [(PStr ''type'', PList [])]]))
     (\<lambda>_. None) [] = Inl (Builtin TypeErr) \<and>
   compile_playbook (\<lambda>_. Some (sample_playbook [sample_step ''a'' [(PStr ''next_step'', PInt 5)]]))
     (\<lambda>_. None) [] = Inl ValidationError \<and>
   compile_playbook (\<lambda>_. Some (sample_playbook [sample_step ''a'' [(PStr ''next_step'', PStr ''a'')]]))
     (\<lambda>_. None) [] = Inl (PlaybookCompileError (CycleDetected [''a'']))"
  by (intro conjI) (code_simp+)

end
