(* ===== verification/Executor.thy ===== *)
theory Executor
  imports Templating Compiler
begin

text \<open>
  The workflow executor of engine/btagent_engine/runtime/executor.py and its state
  (runtime/state.py).  Running one node through the middleware chain is the field
  \<^term>\<open>env_run\<close> of an environment; it gets the node id, the current step id and the
  approved steps of the run context, the input and a world it may change.  The branches of a
  parallel step run one after the other in declaration order, which is the schedule of
  branches that do not suspend; all of them run even when one raises, and the first
  exception in that order is the result.  The walk takes fuel, and running out of it is None.
\<close>

section \<open>State\<close>

record 'w run_state =
  rs_outputs :: "(string \<times> config) list"
  rs_executed :: "string list"
  rs_completed :: "string list"
  rs_trigger :: config
  rs_step :: "string option"
  rs_approved :: "string list"
  rs_world :: 'w

definition record_output :: "string \<Rightarrow> config \<Rightarrow> 'w run_state \<Rightarrow> 'w run_state" where
  "record_output sid out s =
     s\<lparr>rs_outputs := dict_put sid out (rs_outputs s),
       rs_executed := (if sid \<in> set (rs_executed s) then rs_executed s else rs_executed s @ [sid])\<rparr>"

definition get_output :: "string \<Rightarrow> 'w run_state \<Rightarrow> config option" where
  "get_output sid s = map_of (rs_outputs s) sid"

section \<open>Errors and results\<close>

text \<open>What running a node may raise, and what the executor raises.\<close>

datatype node_exn = PauseExn string | WorkflowExn "string option" string | PlainExn string | BaseExn string

datatype exec_exn =
    Paused string string
  | ExecError "string option" string
  | RawPy py_exn
  | RawCond cond_exn
  | RawBase string

record run_result =
  rr_workflow :: string
  rr_outputs :: "(string \<times> config) list"
  rr_final :: "config option"
  rr_executed :: "string list"

record 'w exec_env =
  env_fields :: "string \<Rightarrow> string list option"
  env_run :: "string \<Rightarrow> string option \<Rightarrow> string list \<Rightarrow> config \<Rightarrow> 'w \<Rightarrow> (node_exn, config) res \<times> 'w"
  env_eval :: evaluator

text \<open>A payload handed from step to step: nothing, a plain dict or a model.\<close>

datatype carried = NoPayload | DictPayload config | ModelPayload config

definition passthrough_node_ids :: "string list" where
  "passthrough_node_ids = [''compiler.join'', ''compiler.end'']"

definition decision_node_id :: string where "decision_node_id = ''decision.branch''"
definition parallel_node_id :: string where "parallel_node_id = ''decision.parallel''"
definition hitl_gate_node_id :: string where "hitl_gate_node_id = ''decision.hitl_gate''"

section \<open>Routing\<close>

definition edge_labelled :: "string \<Rightarrow> workflow_edge list \<Rightarrow> string option" where
  "edge_labelled l es = map_option we_target (find (\<lambda>e. we_label e = l) es)"

definition next_step :: "workflow \<Rightarrow> workflow_node \<Rightarrow> string option" where
  "next_step w n =
     (let es = out_edges w (wn_step_id n) in
      case es of
        [] \<Rightarrow> None
      | e # _ \<Rightarrow> (case edge_labelled ''next'' es of Some t \<Rightarrow> Some t | None \<Rightarrow> Some (we_target e)))"

definition next_parallel_step :: "workflow \<Rightarrow> workflow_node \<Rightarrow> string option" where
  "next_parallel_step w n = edge_labelled ''join'' (out_edges w (wn_step_id n))"

definition next_decision_step ::
  "workflow \<Rightarrow> workflow_node \<Rightarrow> config \<Rightarrow> (exec_exn, string option) res" where
  "next_decision_step w n out =
     (let branch = (case map_of out ''branch'' of None \<Rightarrow> PNone | Some v \<Rightarrow> v) in
      if branch = PNone then Inl (ExecError (Some (wn_step_id n)) ''missing branch'')
      else case find (\<lambda>e. PStr (we_label e) = branch) (out_edges w (wn_step_id n)) of
        Some e \<Rightarrow> Inr (Some (we_target e))
      | None \<Rightarrow> Inl (ExecError (Some (wn_step_id n)) ''no matching branch''))"

text \<open>Routing forward from a step with a known output, by the kind of its node.\<close>

definition route :: "workflow \<Rightarrow> workflow_node \<Rightarrow> config \<Rightarrow> (exec_exn, string option) res" where
  "route w n out =
     (if wn_node_id n = decision_node_id then next_decision_step w n out
      else if wn_node_id n = parallel_node_id then Inr (next_parallel_step w n)
      else Inr (next_step w n))"

section \<open>Building a node's input\<close>

definition dump :: "config \<Rightarrow> pyval" where
  "dump c = PDict (map (\<lambda>kv. (PStr (fst kv), snd kv)) c)"

definition raw_base :: "carried \<Rightarrow> config" where
  "raw_base p = (case p of NoPayload \<Rightarrow> [] | DictPayload c \<Rightarrow> c | ModelPayload c \<Rightarrow> c)"

definition promote :: "config \<Rightarrow> (string \<times> pyval) list \<Rightarrow> (string \<times> pyval) list" where
  "promote c ctx = fold (\<lambda>kv acc. if fst kv \<noteq> ''node'' then dict_put (fst kv) (snd kv) acc else acc) c ctx"

definition render_ctx :: "'w run_state \<Rightarrow> config \<Rightarrow> (string \<times> pyval) list" where
  "render_ctx s base =
     promote base (promote (rs_trigger s)
       (build_condition_context (map (\<lambda>kv. (fst kv, dump (snd kv))) (rs_outputs s))))"

fun render_error :: "render_exn \<Rightarrow> exec_exn" where
  "render_error (RenderCond (CondErr r)) = ExecError None ''template render failed''"
| "render_error (RenderCond e) = RawCond e"
| "render_error (RenderPy e) = RawPy e"

definition render_config :: "evaluator \<Rightarrow> (string \<times> pyval) list \<Rightarrow> config \<Rightarrow> (exec_exn, config) res" where
  "render_config ev ctx c =
     (case map_res (\<lambda>kv. bind_res (render_payload ev ctx (snd kv)) (\<lambda>v. Inr (fst kv, v))) c of
        Inl e \<Rightarrow> Inl (render_error e) | Inr d \<Rightarrow> Inr d)"

definition build_input ::
  "evaluator \<Rightarrow> string list \<Rightarrow> carried \<Rightarrow> config \<Rightarrow> 'w run_state \<Rightarrow> (exec_exn, config) res" where
  "build_input ev accepted p cfg s =
     (let raw = raw_base p; base = filter (\<lambda>kv. fst kv \<in> set accepted) raw in
      if cfg = [] then Inr base
      else bind_res (render_config ev (render_ctx s raw) cfg) (\<lambda>r.
             Inr (fold (\<lambda>kv acc. dict_put (fst kv) (snd kv) acc) r base)))"

definition apply_condition ::
  "evaluator \<Rightarrow> workflow_node \<Rightarrow> config \<Rightarrow> 'w run_state \<Rightarrow> (exec_exn, config) res" where
  "apply_condition ev n inp s =
     (case map_of (wn_config n) ''condition'' of
        Some (PStr c) \<Rightarrow>
          if list_all is_space c
          then Inr [(''value'', case map_of inp ''value'' of None \<Rightarrow> PNone | Some v \<Rightarrow> v)]
          else (case ev c (build_condition_context (map (\<lambda>kv. (fst kv, dump (snd kv))) (rs_outputs s))) of
                  Inl (CondErr r) \<Rightarrow> Inl (ExecError (Some (wn_step_id n)) ''condition evaluation failed'')
                | Inl e \<Rightarrow> Inl (RawCond e)
                | Inr v \<Rightarrow> (case coerce_to_branch v of
                    Inl e \<Rightarrow> Inl (RawPy e) | Inr t \<Rightarrow> Inr [(''value'', PStr t)]))
      | _ \<Rightarrow> Inr [(''value'', case map_of inp ''value'' of None \<Rightarrow> PNone | Some v \<Rightarrow> v)])"

definition coerce_passthrough :: "carried \<Rightarrow> config" where
  "coerce_passthrough p =
     (case p of
        ModelPayload c \<Rightarrow> c
      | DictPayload c \<Rightarrow> [(''payload'', dump c)]
      | NoPayload \<Rightarrow> [(''payload'', PDict [])])"

text \<open>Resolution: the built-in steps, else the registry.\<close>

definition resolve_node :: "'w exec_env \<Rightarrow> workflow_node \<Rightarrow> (exec_exn, string list) res" where
  "resolve_node env n =
     (if wn_node_id n = decision_node_id then Inr [''value'']
      else if wn_node_id n = parallel_node_id then Inr [''branch_results'']
      else if wn_node_id n = hitl_gate_node_id then Inr [''payload'', ''prompt'', ''required_role'']
      else case env_fields env (wn_node_id n) of
        Some fs \<Rightarrow> Inr fs
      | None \<Rightarrow> Inl (ExecError (Some (wn_step_id n)) ''not registered''))"

section \<open>Executing one node\<close>

fun node_error :: "string \<Rightarrow> node_exn \<Rightarrow> exec_exn" where
  "node_error sid (PauseExn c) = Paused sid c"
| "node_error sid (WorkflowExn nid r) = ExecError nid r"
| "node_error sid (BaseExn b) = RawBase b"
| "node_error sid (PlainExn m) = ExecError (Some sid) ''run failed''"

definition execute_node ::
  "'w exec_env \<Rightarrow> workflow_node \<Rightarrow> config \<Rightarrow> 'w run_state \<Rightarrow> (exec_exn, config) res \<times> 'w run_state" where
  "execute_node env n inp s =
     (case env_run env (wn_node_id n) (rs_step s) (rs_approved s) inp (rs_world s) of
        (r, wd) \<Rightarrow> (case r of Inl e \<Rightarrow> Inl (node_error (wn_step_id n) e) | Inr out \<Rightarrow> Inr out,
                    s\<lparr>rs_world := wd\<rparr>))"

text \<open>A regular step: build the input, evaluate a decision's condition, run, record.\<close>

definition run_regular ::
  "'w exec_env \<Rightarrow> workflow_node \<Rightarrow> carried \<Rightarrow> 'w run_state \<Rightarrow> (exec_exn, config) res \<times> 'w run_state" where
  "run_regular env n p s =
     (case bind_res (resolve_node env n) (\<lambda>fs.
             bind_res (build_input (env_eval env) fs p (wn_config n) s) (\<lambda>inp.
               if wn_node_id n = decision_node_id then apply_condition (env_eval env) n inp s
               else Inr inp)) of
        Inl e \<Rightarrow> (Inl e, s)
      | Inr inp \<Rightarrow>
          (case execute_node env n inp (s\<lparr>rs_step := Some (wn_step_id n)\<rparr>) of
             (Inl e, s') \<Rightarrow> (Inl e, s')
           | (Inr out, s') \<Rightarrow> (Inr out, record_output (wn_step_id n) out s')))"

section \<open>Parallel branches\<close>

definition digit_value :: "char \<Rightarrow> nat option" where
  "digit_value c = (let n = (of_char c :: nat) in if 48 \<le> n \<and> n \<le> 57 then Some (n - 48) else None)"

text \<open>\<^verbatim>\<open>int(text)\<close>: optional blanks and sign, digits with single underscores between them.\<close>

fun int_digits :: "nat \<Rightarrow> bool \<Rightarrow> string \<Rightarrow> nat option" where
  "int_digits acc after [] = (if after then Some acc else None)"
| "int_digits acc after (c # s) =
     (if c = CHR ''_'' then (if after then int_digits acc False s else None)
      else case digit_value c of None \<Rightarrow> None | Some d \<Rightarrow> int_digits (10 * acc + d) True s)"

definition py_int_of_text :: "string \<Rightarrow> int option" where
  "py_int_of_text s =
     (case strip_right (skip_ws s) of
        [] \<Rightarrow> None
      | c # t \<Rightarrow> if c = CHR ''-'' then map_option (\<lambda>n. - int n) (int_digits 0 False t)
                 else if c = CHR ''+'' then map_option int (int_digits 0 False t)
                 else map_option int (int_digits 0 False (c # t)))"

definition branch_prefix :: string where "branch_prefix = ''branch.''"

definition branch_out_edges :: "workflow \<Rightarrow> string \<Rightarrow> workflow_edge list" where
  "branch_out_edges w sid = filter (\<lambda>e. is_prefix branch_prefix (we_label e)) (out_edges w sid)"

definition branch_targets :: "workflow \<Rightarrow> string \<Rightarrow> (exec_exn, string list) res" where
  "branch_targets w sid =
     (case map_res (\<lambda>e. case py_int_of_text (drop (length branch_prefix) (we_label e)) of
              None \<Rightarrow> Inl (RawPy ValueErr) | Some i \<Rightarrow> Inr (i, we_target e)) (branch_out_edges w sid) of
        Inl x \<Rightarrow> Inl x
      | Inr kts \<Rightarrow> Inr (map snd (sort_key fst kts)))"

text \<open>
  Run every branch in order on the shared state; collect the outputs, or the first exception.
\<close>

fun gather ::
  "(string \<Rightarrow> 's \<Rightarrow> ((exec_exn, 'a) res \<times> 's) option) \<Rightarrow> string list \<Rightarrow> 's
     \<Rightarrow> ((exec_exn, 'a list) res \<times> 's) option" where
  "gather f [] s = Some (Inr [], s)"
| "gather f (t # ts) s =
     (case f t s of
        None \<Rightarrow> None
      | Some (r, s1) \<Rightarrow>
          (case gather f ts s1 of
             None \<Rightarrow> None
           | Some (rs, s2) \<Rightarrow> Some (bind_res r (\<lambda>v. bind_res rs (\<lambda>vs. Inr (v # vs))), s2)))"

definition merge_input :: "config option list \<Rightarrow> config" where
  "merge_input outs =
     [(''branch_results'', PList (map (\<lambda>o'. case o' of None \<Rightarrow> PNone | Some c \<Rightarrow> dump c) outs))]"

definition finish_parallel ::
  "'w exec_env \<Rightarrow> workflow_node \<Rightarrow> config option list \<Rightarrow> 'w run_state
     \<Rightarrow> (exec_exn, config) res \<times> 'w run_state" where
  "finish_parallel env n outs s =
     (case execute_node env n (merge_input outs) s of
        (Inl e, s') \<Rightarrow> (Inl e, s')
      | (Inr out, s') \<Rightarrow> (Inr out, record_output (wn_step_id n) out s'))"

section \<open>The walk\<close>

type_synonym 'w walked = "((exec_exn, config option) res \<times> 'w run_state) option"

definition completed_output :: "'w run_state \<Rightarrow> string \<Rightarrow> config option" where
  "completed_output s sid = (if sid \<in> set (rs_completed s) then get_output sid s else None)"

fun walk ::
  "'w exec_env \<Rightarrow> workflow \<Rightarrow> nat \<Rightarrow> string option \<Rightarrow> carried \<Rightarrow> config option \<Rightarrow> string option
     \<Rightarrow> 'w run_state \<Rightarrow> 'w walked" where
  "walk env w 0 cur p last_out stop s = None"
| "walk env w (Suc n) cur p last_out stop s =
     (case cur of
        None \<Rightarrow> Some (Inr last_out, s)
      | Some sid \<Rightarrow>
          if stop = Some sid then Some (Inr last_out, s)
          else if length (rs_executed s) \<ge> max_steps
          then Some (Inl (ExecError (Some sid) ''step cap exceeded''), s)
          else case wf_step w sid of
            None \<Rightarrow> Some (Inl (ExecError (Some sid) ''unknown step''), s)
          | Some nd \<Rightarrow>
             (case completed_output s sid of
                Some reused \<Rightarrow>
                  (case route w nd reused of
                     Inl e \<Rightarrow> Some (Inl e, s)
                   | Inr nxt \<Rightarrow> walk env w n nxt (ModelPayload reused) (Some reused) stop s)
              | None \<Rightarrow>
                  if wn_node_id nd \<in> set passthrough_node_ids then
                    (let fwd = coerce_passthrough p in
                     walk env w n (next_step w nd) (ModelPayload fwd) (Some fwd) stop
                       (record_output sid fwd s))
                  else if wn_node_id nd = parallel_node_id then
                    (case branch_targets w sid of
                       Inl e \<Rightarrow> Some (Inl e, s)
                     | Inr ts \<Rightarrow>
                        (case gather (\<lambda>t s'. walk env w n (Some t) p None
                                        (next_parallel_step w nd) s') ts s of
                           None \<Rightarrow> None
                         | Some (Inl e, s1) \<Rightarrow> Some (Inl e, s1)
                         | Some (Inr outs, s1) \<Rightarrow>
                             (case finish_parallel env nd outs s1 of
                                (Inl e, s2) \<Rightarrow> Some (Inl e, s2)
                              | (Inr out, s2) \<Rightarrow>
                                  walk env w n (next_parallel_step w nd) (ModelPayload out) (Some out)
                                    stop s2)))
                  else
                    (case run_regular env nd p s of
                       (Inl e, s1) \<Rightarrow> Some (Inl e, s1)
                     | (Inr out, s1) \<Rightarrow>
                         (case route w nd out of
                            Inl e \<Rightarrow> Some (Inl e, s1)
                          | Inr nxt \<Rightarrow> walk env w n nxt (ModelPayload out) (Some out) stop s1))))"

section \<open>Entry and execution\<close>

definition find_entry_id :: "workflow \<Rightarrow> (exec_exn, string) res" where
  "find_entry_id w =
     (if wf_nodes w = [] then Inl (ExecError None ''empty workflow'')
      else
        let targets = we_target ` set (wf_edges w);
            candidates = filter (\<lambda>sid. sid \<notin> targets) (map wn_step_id (wf_nodes w))
        in case candidates of
             [] \<Rightarrow> Inl (ExecError None ''no entry'')
           | [c] \<Rightarrow> Inr c
           | _ \<Rightarrow> Inl (ExecError None ''multiple entries''))"

text \<open>
  The state a run starts from: fresh with the trigger payload, or a rehydrated checkpoint
  whose executed steps count as complete.
\<close>

definition fresh_state :: "carried \<Rightarrow> string list \<Rightarrow> 'w \<Rightarrow> 'w run_state" where
  "fresh_state p approved wd =
     \<lparr> rs_outputs = [], rs_executed = [], rs_completed = [], rs_trigger = raw_base p,
       rs_step = None, rs_approved = approved, rs_world = wd \<rparr>"

definition resumed_state ::
  "(string \<times> config) list \<Rightarrow> string list \<Rightarrow> config \<Rightarrow> string list \<Rightarrow> 'w \<Rightarrow> 'w run_state" where
  "resumed_state outputs executed trigger approved wd =
     \<lparr> rs_outputs = outputs, rs_executed = executed, rs_completed = executed,
       rs_trigger = trigger, rs_step = None, rs_approved = approved, rs_world = wd \<rparr>"

definition execute ::
  "'w exec_env \<Rightarrow> workflow \<Rightarrow> nat \<Rightarrow> carried \<Rightarrow> 'w run_state
     \<Rightarrow> ((exec_exn, run_result) res \<times> 'w run_state) option" where
  "execute env w fuel p s =
     (case find_entry_id w of
        Inl e \<Rightarrow> Some (Inl e, s)
      | Inr entry \<Rightarrow>
          (case walk env w fuel (Some entry) p None None s of
             None \<Rightarrow> None
           | Some (Inl e, s') \<Rightarrow> Some (Inl e, s')
           | Some (Inr _, s') \<Rightarrow>
               Some (Inr \<lparr> rr_workflow = wf_name w, rr_outputs = rs_outputs s',
                 rr_final = (if rs_executed s' = [] then None
                             else get_output (last (rs_executed s')) s'),
                 rr_executed = rs_executed s' \<rparr>, s')))"

section \<open>Where the walk can go\<close>

lemma edge_labelled_edge:
  "edge_labelled l es = Some t \<Longrightarrow> \<exists>e \<in> set es. we_target e = t \<and> we_label e = l"
  by (auto simp: edge_labelled_def dest: find_SomeD)

lemma out_edges_set: "e \<in> set (out_edges w sid) \<longleftrightarrow> e \<in> set (wf_edges w) \<and> we_source e = sid"
  by (auto simp: out_edges_def)

definition has_edge :: "workflow \<Rightarrow> string \<Rightarrow> string \<Rightarrow> bool" where
  "has_edge w a b \<longleftrightarrow> (\<exists>e \<in> set (wf_edges w). we_source e = a \<and> we_target e = b)"

lemma next_step_edge: "next_step w n = Some t \<Longrightarrow> has_edge w (wn_step_id n) t"
proof -
  assume t: "next_step w n = Some t"
  let ?es = "out_edges w (wn_step_id n)"
  obtain e es where es: "?es = e # es" using t by (auto simp: next_step_def Let_def split: list.splits)
  then have "edge_labelled ''next'' ?es = Some t \<or> t = we_target e"
    using t by (auto simp: next_step_def Let_def split: option.splits)
  then have "\<exists>e' \<in> set ?es. we_target e' = t"
    using edge_labelled_edge[of "''next''" ?es t] es by auto
  then show ?thesis by (auto simp: has_edge_def out_edges_set)
qed

lemma next_parallel_edge: "next_parallel_step w n = Some t \<Longrightarrow> has_edge w (wn_step_id n) t"
  by (auto simp: next_parallel_step_def has_edge_def out_edges_set dest!: edge_labelled_edge)

lemma next_decision_edge:
  "next_decision_step w n out = Inr (Some t) \<Longrightarrow> has_edge w (wn_step_id n) t"
  by (auto simp: next_decision_step_def Let_def has_edge_def out_edges_set
      split: if_splits option.splits dest!: find_SomeD)

lemma route_edge: "route w n out = Inr (Some t) \<Longrightarrow> has_edge w (wn_step_id n) t"
  by (auto simp: route_def next_decision_edge next_parallel_edge next_step_edge split: if_splits)

lemma branch_targets_edge:
  "branch_targets w sid = Inr ts \<Longrightarrow> t \<in> set ts \<Longrightarrow> has_edge w sid t"
proof -
  assume b: "branch_targets w sid = Inr ts" and t: "t \<in> set ts"
  then obtain kts where kts: "map_res (\<lambda>e. case py_int_of_text (drop (length branch_prefix) (we_label e)) of
              None \<Rightarrow> Inl (RawPy ValueErr) | Some i \<Rightarrow> Inr (i, we_target e)) (branch_out_edges w sid) = Inr kts"
      "ts = map snd (sort_key fst kts)"
    by (auto simp: branch_targets_def split: sum.splits)
  then obtain k where "(k, t) \<in> set kts" using t by auto
  from map_res_in[OF kts(1) this] obtain e where "e \<in> set (branch_out_edges w sid)" "we_target e = t"
    by (auto split: option.splits)
  then show ?thesis by (auto simp: has_edge_def branch_out_edges_def out_edges_set)
qed

section \<open>Termination\<close>

lemma gather_Some: "(\<And>t s. t \<in> set ts \<Longrightarrow> f t s \<noteq> None) \<Longrightarrow> gather f ts s \<noteq> None"
proof (induction ts arbitrary: s)
  case (Cons t ts)
  obtain r s1 where "f t s = Some (r, s1)" using Cons.prems[of t s] by auto
  moreover have "gather f ts s1 \<noteq> None" using Cons by simp
  ultimately show ?case by auto
qed simp

text \<open>
  A rank that falls along every edge between steps bounds the walk: with two more units of
  fuel than the rank of the current step it returns.
\<close>

definition enough :: "workflow \<Rightarrow> (string \<Rightarrow> nat) \<Rightarrow> nat \<Rightarrow> string option \<Rightarrow> bool" where
  "enough w r n cur =
     (case cur of None \<Rightarrow> 0 < n
      | Some sid \<Rightarrow> 0 < n \<and> (sid \<in> wf_step_ids w \<longrightarrow> r sid + 2 \<le> n))"

lemma enough_next:
  assumes "enough w r (Suc n) (Some sid)" and "wf_step w sid = Some nd"
    and "\<And>a b. has_edge w a b \<Longrightarrow> a \<in> wf_step_ids w \<Longrightarrow> b \<in> wf_step_ids w \<Longrightarrow> r b < r a"
    and "\<And>t. nxt = Some t \<Longrightarrow> has_edge w (wn_step_id nd) t"
  shows "enough w r n nxt"
proof -
  have sid: "wn_step_id nd = sid" "sid \<in> wf_step_ids w"
    using wf_step_SomeD[OF assms(2)] by (auto simp: wf_step_ids_def)
  then have "r sid + 2 \<le> Suc n" using assms(1) by (simp add: enough_def)
  then show ?thesis
    using assms(3)[of sid] assms(4) sid by (cases nxt) (fastforce simp: enough_def)+
qed

text \<open>What the head of the loop decides, and one turn of the loop by that decision.\<close>

datatype head =
  Halt "(exec_exn, config option) res" | Reuse workflow_node config | Pass workflow_node
| Fork workflow_node | Run workflow_node

definition loop_head ::
  "workflow \<Rightarrow> string option \<Rightarrow> config option \<Rightarrow> string option \<Rightarrow> 'w run_state \<Rightarrow> head" where
  "loop_head w cur l stop s =
     (case cur of
        None \<Rightarrow> Halt (Inr l)
      | Some sid \<Rightarrow>
          if stop = Some sid then Halt (Inr l)
          else if length (rs_executed s) \<ge> max_steps
          then Halt (Inl (ExecError (Some sid) ''step cap exceeded''))
          else case wf_step w sid of
            None \<Rightarrow> Halt (Inl (ExecError (Some sid) ''unknown step''))
          | Some nd \<Rightarrow>
              (case completed_output s sid of
                 Some out \<Rightarrow> Reuse nd out
               | None \<Rightarrow> if wn_node_id nd \<in> set passthrough_node_ids then Pass nd
                         else if wn_node_id nd = parallel_node_id then Fork nd else Run nd))"

abbreviation branch_walk ::
  "'w exec_env \<Rightarrow> workflow \<Rightarrow> nat \<Rightarrow> workflow_node \<Rightarrow> carried \<Rightarrow> string \<Rightarrow> 'w run_state \<Rightarrow> 'w walked" where
  "branch_walk env w n nd p t s \<equiv> walk env w n (Some t) p None (next_parallel_step w nd) s"

lemma walk_Suc:
  "walk env w (Suc n) cur p l stop s =
     (case loop_head w cur l stop s of
        Halt r \<Rightarrow> Some (r, s)
      | Reuse nd out \<Rightarrow>
          (case route w nd out of Inl e \<Rightarrow> Some (Inl e, s)
           | Inr nxt \<Rightarrow> walk env w n nxt (ModelPayload out) (Some out) stop s)
      | Pass nd \<Rightarrow>
          walk env w n (next_step w nd) (ModelPayload (coerce_passthrough p))
            (Some (coerce_passthrough p)) stop (record_output (wn_step_id nd) (coerce_passthrough p) s)
      | Fork nd \<Rightarrow>
          (case branch_targets w (wn_step_id nd) of
             Inl e \<Rightarrow> Some (Inl e, s)
           | Inr ts \<Rightarrow>
              (case gather (branch_walk env w n nd p) ts s of
                 None \<Rightarrow> None
               | Some (Inl e, s1) \<Rightarrow> Some (Inl e, s1)
               | Some (Inr outs, s1) \<Rightarrow>
                   (case finish_parallel env nd outs s1 of
                      (Inl e, s2) \<Rightarrow> Some (Inl e, s2)
                    | (Inr out, s2) \<Rightarrow>
                        walk env w n (next_parallel_step w nd) (ModelPayload out) (Some out) stop s2)))
      | Run nd \<Rightarrow>
          (case run_regular env nd p s of
             (Inl e, s1) \<Rightarrow> Some (Inl e, s1)
           | (Inr out, s1) \<Rightarrow>
               (case route w nd out of
                  Inl e \<Rightarrow> Some (Inl e, s1)
                | Inr nxt \<Rightarrow> walk env w n nxt (ModelPayload out) (Some out) stop s1)))"
proof (cases cur)
  case (Some sid)
  show ?thesis
  proof (cases "wf_step w sid")
    case node: (Some nd)
    have "wn_step_id nd = sid" using wf_step_SomeD[OF node] by simp
    then show ?thesis
      by (simp add: loop_head_def Some node Let_def split: option.split)
  qed (simp add: Some loop_head_def)
qed (simp add: loop_head_def)

declare walk.simps(2) [simp del]

fun head_node :: "head \<Rightarrow> workflow_node option" where
  "head_node (Halt r) = None"
| "head_node (Reuse nd out) = Some nd"
| "head_node (Pass nd) = Some nd"
| "head_node (Fork nd) = Some nd"
| "head_node (Run nd) = Some nd"

lemma loop_head_node:
  assumes "head_node (loop_head w cur l stop s) = Some nd"
  shows "cur = Some (wn_step_id nd)" and "wf_step w (wn_step_id nd) = Some nd"
    and "nd \<in> set (wf_nodes w)"
proof -
  obtain sid where sid: "cur = Some sid" using assms by (cases cur) (auto simp: loop_head_def)
  obtain n' where n': "wf_step w sid = Some n'"
    using assms sid by (cases "wf_step w sid") (auto simp: loop_head_def split: if_splits)
  have "n' = nd"
    using assms unfolding loop_head_def sid option.case n'
    by (cases "completed_output s sid") (auto split: if_splits)
  then have node: "wf_step w sid = Some nd" using n' by simp
  have id: "nd \<in> set (wf_nodes w)" "wn_step_id nd = sid" using wf_step_SomeD[OF node] by simp_all
  show "cur = Some (wn_step_id nd)" "wf_step w (wn_step_id nd) = Some nd" "nd \<in> set (wf_nodes w)"
    by (simp_all only: id sid node)
qed

lemma walk_returns:
  assumes mono: "\<And>a b. has_edge w a b \<Longrightarrow> a \<in> wf_step_ids w \<Longrightarrow> b \<in> wf_step_ids w \<Longrightarrow> r b < r a"
  shows "enough w r n cur \<Longrightarrow> walk env w n cur p l stop s \<noteq> None"
proof (induction n arbitrary: cur p l stop s)
  case 0
  then show ?case by (auto simp: enough_def split: option.splits)
next
  case (Suc n)
  have nxt: "walk env w n nxt p' l' stop' s' \<noteq> None"
    if "head_node (loop_head w cur l stop s) = Some nd"
      and "\<And>t. nxt = Some t \<Longrightarrow> has_edge w (wn_step_id nd) t" for nd nxt p' l' stop' s'
  proof -
    have "enough w r (Suc n) (Some (wn_step_id nd))"
      using Suc.prems loop_head_node(1)[OF that(1)] by simp
    then have "enough w r n nxt"
      using loop_head_node(2)[OF that(1)] mono that(2) by (rule enough_next)
    then show ?thesis by (rule Suc.IH)
  qed
  show ?case
  proof (cases "loop_head w cur l stop s")
    case (Halt x)
    then show ?thesis by (simp add: walk_Suc)
  next
    case (Reuse nd out)
    have "walk env w n nx p' l' stop' s' \<noteq> None" if "route w nd out = Inr nx" for nx p' l' stop' s'
      by (rule nxt[of nd]) (use Reuse that route_edge in auto)
    then show ?thesis
      using Reuse by (auto simp: walk_Suc split: sum.split)
  next
    case (Pass nd)
    then show ?thesis
      using nxt[of nd, OF _ next_step_edge] by (auto simp: walk_Suc)
  next
    case (Fork nd)
    have "gather (branch_walk env w n nd p) ts s \<noteq> None"
      if "branch_targets w (wn_step_id nd) = Inr ts" for ts
      by (rule gather_Some, rule nxt[of nd]) (use branch_targets_edge[OF that] Fork in auto)
    moreover have "walk env w n (next_parallel_step w nd) p' l' stop' s' \<noteq> None" for p' l' stop' s'
      by (rule nxt[of nd]) (use Fork next_parallel_edge in auto)
    ultimately show ?thesis
      using Fork by (auto simp: walk_Suc split: sum.split prod.split option.split)
  next
    case (Run nd)
    have "walk env w n nx p' l' stop' s' \<noteq> None" if "route w nd out = Inr nx" for nx out p' l' stop' s'
      by (rule nxt[of nd]) (use Run that route_edge in auto)
    then show ?thesis
      using Run by (auto simp: walk_Suc split: sum.split prod.split)
  qed
qed

lemma acyclic_rank:
  assumes "finite V" and "G \<subseteq> V \<times> V" and "acyclic G"
  defines "r \<equiv> \<lambda>v. card {u. (v, u) \<in> G\<^sup>+}"
  shows "(a, b) \<in> G \<Longrightarrow> r b < r a" and "v \<in> V \<Longrightarrow> r v < card V"
proof -
  have sub: "{u. (v, u) \<in> G\<^sup>+} \<subseteq> V" for v
  proof -
    have "G\<^sup>+ \<subseteq> V \<times> V" using assms(2) by (rule trancl_subset_Sigma)
    then show ?thesis by auto
  qed
  then have fin: "finite {u. (v, u) \<in> G\<^sup>+}" for v using assms(1) finite_subset by blast
  show "r b < r a" if "(a, b) \<in> G"
    unfolding r_def
  proof (rule psubset_card_mono[OF fin])
    have "b \<notin> {u. (b, u) \<in> G\<^sup>+}" using assms(3) by (auto simp: acyclic_def)
    moreover have "{u. (b, u) \<in> G\<^sup>+} \<subseteq> {u. (a, u) \<in> G\<^sup>+}"
      using that by (auto intro: trancl_into_trancl2)
    moreover have "b \<in> {u. (a, u) \<in> G\<^sup>+}" using that by auto
    ultimately show "{u. (b, u) \<in> G\<^sup>+} \<subset> {u. (a, u) \<in> G\<^sup>+}" by blast
  qed
  show "r v < card V" if "v \<in> V"
    unfolding r_def
  proof (rule psubset_card_mono[OF assms(1)])
    have "v \<notin> {u. (v, u) \<in> G\<^sup>+}" using assms(3) by (auto simp: acyclic_def)
    then show "{u. (v, u) \<in> G\<^sup>+} \<subset> V" using sub that by blast
  qed
qed

lemma acyclic_walk_returns:
  assumes "acyclic (step_graph (wf_step_ids w) (wf_edges w))" and "length (wf_nodes w) < n"
  shows "walk env w n (Some sid) p l stop s \<noteq> None"
proof -
  let ?V = "wf_step_ids w" and ?G = "step_graph (wf_step_ids w) (wf_edges w)"
  let ?r = "\<lambda>v. card {u. (v, u) \<in> ?G\<^sup>+}"
  have V: "finite ?V" "card ?V \<le> length (wf_nodes w)"
    by (auto simp: wf_step_ids_def intro: order_trans[OF card_image_le] card_length)
  note rank = acyclic_rank[OF V(1) step_graph_sub assms(1)]
  show ?thesis
  proof (rule walk_returns[of w ?r])
    fix a b assume "has_edge w a b" "a \<in> ?V" "b \<in> ?V"
    then show "?r b < ?r a" by (intro rank(1)) (auto simp: has_edge_def step_graph_iff)
  next
    show "enough w ?r n (Some sid)"
      using rank(2)[of sid] V(2) assms(2) by (auto simp: enough_def)
  qed
qed

section \<open>More fuel does not change the result\<close>

lemma gather_mono:
  assumes "\<And>t s x. f t s = Some x \<Longrightarrow> g t s = Some x"
  shows "gather f ts s = Some x \<Longrightarrow> gather g ts s = Some x"
proof (induction ts arbitrary: s x)
  case (Cons t ts)
  then obtain r s1 rs s2 where "f t s = Some (r, s1)" "gather f ts s1 = Some (rs, s2)"
      "x = (bind_res r (\<lambda>v. bind_res rs (\<lambda>vs. Inr (v # vs))), s2)"
    by (auto split: option.splits)
  then show ?case using assms Cons.IH by simp
qed simp

lemma walk_mono_Suc:
  "walk env w n cur p l stop s = Some x \<Longrightarrow> walk env w (Suc n) cur p l stop s = Some x"
proof (induction n arbitrary: cur p l stop s x)
  case (Suc n)
  obtain r s' where x: "x = (r, s')" by (cases x)
  note run = Suc.prems[unfolded walk_Suc[of env w n] x]
  show ?case
  proof (cases "loop_head w cur l stop s")
    case (Halt r)
    then show ?thesis using run x by (simp add: walk_Suc[of env w "Suc n"])
  next
    case (Reuse nd out)
    then show ?thesis
      using run x Suc.IH by (auto simp: walk_Suc[of env w "Suc n"] split: sum.splits)
  next
    case (Pass nd)
    then show ?thesis using run x Suc.IH by (simp add: walk_Suc[of env w "Suc n"])
  next
    case (Fork nd)
    have up: "gather (branch_walk env w n nd p) ts s = Some y \<Longrightarrow>
        gather (branch_walk env w (Suc n) nd p) ts s = Some y" for ts y
      by (rule gather_mono) (rule Suc.IH)
    show ?thesis
      using run x Fork up Suc.IH
      by (auto simp: walk_Suc[of env w "Suc n"] split: option.splits sum.splits prod.splits)
  next
    case (Run nd)
    then show ?thesis
      using run x Suc.IH
      by (auto simp: walk_Suc[of env w "Suc n"] split: sum.splits prod.splits)
  qed
qed simp

lemma walk_mono:
  "walk env w n cur p l stop s = Some x \<Longrightarrow> n \<le> m \<Longrightarrow> walk env w m cur p l stop s = Some x"
  by (induction m) (auto simp: le_Suc_eq dest: walk_mono_Suc)

end
