(* ===== verification/ExecutorProps.thy ===== *)
theory ExecutorProps
  imports Executor
begin

text \<open>
  What the executor guarantees: an invariant rule for the walk, the accounting of executed
  steps, reachability, the resume contract, termination on compiled workflows, and the run
  that never ends on a stored cyclic workflow.
\<close>

section \<open>An invariant rule for the walk\<close>

lemma gather_invariant:
  assumes "\<And>t s r s'. t \<in> set ts \<Longrightarrow> f t s = Some (r, s') \<Longrightarrow> P s \<Longrightarrow> P s'"
  shows "gather f ts s = Some (rs, s') \<Longrightarrow> P s \<Longrightarrow> P s'"
  using assms
proof (induction ts arbitrary: s rs)
  case (Cons t ts)
  then obtain r s1 rs2 where "f t s = Some (r, s1)" "gather f ts s1 = Some (rs2, s')"
    by (auto split: option.splits)
  then show ?case using Cons.prems(2,3) Cons.IH[of s1 rs2] by auto
qed auto

lemma walk_invariant_kinds:
  assumes closed: "\<And>a b. has_edge w a b \<Longrightarrow> a \<in> R \<Longrightarrow> b \<in> R"
    and rec: "\<And>nd out s. P s \<Longrightarrow> wf_step w (wn_step_id nd) = Some nd \<Longrightarrow> wn_step_id nd \<in> R \<Longrightarrow>
               wn_node_id nd \<in> set passthrough_node_ids \<Longrightarrow>
               completed_output s (wn_step_id nd) = None \<Longrightarrow> P (record_output (wn_step_id nd) out s)"
    and run: "\<And>nd p s. P s \<Longrightarrow> wf_step w (wn_step_id nd) = Some nd \<Longrightarrow> wn_step_id nd \<in> R \<Longrightarrow>
               completed_output s (wn_step_id nd) = None \<Longrightarrow> P (snd (run_regular env nd p s))"
    and fin: "\<And>nd outs s s0. P s \<Longrightarrow> wf_step w (wn_step_id nd) = Some nd \<Longrightarrow> wn_step_id nd \<in> R \<Longrightarrow>
               wn_node_id nd = parallel_node_id \<Longrightarrow> P s0 \<Longrightarrow>
               completed_output s0 (wn_step_id nd) = None \<Longrightarrow> P (snd (finish_parallel env nd outs s))"
  shows "walk env w n cur p l stop s = Some (r, s') \<Longrightarrow> P s \<Longrightarrow> (\<And>sid. cur = Some sid \<Longrightarrow> sid \<in> R) \<Longrightarrow> P s'"
proof (induction n arbitrary: cur p l stop s r s')
  case (Suc n)
  note step = Suc.prems(1)[unfolded walk_Suc[of env w n]]
  have here: "wf_step w (wn_step_id nd) = Some nd" "wn_step_id nd \<in> R"
    if "head_node (loop_head w cur l stop s) = Some nd" for nd
    using loop_head_node(1,2)[OF that] Suc.prems(3) by auto
  have kind: "(loop_head w cur l stop s = Pass nd \<longrightarrow> wn_node_id nd \<in> set passthrough_node_ids) \<and>
      (loop_head w cur l stop s = Fork nd \<longrightarrow> wn_node_id nd = parallel_node_id)" for nd
    unfolding loop_head_def by (auto split: option.splits if_splits)
  have fresh: "completed_output s (wn_step_id nd) = None"
    if "loop_head w cur l stop s \<in> {Pass nd, Fork nd, Run nd}" for nd
  proof -
    have "head_node (loop_head w cur l stop s) = Some nd" using that by auto
    then have "cur = Some (wn_step_id nd)" by (rule loop_head_node(1))
    then show ?thesis
      using that unfolding loop_head_def
      by (cases "completed_output s (wn_step_id nd)") (auto split: option.splits if_splits)
  qed
  show ?case
  proof (cases "loop_head w cur l stop s")
    case (Halt x)
    then show ?thesis using step Suc.prems(2) by simp
  next
    case (Reuse nd out)
    have nxt: "sid \<in> R" if "route w nd out = Inr (Some sid)" for sid
      using closed[OF route_edge[OF that]] here[of nd] Reuse by simp
    show ?thesis
    proof (cases "route w nd out")
      case (Inr nx)
      then show ?thesis
        using step Reuse Suc.prems(2) nxt Suc.IH[of nx _ _ stop s r s'] by simp
    qed (use step Reuse Suc.prems(2) in simp)
  next
    case (Pass nd)
    have "sid \<in> R" if "next_step w nd = Some sid" for sid
      using closed[OF next_step_edge[OF that]] here[of nd] Pass by simp
    then show ?thesis
      using step Pass Suc.IH rec[OF Suc.prems(2) here(1,2) _ fresh, of nd] kind[of nd] by simp
  next
    case (Fork nd)
    have nxt: "sid \<in> R" if "next_parallel_step w nd = Some sid" for sid
      using closed[OF next_parallel_edge[OF that]] here[of nd] Fork by simp
    show ?thesis
    proof (cases "branch_targets w (wn_step_id nd)")
      case (Inr ts)
      obtain rs s1 where g: "gather (branch_walk env w n nd p) ts s = Some (rs, s1)"
        using step Fork Inr by (auto split: option.splits)
      have Ps1: "P s1"
      proof (rule gather_invariant[where P = P, OF _ g Suc.prems(2)])
        fix t s r s'
        assume "t \<in> set ts" "branch_walk env w n nd p t s = Some (r, s')" "P s"
        then show "P s'"
          using Suc.IH[of "Some t"] closed[OF branch_targets_edge[OF Inr]] here[of nd] Fork by simp
      qed
      show ?thesis
      proof (cases rs)
        case (Inl e)
        then show ?thesis using step Fork Inr g Ps1 by simp
      next
        case outs: (Inr outs)
        obtain x s2 where f: "finish_parallel env nd outs s1 = (x, s2)" by fastforce
        have "P (snd (finish_parallel env nd outs s1))"
          by (rule fin[OF Ps1 here(1,2) _ Suc.prems(2) fresh]) (use Fork kind[of nd] in simp_all)
        then have Ps2: "P s2" using f by simp
        show ?thesis
        proof (cases x)
          case (Inl e)
          then show ?thesis using step Fork Inr g outs f Ps2 by simp
        next
          case out: (Inr out)
          then have "walk env w n (next_parallel_step w nd) (ModelPayload out) (Some out) stop s2 = Some (r, s')"
            using step Fork Inr g outs f by simp
          then show ?thesis using Suc.IH Ps2 nxt by blast
        qed
      qed
    qed (use step Fork Suc.prems(2) in simp)
  next
    case (Run nd)
    obtain x s1 where x: "run_regular env nd p s = (x, s1)" by fastforce
    have "P (snd (run_regular env nd p s))"
      by (rule run[OF Suc.prems(2) here(1,2) fresh]) (use Run in simp_all)
    then have Ps1: "P s1" using x by simp
    have nxt: "sid \<in> R" if "route w nd out = Inr (Some sid)" for sid out
      using closed[OF route_edge[OF that]] here[of nd] Run by simp
    show ?thesis
    proof (cases x)
      case (Inl e)
      then show ?thesis using step Run x Ps1 by simp
    next
      case out: (Inr out)
      show ?thesis
      proof (cases "route w nd out")
        case (Inl e)
        then show ?thesis using step Run x out Ps1 by simp
      next
        case (Inr nx)
        then have "walk env w n nx (ModelPayload out) (Some out) stop s1 = Some (r, s')"
          using step Run x out by simp
        then show ?thesis using Suc.IH Ps1 nxt Inr by blast
      qed
    qed
  qed
qed simp

lemma walk_invariant:
  assumes closed: "\<And>a b. has_edge w a b \<Longrightarrow> a \<in> R \<Longrightarrow> b \<in> R"
    and rec: "\<And>nd out s. P s \<Longrightarrow> nd \<in> set (wf_nodes w) \<Longrightarrow> wn_step_id nd \<in> R \<Longrightarrow>
               completed_output s (wn_step_id nd) = None \<Longrightarrow> P (record_output (wn_step_id nd) out s)"
    and run: "\<And>nd p s. P s \<Longrightarrow> nd \<in> set (wf_nodes w) \<Longrightarrow> wn_step_id nd \<in> R \<Longrightarrow>
               completed_output s (wn_step_id nd) = None \<Longrightarrow> P (snd (run_regular env nd p s))"
    and fin: "\<And>nd outs s s0. P s \<Longrightarrow> nd \<in> set (wf_nodes w) \<Longrightarrow> wn_step_id nd \<in> R \<Longrightarrow> P s0 \<Longrightarrow>
               completed_output s0 (wn_step_id nd) = None \<Longrightarrow> P (snd (finish_parallel env nd outs s))"
  shows "walk env w n cur p l stop s = Some (r, s') \<Longrightarrow> P s \<Longrightarrow> (\<And>sid. cur = Some sid \<Longrightarrow> sid \<in> R) \<Longrightarrow> P s'"
  by (rule walk_invariant_kinds[where P = P and R = R])
    (use assms in \<open>blast dest: wf_step_SomeD\<close>)+

text \<open>
  A shortcut for invariants that do not depend on the world: it is enough that recording a
  step and changing the world and the step pointer keep them.
\<close>

lemma execute_node_state:
  "execute_node env nd inp s = (r, s') \<Longrightarrow> \<exists>wd. s' = s\<lparr>rs_world := wd\<rparr>"
  by (auto simp: execute_node_def split: prod.splits)

lemma run_regular_keeps:
  assumes "P s" and "\<And>s wd. P s \<Longrightarrow> P (s\<lparr>rs_step := Some (wn_step_id nd), rs_world := wd\<rparr>)"
    and "\<And>s out. P s \<Longrightarrow> rs_step s = Some (wn_step_id nd) \<Longrightarrow> P (record_output (wn_step_id nd) out s)"
  shows "P (snd (run_regular env nd p s))"
proof -
  have "P s' \<and> rs_step s' = Some (wn_step_id nd)"
    if "execute_node env nd inp (s\<lparr>rs_step := Some (wn_step_id nd)\<rparr>) = (r, s')" for inp r s'
    using execute_node_state[OF that] assms(1,2) by auto
  then show ?thesis
    unfolding run_regular_def using assms(1,3) by (auto split: sum.split prod.split)
qed

lemma finish_parallel_keeps:
  assumes "P s" and "\<And>s wd. P s \<Longrightarrow> P (s\<lparr>rs_world := wd\<rparr>)"
    and "\<And>s out. P s \<Longrightarrow> P (record_output (wn_step_id nd) out s)"
  shows "P (snd (finish_parallel env nd outs s))"
proof -
  have "P s'" if "execute_node env nd inp s = (r, s')" for inp r s'
    using execute_node_state[OF that] assms(1,2) by auto
  then show ?thesis
    unfolding finish_parallel_def using assms(3) by (auto split: sum.split prod.split)
qed

section \<open>Accounting\<close>

text \<open>
  The executed list has no repetition, lists exactly the steps with an output, extends the
  list the walk started from, and its new members come from the given set of steps.
\<close>

definition accounted :: "workflow \<Rightarrow> string set \<Rightarrow> 'w run_state \<Rightarrow> 'w run_state \<Rightarrow> bool" where
  "accounted w R s0 s \<longleftrightarrow>
     distinct (rs_executed s) \<and> set (rs_executed s) = dom (map_of (rs_outputs s)) \<and>
     rs_completed s = rs_completed s0 \<and> rs_trigger s = rs_trigger s0 \<and> rs_approved s = rs_approved s0 \<and>
     (\<exists>new. rs_executed s = rs_executed s0 @ new \<and> set new \<subseteq> R \<inter> wf_step_ids w)"

lemma record_output_simps [simp]:
  "rs_completed (record_output sid out s) = rs_completed s"
  "rs_trigger (record_output sid out s) = rs_trigger s"
  "rs_approved (record_output sid out s) = rs_approved s"
  "rs_step (record_output sid out s) = rs_step s"
  "rs_world (record_output sid out s) = rs_world s"
  "map_of (rs_outputs (record_output sid out s)) = (map_of (rs_outputs s))(sid \<mapsto> out)"
  "set (rs_executed (record_output sid out s)) = insert sid (set (rs_executed s))"
  by (auto simp: record_output_def fun_eq_iff)

lemma accounted_record:
  assumes "accounted w R s0 s" and "nd \<in> set (wf_nodes w)" and "wn_step_id nd \<in> R"
  shows "accounted w R s0 (record_output (wn_step_id nd) out s)"
proof -
  let ?s' = "record_output (wn_step_id nd) out s"
  obtain new where new: "rs_executed s = rs_executed s0 @ new" "set new \<subseteq> R \<inter> wf_step_ids w"
    using assms(1) by (auto simp: accounted_def)
  have "wn_step_id nd \<in> R \<inter> wf_step_ids w" using assms by (auto simp: wf_step_ids_def)
  then have "\<exists>new. rs_executed ?s' = rs_executed s0 @ new \<and> set new \<subseteq> R \<inter> wf_step_ids w"
    using new by (cases "wn_step_id nd \<in> set (rs_executed s)")
      (auto simp: record_output_def)
  moreover have "distinct (rs_executed ?s')"
    using assms(1) by (auto simp: record_output_def accounted_def)
  moreover have "set (rs_executed ?s') = dom (map_of (rs_outputs ?s'))"
    using assms(1) by (auto simp: accounted_def)
  ultimately show ?thesis using assms(1) by (simp add: accounted_def)
qed

lemma accounted_world [simp]:
  "accounted w R s0 (s\<lparr>rs_step := st\<rparr>) = accounted w R s0 s"
  "accounted w R s0 (s\<lparr>rs_world := wd\<rparr>) = accounted w R s0 s"
  "accounted w R s0 (s\<lparr>rs_step := st, rs_world := wd\<rparr>) = accounted w R s0 s"
  by (simp_all add: accounted_def)

lemma walk_accounted:
  assumes "walk env w n cur p l stop s = Some (r, s')"
    and "distinct (rs_executed s)" and "set (rs_executed s) = dom (map_of (rs_outputs s))"
    and "\<And>a b. has_edge w a b \<Longrightarrow> a \<in> R \<Longrightarrow> b \<in> R" and "\<And>sid. cur = Some sid \<Longrightarrow> sid \<in> R"
  shows "accounted w R s s'"
proof (rule walk_invariant[where P = "accounted w R s" and R = R, OF assms(4) _ _ _ assms(1)])
  fix nd p s1
  assume "accounted w R s s1" "nd \<in> set (wf_nodes w)" "wn_step_id nd \<in> R"
  then show "accounted w R s (snd (run_regular env nd p s1))"
    by (intro run_regular_keeps[where P = "accounted w R s"]) (simp_all add: accounted_record)
next
  fix nd outs s1
  assume "accounted w R s s1" "nd \<in> set (wf_nodes w)" "wn_step_id nd \<in> R"
  then show "accounted w R s (snd (finish_parallel env nd outs s1))"
    by (intro finish_parallel_keeps[where P = "accounted w R s"]) (simp_all add: accounted_record)
next
  show "accounted w R s s" using assms(2,3) by (simp add: accounted_def)
next
  fix nd out s1
  assume "accounted w R s s1" "nd \<in> set (wf_nodes w)" "wn_step_id nd \<in> R"
  then show "accounted w R s (record_output (wn_step_id nd) out s1)" by (rule accounted_record)
next
  fix sid assume "cur = Some sid"
  then show "sid \<in> R" by (rule assms(5))
qed

definition reachable_from :: "workflow \<Rightarrow> string \<Rightarrow> string set" where
  "reachable_from w a = {b. (a, b) \<in> {(x, y). has_edge w x y}\<^sup>*}"

lemma reachable_closed: "has_edge w a b \<Longrightarrow> a \<in> reachable_from w x \<Longrightarrow> b \<in> reachable_from w x"
  by (auto simp: reachable_from_def intro: rtrancl_into_rtrancl)

lemma reachable_self [simp]: "x \<in> reachable_from w x"
  by (simp add: reachable_from_def)

section \<open>The resume contract\<close>

text \<open>The same environment with a log of the node runs: node id and current step.\<close>

type_synonym run_log = "(string \<times> string option) list"

definition logged :: "'w exec_env \<Rightarrow> ('w \<times> run_log) exec_env" where
  "logged env =
     \<lparr> env_fields = env_fields env,
       env_run = (\<lambda>nid st ap inp wl. case wl of (wd, log) \<Rightarrow>
         (case env_run env nid st ap inp wd of (r, wd') \<Rightarrow> (r, (wd', log @ [(nid, st)])))),
       env_eval = env_eval env \<rparr>"

definition untouched :: "string list \<Rightarrow> (string \<times> config) list \<Rightarrow> ('w \<times> run_log) run_state \<Rightarrow> bool" where
  "untouched done outs s \<longleftrightarrow>
     rs_completed s = done \<and>
     (\<forall>sid \<in> set done. rs_step s \<noteq> Some sid \<and> map_of (rs_outputs s) sid = map_of outs sid \<and>
        (\<forall>nid. (nid, Some sid) \<notin> set (snd (rs_world s))))"

lemma untouched_record:
  "untouched done outs s \<Longrightarrow> sid \<notin> set done \<Longrightarrow> untouched done outs (record_output sid out s)"
  by (auto simp: untouched_def)

lemma untouched_execute:
  assumes "untouched done outs s" and "execute_node (logged env) nd inp s = (r, s')"
  shows "untouched done outs s'"
  using assms
  by (auto simp: execute_node_def logged_def untouched_def split: prod.splits)

lemma walk_untouched:
  assumes "walk (logged env) w n cur p l stop s = Some (r, s')" and "untouched done outs s"
    and "set done \<subseteq> dom (map_of outs)"
  shows "untouched done outs s'"
proof (rule walk_invariant[where P = "untouched done outs" and R = UNIV, OF _ _ _ _ assms(1,2)])
  have fresh: "wn_step_id nd \<notin> set done"
    if "untouched done outs s" "completed_output s (wn_step_id nd) = None" for s :: "('a \<times> run_log) run_state" and nd
  proof
    assume d: "wn_step_id nd \<in> set done"
    then obtain out where "map_of outs (wn_step_id nd) = Some out" using assms(3) by auto
    then show False
      using that d by (auto simp: untouched_def completed_output_def get_output_def)
  qed
  show "untouched done outs (record_output (wn_step_id nd) out s)"
    if "untouched done outs s" "completed_output s (wn_step_id nd) = None"
    for s :: "('a \<times> run_log) run_state" and nd out
    using untouched_record[OF that(1) fresh[OF that]] .
  show "untouched done outs (snd (run_regular (logged env) nd p s))"
    if u: "untouched done outs s" "completed_output s (wn_step_id nd) = None" for s p nd
  proof -
    note nd = fresh[OF u]
    have "untouched done outs (s\<lparr>rs_step := Some (wn_step_id nd)\<rparr>)"
      using u(1) nd by (auto simp: untouched_def)
    then have run: "untouched done outs s2"
      if "execute_node (logged env) nd inp (s\<lparr>rs_step := Some (wn_step_id nd)\<rparr>) = (r, s2)" for inp r s2
      using untouched_execute that by blast
    show ?thesis
      using u(1) unfolding run_regular_def
      by (auto split: sum.split prod.split intro!: untouched_record[OF _ nd] dest: run)
  qed
  show "untouched done outs (snd (finish_parallel (logged env) nd outs' s))"
    if "untouched done outs s" "untouched done outs s0" "completed_output s0 (wn_step_id nd) = None"
    for s s0 :: "('a \<times> run_log) run_state" and nd outs'
    using untouched_execute[OF that(1)] unfolding finish_parallel_def
    by (auto split: sum.split prod.split intro!: untouched_record[OF _ fresh[OF that(2,3)]])
qed auto

section \<open>Invariants of the world\<close>

text \<open>
  What every node run keeps of the world, under the approvals of the run, the whole walk keeps.
\<close>

lemma walk_world_invariant:
  fixes s :: "'w run_state"
  assumes "walk env w n cur p l stop s = Some (r, s')"
    and "\<And>nid st inp wd. Q wd \<Longrightarrow> Q (snd (env_run env nid st (rs_approved s) inp wd))"
    and "Q (rs_world s)"
  shows "Q (rs_world s') \<and> rs_approved s' = rs_approved s"
proof -
  let ?P = "\<lambda>s' :: 'w run_state. Q (rs_world s') \<and> rs_approved s' = rs_approved s"
  have ex: "?P s2" if "execute_node env nd inp s1 = (r, s2)" "?P s1" for nd inp s1 r s2
    using that assms(2) by (auto simp: execute_node_def split: prod.splits)
      (metis snd_conv)+
  show ?thesis
  proof (rule walk_invariant[where P = ?P and R = UNIV, OF _ _ _ _ assms(1)])
    fix nd p s1 assume P: "?P s1"
    have "?P (s1\<lparr>rs_step := st\<rparr>)" for st using P by simp
    then show "?P (snd (run_regular env nd p s1))"
      using P unfolding run_regular_def
      by (auto split: sum.split prod.split dest: ex)
  next
    fix nd outs s1 assume "?P s1"
    then show "?P (snd (finish_parallel env nd outs s1))"
      unfolding finish_parallel_def by (auto split: sum.split prod.split dest: ex)
  qed (use assms(3) in auto)
qed

section \<open>A stored workflow that never ends\<close>

definition anchor :: "string \<Rightarrow> workflow_node" where
  "anchor sid = \<lparr> wn_step_id = sid, wn_node_id = ''compiler.join'', wn_name = [], wn_config = [] \<rparr>"

definition loop_workflow :: workflow where
  "loop_workflow = \<lparr> wf_name = ''loop'', wf_version = ''1.0'', wf_description = [], wf_trigger = [],
     wf_nodes = [anchor ''e'', anchor ''a'', anchor ''b''],
     wf_edges = [edge ''e'' ''a'' ''next'', edge ''a'' ''b'' ''next'', edge ''b'' ''a'' ''next''] \<rparr>"

definition few :: "'w run_state \<Rightarrow> bool" where
  "few s \<longleftrightarrow> rs_completed s = [] \<and> distinct (rs_executed s) \<and> set (rs_executed s) \<subseteq> {''e'', ''a'', ''b''}"

lemma few_record: "few s \<Longrightarrow> sid \<in> {''e'', ''a'', ''b''} \<Longrightarrow> few (record_output sid out s)"
  by (auto simp: few_def record_output_def)

lemma few_cap: "few s \<Longrightarrow> \<not> max_steps \<le> length (rs_executed s)"
proof -
  assume f: "few s"
  then have "length (rs_executed s) = card (set (rs_executed s))"
    by (simp add: few_def distinct_card)
  also have "\<dots> \<le> card {''e'', ''a'', ''b''}" using f by (intro card_mono) (auto simp: few_def)
  also have "\<dots> = 3" by simp
  finally show ?thesis by (simp add: max_steps_def)
qed

lemma loop_steps:
  "sid \<in> {''e'', ''a'', ''b''} \<Longrightarrow> wf_step loop_workflow sid = Some (anchor sid)"
  by (auto simp: wf_step_def loop_workflow_def anchor_def)

lemma loop_next:
  "next_step loop_workflow (anchor ''e'') = Some ''a''"
  "next_step loop_workflow (anchor ''a'') = Some ''b''"
  "next_step loop_workflow (anchor ''b'') = Some ''a''"
  by (simp_all add: next_step_def out_edges_def edge_labelled_def loop_workflow_def anchor_def Let_def)

lemma loop_head_pass:
  assumes "few s" and "sid \<in> {''e'', ''a'', ''b''}"
  shows "loop_head loop_workflow (Some sid) l None s = Pass (anchor sid)"
  using assms few_cap[OF assms(1)] loop_steps[OF assms(2)]
  by (simp add: loop_head_def completed_output_def few_def anchor_def passthrough_node_ids_def)

lemma loop_walk: "few s \<Longrightarrow> sid \<in> {''e'', ''a'', ''b''} \<Longrightarrow> walk env loop_workflow n (Some sid) p l None s = None"
proof (induction n arbitrary: sid p l s)
  case (Suc n)
  obtain t where t: "next_step loop_workflow (anchor sid) = Some t" "t \<in> {''e'', ''a'', ''b''}"
    using Suc.prems(2) loop_next by auto
  have "few (record_output (wn_step_id (anchor sid)) (coerce_passthrough p) s)"
    using few_record[OF Suc.prems] by (simp add: anchor_def)
  from Suc.IH[OF this t(2)] show ?case
    using loop_head_pass[OF Suc.prems] t by (simp add: walk_Suc)
qed simp

lemma loop_entry: "find_entry_id loop_workflow = Inr ''e''"
  by (simp add: find_entry_id_def loop_workflow_def anchor_def Let_def)

section \<open>Properties\<close>

text \<open>C21: Running a compiled playbook terminates: whatever the nodes do, more fuel than the
  500 steps a playbook may have gives a result, and the result does not depend on the fuel.\<close>

theorem compiled_run_terminates:
  assumes "compile_playbook load as_int text = Inr w"
  shows "\<exists>out. \<forall>k. execute env w (Suc max_steps + k) p s = Some out"
proof (cases "find_entry_id w")
  case (Inr entry)
  have "length (wf_nodes w) < Suc max_steps" "acyclic (step_graph (wf_step_ids w) (wf_edges w))"
    using compile_playbook_graph[OF assms] by auto
  then have "walk env w (Suc max_steps) (Some entry) p None None s \<noteq> None"
    by (intro acyclic_walk_returns) simp_all
  then obtain out where "walk env w (Suc max_steps) (Some entry) p None None s = Some out" by blast
  then have "walk env w (Suc max_steps + k) (Some entry) p None None s = Some out" for k
    using walk_mono[of env w "Suc max_steps" _ _ _ _ _ out "Suc max_steps + k"] by simp
  then show ?thesis using Inr by (cases out) (auto simp: execute_def split: sum.splits)
qed (simp add: execute_def)

text \<open>C22: A run accounts for its steps exactly, however it ends: no step is listed twice, a step
  is listed if and only if it has an output, and every listed step is a step of the workflow
  that can be reached from the entry.\<close>

theorem run_accounts_for_steps:
  assumes "execute env w fuel p (fresh_state p approved wd) = Some (r, s)"
    and "find_entry_id w = Inr entry"
  shows "distinct (rs_executed s) \<and> set (rs_executed s) = fst ` set (rs_outputs s) \<and>
         set (rs_executed s) \<subseteq> reachable_from w entry \<inter> wf_step_ids w"
proof -
  obtain r' where "walk env w fuel (Some entry) p None None (fresh_state p approved wd) = Some (r', s)"
    using assms by (auto simp: execute_def split: option.splits sum.splits)
  then have "accounted w (reachable_from w entry) (fresh_state p approved wd) s"
    by (rule walk_accounted) (auto simp: fresh_state_def intro: reachable_closed)
  then show ?thesis
    by (auto simp: accounted_def fresh_state_def dom_map_of_conv_image_fst)
qed

text \<open>C18: The resume contract: a run rehydrated from a checkpoint never runs a completed step
  again (no node runs while a completed step is current) and leaves every completed output as
  the checkpoint had it.\<close>

theorem resume_reuses_completed_steps:
  assumes "execute (logged env) w fuel p (resumed_state outputs executed trigger approved (wd, [])) = Some (r, s)"
    and "set executed \<subseteq> fst ` set outputs" and "sid \<in> set executed"
  shows "(nid, Some sid) \<notin> set (snd (rs_world s)) \<and> get_output sid s = map_of outputs sid"
proof (cases "find_entry_id w")
  case (Inl e)
  then show ?thesis using assms(1) by (auto simp: execute_def resumed_state_def get_output_def)
next
  case (Inr entry)
  let ?s0 = "resumed_state outputs executed trigger approved (wd, [])"
  obtain r' where "walk (logged env) w fuel (Some entry) p None None ?s0 = Some (r', s)"
    using assms(1) Inr by (auto simp: execute_def split: option.splits sum.splits)
  then have "untouched executed outputs s"
    by (rule walk_untouched) (use assms(2) in \<open>auto simp: untouched_def resumed_state_def dom_map_of_conv_image_fst\<close>)
  then show ?thesis using assms(3) by (auto simp: untouched_def get_output_def)
qed

text \<open>A stored workflow with a cycle runs for ever: the step cap counts the distinct executed
  steps, so it never stops a cycle of two join steps, whatever the nodes do and however long
  the run is given.\<close>

theorem cyclic_run_never_ends:
  "execute env loop_workflow fuel p (fresh_state p approved wd) = None"
  by (simp add: execute_def loop_entry loop_walk fresh_state_def few_def)

section \<open>Concrete runs\<close>

definition echo_env :: "unit exec_env" where
  "echo_env = \<lparr> env_fields = (\<lambda>_. Some []), env_run = (\<lambda>_ _ _ inp wd. (Inr inp, wd)),
     env_eval = (\<lambda>_ _. Inr PNone) \<rparr>"

definition plain_step :: "string \<Rightarrow> workflow_node" where
  "plain_step sid = \<lparr> wn_step_id = sid, wn_node_id = ''n'', wn_name = [], wn_config = [] \<rparr>"

definition two_steps :: workflow where
  "two_steps = \<lparr> wf_name = ''two'', wf_version = ''1.0'', wf_description = [], wf_trigger = [],
     wf_nodes = [plain_step ''a'', plain_step ''b''], wf_edges = [edge ''a'' ''b'' ''next''] \<rparr>"

lemma two_steps_entry: "find_entry_id two_steps = Inr ''a''"
  by (simp add: find_entry_id_def two_steps_def plain_step_def Let_def)

lemma compiled_run_terminates_witness:
  "\<exists>w out. compile_playbook (\<lambda>_. Some branching_playbook) (\<lambda>_. None) [] = Inr w \<and>
     (\<forall>k. execute echo_env w (Suc max_steps + k) NoPayload (fresh_state NoPayload [] ()) = Some out)"
  using branching_playbook_compiles
    compiled_run_terminates[of "\<lambda>_. Some branching_playbook" "\<lambda>_. None" "[]"] by blast

lemma two_steps_fresh:
  "\<exists>r s. execute echo_env two_steps 3 NoPayload (fresh_state NoPayload [] ()) = Some (r, s) \<and>
     rs_executed s = [''a'', ''b'']"
proof -
  have "case execute echo_env two_steps 3 NoPayload (fresh_state NoPayload [] ()) of
      None \<Rightarrow> False | Some (_, s) \<Rightarrow> rs_executed s = [''a'', ''b'']"
    by code_simp
  then show ?thesis by (auto split: option.splits)
qed

lemma run_accounts_for_steps_witness:
  "\<exists>r s. execute echo_env two_steps 3 NoPayload (fresh_state NoPayload [] ()) = Some (r, s) \<and>
     rs_executed s = [''a'', ''b''] \<and> {''a'', ''b''} \<subseteq> reachable_from two_steps ''a''"
proof -
  obtain r s where rs: "execute echo_env two_steps 3 NoPayload (fresh_state NoPayload [] ()) = Some (r, s)"
      "rs_executed s = [''a'', ''b'']"
    using two_steps_fresh by blast
  then have "set (rs_executed s) \<subseteq> reachable_from two_steps ''a''"
    using run_accounts_for_steps[OF rs(1) two_steps_entry] by blast
  then show ?thesis using rs by (intro exI[of _ r] exI[of _ s]) simp
qed

lemma two_steps_resumed:
  "\<exists>r s. execute (logged echo_env) two_steps 3 NoPayload
     (resumed_state [(''a'', [(''k'', PInt 1)])] [''a''] [] [] ((), [])) = Some (r, s) \<and>
     snd (rs_world s) = [(''n'', Some ''b'')]"
proof -
  have "case execute (logged echo_env) two_steps 3 NoPayload
      (resumed_state [(''a'', [(''k'', PInt 1)])] [''a''] [] [] ((), [])) of
      None \<Rightarrow> False | Some (_, s) \<Rightarrow> snd (rs_world s) = [(''n'', Some ''b'')]"
    by code_simp
  then show ?thesis by (auto split: option.splits)
qed

lemma resume_reuses_completed_steps_witness:
  "\<exists>r s. execute (logged echo_env) two_steps 3 NoPayload
     (resumed_state [(''a'', [(''k'', PInt 1)])] [''a''] [] [] ((), [])) = Some (r, s) \<and>
     get_output ''a'' s = Some [(''k'', PInt 1)] \<and> snd (rs_world s) = [(''n'', Some ''b'')]"
proof -
  obtain r s where rs: "execute (logged echo_env) two_steps 3 NoPayload
      (resumed_state [(''a'', [(''k'', PInt 1)])] [''a''] [] [] ((), [])) = Some (r, s)"
      "snd (rs_world s) = [(''n'', Some ''b'')]"
    using two_steps_resumed by blast
  have "get_output ''a'' s = Some [(''k'', PInt 1)]"
    using resume_reuses_completed_steps[OF rs(1), of "''a''" "''n''"] by simp
  then show ?thesis using rs by blast
qed

end
