(* ===== verification/EngineChain.thy ===== *)
theory EngineChain
  imports EvidenceChain ExecutorProps
begin

text \<open>
  The parts put together as the backend does (backend/btagent_backend/services/
  workflow_run_service.py, \<^verbatim>\<open>_build_middleware_chain\<close>): the built-in nodes of
  engine/btagent_engine/compiler/steps.py, the security chain, and the environment in which the
  executor runs them.  Node bodies outside the engine's core are parameters; a body sees the
  metadata bag and a world of its own, not the evidence records.
\<close>

section \<open>The built-in nodes\<close>

definition only_keys :: "string list \<Rightarrow> config \<Rightarrow> bool" where
  "only_keys ks c \<longleftrightarrow> list_all (\<lambda>kv. fst kv \<in> set ks) c"

definition invalid :: "(engine_exn, 'a) res" where
  "invalid = Inl (NodeException ''validation error'')"

definition builtin_meta :: "string \<Rightarrow> string \<Rightarrow> node_meta" where
  "builtin_meta i nm = \<lparr> nm_id = i, nm_name = nm, nm_version = ''0.1.0'', nm_category = DECISION \<rparr>"

definition decision_run :: "config \<Rightarrow> (engine_exn, config) res" where
  "decision_run inp =
     (case map_of inp ''value'' of
        None \<Rightarrow> invalid
      | Some (PBool b) \<Rightarrow>
          Inr [(''branch'', PStr (if b then ''true'' else ''false'')), (''value'', PBool b)]
      | Some v \<Rightarrow> (case py_str v of
          Inl e \<Rightarrow> Inl (NodeException ''str() failed'')
        | Inr t \<Rightarrow> Inr [(''branch'', PStr t), (''value'', v)]))"

definition decision_node :: "('w, engine_exn) node" where
  "decision_node =
     \<lparr> nd_meta = builtin_meta decision_node_id ''Decision'', nd_manifest = None, nd_capability_id = None,
       nd_validate_in = (\<lambda>c. if only_keys [''value''] c \<and> map_of c ''value'' \<noteq> None then Inr c else invalid),
       nd_run = (\<lambda>c _ w. (decision_run c, w)), nd_validate_out = Inr \<rparr>"

definition parallel_run :: "config \<Rightarrow> config" where
  "parallel_run inp =
     (let rs = (case map_of inp ''branch_results'' of Some (PList vs) \<Rightarrow> vs | _ \<Rightarrow> []) in
      [(''merged'', PList rs), (''branch_count'', PInt (int (length rs)))])"

definition parallel_node :: "('w, engine_exn) node" where
  "parallel_node =
     \<lparr> nd_meta = builtin_meta parallel_node_id ''Parallel Fork / Join'', nd_manifest = None, nd_capability_id = None,
       nd_validate_in = (\<lambda>c. if only_keys [''branch_results''] c \<and>
           (case map_of c ''branch_results'' of None \<Rightarrow> True | Some (PList _) \<Rightarrow> True | _ \<Rightarrow> False)
         then Inr c else invalid),
       nd_run = (\<lambda>c _ w. (Inr (parallel_run c), w)), nd_validate_out = Inr \<rparr>"

definition gate_run :: "config \<Rightarrow> config" where
  "gate_run inp =
     [(''approved'', PBool True),
      (''payload'', case map_of inp ''payload'' of Some v \<Rightarrow> v | None \<Rightarrow> PDict [])]"

definition string_or_absent :: "config \<Rightarrow> string \<Rightarrow> bool" where
  "string_or_absent c k = (case map_of c k of None \<Rightarrow> True | Some (PStr _) \<Rightarrow> True | _ \<Rightarrow> False)"

text \<open>Validation fills the defaults: no role given means the senior analyst.\<close>

definition gate_node :: "('w, engine_exn) node" where
  "gate_node =
     \<lparr> nd_meta = builtin_meta hitl_gate_node_id ''HITL Gate'', nd_manifest = None, nd_capability_id = None,
       nd_validate_in = (\<lambda>c.
         if only_keys [''payload'', ''prompt'', ''required_role''] c \<and>
            string_or_absent c ''prompt'' \<and> string_or_absent c ''required_role'' \<and>
            (case map_of c ''payload'' of None \<Rightarrow> True | Some (PDict _) \<Rightarrow> True | _ \<Rightarrow> False)
         then Inr (if map_of c ''required_role'' = None
                   then dict_put ''required_role'' (PStr ''senior_analyst'') c else c)
         else invalid),
       nd_run = (\<lambda>c _ w. (Inr (gate_run c), w)), nd_validate_out = Inr \<rparr>"

section \<open>The chain and the environment\<close>

definition build_middleware_chain ::
  "'ts digests \<Rightarrow> tlp \<Rightarrow> autonomy_level \<Rightarrow> integration_autonomy
     \<Rightarrow> (('ts, 'a) evidence_world_scheme, engine_exn) middleware list" where
  "build_middleware_chain dg active agent ia =
     [hitl_middleware agent ia, hitl_gate_middleware, policy_middleware (Some active),
      ocsf_middleware, evidence_middleware dg]"

text \<open>A node of the registry with a body over the metadata and its own world.\<close>

record 'x plugin = node_info +
  pl_accepts :: "string list"
  pl_validate_in :: "config \<Rightarrow> (engine_exn, config) res"
  pl_body :: "config \<Rightarrow> node_ctx \<Rightarrow> (string \<times> pyval) list \<times> 'x
     \<Rightarrow> (engine_exn, config) res \<times> (string \<times> pyval) list \<times> 'x"
  pl_validate_out :: "config \<Rightarrow> (engine_exn, config) res"

definition lift_body ::
  "'x plugin \<Rightarrow> config \<Rightarrow> node_ctx \<Rightarrow> ('ts, 'x) evidence_world_scheme
     \<Rightarrow> (engine_exn, config) res \<times> ('ts, 'x) evidence_world_scheme" where
  "lift_body pl inp ctx w =
     (case pl_body pl inp ctx (ew_metadata w, evidence_world.more w) of
        (r, md, x) \<Rightarrow> (r, evidence_world.more_update (\<lambda>_. x) (w\<lparr>ew_metadata := md\<rparr>)))"

definition plugin_node :: "'x plugin \<Rightarrow> (('ts, 'x) evidence_world_scheme, engine_exn) node" where
  "plugin_node pl =
     \<lparr> nd_meta = nd_meta pl, nd_manifest = nd_manifest pl, nd_capability_id = nd_capability_id pl,
       nd_validate_in = pl_validate_in pl, nd_run = lift_body pl, nd_validate_out = pl_validate_out pl \<rparr>"

definition node_for ::
  "(string \<Rightarrow> 'x plugin option) \<Rightarrow> string \<Rightarrow> (('ts, 'x) evidence_world_scheme, engine_exn) node option" where
  "node_for plugins nid =
     (if nid = decision_node_id then Some decision_node
      else if nid = parallel_node_id then Some parallel_node
      else if nid = hitl_gate_node_id then Some gate_node
      else map_option plugin_node (plugins nid))"

text \<open>How the executor sees an exception of the engine.\<close>

fun classify :: "engine_exn \<Rightarrow> node_exn" where
  "classify (HITLPause nid req ag) = PauseExn nid"
| "classify (HITLGatePause nid role prompt) = PauseExn nid"
| "classify (PendingHITLApproval cid nm) = PauseExn cid"
| "classify (NestedWorkflowError nid r) = WorkflowExn nid r"
| "classify (NodeBaseException m) = BaseExn m"
| "classify (ConnectorPolicyViolation r) = PlainExn r"
| "classify (OCSFContractViolation nm bad) = PlainExn nm"
| "classify (NodeException m) = PlainExn m"

definition with_step :: "node_ctx \<Rightarrow> string option \<Rightarrow> string list \<Rightarrow> node_ctx" where
  "with_step ctx st approved = ctx\<lparr>ctx_current_step := st, ctx_approved_steps := approved\<rparr>"

definition chain_env ::
  "(('ts, 'x) evidence_world_scheme, engine_exn) middleware list \<Rightarrow> (string \<Rightarrow> 'x plugin option)
     \<Rightarrow> evaluator \<Rightarrow> node_ctx \<Rightarrow> ('ts, 'x) evidence_world_scheme exec_env" where
  "chain_env mws plugins ev ctx =
     \<lparr> env_fields = (\<lambda>nid. map_option pl_accepts (plugins nid)),
       env_run = (\<lambda>nid st approved inp w.
         case node_for plugins nid of
           None \<Rightarrow> (Inl (WorkflowExn None ''not registered''), w)
         | Some n \<Rightarrow>
            (case runner_execute mws n inp (with_step ctx st approved) w of
               (Inl e, w') \<Rightarrow> (Inl (classify e), w')
             | (Inr out, w') \<Rightarrow> (Inr out, w'))),
       env_eval = ev \<rparr>"

section \<open>What a node run does to the world\<close>

lemma run_hooks_invariant:
  assumes "\<And>m w. m \<in> set ms \<Longrightarrow> Q w \<Longrightarrow> Q (snd (h m w))"
  shows "Q w \<Longrightarrow> Q (snd (run_hooks h ms w))"
  using assms
proof (induction ms arbitrary: w)
  case (Cons m ms)
  obtain x w' where x: "h m w = (x, w')" by fastforce
  have "Q w'" using Cons.prems(2)[of m w] Cons.prems(1) x by simp
  then show ?case using Cons.IH[of w'] Cons.prems(2) x by (cases x) simp_all
qed simp

lemma runner_invariant:
  assumes "\<And>m i w. m \<in> set mws \<Longrightarrow> Q w \<Longrightarrow> Q (snd (mw_before m (node_info.truncate n) i ctx w))"
    and "\<And>m i out w. m \<in> set mws \<Longrightarrow> Q w \<Longrightarrow> Q (snd (mw_after m (node_info.truncate n) i out ctx w))"
    and "\<And>m i e w. m \<in> set mws \<Longrightarrow> Q w \<Longrightarrow> Q (snd (mw_on_error m (node_info.truncate n) i e ctx w))"
    and "\<And>i w0 u w. run_hooks (\<lambda>m. mw_before m (node_info.truncate n) i ctx) mws w0 = (Inr u, w) \<Longrightarrow>
           Q w \<Longrightarrow> Q (snd (nd_run n i ctx w))"
    and "Q w"
  shows "Q (snd (runner_execute mws n payload ctx w))"
proof (cases "nd_validate_in n payload")
  case (Inr inp)
  let ?ni = "node_info.truncate n"
  obtain b w1 where b: "run_hooks (\<lambda>m. mw_before m ?ni inp ctx) mws w = (b, w1)" by fastforce
  have Q1: "Q w1"
    using run_hooks_invariant[of mws Q "\<lambda>m. mw_before m ?ni inp ctx" w] assms(1,5) b by auto
  obtain x w2 where x: "nd_run n inp ctx w1 = (x, w2)" by fastforce
  show ?thesis
  proof (cases b)
    case u: (Inr u)
    then have Q2: "Q w2" using assms(4)[of inp w u w1] b Q1 x by simp
    have after: "Q (snd (run_hooks (\<lambda>m. mw_after m ?ni inp out ctx) (rev mws) w2))" for out
      by (rule run_hooks_invariant[of _ Q]) (use assms(2) Q2 in auto)
    have err: "Q (snd (run_hooks (\<lambda>m. mw_on_error m ?ni inp e ctx) (rev mws) w2))" for e
      by (rule run_hooks_invariant[of _ Q]) (use assms(3) Q2 in auto)
    show ?thesis
      using Inr b u x Q2
      by (auto simp: runner_execute_def split: sum.split prod.split)
        (metis after err snd_conv)+
  qed (use Inr b Q1 in \<open>simp add: runner_execute_def\<close>)
qed (use assms(5) in \<open>simp add: runner_execute_def\<close>)

section \<open>The log of the bodies that ran\<close>

type_synonym body_log = "(node_info \<times> config \<times> string option) list"

definition log_plugin :: "'x plugin \<Rightarrow> ('x \<times> body_log) plugin" where
  "log_plugin pl =
     \<lparr> nd_meta = nd_meta pl, nd_manifest = nd_manifest pl, nd_capability_id = nd_capability_id pl,
       pl_accepts = pl_accepts pl, pl_validate_in = pl_validate_in pl,
       pl_body = (\<lambda>i c (md, x, lg). case pl_body pl i c (md, x) of
         (r, md', x') \<Rightarrow> (r, md', x', lg @ [(node_info.truncate pl, i, ctx_current_step c)])),
       pl_validate_out = pl_validate_out pl \<rparr>"

definition logged_plugins :: "(string \<Rightarrow> 'x plugin option) \<Rightarrow> string \<Rightarrow> ('x \<times> body_log) plugin option" where
  "logged_plugins plugins nid = map_option log_plugin (plugins nid)"

text \<open>What the security chain promises of a body that ran.\<close>

definition permitted ::
  "tlp \<Rightarrow> autonomy_level \<Rightarrow> integration_autonomy \<Rightarrow> string list \<Rightarrow> node_info \<times> config \<times> string option \<Rightarrow> bool" where
  "permitted active agent ia approved entry \<longleftrightarrow>
     (case entry of (n, inp, st) \<Rightarrow>
        let ok = (case st of None \<Rightarrow> False | Some sid \<Rightarrow> sid \<in> set approved) in
        (nm_category (nd_meta n) = INTEGRATION \<and> requires_approval (nm_id (nd_meta n)) agent ia \<longrightarrow> ok) \<and>
        (case nd_manifest n of None \<Rightarrow> True
         | Some m \<Rightarrow> (\<exists>c. resolve_capability m n inp = Some c \<and> active \<le> cap_tlp_egress c \<and>
                        (cap_hitl_required c \<longrightarrow> ok))))"

lemma chain_before_unchanged:
  "m \<in> set (build_middleware_chain dg active agent ia) \<Longrightarrow>
   evidence_world.more (snd (mw_before m n i ctx w)) = evidence_world.more w \<and>
   ew_records (snd (mw_before m n i ctx w)) = ew_records w"
  by (auto simp: build_middleware_chain_def hitl_before_def hitl_gate_before_def policy_before_def
      evidence_middleware_def ocsf_middleware_def Let_def split: option.split)

lemma ocsf_after_unchanged:
  "evidence_world.more (snd (ocsf_after n i out ctx w)) = evidence_world.more w \<and>
   ew_records (snd (ocsf_after n i out ctx w)) = ew_records w"
  by (auto simp: ocsf_after_def Let_def split: option.split pyval.split prod.split)

lemma chain_after_more:
  "m \<in> set (build_middleware_chain dg active agent ia) \<Longrightarrow>
   evidence_world.more (snd (mw_after m n i out ctx w)) = evidence_world.more w"
  using ocsf_after_unchanged[of n i out ctx w]
  by (auto simp: build_middleware_chain_def hitl_middleware_def hitl_gate_middleware_def
      policy_middleware_def evidence_after_def Let_def)

lemma chain_error_unchanged:
  "m \<in> set (build_middleware_chain dg active agent ia) \<Longrightarrow> mw_on_error m n i e ctx w = (Inr (), w)"
  by (auto simp: build_middleware_chain_def hitl_middleware_def hitl_gate_middleware_def
      policy_middleware_def ocsf_middleware_def evidence_middleware_def)

lemma step_is_approved_with_step [simp]:
  "step_is_approved (with_step ctx st approved) \<longleftrightarrow>
     (case st of None \<Rightarrow> False | Some sid \<Rightarrow> sid \<in> set approved)"
  by (cases st) (simp_all add: step_is_approved_def with_step_def)

lemma resolve_capability_truncate [simp]:
  "resolve_capability m (node_info.truncate n) inp = resolve_capability m n inp"
  by (simp add: resolve_capability_def node_info.defs)

text \<open>When every before hook of the chain returned, the body about to run is permitted.\<close>

lemma chain_permits:
  fixes w :: "('ts, 'x) evidence_world_scheme"
  assumes "run_hooks (\<lambda>m. mw_before m n i (with_step ctx st approved))
      (build_middleware_chain dg active agent ia) w0 = (Inr u, w)"
  shows "permitted active agent ia approved (n, i, st)"
proof -
  let ?c = "with_step ctx st approved"
  have "autonomy_permits agent ia n i ?c ()"
    by (rule hitl.passed_permits[OF assms, where m = "hitl_middleware agent ia"])
      (simp_all add: build_middleware_chain_def)
  moreover have "policy_permits (Some active) n i ?c ()"
    by (rule connector_policy.passed_permits[OF assms, where m = "policy_middleware (Some active)"])
      (simp_all add: build_middleware_chain_def)
  ultimately show ?thesis
    by (auto simp: permitted_def autonomy_permits_def policy_permits_def Let_def split: option.splits)
qed

lemma logged_body_log:
  "snd (evidence_world.more (snd (lift_body (log_plugin pl) i c w))) =
     snd (evidence_world.more w) @ [(node_info.truncate pl, i, ctx_current_step c)]"
  by (auto simp: lift_body_def log_plugin_def split: prod.split)

lemma lift_body_records: "ew_records (snd (lift_body pl i c w)) = ew_records w"
  by (auto simp: lift_body_def split: prod.split)

lemma plugin_node_run [simp]: "nd_run (plugin_node pl) = lift_body pl"
  "node_info.truncate (plugin_node pl) = node_info.truncate pl"
  by (simp_all add: plugin_node_def node_info.defs)

lemma builtin_run_world [simp]:
  "snd (nd_run decision_node i c w) = w" "snd (nd_run parallel_node i c w) = w"
  "snd (nd_run gate_node i c w) = w"
  by (simp_all add: decision_node_def parallel_node_def gate_node_def)

lemma log_plugin_truncate [simp]: "node_info.truncate (log_plugin pl) = node_info.truncate pl"
  by (simp add: log_plugin_def node_info.defs)

lemma node_for_cases:
  assumes "node_for plugins nid = Some n"
  obtains (builtin) "\<And>i c w. snd (nd_run n i c w) = w" | (plugin) pl where "plugins nid = Some pl" "n = plugin_node pl"
  using assms by (auto simp: node_for_def split: if_splits)

lemma env_run_keeps:
  fixes w :: "('ts, 'x) evidence_world_scheme"
  assumes "\<And>n. node_for plugins nid = Some n \<Longrightarrow>
      Q (snd (runner_execute mws n inp (with_step ctx st approved) w))" and "Q w"
  shows "Q (snd (env_run (chain_env mws plugins ev ctx) nid st approved inp w))"
proof (cases "node_for plugins nid :: (('ts, 'x) evidence_world_scheme, engine_exn) node option")
  case (Some n)
  then show ?thesis using assms(1)[OF Some] by (auto simp: chain_env_def split: prod.split sum.split)
qed (use assms(2) in \<open>simp add: chain_env_def\<close>)

section \<open>Runs through the chain\<close>

lemma logged_plugins_Some:
  "logged_plugins plugins nid = Some pl \<Longrightarrow> \<exists>pl0. pl = log_plugin pl0"
  by (auto simp: logged_plugins_def)

lemma chain_env_permitted:
  fixes w :: "('ts, 'x \<times> body_log) evidence_world_scheme"
  assumes "list_all (permitted active agent ia approved) (snd (evidence_world.more w))"
  shows "list_all (permitted active agent ia approved) (snd (evidence_world.more (snd
    (env_run (chain_env (build_middleware_chain dg active agent ia) (logged_plugins plugins) ev ctx)
      nid st approved inp w))))"
proof (rule env_run_keeps[where Q = "\<lambda>w. list_all (permitted active agent ia approved) (snd (evidence_world.more w))", OF _ assms])
  fix n assume n: "node_for (logged_plugins plugins) nid = Some (n :: (('ts, 'x \<times> body_log) evidence_world_scheme, engine_exn) node)"
  let ?mws = "build_middleware_chain dg active agent ia :: (('ts, 'x \<times> body_log) evidence_world_scheme, engine_exn) middleware list"
  let ?Q = "\<lambda>w :: ('ts, 'x \<times> body_log) evidence_world_scheme. list_all (permitted active agent ia approved) (snd (evidence_world.more w))"
  show "?Q (snd (runner_execute ?mws n inp (with_step ctx st approved) w))"
  proof (rule runner_invariant[where Q = ?Q, OF _ _ _ _ assms])
    show "?Q (snd (nd_run n i (with_step ctx st approved) w1))"
      if hooks: "run_hooks (\<lambda>m. mw_before m (node_info.truncate n) i (with_step ctx st approved)) ?mws w0 = (Inr u, w1)"
        and Q: "?Q w1" for i w0 u w1
      using n
    proof (cases rule: node_for_cases)
      case (plugin pl)
      then obtain pl0 where pl: "n = plugin_node (log_plugin pl0)"
        using logged_plugins_Some by blast
      then have "permitted active agent ia approved (node_info.truncate pl0, i, st)"
        using chain_permits[OF hooks] by simp
      then show ?thesis
        using Q pl by (simp add: logged_body_log with_step_def)
    qed (use Q in simp)
  qed (simp_all add: chain_before_unchanged chain_after_more chain_error_unchanged)
qed

lemma run_permits_bodies:
  assumes "execute (chain_env (build_middleware_chain dg active agent ia) (logged_plugins plugins) ev ctx)
      w fuel p s = Some (r, s')"
    and "snd (evidence_world.more (rs_world s)) = []"
  shows "list_all (permitted active agent ia (rs_approved s)) (snd (evidence_world.more (rs_world s')))"
proof (cases "find_entry_id w")
  case (Inr entry)
  then obtain r' where "walk (chain_env (build_middleware_chain dg active agent ia) (logged_plugins plugins) ev ctx)
      w fuel (Some entry) p None None s = Some (r', s')"
    using assms(1) by (auto simp: execute_def split: option.splits sum.splits)
  from walk_world_invariant[OF this,
      where Q = "\<lambda>wd. list_all (permitted active agent ia (rs_approved s)) (snd (evidence_world.more wd))"]
  show ?thesis using chain_env_permitted assms(2) by fastforce
qed (use assms in \<open>auto simp: execute_def\<close>)

text \<open>C1: No unattended action.  However a run of any workflow through the security chain goes,
  fresh or resumed, every node body that ran was permitted: an integration node that the
  autonomy policy holds back (containment always) ran under a step a human had approved, and a
  node with a manifest ran for a capability whose egress level covers the classification of
  the run and which needs no human or was approved.\<close>

theorem no_unattended_action:
  assumes "execute (chain_env (build_middleware_chain dg active agent ia) (logged_plugins plugins) ev ctx)
      w fuel p s = Some (r, s')"
    and "snd (evidence_world.more (rs_world s)) = []"
  shows "list_all (permitted active agent ia (rs_approved s)) (snd (evidence_world.more (rs_world s')))"
  using assms by (rule run_permits_bodies)

lemma chain_env_records:
  fixes w :: "('ts, 'x) evidence_world_scheme"
  assumes "ev_chained dg genesis_hash (ew_records w)" and "\<exists>new. ew_records w = rs0 @ new"
  shows "let w' = snd (env_run (chain_env (build_middleware_chain dg active agent ia) plugins ev ctx)
      nid st approved inp w)
    in ev_chained dg genesis_hash (ew_records w') \<and> (\<exists>new. ew_records w' = rs0 @ new)"
proof -
  let ?Q = "\<lambda>w :: ('ts, 'x) evidence_world_scheme. ev_chained dg genesis_hash (ew_records w) \<and> (\<exists>new. ew_records w = rs0 @ new)"
  let ?mws = "build_middleware_chain dg active agent ia :: (('ts, 'x) evidence_world_scheme, engine_exn) middleware list"
  have ev: "?Q (snd (evidence_after dg n i out c w))" if "?Q w" for n i out c w
    using that evidence_after_chained[of dg w n i out c] evidence_after_grows[of dg n i out c w] by auto
  have after: "?Q (snd (mw_after m n i out c w))" if "m \<in> set ?mws" "?Q w" for m n i out c w
    using that ev ocsf_after_unchanged[of n i out c w]
    by (auto simp: build_middleware_chain_def hitl_middleware_def hitl_gate_middleware_def policy_middleware_def)
  have "?Q (snd (env_run (chain_env ?mws plugins ev ctx) nid st approved inp w))"
  proof (rule env_run_keeps[where Q = ?Q])
    show "?Q w" using assms by blast
    fix n assume n: "node_for plugins nid = Some (n :: (('ts, 'x) evidence_world_scheme, engine_exn) node)"
    show "?Q (snd (runner_execute ?mws n inp (with_step ctx st approved) w))"
    proof (rule runner_invariant[where Q = ?Q])
      show "?Q w" using assms by blast
      show "?Q (snd (nd_run n i (with_step ctx st approved) w1))"
        if "?Q w1" for i w1
        using n
      proof (cases rule: node_for_cases)
        case (plugin pl)
        then show ?thesis using that by (simp add: lift_body_records)
      qed (use that in simp)
    qed (use after in \<open>simp_all add: chain_before_unchanged chain_error_unchanged\<close>)
  qed
  then show ?thesis by (simp add: Let_def)
qed

lemma run_extends_evidence:
  fixes s :: "('ts, 'x) evidence_world_scheme run_state"
  assumes "execute (chain_env (build_middleware_chain dg active agent ia) plugins ev ctx) w fuel p s = Some (r, s')"
    and "fst (verify_chain dg (ew_records (rs_world s)))"
  shows "fst (verify_chain dg (ew_records (rs_world s'))) \<and>
    (\<exists>new. ew_records (rs_world s') = ew_records (rs_world s) @ new)"
proof (cases "find_entry_id w")
  case (Inr entry)
  let ?Q = "\<lambda>wd :: ('ts, 'x) evidence_world_scheme.
    ev_chained dg genesis_hash (ew_records wd) \<and> (\<exists>new. ew_records wd = ew_records (rs_world s) @ new)"
  obtain r' where "walk (chain_env (build_middleware_chain dg active agent ia) plugins ev ctx)
      w fuel (Some entry) p None None s = Some (r', s')"
    using assms(1) Inr by (auto simp: execute_def split: option.splits sum.splits)
  then have "?Q (rs_world s') \<and> rs_approved s' = rs_approved s"
  proof (rule walk_world_invariant[where Q = ?Q])
    show "?Q (rs_world s)" using assms(2) by (simp add: verify_chain_def verify_from_ok)
    fix nid st inp wd assume "?Q wd"
    then show "?Q (snd (env_run (chain_env (build_middleware_chain dg active agent ia) plugins ev ctx)
        nid st (rs_approved s) inp wd))"
      using chain_env_records[of dg wd "ew_records (rs_world s)"] unfolding Let_def by blast
  qed
  then show ?thesis by (simp add: verify_chain_def verify_from_ok)
qed (use assms in \<open>auto simp: execute_def\<close>)

text \<open>C11: The evidence chain survives every run: a run started over a verified chain (empty, or the
  one a resume brought back) ends over a verified chain that extends it, however the run
  ends.\<close>

theorem evidence_chain_extended:
  fixes s :: "('ts, 'x) evidence_world_scheme run_state"
  assumes "execute (chain_env (build_middleware_chain dg active agent ia) plugins ev ctx) w fuel p s = Some (r, s')"
    and "fst (verify_chain dg (ew_records (rs_world s)))"
  shows "fst (verify_chain dg (ew_records (rs_world s'))) \<and>
    (\<exists>new. ew_records (rs_world s') = ew_records (rs_world s) @ new)"
  using assms by (rule run_extends_evidence)

lemma gate_run_approved:
  fixes w :: "('ts, 'x) evidence_world_scheme"
  assumes "env_run (chain_env (build_middleware_chain dg active agent ia) plugins ev ctx)
    hitl_gate_node_id st approved inp w = (Inr out, w')"
  shows "\<exists>sid. st = Some sid \<and> sid \<in> set approved"
proof -
  let ?mws = "build_middleware_chain dg active agent ia :: (('ts, 'x) evidence_world_scheme, engine_exn) middleware list"
  let ?n = "gate_node :: (('ts, 'x) evidence_world_scheme, engine_exn) node" and ?c = "with_step ctx st approved"
  have n: "node_for plugins hitl_gate_node_id = Some ?n"
    by (simp add: node_for_def hitl_gate_node_id_def decision_node_id_def parallel_node_id_def)
  have "fst (runner_execute ?mws ?n inp ?c w) = Inr out"
    using assms n by (auto simp: chain_env_def split: prod.splits sum.splits)
  then obtain i u w1 where "run_hooks (\<lambda>m. mw_before m (node_info.truncate ?n) i ?c) ?mws w = (Inr u, w1)"
    by (auto simp: runner_execute_def split: sum.splits prod.splits)
  from run_hooks_passed[OF this, of hitl_gate_middleware]
  obtain w2 w3 :: "('ts, 'x) evidence_world_scheme"
    where "hitl_gate_before (node_info.truncate ?n) i ?c w2 = (Inr (), w3)"
    by (auto simp: build_middleware_chain_def)
  then show ?thesis
    by (simp add: hitl_gate_before_passes gate_node_def node_info.defs builtin_meta_def
        hitl_gate_node_id_def gate_node_id_def split: option.splits)
qed

text \<open>The approvals are those of the start, and a gate step done since then was approved.\<close>

definition gates_approved :: "workflow \<Rightarrow> string list \<Rightarrow> string list \<Rightarrow> 'w run_state \<Rightarrow> bool" where
  "gates_approved w approved done s \<longleftrightarrow>
     rs_approved s = approved \<and>
     (\<forall>sid nd. wf_step w sid = Some nd \<and> wn_node_id nd = hitl_gate_node_id \<and> sid \<in> set (rs_executed s) \<longrightarrow>
        sid \<in> set done \<or> sid \<in> set approved)"

lemma gates_approved_record:
  "gates_approved w approved done s \<Longrightarrow> wf_step w (wn_step_id nd) = Some nd \<Longrightarrow>
   \<not> (wn_node_id nd = hitl_gate_node_id \<and> wn_step_id nd \<notin> set approved) \<Longrightarrow>
   gates_approved w approved done (record_output (wn_step_id nd) out s)"
  by (auto simp: gates_approved_def)

lemma gates_approved_fields [simp]:
  "gates_approved w approved done (s\<lparr>rs_world := wd\<rparr>) = gates_approved w approved done s"
  "gates_approved w approved done (s\<lparr>rs_step := st\<rparr>) = gates_approved w approved done s"
  by (simp_all add: gates_approved_def)

lemma walk_gates_approved:
  fixes s0 :: "('ts, 'x) evidence_world_scheme run_state"
  assumes walk: "walk (chain_env (build_middleware_chain dg active agent ia) plugins ev ctx) w fuel (Some entry) p l stop s0 = Some (r, s)"
  shows "gates_approved w (rs_approved s0) (rs_executed s0) s"
proof -
  let ?env = "chain_env (build_middleware_chain dg active agent ia) plugins ev ctx"
  let ?P = "gates_approved w (rs_approved s0) (rs_executed s0) :: ('ts, 'x) evidence_world_scheme run_state \<Rightarrow> bool"
  have ids: "hitl_gate_node_id \<notin> set passthrough_node_ids" "hitl_gate_node_id \<noteq> parallel_node_id"
    by (simp_all add: hitl_gate_node_id_def passthrough_node_ids_def parallel_node_id_def)
  show ?thesis
  proof (rule walk_invariant_kinds[where P = ?P and R = UNIV, OF _ _ _ _ walk])
    fix nd p s1
    assume P: "?P s1" and nd: "wf_step w (wn_step_id nd) = Some nd"
    have "?P (record_output (wn_step_id nd) out s2)"
      if "execute_node ?env nd inp (s1\<lparr>rs_step := Some (wn_step_id nd)\<rparr>) = (Inr out, s2)" for inp out s2
    proof (rule gates_approved_record[OF _ nd])
      show "?P s2" using execute_node_state[OF that] P by auto
      have "rs_approved s1 = rs_approved s0" using P by (simp add: gates_approved_def)
      then show "\<not> (wn_node_id nd = hitl_gate_node_id \<and> wn_step_id nd \<notin> set (rs_approved s0))"
        using that gate_run_approved
        by (auto simp: execute_node_def split: prod.splits sum.splits) blast
    qed
    moreover have "?P s2" if "execute_node ?env nd inp (s1\<lparr>rs_step := Some (wn_step_id nd)\<rparr>) = (x, s2)" for inp x s2
      using execute_node_state[OF that] P by auto
    ultimately show "?P (snd (run_regular ?env nd p s1))"
      using P unfolding run_regular_def by (auto split: sum.split prod.split)
  next
    fix nd outs s1
    assume "?P s1" "wf_step w (wn_step_id nd) = Some nd" "wn_node_id nd = parallel_node_id"
    moreover have "?P s2" if "execute_node ?env nd inp s1 = (x, s2)" "?P s1" for inp x s2
      using execute_node_state[OF that(1)] that(2) by auto
    ultimately show "?P (snd (finish_parallel ?env nd outs s1))"
      using ids unfolding finish_parallel_def
      by (auto split: sum.split prod.split intro!: gates_approved_record)
  qed (use ids in \<open>auto intro: gates_approved_record simp: gates_approved_def\<close>)
qed

text \<open>C2: An explicit approval gate of a playbook never passes by itself, in a fresh run or in one
  resumed from any checkpoint: a gate step that is among the executed steps at the end was among
  those of the checkpoint already, or a human has approved that step for the run.  The run keeps
  the approvals it was given: no node, branch or gate adds one.\<close>

theorem gate_steps_need_approval:
  fixes s0 :: "('ts, 'x) evidence_world_scheme run_state"
  assumes "execute (chain_env (build_middleware_chain dg active agent ia) plugins ev ctx) w fuel p s0 = Some (r, s)"
  shows "rs_approved s = rs_approved s0 \<and>
    (\<forall>sid nd. wf_step w sid = Some nd \<and> wn_node_id nd = hitl_gate_node_id \<and> sid \<in> set (rs_executed s) \<longrightarrow>
       sid \<in> set (rs_executed s0) \<or> sid \<in> set (rs_approved s0))"
proof (cases "find_entry_id w")
  case (Inl e)
  then show ?thesis using assms by (auto simp: execute_def)
next
  case (Inr entry)
  then obtain r' where "walk (chain_env (build_middleware_chain dg active agent ia) plugins ev ctx) w fuel (Some entry) p None None s0 = Some (r', s)"
    using assms by (auto simp: execute_def split: option.splits sum.splits)
  from walk_gates_approved[OF this] show ?thesis by (auto simp: gates_approved_def)
qed

section \<open>Sample runs\<close>

definition isolate_plugin :: "unit plugin" where
  "isolate_plugin =
     \<lparr> nd_meta = \<lparr> nm_id = ''edr.isolate'', nm_name = [], nm_version = [], nm_category = INTEGRATION \<rparr>,
       nd_manifest = None, nd_capability_id = None, pl_accepts = [], pl_validate_in = Inr,
       pl_body = (\<lambda>inp _ w. (Inr inp, w)), pl_validate_out = Inr \<rparr>"

definition one_step :: "string \<Rightarrow> workflow" where
  "one_step nid = \<lparr> wf_name = ''one'', wf_version = ''1.0'', wf_description = [], wf_trigger = [],
     wf_nodes = [\<lparr> wn_step_id = ''a'', wn_node_id = nid, wn_name = [], wn_config = [] \<rparr>], wf_edges = [] \<rparr>"

definition no_eval :: evaluator where "no_eval = (\<lambda>_ _. Inr PNone)"

definition sample_world :: "'x \<Rightarrow> (string, 'x) evidence_world_scheme" where
  "sample_world x = \<lparr> ew_metadata = [], ew_records = [], ew_clock = (\<lambda>_. ''now''), ew_ticks = 0, \<dots> = x \<rparr>"

definition sample_env :: "(string \<Rightarrow> 'x plugin option) \<Rightarrow> (string, 'x) evidence_world_scheme exec_env" where
  "sample_env plugins =
     chain_env (build_middleware_chain plain_digests GREEN L4_FULL_AUTO default_autonomy) plugins no_eval sample_ctx"

lemma isolate_run:
  "\<exists>r s. execute (sample_env (logged_plugins (\<lambda>_. Some isolate_plugin))) (one_step ''n'') 2 NoPayload
      (fresh_state NoPayload [''a''] (sample_world ((), []))) = Some (r, s) \<and>
    map (snd \<circ> snd) (snd (evidence_world.more (rs_world s))) = [Some ''a''] \<and>
    length (ew_records (rs_world s)) = 1"
proof -
  have "case execute (sample_env (logged_plugins (\<lambda>_. Some isolate_plugin))) (one_step ''n'') 2 NoPayload
      (fresh_state NoPayload [''a''] (sample_world ((), []))) of None \<Rightarrow> False
    | Some (_, s) \<Rightarrow> map (snd \<circ> snd) (snd (evidence_world.more (rs_world s))) = [Some ''a''] \<and>
        length (ew_records (rs_world s)) = 1"
    by code_simp
  then show ?thesis by (auto split: option.splits)
qed

lemma no_unattended_action_witness:
  "\<exists>r s. execute (sample_env (logged_plugins (\<lambda>_. Some isolate_plugin))) (one_step ''n'') 2 NoPayload
      (fresh_state NoPayload [''a''] (sample_world ((), []))) = Some (r, s) \<and>
    snd (evidence_world.more (rs_world s)) \<noteq> [] \<and>
    list_all (permitted GREEN L4_FULL_AUTO default_autonomy [''a'']) (snd (evidence_world.more (rs_world s)))"
proof -
  obtain r s where rs: "execute (sample_env (logged_plugins (\<lambda>_. Some isolate_plugin))) (one_step ''n'') 2 NoPayload
      (fresh_state NoPayload [''a''] (sample_world ((), []))) = Some (r, s)"
      "map (snd \<circ> snd) (snd (evidence_world.more (rs_world s))) = [Some ''a'']"
    using isolate_run by (elim exE conjE)
  have "list_all (permitted GREEN L4_FULL_AUTO default_autonomy [''a'']) (snd (evidence_world.more (rs_world s)))"
    using no_unattended_action[OF rs(1)[unfolded sample_env_def]] by (simp add: fresh_state_def sample_world_def)
  then show ?thesis using rs by (intro exI[of _ r] exI[of _ s]) auto
qed

lemma evidence_chain_extended_witness:
  "\<exists>r s. execute (sample_env (logged_plugins (\<lambda>_. Some isolate_plugin))) (one_step ''n'') 2 NoPayload
      (fresh_state NoPayload [''a''] (sample_world ((), []))) = Some (r, s) \<and>
    length (ew_records (rs_world s)) = 1 \<and> fst (verify_chain plain_digests (ew_records (rs_world s)))"
proof -
  obtain r s where rs: "execute (sample_env (logged_plugins (\<lambda>_. Some isolate_plugin))) (one_step ''n'') 2 NoPayload
      (fresh_state NoPayload [''a''] (sample_world ((), []))) = Some (r, s)"
      "length (ew_records (rs_world s)) = 1"
    using isolate_run by (elim exE conjE)
  have "fst (verify_chain plain_digests (ew_records (rs_world s)))"
    using evidence_chain_extended[OF rs(1)[unfolded sample_env_def]]
    by (simp add: fresh_state_def sample_world_def verify_chain_def)
  then show ?thesis using rs by (intro exI[of _ r] exI[of _ s]) auto
qed

text \<open>Two gates in a row: resumed after the first one with both approved, and with only the first.\<close>

definition two_gates :: workflow where
  "two_gates = \<lparr> wf_name = ''two'', wf_version = ''1.0'', wf_description = [], wf_trigger = [],
     wf_nodes = [\<lparr> wn_step_id = ''a'', wn_node_id = hitl_gate_node_id, wn_name = [], wn_config = [] \<rparr>,
       \<lparr> wn_step_id = ''b'', wn_node_id = hitl_gate_node_id, wn_name = [], wn_config = [] \<rparr>],
     wf_edges = [\<lparr> we_source = ''a'', we_target = ''b'', we_label = ''next'' \<rparr>] \<rparr>"

lemma two_gates_resumed:
  "\<exists>r s. execute (sample_env (\<lambda>_. Some isolate_plugin)) two_gates 3 NoPayload
      (resumed_state [(''a'', [])] [''a''] [] [''a'', ''b''] (sample_world ())) = Some (r, s) \<and> rs_executed s = [''a'', ''b'']"
  "\<exists>r s. execute (sample_env (\<lambda>_. Some isolate_plugin)) two_gates 3 NoPayload
      (resumed_state [(''a'', [])] [''a''] [] [''a''] (sample_world ())) = Some (r, s)"
proof -
  have "case execute (sample_env (\<lambda>_. Some isolate_plugin)) two_gates 3 NoPayload
      (resumed_state [(''a'', [])] [''a''] [] [''a'', ''b''] (sample_world ())) of None \<Rightarrow> False
    | Some (_, s) \<Rightarrow> rs_executed s = [''a'', ''b'']"
    by code_simp
  then show "\<exists>r s. execute (sample_env (\<lambda>_. Some isolate_plugin)) two_gates 3 NoPayload
      (resumed_state [(''a'', [])] [''a''] [] [''a'', ''b''] (sample_world ())) = Some (r, s) \<and> rs_executed s = [''a'', ''b'']"
    by (auto split: option.splits)
  have "case execute (sample_env (\<lambda>_. Some isolate_plugin)) two_gates 3 NoPayload
      (resumed_state [(''a'', [])] [''a''] [] [''a''] (sample_world ())) of None \<Rightarrow> False | Some _ \<Rightarrow> True"
    by code_simp
  then show "\<exists>r s. execute (sample_env (\<lambda>_. Some isolate_plugin)) two_gates 3 NoPayload
      (resumed_state [(''a'', [])] [''a''] [] [''a''] (sample_world ())) = Some (r, s)"
    by (auto split: option.splits)
qed

lemma gate_steps_need_approval_witness:
  "(\<exists>r s. execute (sample_env (\<lambda>_. Some isolate_plugin)) two_gates 3 NoPayload
      (resumed_state [(''a'', [])] [''a''] [] [''a'', ''b''] (sample_world ())) = Some (r, s) \<and> rs_executed s = [''a'', ''b'']) \<and>
   (\<exists>r s. execute (sample_env (\<lambda>_. Some isolate_plugin)) two_gates 3 NoPayload
      (resumed_state [(''a'', [])] [''a''] [] [''a''] (sample_world ())) = Some (r, s) \<and> ''b'' \<notin> set (rs_executed s))"
proof
  obtain r s where rs: "execute (sample_env (\<lambda>_. Some isolate_plugin)) two_gates 3 NoPayload
      (resumed_state [(''a'', [])] [''a''] [] [''a''] (sample_world ())) = Some (r, s)"
    using two_gates_resumed(2) by blast
  have "wf_step two_gates ''b'' =
      Some \<lparr> wn_step_id = ''b'', wn_node_id = hitl_gate_node_id, wn_name = [], wn_config = [] \<rparr>"
    by (simp add: wf_step_def two_gates_def)
  then have "''b'' \<notin> set (rs_executed s)"
    using gate_steps_need_approval[OF rs[unfolded sample_env_def], THEN conjunct2, rule_format, of "''b''"]
    by (auto simp: resumed_state_def)
  then show "\<exists>r s. execute (sample_env (\<lambda>_. Some isolate_plugin)) two_gates 3 NoPayload
      (resumed_state [(''a'', [])] [''a''] [] [''a''] (sample_world ())) = Some (r, s) \<and> ''b'' \<notin> set (rs_executed s)"
    using rs by blast
qed (rule two_gates_resumed(1))

end
