(* ===== verification/Autonomy.thy ===== *)
theory Autonomy
  imports Hitl
begin

text \<open>
  Per-organisation autonomy overrides (backend/btagent_backend/services/autonomy_service.py).
  The table is a map from organisation to its overrides; the timestamp and author columns are
  left out.  Overrides are dictionaries from category to level text.
\<close>

definition hitl_forced_categories :: "string list" where
  "hitl_forced_categories = [''host_isolation'', ''firewall_rule'', ''account_disable'']"

text \<open>The fields of the shared model, less the forced ones.\<close>

definition autonomy_fields :: "string list" where
  "autonomy_fields =
     [''siem_query'', ''edr_query'', ''cti_lookup'', ''host_isolation'', ''firewall_rule'',
      ''account_disable'', ''playbook_execution'']"

definition editable_categories :: "string list" where
  "editable_categories = filter (\<lambda>f. f \<notin> set hitl_forced_categories) autonomy_fields"

definition valid_levels :: "string list" where
  "valid_levels = map autonomy_value level_order"

datatype rejection = ForcedCategory string | UnknownCategory string | InvalidLevel string string

fun validate_overrides :: "(string \<times> string) list \<Rightarrow> rejection option" where
  "validate_overrides [] = None"
| "validate_overrides ((c, l) # os) =
     (if c \<in> set hitl_forced_categories then Some (ForcedCategory c)
      else if c \<notin> set editable_categories then Some (UnknownCategory c)
      else if l \<notin> set valid_levels then Some (InvalidLevel l c)
      else validate_overrides os)"

type_synonym override_table = "(string \<times> (string \<times> string) list) list"

definition get_overrides :: "override_table \<Rightarrow> string \<Rightarrow> (string \<times> string) list" where
  "get_overrides db org = (case map_of db org of None \<Rightarrow> [] | Some os \<Rightarrow> os)"

definition set_overrides ::
  "string \<Rightarrow> (string \<times> string) list \<Rightarrow> override_table \<Rightarrow> (string \<times> string) list \<times> override_table" where
  "set_overrides org os db = (os, dict_put org os db)"

definition valid_overrides :: "(string \<times> string) list \<Rightarrow> (string \<times> string) list" where
  "valid_overrides os =
     filter (\<lambda>(c, l). c \<in> set editable_categories \<and> l \<in> set valid_levels) os"

text \<open>\<^verbatim>\<open>AutonomyLevel(s)\<close>, and a field of the model: the override, else the default.\<close>

definition level_of :: "string \<Rightarrow> autonomy_level option" where
  "level_of s = enum_of_string level_order autonomy_value s"

definition field_or :: "(string \<times> string) list \<Rightarrow> string \<Rightarrow> autonomy_level \<Rightarrow> autonomy_level" where
  "field_or os f d =
     (case map_of os f of None \<Rightarrow> d | Some s \<Rightarrow> (case level_of s of None \<Rightarrow> d | Some l \<Rightarrow> l))"

definition autonomy_from :: "(string \<times> string) list \<Rightarrow> integration_autonomy" where
  "autonomy_from os =
     \<lparr> siem_query = field_or os ''siem_query'' (siem_query default_autonomy),
       edr_query = field_or os ''edr_query'' (edr_query default_autonomy),
       cti_lookup = field_or os ''cti_lookup'' (cti_lookup default_autonomy),
       host_isolation = field_or os ''host_isolation'' (host_isolation default_autonomy),
       firewall_rule = field_or os ''firewall_rule'' (firewall_rule default_autonomy),
       account_disable = field_or os ''account_disable'' (account_disable default_autonomy),
       playbook_execution = field_or os ''playbook_execution'' (playbook_execution default_autonomy) \<rparr>"

definition get_effective_autonomy :: "override_table \<Rightarrow> string \<Rightarrow> integration_autonomy" where
  "get_effective_autonomy db org = autonomy_from (valid_overrides (get_overrides db org))"

section \<open>Lemmas\<close>

lemma level_of_value [simp]: "level_of (autonomy_value l) = Some l"
  unfolding level_of_def level_order_def by (rule autonomy_enum.parse_val)

lemma map_of_filter_key:
  "(\<And>v. (f, v) \<in> set os \<Longrightarrow> \<not> P (f, v)) \<Longrightarrow> map_of (filter P os) f = None"
  by (induction os) auto

lemma validate_accepts:
  "validate_overrides os = None \<longleftrightarrow>
     (\<forall>(c, l) \<in> set os. c \<in> set editable_categories \<and> l \<in> set valid_levels)"
  by (induction os rule: validate_overrides.induct)
    (auto simp: editable_categories_def)

lemma valid_overrides_id:
  "validate_overrides os = None \<Longrightarrow> valid_overrides os = os"
  unfolding validate_accepts valid_overrides_def by (auto intro!: filter_True)

lemma field_or_Some: "map_of os f = Some (autonomy_value l) \<Longrightarrow> field_or os f d = l"
  by (simp add: field_or_def)

lemma autonomy_field_from:
  "f \<in> set autonomy_fields \<Longrightarrow>
   autonomy_field (autonomy_from os) f = field_or os f (autonomy_field default_autonomy f)"
  unfolding autonomy_fields_def autonomy_from_def default_autonomy_def autonomy_field_def
  by (elim set_ConsD[elim_format] disjE; simp)

section \<open>The table is shared\<close>

definition override_step :: "string \<times> (string \<times> string) list \<Rightarrow> override_table \<Rightarrow> override_table" where
  "override_step p db = snd (set_overrides (fst p) (snd p) db)"

interpretation overrides: tenant_table override_step "\<lambda>_. True" "\<lambda>org db. get_overrides db org"
  by unfold_locales (auto simp: override_step_def set_overrides_def get_overrides_def)

section \<open>Properties\<close>

text \<open>Whatever is stored for an organisation, containment is not configurable: the
  effective levels of host isolation, firewall rules and account disabling are the defaults,
  and a containment node needs approval for every agent autonomy.\<close>

theorem overrides_never_loosen_containment:
  "host_isolation (get_effective_autonomy db org) = L0_MANUAL \<and>
   firewall_rule (get_effective_autonomy db org) = L0_MANUAL \<and>
   account_disable (get_effective_autonomy db org) = L0_MANUAL \<and>
   \<not> (is_containment_node nid \<and> \<not> requires_approval nid agent (get_effective_autonomy db org))"
proof -
  have "map_of (valid_overrides os) f = None" if "f \<in> set hitl_forced_categories" for f os
    unfolding valid_overrides_def
    by (rule map_of_filter_key) (use that in \<open>auto simp: editable_categories_def\<close>)
  then have "field_or (valid_overrides os) f d = d" if "f \<in> set hitl_forced_categories" for f os d
    using that by (simp add: field_or_def)
  then show ?thesis
    by (simp add: get_effective_autonomy_def autonomy_from_def hitl_forced_categories_def
        default_autonomy_def requires_approval_def)
qed

lemma autonomy_field_default:
  "map_of os f = None \<Longrightarrow> f \<in> set autonomy_fields \<Longrightarrow>
   autonomy_field (autonomy_from os) f = autonomy_field default_autonomy f"
  by (simp add: autonomy_field_from field_or_def)

text \<open>The levels a category has when nothing is stored for it, written out.\<close>

definition documented_levels :: "(string \<times> autonomy_level) list" where
  "documented_levels =
     [(''siem_query'', L3_AUTONOMOUS), (''edr_query'', L3_AUTONOMOUS), (''cti_lookup'', L3_AUTONOMOUS),
       (''host_isolation'', L0_MANUAL), (''firewall_rule'', L0_MANUAL), (''account_disable'', L0_MANUAL),
       (''playbook_execution'', L2_SUPERVISED)]"

lemma default_levels:
  "(f, d) \<in> set documented_levels \<Longrightarrow>
   f \<in> set autonomy_fields \<and> autonomy_field default_autonomy f = d"
  by (auto simp: documented_levels_def autonomy_fields_def autonomy_field_def default_autonomy_def)

text \<open>Overrides that pass validation give a category its stored level or its default.\<close>

lemma stored_or_default:
  assumes "validate_overrides os = None"
  shows "list_all (\<lambda>(f, d). case map_of os f of
      None \<Rightarrow> autonomy_field (autonomy_from os) f = d
    | Some s \<Rightarrow> autonomy_value (autonomy_field (autonomy_from os) f) = s) documented_levels"
  unfolding list_all_iff
proof (rule ballI)
  fix x assume x: "x \<in> set documented_levels"
  obtain f d where fd: "x = (f, d)" by fastforce
  have f: "f \<in> set autonomy_fields" "autonomy_field default_autonomy f = d"
    using default_levels x fd by simp_all
  show "case x of (f, d) \<Rightarrow> (case map_of os f of
      None \<Rightarrow> autonomy_field (autonomy_from os) f = d
    | Some s \<Rightarrow> autonomy_value (autonomy_field (autonomy_from os) f) = s)"
  proof (cases "map_of os f")
    case None
    then show ?thesis using autonomy_field_default[of os f] f by (simp add: fd)
  next
    case (Some s)
    then obtain l where "s = autonomy_value l"
      using assms map_of_SomeD[OF Some] by (auto simp: validate_accepts valid_levels_def)
    then show ?thesis using Some f by (simp add: fd autonomy_field_from field_or_Some)
  qed
qed

text \<open>C37: Overrides that pass validation take effect as written.  After storing them, each of the
  seven categories of the organisation has the level stored for it, or, when none is stored, its
  default: L3 for SIEM and EDR queries and CTI lookups, L0 for the three containment categories,
  L2 for playbooks.  Other organisations keep the levels they had, and nothing other
  organisations store later changes any of these levels.\<close>

theorem overrides_roundtrip:
  assumes "validate_overrides os = None" and "snd (set_overrides org os db) = db'"
    and "list_all (\<lambda>p. fst p \<noteq> org) later"
  shows "get_overrides db' org = os \<and>
    list_all (\<lambda>(f, d). case map_of os f of
        None \<Rightarrow> autonomy_field (get_effective_autonomy (fold override_step later db') org) f = d
      | Some s \<Rightarrow> autonomy_value (autonomy_field (get_effective_autonomy (fold override_step later db') org) f) = s)
      documented_levels \<and>
    (\<forall>f \<in> set hitl_forced_categories. map_of os f = None) \<and>
    (\<forall>other. other \<noteq> org \<longrightarrow> get_effective_autonomy db' other = get_effective_autonomy db other)"
proof -
  have os: "get_overrides db' org = os"
    using assms(2) by (auto simp: get_overrides_def set_overrides_def)
  then have "get_effective_autonomy db' org = autonomy_from os"
    using valid_overrides_id[OF assms(1)] by (simp add: get_effective_autonomy_def)
  then have eff: "get_effective_autonomy (fold override_step later db') org = autonomy_from os"
    using overrides.others_steps[OF _ assms(3), of db'] by (simp add: get_effective_autonomy_def)
  have valid: "c \<in> set editable_categories \<and> l \<in> set valid_levels" if "(c, l) \<in> set os" for c l
    using assms(1) that by (auto simp: validate_accepts)
  have "map_of os f = None" if "f \<in> set hitl_forced_categories" for f
    using valid[OF map_of_SomeD, of f] that by (cases "map_of os f") (auto simp: editable_categories_def)
  moreover have "get_effective_autonomy db' other = get_effective_autonomy db other"
    if "other \<noteq> org" for other
    using that assms(2) by (auto simp: get_effective_autonomy_def get_overrides_def set_overrides_def)
  ultimately show ?thesis using os stored_or_default[OF assms(1)] unfolding eff by (intro conjI ballI allI impI) simp_all
qed

lemma overrides_roundtrip_witness:
  "let db = snd (set_overrides ''o'' [(''siem_query'', ''L1'')] []);
       db' = fold override_step [(''p'', [(''siem_query'', ''L4'')])] db
   in autonomy_value (autonomy_field (get_effective_autonomy db' ''o'') ''siem_query'') = ''L1'' \<and>
      autonomy_field (get_effective_autonomy db' ''o'') ''playbook_execution'' = L2_SUPERVISED"
proof -
  have v: "validate_overrides [(''siem_query'', ''L1'')] = None"
    by (simp add: hitl_forced_categories_def editable_categories_def autonomy_fields_def
        valid_levels_def level_order_def)
  have "list_all (\<lambda>p. fst p \<noteq> ''o'') [(''p'', [(''siem_query'', ''L4'')])]" by simp
  from overrides_roundtrip[OF v refl this, of "[]"] show ?thesis by (simp add: Let_def documented_levels_def)
qed

end
