(* ===== verification/RunService.thy ===== *)
theory RunService
  imports EngineChain Autonomy "HOL-Library.List_Lexorder"
begin

text \<open>
  Running stored workflows (backend/btagent_backend/services/workflow_run_service.py): capture of
  one executor run as an outcome, inline and background runs, and the resume of a paused run
  with its atomic claim.  The tables are association lists; parsing a stored definition, the
  JSON dump of an output, the clock and the node bodies are parameters.  A run that does not
  return within the fuel is None.
\<close>

datatype run_status = PENDING | RUNNING | SUCCEEDED | FAILED | PAUSED

record 'ts run_row =
  run_id :: string
  run_workflow_id :: string
  run_version_id :: string
  run_org_id :: string
  run_triggered_by :: "string option"
  run_investigation_id :: "string option"
  run_status :: run_status
  run_active_tlp :: "tlp option"
  run_agent_autonomy :: "autonomy_level option"
  run_paused_node :: "string option"
  run_approved :: "string list"
  run_trigger :: config
  run_outputs :: "(string \<times> config) list"
  run_final :: "config option"
  run_executed :: "string list"
  run_evidence :: "'ts evidence_record list"
  run_error :: "string option"

record 'ts outcome =
  oc_status :: run_status
  oc_outputs :: "(string \<times> config) list"
  oc_final :: "config option"
  oc_executed :: "string list"
  oc_evidence :: "'ts evidence_record list"
  oc_error :: "string option"
  oc_paused_node :: "string option"

text \<open>What the service uses of its surroundings.\<close>

record ('ts, 'x) service =
  sv_digests :: "'ts digests"
  sv_plugins :: "string \<Rightarrow> 'x plugin option"
  sv_eval :: evaluator
  sv_clock :: "nat \<Rightarrow> 'ts"
  sv_load :: "config \<Rightarrow> workflow option"
  sv_json :: "config \<Rightarrow> config"
  sv_fuel :: nat

record 'ts database =
  db_runs :: "(string \<times> 'ts run_row) list"
  db_workflows :: "(string \<times> string) list"
  db_versions :: "(string \<times> config) list"
  db_overrides :: override_table

datatype service_error = WorkflowNotExecutable | RunNotResumable | EngineBaseException string

section \<open>One run of the engine\<close>

definition dump_outputs :: "('ts, 'x) service \<Rightarrow> (string \<times> config) list \<Rightarrow> (string \<times> config) list" where
  "dump_outputs sv os = map (\<lambda>(sid, out). (sid, sv_json sv out)) os"

fun failure_text :: "exec_exn \<Rightarrow> string" where
  "failure_text (ExecError nid r) = r"
| "failure_text e = ''Unexpected execution error''"

text \<open>
  The outcome of a result: pauses and failures are recorded, only an exception below
  \<^verbatim>\<open>Exception\<close> leaves.
\<close>

definition capture ::
  "('ts, 'x) service \<Rightarrow> (exec_exn, run_result) res \<times> ('ts, 'x) evidence_world_scheme run_state
     \<Rightarrow> (service_error, 'ts outcome) res" where
  "capture sv rs =
     (let s = snd rs; recs = ew_records (rs_world s) in
      case fst rs of
        Inr res \<Rightarrow> Inr \<lparr> oc_status = SUCCEEDED, oc_outputs = dump_outputs sv (rr_outputs res),
            oc_final = map_option (sv_json sv) (rr_final res), oc_executed = rr_executed res,
            oc_evidence = recs, oc_error = None, oc_paused_node = None \<rparr>
      | Inl (RawBase m) \<Rightarrow> Inl (EngineBaseException m)
      | Inl (Paused sid c) \<Rightarrow> Inr \<lparr> oc_status = PAUSED, oc_outputs = dump_outputs sv (rs_outputs s),
            oc_final = None, oc_executed = rs_executed s, oc_evidence = recs,
            oc_error = Some c, oc_paused_node = Some sid \<rparr>
      | Inl e \<Rightarrow> Inr \<lparr> oc_status = FAILED, oc_outputs = [], oc_final = None, oc_executed = [],
            oc_evidence = recs, oc_error = Some (failure_text e), oc_paused_node = None \<rparr>)"

definition start_world ::
  "('ts, 'x) service \<Rightarrow> 'ts evidence_record list \<Rightarrow> 'x \<Rightarrow> ('ts, 'x) evidence_world_scheme" where
  "start_world sv prior x =
     \<lparr> ew_metadata = [], ew_records = prior, ew_clock = sv_clock sv, ew_ticks = 0, \<dots> = x \<rparr>"

definition run_env ::
  "('ts, 'x) service \<Rightarrow> tlp \<Rightarrow> autonomy_level \<Rightarrow> integration_autonomy \<Rightarrow> node_ctx
     \<Rightarrow> ('ts, 'x) evidence_world_scheme exec_env" where
  "run_env sv active agent ia ctx =
     chain_env (build_middleware_chain (sv_digests sv) active agent ia) (sv_plugins sv) (sv_eval sv) ctx"

text \<open>
  \<^verbatim>\<open>_run_capture\<close>: a fresh run, or one from a checkpoint with its approvals; the prior evidence
  seeds the chain.  The result comes with the world of the node bodies.
\<close>

definition run_capture ::
  "('ts, 'x) service \<Rightarrow> workflow \<Rightarrow> config \<Rightarrow> node_ctx \<Rightarrow> tlp \<Rightarrow> autonomy_level \<Rightarrow> integration_autonomy
     \<Rightarrow> ((string \<times> config) list \<times> string list) option \<Rightarrow> string list \<Rightarrow> 'ts evidence_record list \<Rightarrow> 'x
     \<Rightarrow> ((service_error, 'ts outcome) res \<times> 'x) option" where
  "run_capture sv flow trigger ctx active agent ia resume approved prior x =
     (let world = start_world sv prior x;
          s = (case resume of
                 None \<Rightarrow> fresh_state (DictPayload trigger) approved world
               | Some (outputs, executed) \<Rightarrow> resumed_state outputs executed trigger approved world)
      in map_option (\<lambda>rs. (capture sv rs, evidence_world.more (rs_world (snd rs))))
           (execute (run_env sv active agent ia ctx) flow (sv_fuel sv) (DictPayload trigger) s))"

definition load_workflow :: "('ts, 'x) service \<Rightarrow> config \<Rightarrow> (service_error, workflow) res" where
  "load_workflow sv d =
     (case sv_load sv d of
        None \<Rightarrow> Inl WorkflowNotExecutable
      | Some flow \<Rightarrow> if wf_nodes flow = [] then Inl WorkflowNotExecutable else Inr flow)"

definition run_context :: "string \<Rightarrow> string option \<Rightarrow> string \<Rightarrow> string option \<Rightarrow> tlp \<Rightarrow> node_ctx" where
  "run_context rid inves org user active =
     \<lparr> ctx_run_id = rid, ctx_workflow_run_id = Some rid, ctx_investigation_id = inves, ctx_org_id = org,
       ctx_user_id = user, ctx_tlp_level = tlp_value active, ctx_current_step = None, ctx_approved_steps = [] \<rparr>"

section \<open>Inline and background runs\<close>

record run_request =
  rq_run_id :: string
  rq_workflow_id :: string
  rq_version_id :: string
  rq_org_id :: string
  rq_trigger :: config
  rq_triggered_by :: "string option"
  rq_active_tlp :: tlp
  rq_investigation_id :: "string option"
  rq_agent_autonomy :: autonomy_level
  rq_integration_autonomy :: "integration_autonomy option"

definition new_row :: "run_request \<Rightarrow> 'ts run_row" where
  "new_row rq =
     \<lparr> run_id = rq_run_id rq, run_workflow_id = rq_workflow_id rq, run_version_id = rq_version_id rq,
       run_org_id = rq_org_id rq, run_triggered_by = rq_triggered_by rq,
       run_investigation_id = rq_investigation_id rq, run_status = RUNNING,
       run_active_tlp = Some (rq_active_tlp rq), run_agent_autonomy = Some (rq_agent_autonomy rq),
       run_paused_node = None, run_approved = [], run_trigger = rq_trigger rq, run_outputs = [],
       run_final = None, run_executed = [], run_evidence = [], run_error = None \<rparr>"

definition with_outcome :: "'ts outcome \<Rightarrow> 'ts run_row \<Rightarrow> 'ts run_row" where
  "with_outcome oc r =
     r\<lparr>run_status := oc_status oc, run_outputs := oc_outputs oc, run_final := oc_final oc,
       run_executed := oc_executed oc, run_evidence := oc_evidence oc, run_error := oc_error oc,
       run_paused_node := oc_paused_node oc\<rparr>"

definition put_run :: "'ts run_row \<Rightarrow> 'ts database \<Rightarrow> 'ts database" where
  "put_run r db = db\<lparr>db_runs := dict_put (run_id r) r (db_runs db)\<rparr>"

definition get_run :: "'ts database \<Rightarrow> string \<Rightarrow> 'ts run_row option" where
  "get_run db rid = map_of (db_runs db) rid"

definition effective_autonomy :: "'ts database \<Rightarrow> string \<Rightarrow> integration_autonomy option \<Rightarrow> integration_autonomy" where
  "effective_autonomy db org ia =
     (case ia of Some a \<Rightarrow> a | None \<Rightarrow> get_effective_autonomy (db_overrides db) org)"

definition execute_version ::
  "('ts, 'x) service \<Rightarrow> run_request \<Rightarrow> config \<Rightarrow> 'ts database \<Rightarrow> 'x
     \<Rightarrow> ((service_error, 'ts run_row) res \<times> 'ts database \<times> 'x) option" where
  "execute_version sv rq definition db x =
     (case load_workflow sv definition of
        Inl e \<Rightarrow> Some (Inl e, db, x)
      | Inr flow \<Rightarrow>
         (case run_capture sv flow (rq_trigger rq)
             (run_context (rq_run_id rq) (rq_investigation_id rq) (rq_org_id rq) (rq_triggered_by rq) (rq_active_tlp rq))
             (rq_active_tlp rq) (rq_agent_autonomy rq)
             (effective_autonomy db (rq_org_id rq) (rq_integration_autonomy rq)) None [] [] x of
            None \<Rightarrow> None
          | Some (Inl e, x') \<Rightarrow> Some (Inl e, db, x')
          | Some (Inr oc, x') \<Rightarrow>
              let r = with_outcome oc (new_row rq) in Some (Inr r, put_run r db, x')))"

definition create_pending_run ::
  "('ts, 'x) service \<Rightarrow> run_request \<Rightarrow> config \<Rightarrow> 'ts database \<Rightarrow> (service_error, 'ts run_row) res \<times> 'ts database" where
  "create_pending_run sv rq definition db =
     (case load_workflow sv definition of
        Inl e \<Rightarrow> (Inl e, db)
      | Inr flow \<Rightarrow> (let r = new_row rq in (Inr r, put_run r db)))"

definition posture_tlp :: "'ts run_row \<Rightarrow> tlp" where
  "posture_tlp r = (case run_active_tlp r of Some t \<Rightarrow> t | None \<Rightarrow> RED)"

definition posture_autonomy :: "'ts run_row \<Rightarrow> autonomy_level" where
  "posture_autonomy r = (case run_agent_autonomy r of Some a \<Rightarrow> a | None \<Rightarrow> L2_SUPERVISED)"

definition row_context :: "'ts run_row \<Rightarrow> string \<Rightarrow> node_ctx" where
  "row_context r org =
     run_context (run_id r) (run_investigation_id r) org (run_triggered_by r) (posture_tlp r)"

definition execute_pending_run ::
  "('ts, 'x) service \<Rightarrow> string \<Rightarrow> 'ts database \<Rightarrow> 'x
     \<Rightarrow> ((service_error, 'ts run_row option) res \<times> 'ts database \<times> 'x) option" where
  "execute_pending_run sv rid db x =
     (case get_run db rid of
        None \<Rightarrow> Some (Inr None, db, x)
      | Some r \<Rightarrow>
          if run_status r \<noteq> RUNNING then Some (Inr None, db, x)
          else (case (map_of (db_workflows db) (run_workflow_id r), map_of (db_versions db) (run_version_id r)) of
             (Some org, Some d) \<Rightarrow>
               (case load_workflow sv d of
                  Inl e \<Rightarrow> Some (Inl e, db, x)
                | Inr flow \<Rightarrow>
                   (case run_capture sv flow (run_trigger r) (row_context r org) (posture_tlp r)
                       (posture_autonomy r) (get_effective_autonomy (db_overrides db) org) None [] [] x of
                      None \<Rightarrow> None
                    | Some (Inl e, x') \<Rightarrow> Some (Inl e, db, x')
                    | Some (Inr oc, x') \<Rightarrow>
                        let r' = with_outcome oc r in Some (Inr (Some r'), put_run r' db, x')))
           | _ \<Rightarrow>
               let r' = r\<lparr>run_status := FAILED,
                 run_error := Some ''Workflow or version row disappeared before execution.''\<rparr>
               in Some (Inr (Some r'), put_run r' db, x)))"

section \<open>Resume\<close>

text \<open>The conditional UPDATE: it matches a paused row only, and says how many rows it changed.\<close>

definition claim_run :: "string \<Rightarrow> 'ts database \<Rightarrow> nat \<times> 'ts database" where
  "claim_run rid db =
     (case get_run db rid of
        None \<Rightarrow> (0, db)
      | Some r \<Rightarrow> if run_status r = PAUSED
                  then (1, db\<lparr>db_runs := dict_put rid (r\<lparr>run_status := RUNNING\<rparr>) (db_runs db)\<rparr>)
                  else (0, db))"

definition rehydrate_state :: "'ts run_row \<Rightarrow> (string \<times> config) list \<times> string list" where
  "rehydrate_state r = (run_outputs r, run_executed r)"

definition finish_resume :: "string list \<Rightarrow> 'ts outcome \<Rightarrow> 'ts run_row \<Rightarrow> 'ts run_row" where
  "finish_resume approved oc r =
     (if oc_status oc = FAILED
      then r\<lparr>run_status := oc_status oc, run_final := None,
             run_evidence := (if oc_evidence oc = [] then run_evidence r else oc_evidence oc),
             run_error := oc_error oc, run_paused_node := oc_paused_node oc, run_approved := approved\<rparr>
      else (with_outcome oc r)\<lparr>run_approved := approved\<rparr>)"

definition resume_run ::
  "('ts, 'x) service \<Rightarrow> string \<Rightarrow> config \<Rightarrow> string \<Rightarrow> integration_autonomy option \<Rightarrow> 'ts database \<Rightarrow> 'x
     \<Rightarrow> ((service_error, 'ts run_row) res \<times> 'ts database \<times> 'x) option" where
  "resume_run sv org definition rid ia db x =
     (case claim_run rid db of
        (n, db1) \<Rightarrow>
          if n \<noteq> 1 then Some (Inl RunNotResumable, db1, x)
          else (case get_run db1 rid of
             None \<Rightarrow> Some (Inl RunNotResumable, db1, x)
           | Some r \<Rightarrow>
              (case run_paused_node r of
                 None \<Rightarrow> Some (Inl RunNotResumable, db1, x)
               | Some paused \<Rightarrow>
                   if paused = [] then Some (Inl RunNotResumable, db1, x)
                   else (case load_workflow sv definition of
                      Inl e \<Rightarrow> Some (Inl e, db1, x)
                    | Inr flow \<Rightarrow>
                        let approved = sorted_list_of_set (insert paused (set (run_approved r))) in
                        (case run_capture sv flow (run_trigger r) (row_context r org) (posture_tlp r)
                            (posture_autonomy r) (effective_autonomy db1 org ia)
                            (Some (rehydrate_state r)) approved (run_evidence r) x of
                           None \<Rightarrow> None
                         | Some (Inl e, x') \<Rightarrow> Some (Inl e, db1, x')
                         | Some (Inr oc, x') \<Rightarrow>
                             let r' = finish_resume approved oc r
                             in Some (Inr r', db1\<lparr>db_runs := dict_put rid r' (db_runs db1)\<rparr>, x'))))))"

section \<open>Lemmas\<close>

lemma capture_Inr:
  assumes "capture sv (res, s) = Inr oc"
  shows "(oc_status oc = PAUSED \<longleftrightarrow> oc_paused_node oc \<noteq> None) \<and> oc_evidence oc = ew_records (rs_world s) \<and>
    oc_status oc \<in> {SUCCEEDED, PAUSED, FAILED}"
  using assms by (auto simp: capture_def Let_def split: sum.splits exec_exn.splits)

lemma start_world_records [simp]: "ew_records (start_world sv prior x) = prior"
  by (simp add: start_world_def)

lemma run_capture_evidence:
  assumes "run_capture sv flow trigger ctx active agent ia resume approved prior x = Some (Inr oc, x')"
    and "fst (verify_chain (sv_digests sv) prior)"
  shows "fst (verify_chain (sv_digests sv) (oc_evidence oc)) \<and> (\<exists>new. oc_evidence oc = prior @ new)"
proof -
  define s where "s = (case resume of
      None \<Rightarrow> fresh_state (DictPayload trigger) approved (start_world sv prior x)
    | Some (outputs, executed) \<Rightarrow> resumed_state outputs executed trigger approved (start_world sv prior x))"
  have s: "ew_records (rs_world s) = prior"
    by (auto simp: s_def fresh_state_def resumed_state_def split: option.split)
  obtain res s' where run: "execute (run_env sv active agent ia ctx) flow (sv_fuel sv) (DictPayload trigger) s = Some (res, s')"
      and oc: "capture sv (res, s') = Inr oc"
    using assms(1) unfolding run_capture_def Let_def s_def[symmetric] by auto
  show ?thesis
    using run_extends_evidence[OF run[unfolded run_env_def]] s assms(2) capture_Inr[OF oc] by simp
qed

lemma run_capture_status:
  "run_capture sv flow trigger ctx active agent ia resume approved prior x = Some (Inr oc, x') \<Longrightarrow>
   (oc_status oc = PAUSED \<longleftrightarrow> oc_paused_node oc \<noteq> None) \<and> oc_status oc \<in> {SUCCEEDED, PAUSED, FAILED}"
  by (auto simp: run_capture_def Let_def dest!: capture_Inr)

lemma load_workflow_Inr:
  "load_workflow sv d = Inr flow \<longleftrightarrow> sv_load sv d = Some flow \<and> wf_nodes flow \<noteq> []"
  by (auto simp: load_workflow_def split: option.splits)

lemma get_put_run [simp]: "get_run (put_run r db) rid = (if rid = run_id r then Some r else get_run db rid)"
  by (simp add: get_run_def put_run_def)

lemma claim_run_cases:
  "claim_run rid db =
     (case get_run db rid of
        Some r \<Rightarrow> if run_status r = PAUSED
                  then (1, db\<lparr>db_runs := dict_put rid (r\<lparr>run_status := RUNNING\<rparr>) (db_runs db)\<rparr>) else (0, db)
      | None \<Rightarrow> (0, db))"
  by (simp add: claim_run_def split: option.split)

lemma get_run_claimed:
  "get_run (db\<lparr>db_runs := dict_put rid r (db_runs db)\<rparr>) rid' = (if rid' = rid then Some r else get_run db rid')"
  by (simp add: get_run_def)

section \<open>Racing approvers\<close>

text \<open>
  Approvers that call resume on one run, interleaved at the claim and at the write of the
  result, which are the two committed steps; between them the engine runs.
\<close>

datatype approver_phase = Waiting | Engaged | Rejected | Finished

inductive race_step ::
  "string \<Rightarrow> 'ts database \<times> (nat \<Rightarrow> approver_phase) \<Rightarrow> 'ts database \<times> (nat \<Rightarrow> approver_phase) \<Rightarrow> bool"
  for rid where
  race_claim: "ph c = Waiting \<Longrightarrow> claim_run rid db = (n, db') \<Longrightarrow>
     race_step rid (db, ph) (db', ph(c := if n = 1 then Engaged else Rejected))"
| race_finish: "ph c = Engaged \<Longrightarrow> get_run db rid = Some r \<Longrightarrow> oc_status oc \<in> {SUCCEEDED, PAUSED, FAILED} \<Longrightarrow>
     race_step rid (db, ph)
       (db\<lparr>db_runs := dict_put rid (finish_resume approved oc r) (db_runs db)\<rparr>, ph(c := Finished))"

inductive_cases race_stepE: "race_step rid s s'"

definition race_inv :: "string \<Rightarrow> 'ts database \<times> (nat \<Rightarrow> approver_phase) \<Rightarrow> bool" where
  "race_inv rid s \<longleftrightarrow>
     (\<forall>c c'. snd s c = Engaged \<and> snd s c' = Engaged \<longrightarrow> c = c') \<and>
     (\<forall>c. snd s c = Engaged \<longrightarrow> map_option run_status (get_run (fst s) rid) = Some RUNNING)"

lemma race_inv_step: "race_step rid s s' \<Longrightarrow> race_inv rid s \<Longrightarrow> race_inv rid s'"
proof (induction rule: race_step.induct)
  case (race_claim ph c db n db')
  show ?case
  proof (cases "n = 1")
    case True
    then obtain r where r: "get_run db rid = Some r" "run_status r = PAUSED"
        "db' = db\<lparr>db_runs := dict_put rid (r\<lparr>run_status := RUNNING\<rparr>) (db_runs db)\<rparr>"
      using race_claim.hyps(2) by (auto simp: claim_run_cases split: option.splits if_splits)
    then have "ph c' \<noteq> Engaged" for c'
      using race_claim.prems by (auto simp: race_inv_def)
    then show ?thesis using r True by (auto simp: race_inv_def get_run_claimed)
  next
    case False
    then have "db' = db"
      using race_claim.hyps(2) by (auto simp: claim_run_cases split: option.splits if_splits)
    then show ?thesis using race_claim.prems False by (auto simp: race_inv_def)
  qed
next
  case (race_finish ph c db r oc approved)
  then have "ph c' \<noteq> Engaged" if "c' \<noteq> c" for c'
    using that by (auto simp: race_inv_def)
  then show ?case by (auto simp: race_inv_def)
qed

text \<open>C19: Racing approvers never run the engine at the same time on one run: in every interleaving
  of claims and results, at most one approver is between a successful claim and its result,
  and while one is, the stored row says running.\<close>

theorem one_engine_per_run:
  assumes "(race_step rid)\<^sup>*\<^sup>* (db, \<lambda>_. Waiting) (db', ph)"
  shows "(ph c = Engaged \<and> ph c' = Engaged \<longrightarrow> c = c') \<and>
    (ph c = Engaged \<longrightarrow> map_option run_status (get_run db' rid) = Some RUNNING)"
proof -
  have "race_inv rid (db, \<lambda>_. Waiting)" by (simp add: race_inv_def)
  moreover have "race_inv rid s \<Longrightarrow> race_inv rid s'" if "(race_step rid)\<^sup>*\<^sup>* s s'" for s s' :: "'a database \<times> (nat \<Rightarrow> approver_phase)"
    using that by (induction rule: rtranclp_induct) (auto intro: race_inv_step)
  ultimately have "race_inv rid (db', ph)" using assms by blast
  then show ?thesis by (auto simp: race_inv_def)
qed

section \<open>What a resume does\<close>

lemma resume_run_Inr:
  assumes "resume_run sv org d rid ia db x = Some (Inr r', db', x')"
  obtains r paused flow oc approved where
    "get_run db rid = Some r" "run_status r = PAUSED" "run_paused_node r = Some paused" "paused \<noteq> []"
    "load_workflow sv d = Inr flow" "approved = sorted_list_of_set (insert paused (set (run_approved r)))"
    "run_capture sv flow (run_trigger r) (row_context (r\<lparr>run_status := RUNNING\<rparr>) org) (posture_tlp r) (posture_autonomy r)
       (effective_autonomy db org ia) (Some (run_outputs r, run_executed r)) approved (run_evidence r) x = Some (Inr oc, x')"
    "r' = finish_resume approved oc (r\<lparr>run_status := RUNNING\<rparr>)" "get_run db' rid = Some r'"
    "\<And>other. other \<noteq> rid \<Longrightarrow> get_run db' other = get_run db other"
proof -
  obtain n db1 where claim: "claim_run rid db = (n, db1)" by fastforce
  have n: "n = 1" using assms claim by (auto simp: resume_run_def split: if_splits)
  then obtain r where r: "get_run db rid = Some r" "run_status r = PAUSED"
      and db1: "db1 = db\<lparr>db_runs := dict_put rid (r\<lparr>run_status := RUNNING\<rparr>) (db_runs db)\<rparr>"
    using claim by (auto simp: claim_run_cases split: option.splits if_splits)
  have got: "get_run db1 rid = Some (r\<lparr>run_status := RUNNING\<rparr>)" using db1 by (simp add: get_run_claimed)
  have same: "effective_autonomy db1 org ia = effective_autonomy db org ia"
    using db1 by (simp add: effective_autonomy_def split: option.split)
  let ?r = "r\<lparr>run_status := RUNNING\<rparr>"
  have posture: "posture_tlp ?r = posture_tlp r" "posture_autonomy ?r = posture_autonomy r"
    by (simp_all add: posture_tlp_def posture_autonomy_def)
  note simps = resume_run_def claim n got same posture rehydrate_state_def Let_def
  obtain paused where p: "run_paused_node r = Some paused" "paused \<noteq> []"
    using assms by (auto simp: simps split: option.splits if_splits)
  obtain flow where f: "load_workflow sv d = Inr flow"
    using assms p by (cases "load_workflow sv d") (simp_all add: simps)
  let ?approved = "sorted_list_of_set (insert paused (set (run_approved r)))"
  let ?cap = "run_capture sv flow (run_trigger r) (row_context ?r org) (posture_tlp r) (posture_autonomy r)
       (effective_autonomy db org ia) (Some (run_outputs r, run_executed r)) ?approved (run_evidence r) x"
  obtain oc where cap: "?cap = Some (Inr oc, x')" and r': "r' = finish_resume ?approved oc ?r"
      and db': "db' = db1\<lparr>db_runs := dict_put rid r' (db_runs db1)\<rparr>"
    using assms p f by (auto simp: simps simp del: sorted_list_of_set_insert_remove split: option.splits sum.splits)
  show ?thesis
    by (rule that[OF r p f refl cap r']) (use db' db1 in \<open>simp_all add: get_run_claimed\<close>)
qed

lemma finish_resume_fields:
  "run_status (finish_resume approved oc r) = oc_status oc"
  "run_approved (finish_resume approved oc r) = approved"
  "run_paused_node (finish_resume approved oc r) = oc_paused_node oc"
  by (simp_all add: finish_resume_def with_outcome_def)

text \<open>C20: A resume that reaches the engine approves exactly one more step, the one the row is paused
  at when the claim succeeds, keeps all earlier approvals and leaves other runs alone; the
  evidence of the row is extended and stays verified; and when the attempt fails, the outputs
  and executed steps recorded before the pause are kept.\<close>

theorem resume_run_contract:
  assumes "resume_run sv org d rid ia db x = Some (Inr r', db', x')"
    and "get_run db rid = Some r" and "fst (verify_chain (sv_digests sv) (run_evidence r))"
  shows "run_status r = PAUSED \<and> run_status r' \<in> {SUCCEEDED, PAUSED, FAILED} \<and>
    (\<exists>p. run_paused_node r = Some p \<and> set (run_approved r') = insert p (set (run_approved r))) \<and>
    get_run db' = (get_run db)(rid \<mapsto> r') \<and>
    fst (verify_chain (sv_digests sv) (run_evidence r')) \<and> (\<exists>new. run_evidence r' = run_evidence r @ new) \<and>
    (run_status r' = FAILED \<longrightarrow> run_outputs r' = run_outputs r \<and> run_executed r' = run_executed r)"
proof -
  obtain paused flow oc approved where r: "run_status r = PAUSED" "run_paused_node r = Some paused"
      "approved = sorted_list_of_set (insert paused (set (run_approved r)))"
    and cap: "run_capture sv flow (run_trigger r) (row_context (r\<lparr>run_status := RUNNING\<rparr>) org) (posture_tlp r) (posture_autonomy r)
       (effective_autonomy db org ia) (Some (run_outputs r, run_executed r)) approved (run_evidence r) x = Some (Inr oc, x')"
    and r': "r' = finish_resume approved oc (r\<lparr>run_status := RUNNING\<rparr>)" "get_run db' rid = Some r'"
    and others: "\<And>other. other \<noteq> rid \<Longrightarrow> get_run db' other = get_run db other"
    using resume_run_Inr[OF assms(1)] assms(2) by (metis option.sel)
  obtain new where ev: "fst (verify_chain (sv_digests sv) (oc_evidence oc))" "oc_evidence oc = run_evidence r @ new"
    using run_capture_evidence[OF cap assms(3)] by blast
  have evid: "run_evidence r' = oc_evidence oc"
    using r'(1) ev(2) by (auto simp: finish_resume_def with_outcome_def)
  have "run_status r' \<in> {SUCCEEDED, PAUSED, FAILED}"
    using run_capture_status[OF cap] r'(1) by (auto simp: finish_resume_fields)
  moreover have "set (run_approved r') = insert paused (set (run_approved r))"
    using r'(1) r(3) by (simp add: finish_resume_fields set_insort_key)
  moreover have "get_run db' = (get_run db)(rid \<mapsto> r')"
    using r'(2) others by (auto simp: fun_eq_iff)
  moreover have "run_outputs r' = run_outputs r \<and> run_executed r' = run_executed r" if "run_status r' = FAILED"
    using that r'(1) by (simp add: finish_resume_fields) (simp add: finish_resume_def)
  ultimately show ?thesis using r(1,2) ev evid by auto
qed

text \<open>A resume of a run that is not paused, or not there, is refused without touching anything:
  no row changes and no node runs.\<close>

theorem resume_refused_untouched:
  assumes "map_option run_status (get_run db rid) \<noteq> Some PAUSED"
  shows "resume_run sv org d rid ia db x = Some (Inl RunNotResumable, db, x)"
  using assms by (auto simp: resume_run_def claim_run_cases split: option.split)

text \<open>C38: The claim is committed before the row and the definition are checked, so a resume refused
  at one of those checks leaves the run marked as running: no later resume can take it up.\<close>

theorem failed_resume_strands_run:
  assumes "get_run db rid = Some r" and "run_status r = PAUSED"
    and "run_paused_node r = None \<or> load_workflow sv d = Inl e"
  shows "\<exists>err db1. resume_run sv org d rid ia db x = Some (Inl err, db1, x) \<and>
    map_option run_status (get_run db1 rid) = Some RUNNING \<and>
    resume_run sv' org' d' rid ia' db1 x = Some (Inl RunNotResumable, db1, x)"
proof -
  let ?db1 = "db\<lparr>db_runs := dict_put rid (r\<lparr>run_status := RUNNING\<rparr>) (db_runs db)\<rparr>"
  have claim: "claim_run rid db = (1, ?db1)" using assms(1,2) by (simp add: claim_run_cases)
  have got: "get_run ?db1 rid = Some (r\<lparr>run_status := RUNNING\<rparr>)" by (simp add: get_run_claimed)
  have "\<exists>err. resume_run sv org d rid ia db x = Some (Inl err, ?db1, x)"
    using assms(3) claim got by (auto simp: resume_run_def split: option.split)
  moreover have "resume_run sv' org' d' rid ia' ?db1 x = Some (Inl RunNotResumable, ?db1, x)"
    using got by (simp add: resume_run_def claim_run_cases)
  ultimately show ?thesis using got by auto
qed

text \<open>A redelivered background job is not idempotent: on a run that an approver has just claimed
  for resume it runs the workflow from the start with no approvals, repeating the steps that
  had completed, because the claim and a pending run share the status running.\<close>

theorem redelivery_reruns_claimed_run:
  assumes "get_run db rid = Some r" and "run_status r = PAUSED"
    and "map_of (db_workflows db) (run_workflow_id r) = Some org"
    and "map_of (db_versions db) (run_version_id r) = Some d" and "load_workflow sv d = Inr flow"
    and "run_capture sv flow (run_trigger r) (row_context r org) (posture_tlp r) (posture_autonomy r)
       (get_effective_autonomy (db_overrides db) org) None [] [] x = Some (Inr oc, x')"
  shows "\<exists>r' db'. execute_pending_run sv rid (snd (claim_run rid db)) x = Some (Inr (Some r'), db', x') \<and>
    run_executed r' = oc_executed oc \<and> run_status r' = oc_status oc"
proof -
  let ?r = "r\<lparr>run_status := RUNNING\<rparr>"
  have claim: "snd (claim_run rid db) = db\<lparr>db_runs := dict_put rid ?r (db_runs db)\<rparr>"
    using assms(1,2) by (simp add: claim_run_cases)
  have "row_context ?r org = row_context r org" "posture_tlp ?r = posture_tlp r"
      "posture_autonomy ?r = posture_autonomy r"
    by (simp_all add: row_context_def posture_tlp_def posture_autonomy_def)
  then show ?thesis
    using assms(3-6) claim
    by (simp add: execute_pending_run_def get_run_claimed Let_def with_outcome_def)
qed

section \<open>The tables over time\<close>

definition row_ok :: "('ts, 'x) service \<Rightarrow> 'ts run_row \<Rightarrow> bool" where
  "row_ok sv r \<longleftrightarrow>
     (run_status r = PAUSED \<longrightarrow> run_paused_node r \<noteq> None) \<and>
     fst (verify_chain (sv_digests sv) (run_evidence r))"

definition runs_ok :: "('ts, 'x) service \<Rightarrow> 'ts database \<Rightarrow> bool" where
  "runs_ok sv db \<longleftrightarrow> (\<forall>rid r. get_run db rid = Some r \<longrightarrow> row_ok sv r)"

text \<open>The operations of the service on the run table, with any other change to the other tables.\<close>

inductive service_step ::
  "('ts, 'x) service \<Rightarrow> 'ts database \<times> 'x \<Rightarrow> 'ts database \<times> 'x \<Rightarrow> bool" for sv where
  do_execute: "execute_version sv rq d db x = Some (res, db', x') \<Longrightarrow> service_step sv (db, x) (db', x')"
| do_create: "create_pending_run sv rq d db = (res', db') \<Longrightarrow> service_step sv (db, x) (db', x)"
| do_pending: "execute_pending_run sv rid db x = Some (res'', db', x') \<Longrightarrow> service_step sv (db, x) (db', x')"
| do_resume: "resume_run sv org d rid ia db x = Some (res, db', x') \<Longrightarrow> service_step sv (db, x) (db', x')"
| do_other: "db_runs db' = db_runs db \<Longrightarrow> service_step sv (db, x) (db', x)"

lemma capture_row_ok:
  assumes "run_capture sv flow trigger ctx active agent ia resume approved prior x = Some (Inr oc, x')"
    and "fst (verify_chain (sv_digests sv) prior)"
  shows "row_ok sv (with_outcome oc r)" and "row_ok sv ((with_outcome oc r)\<lparr>run_approved := ap\<rparr>)"
  using run_capture_status[OF assms(1)] run_capture_evidence[OF assms]
  by (auto simp: row_ok_def with_outcome_def)

lemma verify_empty [simp]: "fst (verify_chain dg [])"
  by (simp add: verify_chain_def)

lemma runs_ok_put: "runs_ok sv db \<Longrightarrow> row_ok sv r \<Longrightarrow> runs_ok sv (put_run r db)"
  by (auto simp: runs_ok_def)

lemma runs_ok_upd: "runs_ok sv db \<Longrightarrow> row_ok sv r \<Longrightarrow> runs_ok sv (db\<lparr>db_runs := dict_put rid r (db_runs db)\<rparr>)"
  by (auto simp: runs_ok_def get_run_claimed)

lemma finish_resume_ok:
  assumes "run_capture sv flow trigger ctx active agent ia resume approved prior x = Some (Inr oc, x')"
    and "fst (verify_chain (sv_digests sv) prior)" and "prior = run_evidence r"
  shows "row_ok sv (finish_resume ap oc r)"
  using run_capture_status[OF assms(1)] run_capture_evidence[OF assms(1,2)] assms(2,3)
  by (auto simp: row_ok_def finish_resume_def with_outcome_def)

lemma resume_step_ok:
  assumes "resume_run sv org d rid ia db x = Some (res, db', x')" and "runs_ok sv db"
  shows "runs_ok sv db'"
proof (cases res)
  case (Inr r')
  with assms(1) have "resume_run sv org d rid ia db x = Some (Inr r', db', x')" by simp
  then show ?thesis
  proof (rule resume_run_Inr)
    fix r paused flow oc approved
    assume r: "get_run db rid = Some r"
      and cap: "run_capture sv flow (run_trigger r) (row_context (r\<lparr>run_status := RUNNING\<rparr>) org) (posture_tlp r) (posture_autonomy r)
       (effective_autonomy db org ia) (Some (run_outputs r, run_executed r)) approved (run_evidence r) x = Some (Inr oc, x')"
      and r': "r' = finish_resume approved oc (r\<lparr>run_status := RUNNING\<rparr>)" "get_run db' rid = Some r'"
      and others: "\<And>other. other \<noteq> rid \<Longrightarrow> get_run db' other = get_run db other"
    have "fst (verify_chain (sv_digests sv) (run_evidence r))" using r assms(2) by (auto simp: runs_ok_def row_ok_def)
    then have "row_ok sv r'" using finish_resume_ok[OF cap] r' by simp
    then show ?thesis
      using r'(2) others assms(2) unfolding runs_ok_def by (metis option.sel)
  qed
next
  case (Inl e)
  obtain n db1 where claim: "claim_run rid db = (n, db1)" by fastforce
  have "db' = db1"
    using assms(1) Inl claim
    by (auto simp: resume_run_def Let_def split: if_splits option.splits sum.splits prod.splits)
  moreover have "runs_ok sv db1"
    using claim assms(2)
    by (auto simp: claim_run_cases split: option.splits if_splits intro!: runs_ok_upd)
      (auto simp: runs_ok_def row_ok_def)
  ultimately show ?thesis by simp
qed

lemma execute_step_ok:
  assumes "execute_version sv rq d db x = Some (res, db', x')" and "runs_ok sv db"
  shows "runs_ok sv db'"
  using assms
  by (auto simp: execute_version_def Let_def split: sum.splits option.splits
      intro!: runs_ok_put capture_row_ok(1))

lemma create_step_ok:
  assumes "create_pending_run sv rq d db = (res, db')" and "runs_ok sv db"
  shows "runs_ok sv db'"
  using assms by (auto simp: create_pending_run_def Let_def row_ok_def new_row_def split: sum.splits
      intro!: runs_ok_put)

lemma pending_step_ok:
  assumes "execute_pending_run sv rid db x = Some (res, db', x')" and "runs_ok sv db"
  shows "runs_ok sv db'"
proof (cases "get_run db rid")
  case (Some r)
  then have "fst (verify_chain (sv_digests sv) (run_evidence r))"
    using assms(2) by (auto simp: runs_ok_def row_ok_def)
  then have failed: "row_ok sv (r\<lparr>run_status := FAILED, run_error := er\<rparr>)" for er
    by (simp add: row_ok_def)
  show ?thesis
    using assms Some failed
    by (auto simp: execute_pending_run_def Let_def split: if_splits option.splits sum.splits
        intro!: runs_ok_put capture_row_ok(1))
qed (use assms in \<open>simp add: execute_pending_run_def\<close>)

lemma service_step_ok: "service_step sv s s' \<Longrightarrow> runs_ok sv (fst s) \<Longrightarrow> runs_ok sv (fst s')"
proof (induction rule: service_step.induct)
  case (do_other db' db x)
  then show ?case by (simp add: runs_ok_def get_run_def)
qed (auto dest: resume_step_ok execute_step_ok create_step_ok pending_step_ok)

text \<open>Over any history of the service, from empty run tables through inline and background
  runs, resumes that succeed or are refused, and changes of the other tables, every stored run
  has an evidence chain that verifies, and every paused run names the step it is paused at.\<close>

theorem stored_runs_sound:
  assumes "(service_step sv)\<^sup>*\<^sup>* (db, x) (db', x')" and "db_runs db = []"
    and "get_run db' rid = Some r"
  shows "fst (verify_chain (sv_digests sv) (run_evidence r)) \<and>
    (run_status r = PAUSED \<longrightarrow> run_paused_node r \<noteq> None)"
proof -
  have "runs_ok sv db" using assms(2) by (simp add: runs_ok_def get_run_def)
  moreover have "runs_ok sv (fst s')" if "(service_step sv)\<^sup>*\<^sup>* s s'" "runs_ok sv (fst s)" for s s'
    using that by (induction rule: rtranclp_induct) (auto intro: service_step_ok)
  ultimately have "runs_ok sv db'" using assms(1) by fastforce
  then show ?thesis using assms(3) by (auto simp: runs_ok_def row_ok_def)
qed

section \<open>A sample service\<close>

definition sample_service :: "(string, unit) service" where
  "sample_service =
     \<lparr> sv_digests = plain_digests, sv_plugins = (\<lambda>_. Some isolate_plugin), sv_eval = no_eval,
       sv_clock = (\<lambda>_. ''now''), sv_load = (\<lambda>_. Some (one_step ''n'')), sv_json = (\<lambda>c. c), sv_fuel = 2 \<rparr>"

definition sample_request :: run_request where
  "sample_request =
     \<lparr> rq_run_id = ''r'', rq_workflow_id = ''w'', rq_version_id = ''v'', rq_org_id = ''o'', rq_trigger = [],
       rq_triggered_by = None, rq_active_tlp = GREEN, rq_investigation_id = None,
       rq_agent_autonomy = L4_FULL_AUTO, rq_integration_autonomy = None \<rparr>"

definition empty_database :: "string database" where
  "empty_database = \<lparr> db_runs = [], db_workflows = [(''w'', ''o'')], db_versions = [(''v'', [])], db_overrides = [] \<rparr>"

text \<open>The containment step pauses the inline run; a resume approves and runs it.\<close>

definition paused_database :: "string database" where
  "paused_database =
     (case execute_version sample_service sample_request [] empty_database () of
        Some (_, db, _) \<Rightarrow> db | None \<Rightarrow> empty_database)"

lemma sample_pauses:
  "\<exists>res. execute_version sample_service sample_request [] empty_database () = Some (res, paused_database, ())"
proof -
  have "case execute_version sample_service sample_request [] empty_database () of None \<Rightarrow> False | Some _ \<Rightarrow> True"
    by code_simp
  then show ?thesis by (auto simp: paused_database_def split: option.splits)
qed

lemma sample_paused_row:
  "\<exists>r. get_run paused_database ''r'' = Some r \<and> run_status r = PAUSED \<and> run_paused_node r = Some ''a'' \<and>
     run_evidence r = []"
proof -
  have "case get_run paused_database ''r'' of None \<Rightarrow> False
    | Some r \<Rightarrow> run_status r = PAUSED \<and> run_paused_node r = Some ''a'' \<and> run_evidence r = []"
    by code_simp
  then show ?thesis by (auto split: option.splits)
qed

lemma sample_resumes:
  "\<exists>r' db'. resume_run sample_service ''o'' [] ''r'' None paused_database () = Some (Inr r', db', ()) \<and>
     run_status r' = SUCCEEDED \<and> run_executed r' = [''a'']"
proof -
  have "case resume_run sample_service ''o'' [] ''r'' None paused_database () of
      Some (Inr r', _) \<Rightarrow> run_status r' = SUCCEEDED \<and> run_executed r' = [''a''] | _ \<Rightarrow> False"
    by code_simp
  then show ?thesis by (auto split: option.splits sum.splits)
qed

lemma one_engine_per_run_witness:
  "\<exists>db ph. (race_step ''r'')\<^sup>*\<^sup>* (paused_database, \<lambda>_. Waiting) (db, ph) \<and> ph 0 = Engaged \<and> ph 1 = Rejected \<and>
     map_option run_status (get_run db ''r'') = Some RUNNING"
proof -
  obtain r where r: "get_run paused_database ''r'' = Some r" "run_status r = PAUSED"
    using sample_paused_row by blast
  let ?db = "paused_database\<lparr>db_runs := dict_put ''r'' (r\<lparr>run_status := RUNNING\<rparr>) (db_runs paused_database)\<rparr>"
  let ?ph = "(\<lambda>_. Waiting)(0 := Engaged)"
  have "race_step ''r'' (paused_database, \<lambda>_. Waiting) (?db, ?ph)"
    using race_claim[of "\<lambda>_. Waiting" 0 "''r''" paused_database 1 ?db] r by (simp add: claim_run_cases)
  moreover have "race_step ''r'' (?db, ?ph) (?db, ?ph(1 := Rejected))"
    using race_claim[of ?ph 1 "''r''" ?db 0 ?db] by (simp add: claim_run_cases get_run_claimed)
  ultimately have run: "(race_step ''r'')\<^sup>*\<^sup>* (paused_database, \<lambda>_. Waiting) (?db, ?ph(1 := Rejected))"
    by (meson rtranclp.rtrancl_refl rtranclp.rtrancl_into_rtrancl)
  have "map_option run_status (get_run ?db ''r'') = Some RUNNING"
    using conjunct2[OF one_engine_per_run[OF run, of 0 0]] by simp
  then show ?thesis
    using run by (intro exI[of _ ?db] exI[of _ "?ph(1 := Rejected)"]) simp
qed

lemma resume_run_contract_witness:
  "\<exists>r' db'. resume_run sample_service ''o'' [] ''r'' None paused_database () = Some (Inr r', db', ()) \<and>
     run_executed r' = [''a''] \<and> fst (verify_chain plain_digests (run_evidence r'))"
proof -
  obtain r' db' where res: "resume_run sample_service ''o'' [] ''r'' None paused_database () = Some (Inr r', db', ())"
      "run_executed r' = [''a'']"
    using sample_resumes by blast
  obtain r where r: "get_run paused_database ''r'' = Some r" "run_evidence r = []"
    using sample_paused_row by blast
  have dg: "sv_digests sample_service = plain_digests" by (simp add: sample_service_def)
  have "fst (verify_chain plain_digests (run_evidence r'))"
    using resume_run_contract[OF res(1) r(1)] r(2) by (simp add: dg)
  then show ?thesis using res by blast
qed

lemma resume_refused_untouched_witness:
  "resume_run sample_service ''o'' [] ''r'' None empty_database () = Some (Inl RunNotResumable, empty_database, ())"
  by (rule resume_refused_untouched) (simp add: get_run_def empty_database_def)

lemma failed_resume_strands_run_witness:
  "\<exists>err db1. resume_run (sample_service\<lparr>sv_load := \<lambda>_. None\<rparr>) ''o'' [] ''r'' None paused_database () = Some (Inl err, db1, ()) \<and>
     map_option run_status (get_run db1 ''r'') = Some RUNNING \<and>
     resume_run sample_service ''o'' [] ''r'' None db1 () = Some (Inl RunNotResumable, db1, ())"
proof -
  obtain r where r: "get_run paused_database ''r'' = Some r" "run_status r = PAUSED"
    using sample_paused_row by blast
  have "load_workflow (sample_service\<lparr>sv_load := \<lambda>_. None\<rparr>) [] = Inl WorkflowNotExecutable"
    by (simp add: load_workflow_def)
  then show ?thesis
    by (intro failed_resume_strands_run[OF r]) blast
qed

lemma captured:
  "(case z of Some (Inr oc, ()) \<Rightarrow> True | _ \<Rightarrow> False) \<Longrightarrow> \<exists>oc. z = Some (Inr oc, ())"
proof -
  assume z: "case z of Some (Inr oc, ()) \<Rightarrow> True | _ \<Rightarrow> False"
  then obtain y where y: "z = Some y" by (cases z) simp_all
  obtain a u where a: "y = (a, u)" by (cases y)
  show ?thesis using z y a by (cases a) simp_all
qed

lemma sample_rerun:
  "\<exists>r oc. get_run paused_database ''r'' = Some r \<and> run_status r = PAUSED \<and>
     map_of (db_workflows paused_database) (run_workflow_id r) = Some ''o'' \<and>
     map_of (db_versions paused_database) (run_version_id r) = Some [] \<and>
     run_capture sample_service (one_step ''n'') (run_trigger r) (row_context r ''o'') (posture_tlp r)
       (posture_autonomy r) (get_effective_autonomy (db_overrides paused_database) ''o'') None [] [] () = Some (Inr oc, ())"
proof -
  have "case get_run paused_database ''r'' of None \<Rightarrow> False
    | Some r \<Rightarrow> run_status r = PAUSED \<and>
       map_of (db_workflows paused_database) (run_workflow_id r) = Some ''o'' \<and>
       map_of (db_versions paused_database) (run_version_id r) = Some [] \<and>
       (case run_capture sample_service (one_step ''n'') (run_trigger r) (row_context r ''o'') (posture_tlp r)
         (posture_autonomy r) (get_effective_autonomy (db_overrides paused_database) ''o'') None [] [] () of
        Some (Inr oc, ()) \<Rightarrow> True | _ \<Rightarrow> False)"
    by code_simp
  moreover obtain r where r: "get_run paused_database ''r'' = Some r" using sample_paused_row by blast
  ultimately have facts: "run_status r = PAUSED \<and>
       map_of (db_workflows paused_database) (run_workflow_id r) = Some ''o'' \<and>
       map_of (db_versions paused_database) (run_version_id r) = Some []"
    and cap: "case run_capture sample_service (one_step ''n'') (run_trigger r) (row_context r ''o'') (posture_tlp r)
         (posture_autonomy r) (get_effective_autonomy (db_overrides paused_database) ''o'') None [] [] () of
        Some (Inr oc, ()) \<Rightarrow> True | _ \<Rightarrow> False"
    unfolding r option.case by blast+
  obtain oc where "run_capture sample_service (one_step ''n'') (run_trigger r) (row_context r ''o'') (posture_tlp r)
         (posture_autonomy r) (get_effective_autonomy (db_overrides paused_database) ''o'') None [] [] () = Some (Inr oc, ())"
    using captured[OF cap] by (elim exE)
  then show ?thesis using r facts by blast
qed

lemma redelivery_reruns_claimed_run_witness:
  "\<exists>r' db'. execute_pending_run sample_service ''r'' (snd (claim_run ''r'' paused_database)) () = Some (Inr (Some r'), db', ())"
proof -
  obtain r oc where r: "get_run paused_database ''r'' = Some r" "run_status r = PAUSED"
     "map_of (db_workflows paused_database) (run_workflow_id r) = Some ''o''"
     "map_of (db_versions paused_database) (run_version_id r) = Some []"
     "run_capture sample_service (one_step ''n'') (run_trigger r) (row_context r ''o'') (posture_tlp r)
       (posture_autonomy r) (get_effective_autonomy (db_overrides paused_database) ''o'') None [] [] () = Some (Inr oc, ())"
    using sample_rerun by blast
  have "load_workflow sample_service [] = Inr (one_step ''n'')"
    by (simp add: load_workflow_def sample_service_def one_step_def)
  from redelivery_reruns_claimed_run[OF r(1-4) this r(5)] show ?thesis by blast
qed

lemma stored_runs_sound_witness:
  "\<exists>r. get_run paused_database ''r'' = Some r \<and> run_paused_node r \<noteq> None"
proof -
  obtain res where run: "execute_version sample_service sample_request [] empty_database () = Some (res, paused_database, ())"
    using sample_pauses by blast
  obtain r where r: "get_run paused_database ''r'' = Some r" "run_status r = PAUSED"
    using sample_paused_row by blast
  have steps: "(service_step sample_service)\<^sup>*\<^sup>* (empty_database, ()) (paused_database, ())"
    using do_execute[OF run] by blast
  have "db_runs empty_database = []" by (simp add: empty_database_def)
  from stored_runs_sound[OF steps this r(1)] r show ?thesis by blast
qed

end
