(* ===== verification/AuditTrail.thy ===== *)
theory AuditTrail
  imports HashChain PyFloat
begin

text \<open>
  The audit ledger (backend/btagent_backend/services/audit_trail.py): the hash over a row, the
  append with its bounded retry, verification scoped to an organisation, and the query.  The
  table is the list of rows in the order of their sequence numbers, with the UNIQUE constraint
  on the number; SHA-256, the canonical text of the details and the ISO text of a timestamp
  are parameters.
\<close>

section \<open>The text under the hash\<close>

text \<open>
  \<^verbatim>\<open>json.dumps\<close> of a list of strings and one integer, compact and with non-ASCII characters kept:
  a string is quoted, with the quote, the backslash and the control characters escaped.
\<close>

definition hex_char :: "nat \<Rightarrow> char" where
  "hex_char n = (if n < 10 then char_of (48 + n) else char_of (87 + n))"

definition json_char :: "char \<Rightarrow> string" where
  "json_char c =
     (let n = (of_char c :: nat) in
      if n = 34 then [CHR 92, CHR 34]
      else if n = 92 then [CHR 92, CHR 92]
      else if n = 8 then [CHR 92, CHR ''b'']
      else if n = 12 then [CHR 92, CHR ''f'']
      else if n = 10 then [CHR 92, CHR ''n'']
      else if n = 13 then [CHR 92, CHR ''r'']
      else if n = 9 then [CHR 92, CHR ''t'']
      else if n < 32 then [CHR 92, CHR ''u'', CHR ''0'', CHR ''0'', hex_char (n div 16), hex_char (n mod 16)]
      else [c])"

definition json_string :: "string \<Rightarrow> string" where
  "json_string s = [CHR 34] @ concat (map json_char s) @ [CHR 34]"

datatype json_item = is_JStr: JStr string | JInt int

fun json_item_text :: "json_item \<Rightarrow> string" where
  "json_item_text (JStr s) = json_string s"
| "json_item_text (JInt i) = int_str i"

definition json_array :: "json_item list \<Rightarrow> string" where
  "json_array xs = [CHR ''[''] @ join_with (CHR '','') (map json_item_text xs) @ [CHR '']'']"

definition audit_genesis :: string where
  "audit_genesis = replicate 64 (CHR ''0'')"

definition max_append_attempts :: nat where
  "max_append_attempts = 5"

record ('ts, 'd) audit_row =
  au_id :: string
  au_org :: string
  au_seq :: int
  au_timestamp :: 'ts
  au_actor :: string
  au_category :: string
  au_action :: string
  au_resource :: string
  au_outcome :: string
  au_details :: 'd
  au_prev_hash :: string
  au_hash :: string

record ('ts, 'd) audit_lib =
  al_sha256 :: "string \<Rightarrow> string"
  al_iso :: "'ts \<Rightarrow> string"
  al_canonical :: "'d \<Rightarrow> string"

text \<open>Functions of four texts, to keep the types of the hash functions short.\<close>

type_synonym 'r from_four = "string \<Rightarrow> string \<Rightarrow> string \<Rightarrow> string \<Rightarrow> 'r"

definition audit_text :: "string \<Rightarrow> int \<Rightarrow> string from_four from_four" where
  "audit_text i seq ts actor category action resource outcome details prev =
     json_array [JStr i, JInt seq, JStr ts, JStr actor, JStr category, JStr action, JStr resource,
       JStr outcome, JStr details, JStr prev]"

definition compute_hash ::
  "('ts, 'd) audit_lib \<Rightarrow> string \<Rightarrow> int \<Rightarrow> string from_four from_four" where
  "compute_hash lib i seq ts actor category action resource outcome details prev =
     al_sha256 lib (audit_text i seq ts actor category action resource outcome details prev)"

section \<open>Appending\<close>

record 'd audit_entry =
  ae_id :: string
  ae_org :: string
  ae_actor :: string
  ae_category :: string
  ae_action :: string
  ae_resource :: string
  ae_outcome :: string
  ae_details :: 'd

datatype audit_error = IntegrityError

text \<open>\<^verbatim>\<open>ORDER BY seq DESC LIMIT 1\<close>.\<close>

fun row_of_max_seq :: "('ts, 'd) audit_row list \<Rightarrow> ('ts, 'd) audit_row option" where
  "row_of_max_seq [] = None"
| "row_of_max_seq (r # rs) =
     (case row_of_max_seq rs of None \<Rightarrow> Some r | Some m \<Rightarrow> if au_seq m \<ge> au_seq r then Some m else Some r)"

definition next_seq_and_prev_hash :: "('ts, 'd) audit_row list \<Rightarrow> int \<times> string" where
  "next_seq_and_prev_hash rows =
     (case row_of_max_seq rows of None \<Rightarrow> (1, audit_genesis) | Some r \<Rightarrow> (au_seq r + 1, au_hash r))"

definition build_row ::
  "('ts, 'd) audit_lib \<Rightarrow> 'd audit_entry \<Rightarrow> 'ts \<Rightarrow> int \<times> string \<Rightarrow> ('ts, 'd) audit_row" where
  "build_row lib e now head =
     \<lparr> au_id = ae_id e, au_org = ae_org e, au_seq = fst head, au_timestamp = now, au_actor = ae_actor e,
       au_category = ae_category e, au_action = ae_action e, au_resource = ae_resource e,
       au_outcome = ae_outcome e, au_details = ae_details e, au_prev_hash = snd head,
       au_hash = compute_hash lib (ae_id e) (fst head) (al_iso lib now) (ae_actor e) (ae_category e)
         (ae_action e) (ae_resource e) (ae_outcome e) (al_canonical lib (ae_details e)) (snd head) \<rparr>"

text \<open>The insert with its UNIQUE constraint; a violation leaves the table as it was.\<close>

definition insert_row ::
  "('ts, 'd) audit_row \<Rightarrow> ('ts, 'd) audit_row list \<Rightarrow> (audit_error, ('ts, 'd) audit_row) res \<times> ('ts, 'd) audit_row list" where
  "insert_row r rows =
     (if au_seq r \<in> set (map au_seq rows) then (Inl IntegrityError, rows) else (Inr r, rows @ [r]))"

text \<open>
  One attempt reads the head, then inserts; other writers may commit in between, which is the
  function \<^term>\<open>other\<close> applied to the table.
\<close>

definition append_once ::
  "('ts, 'd) audit_lib \<Rightarrow> (('ts, 'd) audit_row list \<Rightarrow> ('ts, 'd) audit_row list) \<Rightarrow> 'd audit_entry \<Rightarrow> 'ts
     \<Rightarrow> ('ts, 'd) audit_row list \<Rightarrow> (audit_error, ('ts, 'd) audit_row) res \<times> ('ts, 'd) audit_row list" where
  "append_once lib other e now rows =
     insert_row (build_row lib e now (next_seq_and_prev_hash rows)) (other rows)"

text \<open>The retry loop; an attempt that loses the race starts again from what it finds.\<close>

fun record_attempts ::
  "('ts, 'd) audit_lib \<Rightarrow> nat \<Rightarrow> (nat \<Rightarrow> ('ts, 'd) audit_row list \<Rightarrow> ('ts, 'd) audit_row list) \<Rightarrow> (nat \<Rightarrow> 'ts)
     \<Rightarrow> 'd audit_entry \<Rightarrow> ('ts, 'd) audit_row list
     \<Rightarrow> (audit_error, ('ts, 'd) audit_row) res \<times> ('ts, 'd) audit_row list" where
  "record_attempts lib 0 other now e rows = (Inl IntegrityError, rows)"
| "record_attempts lib (Suc n) other now e rows =
     (case append_once lib (other n) e (now n) rows of
        (Inr r, rows') \<Rightarrow> (Inr r, rows')
      | (Inl err, rows') \<Rightarrow> record_attempts lib n other now e rows')"

definition audit_record ::
  "('ts, 'd) audit_lib \<Rightarrow> (nat \<Rightarrow> ('ts, 'd) audit_row list \<Rightarrow> ('ts, 'd) audit_row list) \<Rightarrow> (nat \<Rightarrow> 'ts)
     \<Rightarrow> 'd audit_entry \<Rightarrow> ('ts, 'd) audit_row list
     \<Rightarrow> (audit_error, ('ts, 'd) audit_row) res \<times> ('ts, 'd) audit_row list" where
  "audit_record lib other now e rows = record_attempts lib max_append_attempts other now e rows"

section \<open>Verification and queries\<close>

definition row_text :: "('ts, 'd) audit_lib \<Rightarrow> ('ts, 'd) audit_row \<Rightarrow> string" where
  "row_text lib r = audit_text (au_id r) (au_seq r) (al_iso lib (au_timestamp r)) (au_actor r) (au_category r)
     (au_action r) (au_resource r) (au_outcome r) (al_canonical lib (au_details r)) (au_prev_hash r)"

definition expected_hash :: "('ts, 'd) audit_lib \<Rightarrow> ('ts, 'd) audit_row \<Rightarrow> string" where
  "expected_hash lib r = compute_hash lib (au_id r) (au_seq r) (al_iso lib (au_timestamp r)) (au_actor r)
     (au_category r) (au_action r) (au_resource r) (au_outcome r) (al_canonical lib (au_details r)) (au_prev_hash r)"

datatype audit_finding = GenesisMismatch int | PrevHashMismatch int | HashMismatch int

fun verify_rows ::
  "('ts, 'd) audit_lib \<Rightarrow> string \<Rightarrow> string \<Rightarrow> ('ts, 'd) audit_row list \<Rightarrow> audit_finding list" where
  "verify_rows lib org prev [] = []"
| "verify_rows lib org prev (r # rs) =
     (if au_org r = org \<and> au_prev_hash r \<noteq> prev then [PrevHashMismatch (au_seq r)] else []) @
     (if au_org r = org \<and> au_hash r \<noteq> expected_hash lib r then [HashMismatch (au_seq r)] else []) @
     verify_rows lib org (au_hash r) rs"

text \<open>The rows in ascending order of their number, and the two loops of the check.\<close>

definition audit_verify_chain ::
  "('ts, 'd) audit_lib \<Rightarrow> string \<Rightarrow> ('ts, 'd) audit_row list \<Rightarrow> bool \<times> audit_finding list" where
  "audit_verify_chain lib org table =
     (let rows = sort_key au_seq table;
          errors = (case rows of
              [] \<Rightarrow> []
            | r # _ \<Rightarrow> (if au_org r = org \<and> au_prev_hash r \<noteq> audit_genesis then [GenesisMismatch (au_seq r)] else []) @
                verify_rows lib org audit_genesis rows)
      in (errors = [], errors))"

definition get_entries ::
  "string \<Rightarrow> string option \<Rightarrow> string option \<Rightarrow> string option \<Rightarrow> nat \<Rightarrow> nat
     \<Rightarrow> ('ts, 'd) audit_row list \<Rightarrow> ('ts, 'd) audit_row list" where
  "get_entries org actor category resource lim offset table =
     take lim (drop offset (filter
       (\<lambda>r. au_org r = org \<and> (case actor of None \<Rightarrow> True | Some a \<Rightarrow> au_actor r = a) \<and>
            (case category of None \<Rightarrow> True | Some c \<Rightarrow> au_category r = c) \<and>
            (case resource of None \<Rightarrow> True | Some x \<Rightarrow> au_resource r = x))
       (rev (sort_key au_seq table))))"

section \<open>The text determines the fields\<close>

lemma json_char_cases:
  "json_char c = [c] \<and> c \<noteq> CHR 92 \<and> c \<noteq> CHR 34 \<or> (\<exists>x xs. json_char c = CHR 92 # x # xs)"
proof -
  have "(of_char c :: nat) \<noteq> 34 \<Longrightarrow> c \<noteq> CHR 34" "(of_char c :: nat) \<noteq> 92 \<Longrightarrow> c \<noteq> CHR 92" by auto
  then show ?thesis unfolding json_char_def Let_def by simp
qed

text \<open>Reading one character of a JSON string back.\<close>

definition hex_val :: "char \<Rightarrow> nat" where
  "hex_val c = (let n = (of_char c :: nat) in if n < 58 then n - 48 else n - 87)"

fun unescape :: "string \<Rightarrow> (char \<times> string) option" where
  "unescape [] = None"
| "unescape (c # s) =
     (if c \<noteq> CHR 92 then Some (c, s)
      else case s of
        [] \<Rightarrow> None
      | x # t \<Rightarrow>
          if x = CHR ''b'' then Some (CHR 8, t)
          else if x = CHR ''f'' then Some (CHR 12, t)
          else if x = CHR ''n'' then Some (CHR 10, t)
          else if x = CHR ''r'' then Some (CHR 13, t)
          else if x = CHR ''t'' then Some (CHR 9, t)
          else if x = CHR ''u'' then
            (case t of _ # _ # h # l # t' \<Rightarrow> Some (char_of (16 * hex_val h + hex_val l), t') | _ \<Rightarrow> None)
          else Some (x, t))"

lemma hex_val_char: "n < 16 \<Longrightarrow> hex_val (hex_char n) = n"
  by (auto simp: hex_val_def hex_char_def Let_def)

lemma char_consts:
  "char_of (34 :: nat) = CHR 34" "char_of (92 :: nat) = CHR 92" "char_of (8 :: nat) = CHR 8"
  "char_of (12 :: nat) = CHR 12" "char_of (10 :: nat) = CHR 10" "char_of (13 :: nat) = CHR 13"
  "char_of (9 :: nat) = CHR 9"
  by (simp_all add: char_of_def bit_0)

lemma unescape_json_char: "unescape (json_char c @ s) = Some (c, s)"
proof -
  define n where "n = (of_char c :: nat)"
  have c: "c = char_of n" and n: "n < 256" by (simp_all add: n_def)
  consider "n = 34" | "n = 92" | "n = 8" | "n = 12" | "n = 10" | "n = 13" | "n = 9"
    | (ctrl) "n < 32" "n \<notin> {8, 9, 10, 12, 13}" | (plain) "n \<ge> 32" "n \<noteq> 34" "n \<noteq> 92"
    by fastforce
  then show ?thesis
  proof cases
    case ctrl
    have "16 * (n div 16) + n mod 16 = n" by simp
    moreover have "json_char c = [CHR 92, CHR ''u'', CHR ''0'', CHR ''0'', hex_char (n div 16), hex_char (n mod 16)]"
      using ctrl by (simp add: json_char_def n_def[symmetric])
    ultimately show ?thesis using ctrl c by (simp add: hex_val_char)
  next
    case plain
    have "json_char c = [c]" using plain by (simp add: json_char_def n_def[symmetric])
    moreover have "c \<noteq> CHR 92" using plain(3) by (auto simp: n_def)
    ultimately show ?thesis by simp
  qed (simp_all add: json_char_def n_def[symmetric] c char_consts)
qed

lemma json_char_nonempty: "json_char c \<noteq> [] \<and> hd (json_char c) \<noteq> CHR 34"
  using json_char_cases[of c] by auto

lemma json_body_inj:
  "concat (map json_char s) @ CHR 34 # u = concat (map json_char t) @ CHR 34 # v \<Longrightarrow> s = t \<and> u = v"
proof (induction s arbitrary: t)
  case Nil
  show ?case
  proof (cases t)
    case (Cons d t')
    then have "hd (json_char d) = CHR 34"
      using Nil json_char_nonempty[of d] by (cases "json_char d") auto
    then show ?thesis using json_char_nonempty by blast
  qed (use Nil in simp)
next
  case (Cons c s)
  show ?case
  proof (cases t)
    case Nil
    then have "hd (json_char c) = CHR 34"
      using Cons.prems json_char_nonempty[of c] by (cases "json_char c") auto
    then show ?thesis using json_char_nonempty by blast
  next
    case t: (Cons d t')
    then have "unescape (json_char c @ concat (map json_char s) @ CHR 34 # u) =
        unescape (json_char d @ concat (map json_char t') @ CHR 34 # v)"
      using Cons.prems by simp
    then have "c = d \<and> concat (map json_char s) @ CHR 34 # u = concat (map json_char t') @ CHR 34 # v"
      by (simp add: unescape_json_char)
    then show ?thesis using Cons.IH t by blast
  qed
qed

lemma json_string_inj: "json_string s @ u = json_string t @ v \<Longrightarrow> s = t \<and> u = v"
  using json_body_inj[of s u t v] by (simp add: json_string_def)

text \<open>Decimal text has no comma and determines the number.\<close>

fun digits_value :: "string \<Rightarrow> nat" where
  "digits_value s = foldl (\<lambda>acc c. 10 * acc + (of_char c - 48)) 0 s"

lemma nat_digits_props:
  "digits_value (nat_digits n) = n \<and> set (nat_digits n) \<subseteq> digit_char ` {0..<10} \<and> nat_digits n \<noteq> []"
proof (induction n rule: nat_digits.induct)
  case (1 n)
  have d: "of_char (digit_char k) - 48 = k" if "k < 10" for k :: nat
    using that by (simp add: digit_char_def)
  show ?case
  proof (cases "n < 10")
    case True
    then show ?thesis using d by (subst (1 2 3) nat_digits.simps) auto
  next
    case False
    then have "digits_value (nat_digits (n div 10) @ [digit_char (n mod 10)]) = n"
      using 1 d[of "n mod 10"] by simp
    then show ?thesis using 1 False by (subst (1 2 3) nat_digits.simps) auto
  qed
qed

lemma digit_char_sep: "digit_char k = CHR '','' \<Longrightarrow> \<not> k < 10" "digit_char k = CHR ''-'' \<Longrightarrow> \<not> k < 10"
proof -
  have *: "of_char (digit_char k) = 48 + k" if "k < 10" for k :: nat
    using that by (simp add: digit_char_def)
  show "digit_char k = CHR '','' \<Longrightarrow> \<not> k < 10" "digit_char k = CHR ''-'' \<Longrightarrow> \<not> k < 10"
    using *[of k] by auto
qed

lemma int_str_no_comma: "CHR '','' \<notin> set (int_str i)"
proof -
  have "CHR '','' \<notin> set (nat_digits n)" for n
    using nat_digits_props[of n] digit_char_sep(1) by force
  then show ?thesis by (simp add: int_str_def)
qed

lemma int_str_inj: "int_str i = int_str j \<Longrightarrow> i = j"
proof -
  assume eq: "int_str i = int_str j"
  have hd: "hd (nat_digits n) \<noteq> CHR ''-''" for n
    using nat_digits_props[of n] digit_char_sep(2) by (cases "nat_digits n") force+
  have minus: "CHR ''-'' # s \<noteq> nat_digits n" "nat_digits n \<noteq> CHR ''-'' # s" for s n
    using hd[of n] by (metis list.sel(1))+
  have inj: "nat_digits m = nat_digits n \<Longrightarrow> m = n" for m n
    using nat_digits_props[of m] nat_digits_props[of n] by metis
  have neg: "i < 0 \<longleftrightarrow> j < 0"
    using eq minus by (cases "i < 0"; cases "j < 0") (simp_all add: int_str_def)
  show ?thesis
  proof (cases "i < 0")
    case True
    then have "nat_digits (nat (- i)) = nat_digits (nat (- j))" using eq neg by (simp add: int_str_def)
    then show ?thesis using inj[of "nat (- i)" "nat (- j)"] True neg by simp
  next
    case False
    then have "nat_digits (nat i) = nat_digits (nat j)" using eq neg by (simp add: int_str_def)
    then show ?thesis using inj[of "nat i" "nat j"] False neg by simp
  qed
qed

lemma json_item_sep:
  assumes "json_item_text x @ s = json_item_text y @ t"
    and "s = [] \<or> hd s = CHR '',''" and "t = [] \<or> hd t = CHR '',''"
    and "is_JStr x = is_JStr y"
  shows "x = y \<and> s = t"
proof (cases x)
  case (JStr a)
  then obtain b where "y = JStr b" using assms(4) by (cases y) auto
  then show ?thesis using JStr assms(1) json_string_inj[of a s b t] by simp
next
  case (JInt i)
  then obtain j where j: "y = JInt j" using assms(4) by (cases y) auto
  have nc: "CHR '','' \<notin> set (int_str k)" for k by (rule int_str_no_comma)
  have eq: "int_str i @ s = int_str j @ t" using assms(1) JInt j by simp
  have pad: "u @ [CHR '',''] = CHR '','' # (tl u @ [CHR '',''])" if "u \<noteq> []" "hd u = CHR '',''" for u :: string
    using that by (cases u) simp_all
  define s' where "s' = (if s = [] then [] else tl s @ [CHR '',''])"
  define t' where "t' = (if t = [] then [] else tl t @ [CHR '',''])"
  have s': "s @ [CHR '',''] = CHR '','' # s'" using assms(2) pad[of s] by (auto simp: s'_def)
  have t': "t @ [CHR '',''] = CHR '','' # t'" using assms(3) pad[of t] by (auto simp: t'_def)
  have "(int_str i @ s) @ [CHR '',''] = (int_str j @ t) @ [CHR '','']" using eq by simp
  then have "int_str i @ CHR '','' # s' = int_str j @ CHR '','' # t'"
    by (simp only: append_assoc s' t')
  then have "int_str i = int_str j" using append_sep_eq[OF _ nc nc] by blast
  then show ?thesis using JInt j int_str_inj[of i j] eq by simp
qed

lemma json_items_inj:
  "join_with (CHR '','') (map json_item_text xs) @ [CHR '']''] = join_with (CHR '','') (map json_item_text ys) @ [CHR '']''] \<Longrightarrow>
   map is_JStr xs = map is_JStr ys \<Longrightarrow> xs = ys"
proof (induction xs arbitrary: ys)
  case Nil
  then show ?case by simp
next
  case (Cons x xs)
  then obtain y ys' where ys: "ys = y # ys'" by (cases ys) auto
  define rest where "rest zs = (if zs = [] then [] else CHR '','' # join_with (CHR '','') (map json_item_text zs))" for zs
  have unfold: "join_with (CHR '','') (map json_item_text (z # zs)) = json_item_text z @ rest zs" for z zs
    by (cases zs) (simp_all add: rest_def)
  have eq: "json_item_text x @ rest xs = json_item_text y @ rest ys'"
    using Cons.prems(1) ys unfold by simp
  have "x = y \<and> rest xs = rest ys'"
    by (rule json_item_sep[OF eq]) (use Cons.prems(2) ys in \<open>auto simp: rest_def\<close>)
  moreover have "xs = ys'" if "rest xs = rest ys'"
  proof (cases "xs = []")
    case True
    then show ?thesis using that by (auto simp: rest_def split: if_splits)
  next
    case False
    then have "ys' \<noteq> []" using that by (auto simp: rest_def)
    then show ?thesis using that False Cons.IH[of ys'] Cons.prems(2) ys by (simp add: rest_def)
  qed
  ultimately show ?case using ys by blast
qed

lemma audit_text_inj:
  "audit_text i seq ts actor category action resource outcome details prev =
   audit_text i' seq' ts' actor' category' action' resource' outcome' details' prev' \<Longrightarrow>
   i = i' \<and> seq = seq' \<and> ts = ts' \<and> actor = actor' \<and> category = category' \<and> action = action' \<and>
   resource = resource' \<and> outcome = outcome' \<and> details = details' \<and> prev = prev'"
proof -
  assume "audit_text i seq ts actor category action resource outcome details prev =
   audit_text i' seq' ts' actor' category' action' resource' outcome' details' prev'"
  then have "[JStr i, JInt seq, JStr ts, JStr actor, JStr category, JStr action, JStr resource, JStr outcome,
      JStr details, JStr prev] = [JStr i', JInt seq', JStr ts', JStr actor', JStr category', JStr action',
      JStr resource', JStr outcome', JStr details', JStr prev']"
    unfolding audit_text_def json_array_def by (intro json_items_inj) (simp_all only: append.simps list.inject, simp)
  then show ?thesis by simp
qed

interpretation audit: hash_chain au_prev_hash au_hash "row_text lib" "al_sha256 lib" audit_genesis "\<lambda>_. True"
  for lib
  by unfold_locales (auto simp: row_text_def dest: audit_text_inj)

abbreviation audit_chained :: "('ts, 'd) audit_lib \<Rightarrow> string \<Rightarrow> ('ts, 'd) audit_row list \<Rightarrow> bool" where
  "audit_chained lib \<equiv> chained au_prev_hash au_hash (\<lambda>r. al_sha256 lib (row_text lib r))"

lemma expected_hash_text: "expected_hash lib r = al_sha256 lib (row_text lib r)"
  by (simp add: expected_hash_def row_text_def compute_hash_def)

section \<open>Ledgers\<close>

text \<open>A ledger in order: chained from the genesis hash and numbered 1, 2, 3 and so on.\<close>

definition ledger_ok :: "('ts, 'd) audit_lib \<Rightarrow> ('ts, 'd) audit_row list \<Rightarrow> bool" where
  "ledger_ok lib rows \<longleftrightarrow>
     audit_chained lib audit_genesis rows \<and> map au_seq rows = map int [1..<Suc (length rows)]"

lemma ledger_ok_Nil [simp]: "ledger_ok lib []"
  by (simp add: ledger_ok_def)

lemma ledger_seqs: "ledger_ok lib rows \<Longrightarrow> set (map au_seq rows) = {1..int (length rows)}"
proof -
  assume "ledger_ok lib rows"
  then have "set (map au_seq rows) = int ` {1..<Suc (length rows)}"
    unfolding ledger_ok_def by (metis set_map set_upt)
  also have "\<dots> = {1..int (length rows)}"
    by (simp add: image_int_atLeastLessThan) auto
  finally show ?thesis .
qed

lemma row_of_max_seq_last:
  "map au_seq rows = map int [k..<k + length rows] \<Longrightarrow> rows \<noteq> [] \<Longrightarrow> row_of_max_seq rows = Some (last rows)"
proof (induction rows arbitrary: k)
  case (Cons r rs)
  have r: "au_seq r = int k" and rs: "map au_seq rs = map int [Suc k..<Suc k + length rs]"
    using Cons.prems(1) by (simp_all add: upt_conv_Cons del: upt_Suc)
  show ?case
  proof (cases "rs = []")
    case False
    then have "au_seq (last rs) \<in> set (map au_seq rs)" by simp
    then have "au_seq (last rs) \<ge> au_seq r" unfolding rs by (auto simp: r)
    then show ?thesis using Cons.IH[OF rs] False by simp
  qed simp
qed simp

lemma ledger_head:
  assumes "ledger_ok lib rows"
  shows "next_seq_and_prev_hash rows =
    (int (length rows) + 1, chain_head au_hash audit_genesis rows)"
proof (cases rows rule: rev_cases)
  case Nil
  then show ?thesis by (simp add: next_seq_and_prev_hash_def)
next
  case (snoc rs r)
  have "row_of_max_seq rows = Some r"
    using row_of_max_seq_last[of rows 1] assms snoc by (simp add: ledger_ok_def del: upt_Suc)
  moreover have "au_seq r = int (length rows)" "au_hash r = al_sha256 lib (row_text lib r)"
    using assms snoc by (simp_all add: ledger_ok_def chained_snoc)
  ultimately show ?thesis using snoc by (simp add: next_seq_and_prev_hash_def)
qed

lemma build_row_sound:
  "au_seq (build_row lib e now h) = fst h" "au_prev_hash (build_row lib e now h) = snd h"
  "au_hash (build_row lib e now h) = al_sha256 lib (row_text lib (build_row lib e now h))"
  by (simp_all add: build_row_def row_text_def compute_hash_def)

text \<open>A row built on the head of a ledger extends exactly that ledger.\<close>

lemma ledger_snoc:
  "ledger_ok lib rows \<Longrightarrow> ledger_ok lib (rows @ [build_row lib e now (next_seq_and_prev_hash rows)])"
  by (simp add: ledger_head) (simp add: ledger_ok_def chained_snoc build_row_sound)

lemma ledger_take: "ledger_ok lib rows \<Longrightarrow> ledger_ok lib (take n rows)"
proof -
  assume ok: "ledger_ok lib rows"
  have "audit_chained lib audit_genesis (take n rows @ drop n rows)" using ok by (simp add: ledger_ok_def)
  then have "audit_chained lib audit_genesis (take n rows)" by (rule audit.prefix_chained)
  moreover have "map au_seq (take n rows) = map int [1..<Suc (length (take n rows))]"
  proof -
    have "map au_seq (take n rows) = take n (map au_seq rows)" by (rule take_map[symmetric])
    also have "map au_seq rows = map int [1..<Suc (length rows)]" using ok unfolding ledger_ok_def by blast
    also have "take n \<dots> = map int (take n [1..<Suc (length rows)])" by (rule take_map)
    also have "\<dots> = map int [1..<Suc (min n (length rows))]"
      by (cases "n \<le> length rows") (simp_all add: take_upt min_def del: upt_Suc)
    finally show ?thesis by (simp only: length_take min.commute)
  qed
  ultimately show ?thesis by (simp add: ledger_ok_def)
qed

text \<open>An insert whose head was read on an earlier prefix: it extends the ledger or is refused.\<close>

lemma stale_insert:
  assumes "ledger_ok lib rows" and "n \<le> length rows"
    and "r = build_row lib e now (next_seq_and_prev_hash (take n rows))"
  shows "insert_row r rows =
    (if n = length rows then (Inr r, rows @ [r]) else (Inl IntegrityError, rows))"
proof -
  have "au_seq r = int n + 1"
    using assms(2,3) ledger_head[OF ledger_take[OF assms(1), of n]] by (simp add: build_row_sound min_def)
  moreover have "set (map au_seq rows) = {1..int (length rows)}" by (rule ledger_seqs[OF assms(1)])
  ultimately show ?thesis using assms(2) by (simp add: insert_row_def)
qed

section \<open>Concurrent writers\<close>

text \<open>
  Writers are numbered; \<^verbatim>\<open>pending w\<close> is the row that writer \<^verbatim>\<open>w\<close> has built on the head it read and
  not yet inserted.  Reads and inserts of different writers interleave in any order.
\<close>

inductive audit_step ::
  "('ts, 'd) audit_lib \<Rightarrow> ('ts, 'd) audit_row list \<times> (nat \<rightharpoonup> ('ts, 'd) audit_row)
     \<Rightarrow> ('ts, 'd) audit_row list \<times> (nat \<rightharpoonup> ('ts, 'd) audit_row) \<Rightarrow> bool" for lib where
  read_head: "audit_step lib (rows, p) (rows, p(w \<mapsto> build_row lib e now (next_seq_and_prev_hash rows)))"
| insert_pending: "p w = Some r \<Longrightarrow> audit_step lib (rows, p) (snd (insert_row r rows), p(w := None))"

inductive_cases audit_stepE: "audit_step lib s s'"

definition ledger_inv ::
  "('ts, 'd) audit_lib \<Rightarrow> ('ts, 'd) audit_row list \<times> (nat \<rightharpoonup> ('ts, 'd) audit_row) \<Rightarrow> bool" where
  "ledger_inv lib s \<longleftrightarrow> ledger_ok lib (fst s) \<and>
     (\<forall>w r. snd s w = Some r \<longrightarrow>
        (\<exists>n \<le> length (fst s). \<exists>e now. r = build_row lib e now (next_seq_and_prev_hash (take n (fst s)))))"

lemma ledger_inv_step: "audit_step lib s s' \<Longrightarrow> ledger_inv lib s \<Longrightarrow> ledger_inv lib s'"
proof (induction rule: audit_step.induct)
  case (read_head rows p w e now)
  have "\<exists>n \<le> length rows. \<exists>e' now'. build_row lib e now (next_seq_and_prev_hash rows) =
      build_row lib e' now' (next_seq_and_prev_hash (take n rows))"
    by (rule exI[of _ "length rows"]) auto
  then show ?case using read_head by (simp add: ledger_inv_def)
next
  case (insert_pending p w r rows)
  have ok: "ledger_ok lib rows" using insert_pending.prems by (simp add: ledger_inv_def)
  obtain n e now where n: "n \<le> length rows" "r = build_row lib e now (next_seq_and_prev_hash (take n rows))"
    using insert_pending(1) insert_pending.prems unfolding ledger_inv_def fst_conv snd_conv by blast
  note ins = stale_insert[OF ok n]
  show ?case
  proof (cases "n = length rows")
    case True
    then have "ledger_ok lib (rows @ [r])" using ledger_snoc[OF ok] n(2) by simp
    moreover have "\<exists>m \<le> length (rows @ [r]). \<exists>e now. x = build_row lib e now (next_seq_and_prev_hash (take m (rows @ [r])))"
      if "(p(w := None)) v = Some x" for v x
    proof -
      have "p v = Some x" using that by (simp split: if_splits)
      then obtain m e now where "m \<le> length rows" "x = build_row lib e now (next_seq_and_prev_hash (take m rows))"
        using insert_pending.prems unfolding ledger_inv_def fst_conv snd_conv by blast
      then show ?thesis by (intro exI[of _ m]) auto
    qed
    ultimately show ?thesis using ins True by (simp add: ledger_inv_def del: fun_upd_apply)
  next
    case False
    then show ?thesis using ins insert_pending.prems by (auto simp: ledger_inv_def)
  qed
qed

lemma ledger_inv_reachable: "(audit_step lib)\<^sup>*\<^sup>* s s' \<Longrightarrow> ledger_inv lib s \<Longrightarrow> ledger_inv lib s'"
  by (induction rule: rtranclp_induct) (auto intro: ledger_inv_step)

text \<open>C10: The ledger never forks. However the reads and the inserts of any number of concurrent
  writers interleave, starting from an empty table, the table is one chain from the genesis
  hash, numbered 1, 2, 3 without a gap or a repetition: a row built on a head that is no
  longer the head is refused by the UNIQUE constraint.\<close>

theorem audit_ledger_never_forks:
  assumes "(audit_step lib)\<^sup>*\<^sup>* ([], \<lambda>_. None) (rows, pending)"
  shows "audit_chained lib audit_genesis rows \<and> map au_seq rows = map int [1..<Suc (length rows)]"
proof -
  have "ledger_inv lib ([], \<lambda>_. None)" by (simp add: ledger_inv_def)
  then have "ledger_inv lib (rows, pending)" by (rule ledger_inv_reachable[OF assms])
  then show ?thesis by (simp add: ledger_inv_def ledger_ok_def)
qed

text \<open>Two writers read the same empty head; the first insert lands, the second is refused.\<close>

definition demo_lib :: "(unit, unit) audit_lib" where
  "demo_lib = \<lparr> al_sha256 = (\<lambda>s. s), al_iso = (\<lambda>_. ''T''), al_canonical = (\<lambda>_. ''{}'') \<rparr>"

definition demo_entry :: "string \<Rightarrow> string \<Rightarrow> unit audit_entry" where
  "demo_entry i org = \<lparr> ae_id = i, ae_org = org, ae_actor = ''u'', ae_category = ''c'', ae_action = ''a'',
     ae_resource = [], ae_outcome = ''success'', ae_details = () \<rparr>"

definition demo_row :: "string \<Rightarrow> (unit, unit) audit_row" where
  "demo_row i = build_row demo_lib (demo_entry i ''o'') () (next_seq_and_prev_hash ([] :: (unit, unit) audit_row list))"

lemma audit_ledger_never_forks_witness:
  "\<exists>rows pending. (audit_step demo_lib)\<^sup>*\<^sup>* ([], \<lambda>_. None) (rows, pending) \<and> rows = [demo_row ''a''] \<and>
     audit_chained demo_lib audit_genesis rows \<and> map au_seq rows = map int [1..<Suc (length rows)]"
proof -
  define A where "A = demo_row ''a''"
  define B where "B = demo_row ''b''"
  have 1: "audit_step demo_lib ([], \<lambda>_. None) ([], [0 \<mapsto> A])"
    unfolding A_def demo_row_def by (rule audit_step.read_head)
  have 2: "audit_step demo_lib ([], [0 \<mapsto> A]) ([], [0 \<mapsto> A, 1 \<mapsto> B])"
    unfolding B_def demo_row_def by (rule audit_step.read_head)
  have 3: "audit_step demo_lib ([], [0 \<mapsto> A, 1 \<mapsto> B]) (snd (insert_row A []), ([0 \<mapsto> A, 1 \<mapsto> B])(0 := None))"
    by (rule audit_step.insert_pending) simp
  have i3: "snd (insert_row A []) = [A]" by (simp add: insert_row_def)
  have 4: "audit_step demo_lib ([A], ([0 \<mapsto> A, 1 \<mapsto> B])(0 := None))
      (snd (insert_row B [A]), (([0 \<mapsto> A, 1 \<mapsto> B])(0 := None))(1 := None))"
    by (rule audit_step.insert_pending) simp
  have i4: "snd (insert_row B [A]) = [A]"
    by (simp add: insert_row_def A_def B_def demo_row_def build_row_def)
  have reach: "(audit_step demo_lib)\<^sup>*\<^sup>* ([], \<lambda>_. None) ([A], (([0 \<mapsto> A, 1 \<mapsto> B])(0 := None))(1 := None))"
    using 1 2 3 4 unfolding i3 i4 by (meson converse_rtranclp_into_rtranclp rtranclp.rtrancl_refl)
  show ?thesis using reach audit_ledger_never_forks[OF reach] unfolding A_def by blast
qed

section \<open>The retry loop\<close>

text \<open>Other writers only append, and keep the table a ledger.\<close>

definition appends_only ::
  "('ts, 'd) audit_lib \<Rightarrow> (('ts, 'd) audit_row list \<Rightarrow> ('ts, 'd) audit_row list) \<Rightarrow> bool" where
  "appends_only lib f \<longleftrightarrow> (\<forall>t. ledger_ok lib t \<longrightarrow> ledger_ok lib (f t) \<and> take (length t) (f t) = t)"

lemma appends_onlyD:
  "appends_only lib f \<Longrightarrow> ledger_ok lib t \<Longrightarrow> ledger_ok lib (f t) \<and> (\<exists>u. f t = t @ u)"
  unfolding appends_only_def by (metis append_take_drop_id)

lemma append_once_cases:
  assumes "ledger_ok lib rows" and "appends_only lib f"
  shows "append_once lib f e now rows =
    (if f rows = rows
     then (Inr (build_row lib e now (next_seq_and_prev_hash rows)), rows @ [build_row lib e now (next_seq_and_prev_hash rows)])
     else (Inl IntegrityError, f rows))"
proof -
  obtain u where u: "f rows = rows @ u" "ledger_ok lib (f rows)" using appends_onlyD[OF assms(2,1)] by blast
  have "insert_row (build_row lib e now (next_seq_and_prev_hash (take (length rows) (f rows)))) (f rows) =
    (if length rows = length (f rows)
     then (Inr (build_row lib e now (next_seq_and_prev_hash rows)), f rows @ [build_row lib e now (next_seq_and_prev_hash rows)])
     else (Inl IntegrityError, f rows))"
    by (subst stale_insert[OF u(2) _ refl]) (simp_all add: u(1))
  then show ?thesis by (auto simp: append_once_def u(1))
qed

lemma record_attempts_spec:
  assumes "ledger_ok lib rows" and "\<And>i. appends_only lib (other i)"
  shows "case record_attempts lib n other now e rows of
      (Inr r, rows') \<Rightarrow> ledger_ok lib rows' \<and>
        (\<exists>t k. rows' = rows @ t @ [r] \<and> rows @ t = fold other (rev [k..<n]) rows \<and> k < n \<and>
           r = build_row lib e (now k) (next_seq_and_prev_hash (rows @ t)))
    | (Inl err, rows') \<Rightarrow> ledger_ok lib rows' \<and> rows' = fold other (rev [0..<n]) rows \<and>
        (\<exists>t. rows' = rows @ t \<and> n \<le> length t)"
  using assms(1)
proof (induction n arbitrary: rows)
  case (Suc n)
  obtain u where u: "other n rows = rows @ u" "ledger_ok lib (rows @ u)"
    using appends_onlyD[OF assms(2) Suc.prems, of n] by auto
  show ?case
  proof (cases "other n rows = rows")
    case True
    then show ?thesis
      using ledger_snoc[OF Suc.prems] append_once_cases[OF Suc.prems assms(2), of n]
      by (auto intro!: exI[of _ "[]"] exI[of _ n])
  next
    case False
    then have len: "1 \<le> length u" using u by (cases u) auto
    have once: "append_once lib (other n) e (now n) rows = (Inl IntegrityError, rows @ u)"
      using append_once_cases[OF Suc.prems assms(2), of n e "now n"] False u by simp
    obtain x rows' where run: "record_attempts lib n other now e (rows @ u) = (x, rows')" by fastforce
    show ?thesis
    proof (cases x)
      case (Inl err)
      then have "ledger_ok lib rows'" "rows' = fold other (rev [0..<n]) (rows @ u)"
        "\<exists>t. rows' = (rows @ u) @ t \<and> n \<le> length t"
        using Suc.IH[OF u(2)] run by auto
      moreover from this(3) have "\<exists>t. rows' = rows @ t \<and> Suc n \<le> length t"
        using len by (metis append_assoc length_append add_mono plus_1_eq_Suc)
      ultimately show ?thesis using once run Inl u by simp
    next
      case (Inr r)
      then obtain t k where "ledger_ok lib rows'" "rows' = (rows @ u) @ t @ [r]" "k < n"
        "(rows @ u) @ t = fold other (rev [k..<n]) (rows @ u)"
        "r = build_row lib e (now k) (next_seq_and_prev_hash ((rows @ u) @ t))"
        using Suc.IH[OF u(2)] run by auto
      then show ?thesis using once run Inr u by (auto intro!: exI[of _ "u @ t"] exI[of _ k])
    qed
  qed
qed simp

text \<open>C39: An audited action lands on the ledger or was outraced five times. While other writers
  only append, an append either returns its row as the newest one of a ledger that extends the
  one it found, behind what the other writers left in the meantime and nothing else, with the
  hash recomputed on the head of the attempt that succeeded; or it raises
  the integrity error, and then each of the five attempts lost to at least one row of another
  writer, the table holds exactly what those writers left, and it is still a ledger.\<close>

theorem audit_record_lands:
  assumes "ledger_ok lib rows" and "\<And>i. appends_only lib (other i)"
  shows "case audit_record lib other now e rows of
      (Inr r, rows') \<Rightarrow> ledger_ok lib rows' \<and>
        (\<exists>t k. rows' = rows @ t @ [r] \<and> rows @ t = fold other (rev [k..<5]) rows \<and> k < 5 \<and>
           r = build_row lib e (now k) (next_seq_and_prev_hash (rows @ t)))
    | (Inl err, rows') \<Rightarrow> ledger_ok lib rows' \<and> rows' = fold other [4, 3, 2, 1, 0] rows \<and>
        (\<exists>t. rows' = rows @ t \<and> 5 \<le> length t)"
proof -
  have "rev [0..<5] = [4, 3, 2, 1, 0 :: nat]" by (simp add: upt_rec)
  then show ?thesis
    using record_attempts_spec[where lib = lib and rows = rows and other = other and n = 5, OF assms]
    unfolding audit_record_def max_append_attempts_def by (simp only:)
qed

text \<open>Another writer commits one row during the first attempt; the second attempt lands after it.\<close>

definition demo_other :: "nat \<Rightarrow> (unit, unit) audit_row list \<Rightarrow> (unit, unit) audit_row list" where
  "demo_other i t = (if i = 4 then t @ [build_row demo_lib (demo_entry ''x'' ''p'') () (next_seq_and_prev_hash t)] else t)"

lemma demo_other_appends: "appends_only demo_lib (demo_other i)"
  by (simp add: appends_only_def demo_other_def ledger_snoc)

lemma audit_record_lands_witness:
  "case audit_record demo_lib demo_other (\<lambda>_. ()) (demo_entry ''a'' ''o'') [] of
      (Inr r, rows') \<Rightarrow> ledger_ok demo_lib rows' \<and> length rows' = 2 \<and> au_seq r = 2
    | (Inl err, rows') \<Rightarrow> False"
proof -
  have run: "case audit_record demo_lib demo_other (\<lambda>_. ()) (demo_entry ''a'' ''o'') [] of
      (Inr r, rows') \<Rightarrow> length rows' = 2 \<and> au_seq r = 2 | (Inl err, rows') \<Rightarrow> False"
    by code_simp
  have "case audit_record demo_lib demo_other (\<lambda>_. ()) (demo_entry ''a'' ''o'') [] of
      (Inr r, rows') \<Rightarrow> ledger_ok demo_lib rows' \<and>
        (\<exists>t k. rows' = [] @ t @ [r] \<and> [] @ t = fold demo_other (rev [k..<5]) [] \<and> k < (5 :: nat) \<and>
           r = build_row demo_lib (demo_entry ''a'' ''o'') () (next_seq_and_prev_hash ([] @ t)))
    | (Inl err, rows') \<Rightarrow> ledger_ok demo_lib rows' \<and> rows' = fold demo_other [4, 3, 2, 1, 0] [] \<and>
        (\<exists>t. rows' = [] @ t \<and> 5 \<le> length t)"
    by (rule audit_record_lands[OF ledger_ok_Nil demo_other_appends])
  then show ?thesis using run
    by (cases "audit_record demo_lib demo_other (\<lambda>_. ()) (demo_entry ''a'' ''o'') []") (simp split: sum.splits)
qed

section \<open>What the check finds\<close>

lemma verify_rows_all_orgs:
  "(\<forall>org. verify_rows lib org prev rs = []) \<longleftrightarrow> audit_chained lib prev rs"
proof (induction rs arbitrary: prev)
  case (Cons r rs)
  have "(\<forall>org. verify_rows lib org prev (r # rs) = []) \<longleftrightarrow>
      au_prev_hash r = prev \<and> au_hash r = expected_hash lib r \<and> (\<forall>org. verify_rows lib org (au_hash r) rs = [])"
    by (auto split: if_splits)
  then show ?case using Cons.IH[of "au_hash r"] by (auto simp: expected_hash_text)
qed simp

lemma verify_valid:
  "fst (audit_verify_chain lib org table) \<longleftrightarrow> verify_rows lib org audit_genesis (sort_key au_seq table) = []"
  by (auto simp: audit_verify_chain_def Let_def split: list.splits)

text \<open>Verification is exact over the organisations together: every organisation is told that the
  ledger is valid exactly when the whole table, in the order of its numbers, is one chain from
  the genesis hash in which every row carries the hash of its own fields.\<close>

theorem audit_verify_all_orgs:
  "(\<forall>org. fst (audit_verify_chain lib org table)) \<longleftrightarrow>
     audit_chained lib audit_genesis (sort_key au_seq table)"
  by (simp add: verify_valid verify_rows_all_orgs)

text \<open>For one organisation the check says nothing about rows of others, nor about what follows a row
  of its own.\<close>

lemma verify_rows_append:
  "verify_rows lib org prev (xs @ ys) =
     verify_rows lib org prev xs @ verify_rows lib org (chain_head au_hash prev xs) ys"
  by (induction xs arbitrary: prev) simp_all

lemma verify_rows_chained: "audit_chained lib prev rs \<Longrightarrow> verify_rows lib org prev rs = []"
  using verify_rows_all_orgs by blast

definition rewrite_row :: "('ts, 'd) audit_lib \<Rightarrow> 'd \<Rightarrow> ('ts, 'd) audit_row \<Rightarrow> ('ts, 'd) audit_row" where
  "rewrite_row lib d r = (let r' = r \<lparr> au_details := d \<rparr> in r' \<lparr> au_hash := expected_hash lib r' \<rparr>)"

lemma rewrite_row_simps [simp]:
  "au_seq (rewrite_row lib d r) = au_seq r" "au_org (rewrite_row lib d r) = au_org r"
  "au_prev_hash (rewrite_row lib d r) = au_prev_hash r"
  "expected_hash lib (rewrite_row lib d r) = au_hash (rewrite_row lib d r)"
  by (simp_all add: rewrite_row_def Let_def expected_hash_def)

lemma rewrite_unreported:
  assumes "audit_chained lib prev (xs @ r # n # ys)" and "au_org n \<noteq> au_org r"
  shows "verify_rows lib (au_org r) prev (xs @ rewrite_row lib d r # n # ys) = []"
proof -
  have xs: "audit_chained lib prev xs" and r: "au_prev_hash r = chain_head au_hash prev xs"
    and ys: "audit_chained lib (au_hash n) ys"
    using assms(1) by (simp_all add: chained_append)
  show ?thesis
    using verify_rows_chained[OF xs, of "au_org r"] verify_rows_chained[OF ys, of "au_org r"] r assms(2)
    by (simp add: verify_rows_append)
qed

text \<open>The per-organisation check has a blind spot. Take any valid ledger with a row whose
  successor belongs to another organisation, replace the row's details and recompute its hash:
  the row's own organisation is still told that the chain is valid, with no error.\<close>

theorem audit_tampering_unreported:
  assumes "audit_chained lib audit_genesis (xs @ r # n # ys)"
    and "sorted (map au_seq (xs @ r # n # ys))" and "au_org n \<noteq> au_org r"
  shows "audit_verify_chain lib (au_org r) (xs @ rewrite_row lib d r # n # ys) = (True, [])"
proof -
  have "map au_seq (xs @ rewrite_row lib d r # n # ys) = map au_seq (xs @ r # n # ys)" by simp
  then have "sorted (map au_seq (xs @ rewrite_row lib d r # n # ys))" using assms(2) by metis
  then have "sort_key au_seq (xs @ rewrite_row lib d r # n # ys) = xs @ rewrite_row lib d r # n # ys"
    by (rule sort_key_id_if_sorted)
  then have "fst (audit_verify_chain lib (au_org r) (xs @ rewrite_row lib d r # n # ys))"
    using rewrite_unreported[OF assms(1,3)] by (simp add: verify_valid)
  then show ?thesis by (simp add: audit_verify_chain_def Let_def)
qed

text \<open>Concretely: the first row of organisation \<^verbatim>\<open>o\<close>, followed by one of \<^verbatim>\<open>p\<close>, loses its details.\<close>

definition details_lib :: "(unit, string) audit_lib" where
  "details_lib = \<lparr> al_sha256 = (\<lambda>s. s), al_iso = (\<lambda>_. ''T''), al_canonical = (\<lambda>d. d) \<rparr>"

definition details_entry :: "string \<Rightarrow> string \<Rightarrow> string audit_entry" where
  "details_entry i org = \<lparr> ae_id = i, ae_org = org, ae_actor = ''u'', ae_category = ''c'', ae_action = ''a'',
     ae_resource = [], ae_outcome = ''success'', ae_details = ''{1}'' \<rparr>"

definition details_ledger :: "(unit, string) audit_row list" where
  "details_ledger =
     (let a = build_row details_lib (details_entry ''a'' ''o'') () (next_seq_and_prev_hash ([] :: (unit, string) audit_row list))
      in [a, build_row details_lib (details_entry ''b'' ''p'') () (next_seq_and_prev_hash [a])])"

lemma audit_tampering_unreported_witness:
  "\<exists>r n. details_ledger = [r, n] \<and> rewrite_row details_lib ''{2}'' r \<noteq> r \<and>
     audit_verify_chain details_lib (au_org r) [rewrite_row details_lib ''{2}'' r, n] = (True, [])"
proof -
  define a where "a = build_row details_lib (details_entry ''a'' ''o'') () (next_seq_and_prev_hash ([] :: (unit, string) audit_row list))"
  define b where "b = build_row details_lib (details_entry ''b'' ''p'') () (next_seq_and_prev_hash [a])"
  have l: "details_ledger = [a, b]" by (simp add: details_ledger_def a_def b_def Let_def)
  have "ledger_ok details_lib ([] @ [a])" unfolding a_def by (rule ledger_snoc) simp
  then have "ledger_ok details_lib ([a] @ [b])" unfolding b_def by (intro ledger_snoc) simp
  then have c: "audit_chained details_lib audit_genesis ([] @ a # b # [])"
    and s: "sorted (map au_seq ([] @ a # b # []))"
    by (simp_all add: ledger_ok_def upt_rec)
  have "au_org b \<noteq> au_org a" by (simp add: a_def b_def build_row_def details_entry_def)
  then have "audit_verify_chain details_lib (au_org a) ([] @ rewrite_row details_lib ''{2}'' a # b # []) = (True, [])"
    by (rule audit_tampering_unreported[OF c s])
  moreover have "au_details (rewrite_row details_lib ''{2}'' a) \<noteq> au_details a"
    by (simp add: rewrite_row_def Let_def a_def build_row_def details_entry_def)
  then have "rewrite_row details_lib ''{2}'' a \<noteq> a" by metis
  ultimately show ?thesis using l by auto
qed

text \<open>A query returns rows of its own organisation only, newest first, and only rows of the table.\<close>

lemma get_entries_scoped:
  "set (get_entries org actor category resource lim offset table) \<subseteq> {r \<in> set table. au_org r = org}"
  by (auto simp: get_entries_def dest!: in_set_takeD in_set_dropD)

end
