(* ===== verification/PyText.thy ===== *)
theory PyText
  imports PromptFence HashChain
begin

text \<open>
  Text operations of the Python standard library that several components use: stripping,
  splitting at a character, suffix tests, hexadecimal digits.
\<close>

definition py_strip :: "string \<Rightarrow> string" where
  "py_strip s = rev (dropWhile ws_char (rev (dropWhile ws_char s)))"

definition rstrip_char :: "char \<Rightarrow> string \<Rightarrow> string" where
  "rstrip_char c s = rev (dropWhile (\<lambda>d. d = c) (rev s))"

definition ends_with :: "string \<Rightarrow> string \<Rightarrow> bool" where
  "ends_with s t = is_prefix (rev t) (rev s)"

text \<open>\<^verbatim>\<open>s.split(d)\<close> for a one-character separator: never empty.\<close>

fun split_on :: "char \<Rightarrow> string \<Rightarrow> string list" where
  "split_on d [] = [[]]"
| "split_on d (c # s) =
     (case split_on d s of
        [] \<Rightarrow> [[c]]
      | w # ws \<Rightarrow> if c = d then [] # w # ws else (c # w) # ws)"

text \<open>\<^verbatim>\<open>s.split(d, 1)[0]\<close>.\<close>

definition before_char :: "char \<Rightarrow> string \<Rightarrow> string" where
  "before_char d s = takeWhile (\<lambda>c. c \<noteq> d) s"

definition ascii_digit :: "char \<Rightarrow> bool" where
  "ascii_digit c = (let n = (of_char c :: nat) in 48 \<le> n \<and> n \<le> 57)"

definition ascii_hex :: "char \<Rightarrow> bool" where
  "ascii_hex c = (let n = (of_char c :: nat) in
     (48 \<le> n \<and> n \<le> 57) \<or> (65 \<le> n \<and> n \<le> 70) \<or> (97 \<le> n \<and> n \<le> 102))"

definition ascii_letter :: "char \<Rightarrow> bool" where
  "ascii_letter c = (let n = (of_char c :: nat) in (65 \<le> n \<and> n \<le> 90) \<or> (97 \<le> n \<and> n \<le> 122))"

definition ascii_alnum :: "char \<Rightarrow> bool" where
  "ascii_alnum c = (ascii_letter c \<or> ascii_digit c)"

text \<open>The value of decimal and hexadecimal digits, once they are known to be digits.\<close>

definition dec_value_of :: "string \<Rightarrow> nat" where
  "dec_value_of s = foldl (\<lambda>acc c. 10 * acc + (of_char c - 48)) 0 s"

definition hex_digit_value :: "char \<Rightarrow> nat" where
  "hex_digit_value c = (let n = (of_char c :: nat) in
     if n \<le> 57 then n - 48 else if n \<le> 70 then n - 55 else n - 87)"

definition hex_value_of :: "string \<Rightarrow> nat" where
  "hex_value_of s = foldl (\<lambda>acc c. 16 * acc + hex_digit_value c) 0 s"

text \<open>\<^verbatim>\<open>'%x' % n\<close>.\<close>

function hex_text :: "nat \<Rightarrow> string" where
  "hex_text n = (if n < 16 then [hex_digit n] else hex_text (n div 16) @ [hex_digit (n mod 16)])"
  by auto
termination by (relation "measure id") auto

declare hex_text.simps [simp del]

section \<open>Laws\<close>

lemma split_on_nonempty [simp]: "split_on d s \<noteq> []"
  by (cases s) (auto split: list.splits)

lemma join_split [simp]: "join_with d (split_on d s) = s"
proof (induction s)
  case (Cons c s)
  obtain w ws where w: "split_on d s = w # ws" by (meson neq_Nil_conv split_on_nonempty)
  then show ?case using Cons.IH by (cases ws) auto
qed simp

lemma split_on_no_sep: "w \<in> set (split_on d s) \<Longrightarrow> d \<notin> set w"
proof (induction s arbitrary: w)
  case (Cons c s)
  obtain w' ws where w: "split_on d s = w' # ws" by (meson neq_Nil_conv split_on_nonempty)
  then show ?case using Cons by (auto split: if_splits)
qed simp

lemma split_on_append: "d \<notin> set x \<Longrightarrow> split_on d (x @ d # t) = x # split_on d t"
proof (induction x)
  case Nil
  then show ?case by (cases "split_on d t") auto
qed auto

lemma split_join: "ws \<noteq> [] \<Longrightarrow> \<forall>w \<in> set ws. d \<notin> set w \<Longrightarrow> split_on d (join_with d ws) = ws"
proof (induction d ws rule: join_with.induct)
  case (2 d x)
  then show ?case by (induction x) auto
next
  case (3 d x x' xs)
  then show ?case by (simp add: split_on_append)
qed simp

lemma ends_with_iff: "ends_with s t \<longleftrightarrow> (\<exists>u. s = u @ t)"
proof -
  have "ends_with s t \<longleftrightarrow> (\<exists>u. rev s = rev t @ u)" by (simp add: ends_with_def is_prefix_iff)
  also have "\<dots> \<longleftrightarrow> (\<exists>u. s = u @ t)" by (metis rev_append rev_rev_ident)
  finally show ?thesis .
qed

lemma dropWhile_idem_rev: "dropWhile P (rev (dropWhile P (rev (dropWhile P s)))) = rev (dropWhile P (rev (dropWhile P s)))"
proof (cases "dropWhile P s")
  case (Cons c t)
  then have "\<not> P c" by (metis hd_dropWhile list.distinct(1) list.sel(1))
  then have "dropWhile P (rev t @ [c]) \<noteq> []" by (simp add: dropWhile_eq_Nil_conv)
  have "\<exists>u. rev (dropWhile P (rev (c # t))) = c # u"
    using \<open>\<not> P c\<close>
  proof (induction t rule: rev_induct)
    case (snoc x t)
    then show ?case by (cases "P x") simp_all
  qed simp
  then show ?thesis using Cons \<open>\<not> P c\<close> by auto
next
  case Nil
  then show ?thesis by (simp only: Nil rev.simps dropWhile.simps)
qed

lemma py_strip_idem [simp]: "py_strip (py_strip s) = py_strip s"
  by (simp add: py_strip_def dropWhile_idem_rev)

lemma py_strip_id: "s = [] \<or> \<not> ws_char (hd s) \<and> \<not> ws_char (last s) \<Longrightarrow> py_strip s = s"
proof (cases "s = []")
  case False
  assume "s = [] \<or> \<not> ws_char (hd s) \<and> \<not> ws_char (last s)"
  then have h: "\<not> ws_char (hd s)" "\<not> ws_char (last s)" using False by simp_all
  have drop: "dropWhile ws_char t = t" if "t \<noteq> []" "\<not> ws_char (hd t)" for t
    using that by (cases t) simp_all
  show ?thesis using drop[of s] drop[of "rev s"] h False by (simp add: py_strip_def hd_rev)
qed (simp add: py_strip_def)

text \<open>Digits of a number and back.\<close>

lemma digit_char_props: "k < 10 \<Longrightarrow> of_char (digit_char k) = 48 + k" "k < 10 \<Longrightarrow> ascii_digit (digit_char k)"
  by (simp_all add: digit_char_def ascii_digit_def)

lemma dec_value_snoc: "dec_value_of (s @ [c]) = 10 * dec_value_of s + (of_char c - 48)"
  by (simp add: dec_value_of_def)

lemma dec_value_nat_digits: "dec_value_of (nat_digits n) = n"
proof (induction n rule: nat_digits.induct)
  case (1 n)
  show ?case
  proof (cases "n < 10")
    case True
    then show ?thesis by (subst nat_digits.simps) (simp add: dec_value_of_def digit_char_props)
  next
    case False
    then show ?thesis
      using 1 by (subst nat_digits.simps) (simp add: dec_value_snoc digit_char_props)
  qed
qed

lemma nat_digits_digits: "list_all ascii_digit (nat_digits n)" "nat_digits n \<noteq> []"
proof -
  have "list_all ascii_digit (nat_digits n) \<and> nat_digits n \<noteq> []"
  proof (induction n rule: nat_digits.induct)
    case (1 n)
    show ?case
      by (cases "n < 10"; subst (1 2) nat_digits.simps) (use 1 in \<open>auto simp: digit_char_props\<close>)
  qed
  then show "list_all ascii_digit (nat_digits n)" "nat_digits n \<noteq> []" by simp_all
qed

lemma digit_char_of: "ascii_digit c \<Longrightarrow> digit_char (of_char c - 48) = c"
  by (auto simp: ascii_digit_def digit_char_def Let_def)

text \<open>A decimal text without a leading zero is the text of its value.\<close>

lemma nat_digits_dec_value:
  "list_all ascii_digit s \<Longrightarrow> s \<noteq> [] \<Longrightarrow> hd s \<noteq> CHR ''0'' \<or> length s = 1 \<Longrightarrow> nat_digits (dec_value_of s) = s"
proof (induction s rule: rev_induct)
  case (snoc c s)
  define k where "k = (of_char c :: nat) - 48"
  have k: "k < 10" "digit_char k = c"
    using snoc.prems(1) digit_char_of[of c] by (auto simp: k_def ascii_digit_def Let_def)
  show ?case
  proof (cases "s = []")
    case True
    then show ?thesis using k by (subst nat_digits.simps) (simp add: dec_value_of_def k_def)
  next
    case False
    have IH: "nat_digits (dec_value_of s) = s"
      by (rule snoc.IH) (use snoc.prems False in auto)
    have "dec_value_of s \<noteq> 0"
    proof
      assume "dec_value_of s = 0"
      then have "s = [digit_char 0]" using IH by (subst (asm) nat_digits.simps) simp
      then show False using snoc.prems(3) by (simp add: digit_char_def char_of_def bit_0 bit_simps)
    qed
    moreover have "dec_value_of (s @ [c]) = 10 * dec_value_of s + k" by (simp add: dec_value_snoc k_def)
    ultimately show ?thesis using k IH by (subst nat_digits.simps) simp
  qed
qed simp

end
