(* ===== verification/IpAddress.thy ===== *)
theory IpAddress
  imports PyText
begin

text \<open>
  The part of Python's \<^verbatim>\<open>ipaddress\<close> module that the safelist and the scope check use: reading an
  address, its canonical text, and the special-purpose ranges, as in the standard library of
  Python 3.12.  An address is its number; an IPv6 address may carry a scope.
\<close>

datatype ip = V4 nat | V6 nat "string option"

section \<open>Reading\<close>

definition parse_octet :: "string \<Rightarrow> nat option" where
  "parse_octet s =
     (if s = [] \<or> \<not> list_all ascii_digit s \<or> 3 < length s \<or> (s \<noteq> ''0'' \<and> hd s = CHR ''0'') then None
      else let n = dec_value_of s in if 255 < n then None else Some n)"

definition v4_number :: "nat \<Rightarrow> nat \<Rightarrow> nat \<Rightarrow> nat \<Rightarrow> nat" where
  "v4_number a b c d = ((a * 256 + b) * 256 + c) * 256 + d"

definition parse_v4 :: "string \<Rightarrow> nat option" where
  "parse_v4 s =
     (case split_on (CHR ''.'') s of
        [a, b, c, d] \<Rightarrow>
          (case (parse_octet a, parse_octet b, parse_octet c, parse_octet d) of
             (Some i, Some j, Some k, Some l) \<Rightarrow> Some (v4_number i j k l)
           | _ \<Rightarrow> None)
      | _ \<Rightarrow> None)"

definition parse_hextet :: "string \<Rightarrow> nat option" where
  "parse_hextet s = (if s = [] \<or> \<not> list_all ascii_hex s \<or> 4 < length s then None else Some (hex_value_of s))"

text \<open>The parts between colons, an IPv4 suffix turned into two of them.\<close>

definition v6_parts :: "string \<Rightarrow> string list option" where
  "v6_parts s =
     (let ps = split_on (CHR '':'') s in
      if length ps < 3 then None
      else if CHR ''.'' \<in> set (last ps) then
        map_option (\<lambda>n. butlast ps @ [hex_text (n div 65536), hex_text (n mod 65536)]) (parse_v4 (last ps))
      else Some ps)"

text \<open>How many parts stand before the double colon, how many are skipped, how many follow.\<close>

definition v6_layout :: "string list \<Rightarrow> (nat \<times> nat \<times> nat) option" where
  "v6_layout ps =
     (if 9 < length ps then None
      else case filter (\<lambda>i. ps ! i = []) [1..<length ps - 1] of
        [] \<Rightarrow> if length ps \<noteq> 8 \<or> hd ps = [] \<or> last ps = [] then None else Some (8, 0, 0)
      | [i] \<Rightarrow>
          let hi = (if hd ps = [] then i - 1 else i);
              lo = (if last ps = [] then length ps - i - 2 else length ps - i - 1)
          in if (hd ps = [] \<and> hi \<noteq> 0) \<or> (last ps = [] \<and> lo \<noteq> 0) \<or> 8 \<le> hi + lo then None
             else Some (hi, 8 - (hi + lo), lo)
      | _ \<Rightarrow> None)"

fun hextets_value :: "nat \<Rightarrow> string list \<Rightarrow> nat option" where
  "hextets_value acc [] = Some acc"
| "hextets_value acc (p # ps) =
     (case parse_hextet p of None \<Rightarrow> None | Some h \<Rightarrow> hextets_value (acc * 65536 + h) ps)"

definition parse_v6 :: "string \<Rightarrow> nat option" where
  "parse_v6 s =
     (case v6_parts s of None \<Rightarrow> None
      | Some ps \<Rightarrow>
          (case v6_layout ps of None \<Rightarrow> None
           | Some (hi, skipped, lo) \<Rightarrow>
               (case hextets_value 0 (take hi ps) of None \<Rightarrow> None
                | Some n \<Rightarrow> hextets_value (n * 65536 ^ skipped) (drop (length ps - lo) ps))))"

definition split_scope :: "string \<Rightarrow> (string \<times> string option) option" where
  "split_scope s =
     (if CHR ''%'' \<notin> set s then Some (s, None)
      else let scope = tl (dropWhile (\<lambda>c. c \<noteq> CHR ''%'') s)
           in if scope = [] \<or> CHR ''%'' \<in> set scope then None
              else Some (before_char (CHR ''%'') s, Some scope))"

definition ip_address :: "string \<Rightarrow> ip option" where
  "ip_address s =
     (if CHR ''/'' \<in> set s then None
      else case parse_v4 s of
        Some n \<Rightarrow> Some (V4 n)
      | None \<Rightarrow>
          (case split_scope s of None \<Rightarrow> None
           | Some (a, scope) \<Rightarrow> map_option (\<lambda>n. V6 n scope) (parse_v6 a)))"

section \<open>Canonical text\<close>

definition v4_text :: "nat \<Rightarrow> string" where
  "v4_text n = join_with (CHR ''.'')
     (map nat_digits [n div 16777216, n div 65536 mod 256, n div 256 mod 256, n mod 256])"

text \<open>The first longest run of zero parts: position and length.\<close>

fun best_run :: "nat \<Rightarrow> nat \<Rightarrow> nat \<Rightarrow> nat \<times> nat \<Rightarrow> string list \<Rightarrow> nat \<times> nat" where
  "best_run i start len best [] = best"
| "best_run i start len best (h # hs) =
     (if h = ''0'' then
        (let start' = (if len = 0 then i else start)
         in best_run (Suc i) start' (Suc len) (if snd best < Suc len then (start', Suc len) else best) hs)
      else best_run (Suc i) 0 0 best hs)"

definition compress_hextets :: "string list \<Rightarrow> string list" where
  "compress_hextets hs =
     (case best_run 0 0 0 (0, 0) hs of (start, len) \<Rightarrow>
        if 1 < len then
          (let hs' = (if start + len = length hs then hs @ [[]] else hs);
               cut = take start hs' @ [[]] @ drop (start + len) hs'
           in if start = 0 then [] # cut else cut)
        else hs)"

definition v6_text :: "nat \<Rightarrow> string" where
  "v6_text n = join_with (CHR '':'')
     (compress_hextets (map (\<lambda>k. hex_text (n div 65536 ^ k mod 65536)) (rev [0..<8])))"

fun ip_text :: "ip \<Rightarrow> string" where
  "ip_text (V4 n) = v4_text n"
| "ip_text (V6 n scope) = v6_text n @ (case scope of None \<Rightarrow> [] | Some s \<Rightarrow> CHR ''%'' # s)"

section \<open>Ranges\<close>

definition in_net :: "nat \<Rightarrow> nat \<Rightarrow> nat \<times> nat \<Rightarrow> bool" where
  "in_net bits n net = (n div 2 ^ (bits - snd net) = fst net div 2 ^ (bits - snd net))"

definition v4_private_nets :: "(nat \<times> nat) list" where
  "v4_private_nets =
     [(v4_number 0 0 0 0, 8), (v4_number 10 0 0 0, 8), (v4_number 127 0 0 0, 8), (v4_number 169 254 0 0, 16),
      (v4_number 172 16 0 0, 12), (v4_number 192 0 0 0, 24), (v4_number 192 0 0 170, 31), (v4_number 192 0 2 0, 24),
      (v4_number 192 168 0 0, 16), (v4_number 198 18 0 0, 15), (v4_number 198 51 100 0, 24),
      (v4_number 203 0 113 0, 24), (v4_number 240 0 0 0, 4), (v4_number 255 255 255 255, 32)]"

definition v4_private_exceptions :: "(nat \<times> nat) list" where
  "v4_private_exceptions = [(v4_number 192 0 0 9, 32), (v4_number 192 0 0 10, 32)]"

definition v4_private :: "nat \<Rightarrow> bool" where
  "v4_private n = (list_ex (in_net 32 n) v4_private_nets \<and> \<not> list_ex (in_net 32 n) v4_private_exceptions)"

text \<open>The first hextets of an IPv6 network, the rest zero.\<close>

definition v6_prefix :: "nat list \<Rightarrow> nat" where
  "v6_prefix hs = foldl (\<lambda>acc h. acc * 65536 + h) 0 hs * 65536 ^ (8 - length hs)"

definition v6_private_nets :: "(nat \<times> nat) list" where
  "v6_private_nets =
     [(1, 128), (0, 128), (v6_prefix [0, 0, 0, 0, 0, 65535], 96), (v6_prefix [100, 65435, 1], 48),
      (v6_prefix [256], 64), (v6_prefix [8193], 23), (v6_prefix [8193, 3512], 32), (v6_prefix [8194], 16),
      (v6_prefix [64512], 7), (v6_prefix [65152], 10)]"

definition v6_private_exceptions :: "(nat \<times> nat) list" where
  "v6_private_exceptions =
     [(v6_prefix [8193, 1, 0, 0, 0, 0, 0, 1], 128), (v6_prefix [8193, 1, 0, 0, 0, 0, 0, 2], 128),
      (v6_prefix [8193, 3], 32), (v6_prefix [8193, 4, 274], 48), (v6_prefix [8193, 32], 28), (v6_prefix [8193, 48], 28)]"

definition v6_private :: "nat \<Rightarrow> bool" where
  "v6_private n =
     (if n div 2 ^ 32 = 65535 then v4_private (n mod 2 ^ 32)
      else list_ex (in_net 128 n) v6_private_nets \<and> \<not> list_ex (in_net 128 n) v6_private_exceptions)"

definition v6_reserved_nets :: "(nat \<times> nat) list" where
  "v6_reserved_nets =
     [(0, 8), (v6_prefix [256], 8), (v6_prefix [512], 7), (v6_prefix [1024], 6), (v6_prefix [2048], 5),
      (v6_prefix [4096], 4), (v6_prefix [16384], 3), (v6_prefix [24576], 3), (v6_prefix [32768], 3),
      (v6_prefix [40960], 3), (v6_prefix [49152], 3), (v6_prefix [57344], 4), (v6_prefix [61440], 5),
      (v6_prefix [63488], 6), (v6_prefix [65024], 9)]"

fun is_private :: "ip \<Rightarrow> bool" where
  "is_private (V4 n) = v4_private n"
| "is_private (V6 n scope) = v6_private n"

fun is_loopback :: "ip \<Rightarrow> bool" where
  "is_loopback (V4 n) = in_net 32 n (v4_number 127 0 0 0, 8)"
| "is_loopback (V6 n scope) = (n = 1)"

fun is_reserved :: "ip \<Rightarrow> bool" where
  "is_reserved (V4 n) = in_net 32 n (v4_number 240 0 0 0, 4)"
| "is_reserved (V6 n scope) = list_ex (in_net 128 n) v6_reserved_nets"

fun is_link_local :: "ip \<Rightarrow> bool" where
  "is_link_local (V4 n) = in_net 32 n (v4_number 169 254 0 0, 16)"
| "is_link_local (V6 n scope) = in_net 128 n (v6_prefix [65152], 10)"

fun is_multicast :: "ip \<Rightarrow> bool" where
  "is_multicast (V4 n) = in_net 32 n (v4_number 224 0 0 0, 4)"
| "is_multicast (V6 n scope) = in_net 128 n (v6_prefix [65280], 8)"

section \<open>Laws of IPv4 text\<close>

text \<open>An octet is read from its own decimal text only.\<close>

lemma parse_octet_iff: "parse_octet s = Some n \<longleftrightarrow> n < 256 \<and> s = nat_digits n"
proof
  assume p: "parse_octet s = Some n"
  then have d: "list_all ascii_digit s" "s \<noteq> []" "s = ''0'' \<or> hd s \<noteq> CHR ''0''" "n = dec_value_of s" "n < 256"
    by (auto simp: parse_octet_def Let_def split: if_splits)
  then show "n < 256 \<and> s = nat_digits n"
    using nat_digits_dec_value[of s] by auto
next
  assume n: "n < 256 \<and> s = nat_digits n"
  have three: "length (nat_digits n) \<le> 3"
  proof -
    have "length (nat_digits m) = 1" if "m < 10" for m using that by (subst nat_digits.simps) simp
    moreover have "length (nat_digits m) \<le> 2" if "m < 100" for m
      using that calculation[of m] calculation[of "m div 10"] by (cases "m < 10"; subst nat_digits.simps) auto
    ultimately show ?thesis
      using n by (cases "n < 10"; cases "n < 100"; subst nat_digits.simps) auto
  qed
  have lead: "hd (nat_digits n) \<noteq> CHR ''0'' \<or> nat_digits n = ''0''"
  proof (cases "n = 0")
    case True
    then show ?thesis by (subst (2) nat_digits.simps) (simp add: digit_char_def char_of_def bit_0 bit_simps)
  next
    case False
    have "0 < m \<Longrightarrow> hd (nat_digits m) \<noteq> CHR ''0''" for m
    proof (induction m rule: nat_digits.induct)
      case (1 m)
      show ?case
      proof (cases "m < 10")
        case True
        have "digit_char m \<noteq> CHR ''0''"
        proof
          assume "digit_char m = CHR ''0''"
          then have "(of_char (digit_char m) :: nat) = of_char (CHR ''0'')" by simp
          then show False using True 1 by (simp add: digit_char_props)
        qed
        then show ?thesis using True by (subst nat_digits.simps) simp
      next
        case False
        then show ?thesis using 1 nat_digits_digits(2)[of "m div 10"]
          by (subst nat_digits.simps) simp
      qed
    qed
    then show ?thesis using False by simp
  qed
  show "parse_octet s = Some n"
    using n three lead nat_digits_digits[of n] by (auto simp: parse_octet_def dec_value_nat_digits)
qed

lemma parse_own_digits: "n < 256 \<Longrightarrow> parse_octet (nat_digits n) = Some n"
  by (simp add: parse_octet_iff)

lemma nat_digits_not_in: "\<not> ascii_digit c \<Longrightarrow> c \<notin> set (nat_digits n)"
  using nat_digits_digits(1)[of n] by (auto simp: list_all_iff)

lemma v4_split:
  "v4_number (n div 16777216) (n div 65536 mod 256) (n div 256 mod 256) (n mod 256) = n"
proof -
  have "n div 65536 = n div 256 div 256" "n div 16777216 = n div 256 div 256 div 256"
    by (simp_all add: div_mult2_eq[symmetric])
  then show ?thesis by (simp only: v4_number_def div_mult_mod_eq)
qed

lemma v4_number_split:
  assumes "i < 256" "j < 256" "k < 256" "l < 256"
  shows "v4_number i j k l div 16777216 = i" "v4_number i j k l div 65536 mod 256 = j"
    "v4_number i j k l div 256 mod 256 = k" "v4_number i j k l mod 256 = l"
proof -
  have step: "(x * 256 + d) div 256 = x" "(x * 256 + d) mod 256 = d" if "d < 256" for x d :: nat
    using that by simp_all
  have 1: "v4_number i j k l div 256 = (i * 256 + j) * 256 + k" using step(1)[OF assms(4)] by (simp only: v4_number_def)
  then have 2: "v4_number i j k l div 65536 = i * 256 + j"
    using step(1)[OF assms(3)] by (simp only: div_mult2_eq[of _ 256 256, simplified])
  then have 3: "v4_number i j k l div 16777216 = i"
    using step(1)[OF assms(2)] by (simp only: div_mult2_eq[of _ 65536 256, simplified])
  show "v4_number i j k l div 16777216 = i" by (rule 3)
  show "v4_number i j k l div 65536 mod 256 = j" using step(2)[OF assms(2)] by (simp only: 2)
  show "v4_number i j k l div 256 mod 256 = k" using step(2)[OF assms(3)] by (simp only: 1)
  show "v4_number i j k l mod 256 = l" using step(2)[OF assms(4)] by (simp only: v4_number_def)
qed

text \<open>Reading and writing of IPv4 addresses are inverse to each other: there is one text per address.\<close>

lemma parse_v4_iff: "parse_v4 s = Some n \<longleftrightarrow> n < 2 ^ 32 \<and> s = v4_text n"
proof
  assume "parse_v4 s = Some n"
  then obtain a b c d i j k l where
    sp: "split_on (CHR ''.'') s = [a, b, c, d]" and
    oct: "parse_octet a = Some i" "parse_octet b = Some j" "parse_octet c = Some k" "parse_octet d = Some l" and
    n: "n = v4_number i j k l"
    by (auto simp: parse_v4_def split: list.splits option.splits)
  have lt: "i < 256" "j < 256" "k < 256" "l < 256" and tx: "a = nat_digits i" "b = nat_digits j" "c = nat_digits k" "d = nat_digits l"
    using oct by (simp_all add: parse_octet_iff)
  note v4_number_split[OF lt, folded n]
  moreover have "n < 2 ^ 32" using lt unfolding n v4_number_def by simp
  moreover have "s = join_with (CHR ''.'') [a, b, c, d]" using join_split[of "CHR ''.''" s] sp by simp
  ultimately show "n < 2 ^ 32 \<and> s = v4_text n" using tx by (simp add: v4_text_def)
next
  assume n: "n < 2 ^ 32 \<and> s = v4_text n"
  define ws where "ws = map nat_digits [n div 16777216, n div 65536 mod 256, n div 256 mod 256, n mod 256]"
  have "\<not> ascii_digit (CHR ''.'')" by (simp add: ascii_digit_def)
  then have "split_on (CHR ''.'') (join_with (CHR ''.'') ws) = ws"
    by (intro split_join) (auto simp: ws_def nat_digits_not_in)
  moreover have "n div 16777216 < 256" using n by (simp add: less_mult_imp_div_less)
  ultimately show "parse_v4 s = Some n"
    using n v4_split[of n] by (simp add: parse_v4_def v4_text_def ws_def parse_own_digits)
qed

lemma ip_address_V4_iff: "ip_address s = Some (V4 n) \<longleftrightarrow> n < 2 ^ 32 \<and> s = v4_text n"
proof -
  have no_slash: "CHR ''/'' \<notin> set (v4_text n)"
    using nat_digits_not_in[of "CHR ''/''"] by (simp add: v4_text_def ascii_digit_def)
  have "ip_address s = Some (V4 n) \<longleftrightarrow> CHR ''/'' \<notin> set s \<and> parse_v4 s = Some n"
    by (cases "parse_v4 s"; cases "split_scope s") (auto simp: ip_address_def)
  then show ?thesis using no_slash by (auto simp: parse_v4_iff)
qed

end
