(* ===== verification/Safelist.thy ===== *)
theory Safelist
  imports IpAddress
begin

text \<open>
  The never-touch safelist: the policy of shared/btagent_shared/security/safelist.py and the
  organisation's table of backend/btagent_backend/services/response_safelist_service.py.  The
  table is the list of its rows, oldest first.
\<close>

section \<open>The policy\<close>

definition baseline_ips :: "string list" where
  "baseline_ips = [''8.8.8.8'', ''8.8.4.4'', ''1.1.1.1'', ''1.0.0.1'', ''9.9.9.9'', ''208.67.222.222'', ''208.67.220.220'']"

definition baseline_domain_suffixes :: "string list" where
  "baseline_domain_suffixes =
     [''microsoft.com'', ''windowsupdate.com'', ''office.com'', ''office365.com'', ''google.com'', ''googleapis.com'',
      ''apple.com'', ''amazonaws.com'', ''cloudflare.com'', ''akamai.net'', ''icloud.com'']"

definition is_structurally_reserved_ip :: "string \<Rightarrow> bool" where
  "is_structurally_reserved_ip value =
     (case ip_address (py_strip value) of
        None \<Rightarrow> False
      | Some ip \<Rightarrow> is_private ip \<or> is_loopback ip \<or> is_reserved ip \<or> is_link_local ip \<or> is_multicast ip)"

text \<open>The pattern \<^verbatim>\<open>^https?://\<close> without regard to case.\<close>

definition drop_scheme :: "string \<Rightarrow> string" where
  "drop_scheme s =
     (if lower (take 8 s) = ''https://'' then drop 8 s
      else if lower (take 7 s) = ''http://'' then drop 7 s
      else s)"

definition domain_from_url :: "string \<Rightarrow> string" where
  "domain_from_url value =
     before_char (CHR ''#'') (before_char (CHR ''?'') (before_char (CHR ''/'') (drop_scheme (py_strip value))))"

definition is_account_root_principal :: "string \<Rightarrow> bool" where
  "is_account_root_principal value =
     (let v = rstrip_char (CHR ''/'') (lower (py_strip value)) in ends_with v '':root'' \<or> ends_with v ''/root'')"

record safelist_policy =
  sl_ips :: "string set"
  sl_suffixes :: "string list"
  sl_principals :: "string set"

definition non_blank :: "string \<Rightarrow> bool" where
  "non_blank v = (py_strip v \<noteq> [])"

definition norm_suffix :: "string \<Rightarrow> string" where
  "norm_suffix s = rstrip_char (CHR ''.'') (lower (py_strip s))"

definition norm_principal :: "string \<Rightarrow> string" where
  "norm_principal p = lower (py_strip p)"

text \<open>Construction normalises every entry and drops the blank ones.\<close>

definition make_safelist :: "string set \<Rightarrow> string list \<Rightarrow> string set \<Rightarrow> safelist_policy" where
  "make_safelist ips suffixes principals =
     \<lparr> sl_ips = py_strip ` Set.filter non_blank ips,
       sl_suffixes = map norm_suffix (filter non_blank suffixes),
       sl_principals = norm_principal ` Set.filter non_blank principals \<rparr>"

definition ip_safelisted :: "safelist_policy \<Rightarrow> string \<Rightarrow> bool" where
  "ip_safelisted pol value =
     (let v = py_strip value in is_structurally_reserved_ip v \<or> v \<in> sl_ips pol)"

definition domain_safelisted :: "safelist_policy \<Rightarrow> string \<Rightarrow> bool" where
  "domain_safelisted pol value =
     (let host = norm_suffix value in
      host \<noteq> [] \<and> list_ex (\<lambda>s. host = s \<or> ends_with host (CHR ''.'' # s)) (sl_suffixes pol))"

definition url_safelisted :: "safelist_policy \<Rightarrow> string \<Rightarrow> bool" where
  "url_safelisted pol value = domain_safelisted pol (domain_from_url value)"

definition principal_safelisted :: "safelist_policy \<Rightarrow> string \<Rightarrow> bool" where
  "principal_safelisted pol value =
     (let v = norm_principal value in
      v \<noteq> [] \<and> (is_account_root_principal v \<or> v \<in> sl_principals pol))"

definition merge_safelist :: "safelist_policy \<Rightarrow> string list \<Rightarrow> string list \<Rightarrow> string list \<Rightarrow> safelist_policy" where
  "merge_safelist pol extra_ips extra_suffixes extra_principals =
     make_safelist
       (sl_ips pol \<union> set (map py_strip (filter non_blank extra_ips)))
       (sl_suffixes pol @ map norm_suffix (filter non_blank extra_suffixes))
       (sl_principals pol \<union> set (map norm_principal (filter non_blank extra_principals)))"

definition baseline_safelist :: safelist_policy where
  "baseline_safelist = make_safelist (set baseline_ips) baseline_domain_suffixes {}"

section \<open>The organisation's table\<close>

record safelist_row =
  sr_id :: string
  sr_org :: string
  sr_type :: string
  sr_value :: string
  sr_reason :: string
  sr_created_by :: "string option"

datatype safelist_error = BadEntryType | BlankValue | ValueTooLong | BadAddress | BadDomain

definition safelist_entry_types :: "string list" where
  "safelist_entry_types = [''ip'', ''domain'', ''principal'']"

definition max_value_len :: nat where
  "max_value_len = 255"

text \<open>A trailing newline is allowed by \<^verbatim>\<open>$\<close>.\<close>

definition before_newline :: "string \<Rightarrow> string" where
  "before_newline s = (if s \<noteq> [] \<and> last s = CHR 10 then butlast s else s)"

definition domain_label :: "string \<Rightarrow> bool" where
  "domain_label l =
     (l \<noteq> [] \<and> length l \<le> 63 \<and> list_all (\<lambda>c. ascii_alnum c \<or> c = CHR ''-'') l \<and> hd l \<noteq> CHR ''-'' \<and> last l \<noteq> CHR ''-'')"

definition domain_re :: "string \<Rightarrow> bool" where
  "domain_re s =
     (let t = before_newline s; ls = split_on (CHR ''.'') t
      in 1 \<le> length t \<and> length t \<le> 253 \<and> 2 \<le> length ls \<and> list_all domain_label ls)"

definition normalize_entry :: "string \<Rightarrow> string \<Rightarrow> (safelist_error, string \<times> string) res" where
  "normalize_entry entry_type value =
     (let etype = lower (py_strip entry_type); raw = py_strip value in
      if etype \<notin> set safelist_entry_types then Inl BadEntryType
      else if raw = [] then Inl BlankValue
      else if max_value_len < length raw then Inl ValueTooLong
      else if etype = ''ip'' then
        (case ip_address raw of None \<Rightarrow> Inl BadAddress | Some a \<Rightarrow> Inr (''ip'', ip_text a))
      else if etype = ''principal'' then Inr (''principal'', lower raw)
      else let host = rstrip_char (CHR ''.'') (lower raw)
           in if domain_re host then Inr (''domain'', host) else Inl BadDomain)"

definition add_entry ::
  "string \<Rightarrow> string \<Rightarrow> string \<Rightarrow> string \<Rightarrow> string \<Rightarrow> string option \<Rightarrow> safelist_row list
     \<Rightarrow> (safelist_error, safelist_row) res \<times> safelist_row list" where
  "add_entry new_id org entry_type value reason created_by table =
     (case normalize_entry entry_type value of
        Inl e \<Rightarrow> (Inl e, table)
      | Inr (etype, val) \<Rightarrow>
          (case find (\<lambda>r. sr_org r = org \<and> sr_type r = etype \<and> sr_value r = val) table of
             Some r \<Rightarrow> (Inr r, table)
           | None \<Rightarrow>
               let r = \<lparr> sr_id = new_id, sr_org = org, sr_type = etype, sr_value = val,
                         sr_reason = py_strip reason, sr_created_by = created_by \<rparr>
               in (Inr r, table @ [r])))"

definition list_entries :: "string \<Rightarrow> safelist_row list \<Rightarrow> safelist_row list" where
  "list_entries org table = rev (filter (\<lambda>r. sr_org r = org) table)"

definition remove_entry :: "string \<Rightarrow> string \<Rightarrow> safelist_row list \<Rightarrow> safelist_row option \<times> safelist_row list" where
  "remove_entry org entry_id table =
     (case find (\<lambda>r. sr_id r = entry_id) table of
        None \<Rightarrow> (None, table)
      | Some r \<Rightarrow> if sr_org r \<noteq> org then (None, table)
                  else (Some r, filter (\<lambda>r'. sr_id r' \<noteq> entry_id) table))"

definition entry_values :: "string \<Rightarrow> safelist_row list \<Rightarrow> string list" where
  "entry_values etype rows = map sr_value (filter (\<lambda>r. sr_type r = etype) rows)"

definition load_policy :: "string \<Rightarrow> safelist_row list \<Rightarrow> safelist_policy" where
  "load_policy org table =
     (let rows = list_entries org table
      in merge_safelist baseline_safelist (entry_values ''ip'' rows) (entry_values ''domain'' rows)
           (entry_values ''principal'' rows))"

definition load_policy_tuples :: "string \<Rightarrow> safelist_row list \<Rightarrow> string list \<times> string list" where
  "load_policy_tuples org table =
     (let rows = list_entries org table in (entry_values ''ip'' rows, entry_values ''domain'' rows))"

section \<open>The effective policy\<close>

lemma ws_lower [simp]: "ws_char (lower_char c) = ws_char c"
proof -
  define n where "n = (of_char c :: nat)"
  have n: "n < 256" and c: "c = char_of n" by (simp_all add: n_def)
  have "n + 32 < 256" if "192 \<le> n" "n \<le> 222" using that by simp
  then show ?thesis using n unfolding c lower_char_def ws_char_def Let_def by auto
qed

lemma dropWhile_lower: "dropWhile ws_char (lower s) = lower (dropWhile ws_char s)"
  by (induction s) (simp_all add: lower_def)

lemma rev_lower: "rev (lower s) = lower (rev s)"
  by (simp add: lower_def rev_map)

lemma strip_lower: "py_strip (lower s) = lower (py_strip s)"
  by (simp add: py_strip_def dropWhile_lower rev_lower)

lemma norm_principal_idem [simp]: "norm_principal (norm_principal p) = norm_principal p"
  by (simp add: norm_principal_def strip_lower)

lemma rstrip_last: "rstrip_char c s \<noteq> [] \<Longrightarrow> last (rstrip_char c s) \<noteq> c"
proof -
  assume "rstrip_char c s \<noteq> []"
  then have ne: "dropWhile (\<lambda>d. d = c) (rev s) \<noteq> []" by (simp add: rstrip_char_def)
  then have "hd (dropWhile (\<lambda>d. d = c) (rev s)) \<noteq> c" by (rule hd_dropWhile)
  then show ?thesis using ne by (simp add: rstrip_char_def last_rev)
qed

lemma set_entry_values:
  "x \<in> set (entry_values etype (list_entries org table)) \<longleftrightarrow>
     (\<exists>r \<in> set table. sr_org r = org \<and> sr_type r = etype \<and> sr_value r = x)"
  by (auto simp: entry_values_def list_entries_def)

lemma merge_ips:
  "v \<in> sl_ips (merge_safelist pol ips sufs prins) \<longleftrightarrow>
     (v \<noteq> [] \<and> (v \<in> py_strip ` sl_ips pol \<or> v \<in> py_strip ` set ips))"
  by (auto simp: merge_safelist_def make_safelist_def non_blank_def image_iff Bex_def)

lemma merge_suffixes:
  "sl_suffixes (merge_safelist pol ips sufs prins) =
     map norm_suffix (filter non_blank (sl_suffixes pol)) @
     map norm_suffix (filter non_blank (map norm_suffix (filter non_blank sufs)))"
  by (simp add: merge_safelist_def make_safelist_def)

lemma merge_principals:
  "v \<in> sl_principals (merge_safelist pol ips sufs prins) \<longleftrightarrow>
     (v \<noteq> [] \<and> (v \<in> norm_principal ` sl_principals pol \<or> v \<in> norm_principal ` set prins))"
proof -
  have nb: "non_blank p \<longleftrightarrow> norm_principal p \<noteq> []" for p by (simp add: non_blank_def norm_principal_def lower_def)
  show ?thesis
    by (auto simp: merge_safelist_def make_safelist_def nb image_iff Bex_def)
qed

text \<open>A domain that passes validation is its own normal form, up to a trailing newline.\<close>

lemma label_chars: "domain_label l \<Longrightarrow> c \<in> set l \<Longrightarrow> \<not> ws_char c \<and> c \<noteq> CHR ''.''"
  by (auto simp: domain_label_def list_all_iff ascii_alnum_def ascii_letter_def ascii_digit_def ws_char_def Let_def)

lemma set_join_with: "set (join_with d ws) \<subseteq> insert d (\<Union> (set ` set ws))"
  by (induction d ws rule: join_with.induct) auto

lemma last_join_with: "ws \<noteq> [] \<Longrightarrow> last ws \<noteq> [] \<Longrightarrow> join_with d ws \<noteq> [] \<and> last (join_with d ws) = last (last ws)"
proof (induction d ws rule: join_with.induct)
  case (3 d x x' xs)
  then show ?case by (cases "join_with d (x' # xs)") (auto split: if_splits)
qed simp_all

lemma norm_suffix_plain:
  assumes "t \<noteq> []" and "\<forall>c \<in> set t. \<not> ws_char c" and "lower t = t" and "last t \<noteq> CHR ''.''"
  shows "norm_suffix t = t"
proof -
  have "py_strip t = t" using assms(1,2) by (intro py_strip_id) simp
  moreover have "rstrip_char (CHR ''.'') t = t"
    using assms(1,4) by (cases t rule: rev_cases) (simp_all add: rstrip_char_def)
  ultimately show ?thesis using assms(3) by (simp add: norm_suffix_def)
qed

lemma py_strip_newline: "t \<noteq> [] \<Longrightarrow> \<forall>c \<in> set t. \<not> ws_char c \<Longrightarrow> py_strip (t @ [CHR 10]) = t"
proof -
  assume t: "t \<noteq> []" "\<forall>c \<in> set t. \<not> ws_char c"
  then have "dropWhile ws_char (t @ [CHR 10]) = t @ [CHR 10]" by (cases t) simp_all
  moreover have "ws_char (CHR 10)" by (simp add: ws_char_def)
  moreover have "dropWhile ws_char (rev t) = rev t" using t by (cases t rule: rev_cases) simp_all
  ultimately show ?thesis by (simp add: py_strip_def)
qed

lemma domain_re_norm:
  assumes "domain_re h" and "lower h = h"
  shows "norm_suffix h \<noteq> [] \<and> norm_suffix (norm_suffix h) = norm_suffix h"
proof -
  define t where "t = before_newline h"
  define ls where "ls = split_on (CHR ''.'') t"
  have ls: "2 \<le> length ls" "list_all domain_label ls" "t \<noteq> []"
    using assms(1) by (auto simp: domain_re_def t_def ls_def Let_def)
  have t: "t = join_with (CHR ''.'') ls" by (simp add: ls_def)
  have "last ls \<in> set ls" using ls(1) by (intro last_in_set) auto
  then have lab: "domain_label (last ls)" using ls(2) by (simp add: list_all_iff)
  then have ne: "last ls \<noteq> []" by (simp add: domain_label_def)
  have "ls \<noteq> []" using ls(1) by auto
  then have "last t = last (last ls)" using last_join_with[of ls] ne t by auto
  then have dot: "last t \<noteq> CHR ''.''" using label_chars[OF lab last_in_set[OF ne]] by simp
  have "\<not> ws_char (CHR ''.'')" by (simp add: ws_char_def)
  then have ws: "\<forall>c \<in> set t. \<not> ws_char c"
    using set_join_with[of "CHR ''.''" ls] ls(2) label_chars unfolding t list_all_iff by fastforce
  have h: "h = t \<or> h = t @ [CHR 10]" by (simp add: t_def before_newline_def split: if_splits) (metis append_butlast_last_id)
  then have low: "lower t = t" using assms(2) by (auto simp: lower_append)
  have nt: "norm_suffix t = t" by (rule norm_suffix_plain[OF ls(3) ws low dot])
  have "norm_suffix (t @ [CHR 10]) = t"
    using nt py_strip_newline[OF ls(3) ws] py_strip_id[of t] ws ls(3) by (simp add: norm_suffix_def)
  then have "norm_suffix h = t" using h nt by auto
  then show ?thesis using nt ls(3) by simp
qed

lemma lower_rstrip: "lower s = s \<Longrightarrow> lower (rstrip_char c s) = rstrip_char c s"
proof -
  have "map lower_char (dropWhile P u) = dropWhile P u" if "map lower_char u = u" for P u
    using that by (induction u) auto
  from this[of "rev s" "\<lambda>d. d = c"] show "lower s = s \<Longrightarrow> lower (rstrip_char c s) = rstrip_char c s"
    by (simp add: lower_def rstrip_char_def rev_map[symmetric])
qed

lemma normalize_entry_Inr:
  assumes "normalize_entry etype value = Inr (t, v)"
  shows "(t = ''ip'' \<and> (\<exists>a. ip_address (py_strip value) = Some a \<and> v = ip_text a)) \<or>
    (t = ''domain'' \<and> norm_suffix v \<noteq> [] \<and> norm_suffix (norm_suffix v) = norm_suffix v) \<or>
    (t = ''principal'' \<and> v = norm_principal value \<and> v \<noteq> [])"
proof -
  consider (ip) a where "ip_address (py_strip value) = Some a" "t = ''ip''" "v = ip_text a"
    | (prin) "t = ''principal''" "v = lower (py_strip value)" "py_strip value \<noteq> []"
    | (dom) "t = ''domain''" "v = rstrip_char (CHR ''.'') (lower (py_strip value))" "domain_re v"
    using assms by (auto simp: normalize_entry_def Let_def split: if_splits option.splits)
  then show ?thesis
  proof cases
    case dom
    have "lower v = v" unfolding dom(2) by (rule lower_rstrip) simp
    then show ?thesis using domain_re_norm[OF dom(3)] dom(1) by simp
  qed (auto simp: norm_principal_def lower_def)
qed

lemma add_entry_Inr:
  assumes "add_entry i org etype value reason by table = (Inr r, table')"
  shows "r \<in> set table' \<and> sr_org r = org \<and> normalize_entry etype value = Inr (sr_type r, sr_value r) \<and>
    set table \<subseteq> set table' \<and> set table' \<subseteq> insert r (set table)"
  using assms
  by (auto simp: add_entry_def Let_def find_Some_iff in_set_conv_nth split: sum.splits prod.splits option.splits)

text \<open>An entry that was accepted protects its target, in every spelling.\<close>

lemma accepted_in_policy:
  assumes "add_entry i org etype value reason by table = (Inr r, table')"
  shows "sr_value r \<in> set (entry_values (sr_type r) (list_entries org table'))"
  using add_entry_Inr[OF assms] by (auto simp: set_entry_values)

lemma policy_suffix:
  assumes "v \<in> set (entry_values ''domain'' (list_entries org table))"
    and "norm_suffix v \<noteq> []" and "norm_suffix (norm_suffix v) = norm_suffix v"
  shows "norm_suffix v \<in> set (sl_suffixes (load_policy org table))"
proof -
  have nb: "non_blank x" if "norm_suffix x \<noteq> []" for x
    using that by (auto simp: norm_suffix_def non_blank_def rstrip_char_def)
  define vs where "vs = entry_values ''domain'' (list_entries org table)"
  have "v \<in> set (filter non_blank vs)" using assms(1,2) nb[of v] by (simp add: vs_def)
  then have "norm_suffix v \<in> set (map norm_suffix (filter non_blank vs))" by simp
  then have "norm_suffix v \<in> set (filter non_blank (map norm_suffix (filter non_blank vs)))"
    using assms(2,3) nb[of "norm_suffix v"] by simp
  then have "norm_suffix (norm_suffix v) \<in> set (map norm_suffix (filter non_blank (map norm_suffix (filter non_blank vs))))"
    by simp
  then have "norm_suffix v \<in> set (map norm_suffix (filter non_blank (map norm_suffix (filter non_blank vs))))"
    by (simp only: assms(3))
  then show ?thesis by (simp only: vs_def load_policy_def Let_def merge_suffixes set_append Un_iff simp_thms)
qed

text \<open>Protection of one entry: an IPv4 address in its only spelling, a domain with its subdomains, a
  principal, each up to letter case and blanks where the matching ignores them.\<close>

fun protects :: "safelist_policy \<Rightarrow> string \<Rightarrow> string \<Rightarrow> string \<Rightarrow> bool" where
  "protects pol etype value target =
     (if etype = ''ip'' then
        (case (ip_address (py_strip value), ip_address (py_strip target)) of
           (Some (V4 m), Some (V4 n)) \<Rightarrow> m = n \<longrightarrow> ip_safelisted pol target
         | _ \<Rightarrow> True)
      else if etype = ''domain'' then
        (norm_suffix target = norm_suffix value \<or> ends_with (norm_suffix target) (CHR ''.'' # norm_suffix value)
           \<longrightarrow> domain_safelisted pol target)
      else norm_principal target = norm_principal value \<longrightarrow> principal_safelisted pol target)"

text \<open>C34: A safelist entry that was accepted protects what it names. Once an organisation has added an
  entry (or it was there already), its effective policy safelists the same IPv4 address in any
  text that denotes it, the domain of the stored entry and all its subdomains whatever their
  case, trailing dots and blanks, and the principal whatever its case.\<close>

theorem safelist_entry_protects:
  assumes "add_entry i org etype value reason by table = (Inr r, table')"
  shows "protects (load_policy org table') (sr_type r)
    (if sr_type r = ''domain'' then sr_value r else value) target"
proof -
  note acc = accepted_in_policy[OF assms]
  consider (ip) a where "sr_type r = ''ip''" "ip_address (py_strip value) = Some a" "sr_value r = ip_text a"
    | (dom) "sr_type r = ''domain''" "norm_suffix (sr_value r) \<noteq> []" "norm_suffix (norm_suffix (sr_value r)) = norm_suffix (sr_value r)"
    | (prin) "sr_type r = ''principal''" "sr_value r = norm_principal value" "sr_value r \<noteq> []"
    using normalize_entry_Inr[of etype "value" "sr_type r" "sr_value r"] add_entry_Inr[OF assms] by blast
  then show ?thesis
  proof cases
    case ip
    have "ip_safelisted (load_policy org table') target"
      if "a = V4 n" "ip_address (py_strip target) = Some (V4 n)" for n
    proof -
      have "py_strip target = v4_text n" using that(2) by (simp add: ip_address_V4_iff)
      moreover have "sr_value r = v4_text n" using ip that by simp
      moreover have "py_strip target \<noteq> []"
        using that(2) by (auto simp: ip_address_def parse_v4_def split_scope_def parse_v6_def v6_parts_def)
      ultimately have "py_strip target \<in> sl_ips (load_policy org table')"
        using acc ip(1) unfolding load_policy_def Let_def merge_ips
        by (metis image_eqI py_strip_idem)
      then show ?thesis by (simp add: ip_safelisted_def)
    qed
    then show ?thesis using ip by (auto split: ip.splits option.splits)
  next
    case dom
    have "norm_suffix (sr_value r) \<in> set (sl_suffixes (load_policy org table'))"
      using policy_suffix[OF _ dom(2,3)] acc dom(1) by simp
    moreover have "\<not> ends_with [] (CHR ''.'' # s)" for s by (simp add: ends_with_iff)
    ultimately show ?thesis using dom
      by (auto simp: domain_safelisted_def Let_def list_ex_iff)
  next
    case prin
    have "norm_principal value \<in> sl_principals (load_policy org table')"
      using acc prin unfolding load_policy_def Let_def merge_principals
      by (metis image_eqI norm_principal_idem)
    then show ?thesis using prin by (auto simp: principal_safelisted_def)
  qed
qed

lemma safelist_entry_protects_witness:
  "\<exists>r table. add_entry ''s1'' ''o'' '' Domain'' ''Corp.Example.COM. '' [] None [] = (Inr r, table) \<and>
     sr_type r = ''domain'' \<and> domain_safelisted (load_policy ''o'' table) ''VPN.corp.example.com''"
proof -
  define r where "r = \<lparr> sr_id = ''s1'', sr_org = ''o'', sr_type = ''domain'', sr_value = ''corp.example.com'',
    sr_reason = [], sr_created_by = None \<rparr>"
  have add: "add_entry ''s1'' ''o'' '' Domain'' ''Corp.Example.COM. '' [] None [] = (Inr r, [r])"
    unfolding r_def by code_simp
  have sub: "ends_with (norm_suffix ''VPN.corp.example.com'') (CHR ''.'' # norm_suffix ''corp.example.com'')"
    by code_simp
  have t: "sr_type r = ''domain''" "sr_value r = ''corp.example.com''" by (simp_all add: r_def)
  have "protects (load_policy ''o'' [r]) (sr_type r) (if sr_type r = ''domain'' then sr_value r else ''Corp.Example.COM. '') ''VPN.corp.example.com''"
    by (rule safelist_entry_protects[OF add])
  then have "domain_safelisted (load_policy ''o'' [r]) ''VPN.corp.example.com''"
    using sub by (simp add: t)
  then show ?thesis using add t by blast
qed

section \<open>The floor\<close>

lemma baseline_norm:
  "py_strip ` sl_ips baseline_safelist = sl_ips baseline_safelist"
  "[] \<notin> sl_ips baseline_safelist"
  "map norm_suffix (filter non_blank (sl_suffixes baseline_safelist)) = sl_suffixes baseline_safelist"
  by code_simp+

lemma load_policy_floor:
  "sl_ips baseline_safelist \<subseteq> sl_ips (load_policy org table)"
  "set (sl_suffixes baseline_safelist) \<subseteq> set (sl_suffixes (load_policy org table))"
  "sl_principals baseline_safelist \<subseteq> sl_principals (load_policy org table)"
proof -
  show "sl_ips baseline_safelist \<subseteq> sl_ips (load_policy org table)"
  proof
    fix v assume v: "v \<in> sl_ips baseline_safelist"
    then have "v \<noteq> []" using baseline_norm(2) by metis
    then show "v \<in> sl_ips (load_policy org table)"
      using v unfolding load_policy_def Let_def merge_ips baseline_norm(1) by simp
  qed
  show "set (sl_suffixes baseline_safelist) \<subseteq> set (sl_suffixes (load_policy org table))"
    unfolding load_policy_def Let_def merge_suffixes baseline_norm(3) by simp
  have "sl_principals baseline_safelist = {}"
    by (simp add: baseline_safelist_def make_safelist_def)
  then show "sl_principals baseline_safelist \<subseteq> sl_principals (load_policy org table)" by simp
qed

lemma safelisted_mono:
  assumes "sl_ips p \<subseteq> sl_ips q" and "set (sl_suffixes p) \<subseteq> set (sl_suffixes q)" and "sl_principals p \<subseteq> sl_principals q"
  shows "{v. ip_safelisted p v} \<subseteq> {v. ip_safelisted q v}" "{v. domain_safelisted p v} \<subseteq> {v. domain_safelisted q v}"
    "{v. url_safelisted p v} \<subseteq> {v. url_safelisted q v}" "{v. principal_safelisted p v} \<subseteq> {v. principal_safelisted q v}"
  using assms by (auto simp: ip_safelisted_def domain_safelisted_def url_safelisted_def principal_safelisted_def
      Let_def list_ex_iff)

lemma load_policy_own: "load_policy org table = load_policy org (filter (\<lambda>r. sr_org r = org) table)"
  by (simp add: load_policy_def list_entries_def)

lemma add_entry_others:
  assumes "org' \<noteq> org"
  shows "filter (\<lambda>r. sr_org r = org) (snd (add_entry i org' etype value reason by table)) = filter (\<lambda>r. sr_org r = org) table"
  using assms by (auto simp: add_entry_def Let_def split: sum.splits prod.splits option.splits)

lemma remove_entry_others:
  assumes "org' \<noteq> org" and "distinct (map sr_id table)"
  shows "filter (\<lambda>r. sr_org r = org) (snd (remove_entry org' eid table)) = filter (\<lambda>r. sr_org r = org) table"
proof (cases "find (\<lambda>r. sr_id r = eid) table")
  case (Some r)
  then have r: "r \<in> set table" "sr_id r = eid" by (auto simp: find_Some_iff)
  show ?thesis
  proof (cases "sr_org r = org'")
    case True
    have "sr_id r' \<noteq> eid" if "r' \<in> set table" "sr_org r' = org" for r'
      using that r True assms by (metis distinct_map inj_on_def)
    then show ?thesis using Some True by (auto simp: remove_entry_def intro!: filter_cong)
  qed (simp add: remove_entry_def Some)
next
  case None
  then show ?thesis by (simp only: remove_entry_def option.case snd_conv)
qed

text \<open>The operations as events; the primary key refuses an id that is taken.\<close>

datatype safelist_event = AddEntry string string string string "string option" | RemoveEntry string

fun safelist_step :: "string \<times> safelist_event \<Rightarrow> safelist_row list \<Rightarrow> safelist_row list" where
  "safelist_step (org, AddEntry i etype v reason by) table =
     (if i \<in> sr_id ` set table then table else snd (add_entry i org etype v reason by table))"
| "safelist_step (org, RemoveEntry i) table = snd (remove_entry org i table)"

interpretation safelists: tenant_table safelist_step "\<lambda>table. distinct (map sr_id table)" load_policy
proof
  show "distinct (map sr_id (safelist_step p table))" if "distinct (map sr_id table)" for p table
    using that by (cases "(p, table)" rule: safelist_step.cases)
      (auto simp: add_entry_def remove_entry_def distinct_map_filter Let_def split: option.split sum.split)
  show "load_policy org (safelist_step p table) = load_policy org table"
    if "distinct (map sr_id table)" "org \<noteq> fst p" for p org table
  proof -
    have "filter (\<lambda>r. sr_org r = org) (safelist_step p table) = filter (\<lambda>r. sr_org r = org) table"
      using that by (cases "(p, table)" rule: safelist_step.cases) (simp_all add: add_entry_others remove_entry_others)
    then show ?thesis by (metis load_policy_own)
  qed
qed

text \<open>C33: No tenant can lower the floor or reach another tenant's safelist. Whatever an organisation has
  in its table, everything the universal baseline safelists (addresses, domains, URLs,
  principals) stays safelisted for it; and additions and removals by another organisation, one or
  any sequence of them by any others, leave its effective policy exactly as it was.\<close>

theorem safelist_floor_and_isolation:
  assumes "org' \<noteq> org" and "distinct (map sr_id table)"
  shows "{v. ip_safelisted baseline_safelist v} \<subseteq> {v. ip_safelisted (load_policy org table) v} \<and>
    {v. domain_safelisted baseline_safelist v} \<subseteq> {v. domain_safelisted (load_policy org table) v} \<and>
    {v. url_safelisted baseline_safelist v} \<subseteq> {v. url_safelisted (load_policy org table) v} \<and>
    {v. principal_safelisted baseline_safelist v} \<subseteq> {v. principal_safelisted (load_policy org table) v} \<and>
    load_policy org (snd (add_entry i org' etype value reason by table)) = load_policy org table \<and>
    load_policy org (snd (remove_entry org' eid table)) = load_policy org table \<and>
    (\<forall>evs. list_all (\<lambda>p. fst p \<noteq> org) evs \<longrightarrow> load_policy org (fold safelist_step evs table) = load_policy org table)"
proof -
  have "load_policy org (snd (add_entry i org' etype value reason by table)) = load_policy org table"
    by (subst (1 2) load_policy_own) (simp only: add_entry_others[OF assms(1)])
  moreover have "load_policy org (snd (remove_entry org' eid table)) = load_policy org table"
    by (subst (1 2) load_policy_own) (simp only: remove_entry_others[OF assms])
  moreover have "load_policy org (fold safelist_step evs table) = load_policy org table"
    if "list_all (\<lambda>p. fst p \<noteq> org) evs" for evs
    by (rule safelists.others_steps[OF assms(2) that])
  ultimately show ?thesis using safelisted_mono[OF load_policy_floor] by blast
qed

lemma safelist_floor_and_isolation_witness:
  "domain_safelisted (load_policy ''o'' []) ''login.microsoft.com'' \<and>
     load_policy ''o'' (snd (add_entry ''s1'' ''p'' ''ip'' ''192.0.2.7'' [] None [])) = load_policy ''o'' []"
proof -
  have "domain_safelisted baseline_safelist ''login.microsoft.com''" by code_simp
  moreover have "{v. domain_safelisted baseline_safelist v} \<subseteq> {v. domain_safelisted (load_policy ''o'' []) v}"
    "load_policy ''o'' (snd (add_entry ''s1'' ''p'' ''ip'' ''192.0.2.7'' [] None [])) = load_policy ''o'' []"
    using safelist_floor_and_isolation[of "''p''" "''o''" "[]"] by simp_all
  ultimately show ?thesis by blast
qed

text \<open>The never-block guard can be missed by spelling. An IPv6 entry is stored in canonical form but
  targets are compared as text, so the very address an operator added is not recognised in the
  form it was added in; and a URL is not recognised when its host carries a port or user name,
  or is one of the protected addresses.\<close>

theorem safelist_spelling_gaps:
  "(\<exists>r table. add_entry ''s1'' ''o'' ''ip'' ''2606:4700:4700:0:0:0:0:1111'' [] None [] = (Inr r, table) \<and>
      \<not> ip_safelisted (load_policy ''o'' table) ''2606:4700:4700:0:0:0:0:1111'') \<and>
   url_safelisted baseline_safelist ''https://google.com/x'' \<and>
   \<not> url_safelisted baseline_safelist ''https://google.com:443/x'' \<and>
   \<not> url_safelisted baseline_safelist ''https://me@google.com/x'' \<and>
   ip_safelisted baseline_safelist ''8.8.8.8'' \<and> \<not> url_safelisted baseline_safelist ''http://8.8.8.8/x''"
proof -
  have 1: "case add_entry ''s1'' ''o'' ''ip'' ''2606:4700:4700:0:0:0:0:1111'' [] None [] of
      (Inr r, table) \<Rightarrow> \<not> ip_safelisted (load_policy ''o'' table) ''2606:4700:4700:0:0:0:0:1111'' | (Inl e, table) \<Rightarrow> False"
    by code_simp
  have 2: "url_safelisted baseline_safelist ''https://google.com/x''"
    "\<not> url_safelisted baseline_safelist ''https://google.com:443/x''"
    "\<not> url_safelisted baseline_safelist ''https://me@google.com/x''"
    "ip_safelisted baseline_safelist ''8.8.8.8''" "\<not> url_safelisted baseline_safelist ''http://8.8.8.8/x''"
    by code_simp+
  show ?thesis using Inr_result[OF 1] 2 by blast
qed

end
