(* ===== verification/BulkMitigation.thy ===== *)
theory BulkMitigation
  imports Safelist "HOL-Library.List_Lexorder"
begin

text \<open>
  The bulk mitigation planner (engine/btagent_engine/reasoning/bulk_mitigation.py) with the plan
  types of shared/btagent_shared/types/mitigation.py: one decision per indicator, taken by rules;
  a language model may only rewrite the summary.
\<close>

section \<open>Types\<close>

datatype ioc_type = IP | DOMAIN | URL | HASH_MD5 | HASH_SHA1 | HASH_SHA256 | EMAIL | FILE_PATH | REGISTRY_KEY
  | CVE | USER_AGENT | MUTEX | PROCESS_NAME | OTHER

fun ioc_value_text :: "ioc_type \<Rightarrow> string" where
  "ioc_value_text IP = ''ip''"
| "ioc_value_text DOMAIN = ''domain''"
| "ioc_value_text URL = ''url''"
| "ioc_value_text HASH_MD5 = ''hash_md5''"
| "ioc_value_text HASH_SHA1 = ''hash_sha1''"
| "ioc_value_text HASH_SHA256 = ''hash_sha256''"
| "ioc_value_text EMAIL = ''email''"
| "ioc_value_text FILE_PATH = ''file_path''"
| "ioc_value_text REGISTRY_KEY = ''registry_key''"
| "ioc_value_text CVE = ''cve''"
| "ioc_value_text USER_AGENT = ''user_agent''"
| "ioc_value_text MUTEX = ''mutex''"
| "ioc_value_text PROCESS_NAME = ''process_name''"
| "ioc_value_text OTHER = ''other''"

datatype mitigation_decision = BLOCK | SKIP_ALLOWLISTED | SKIP_INVALID | SKIP_UNSUPPORTED | SKIP_DUPLICATE

fun decision_value :: "mitigation_decision \<Rightarrow> string" where
  "decision_value BLOCK = ''block''"
| "decision_value SKIP_ALLOWLISTED = ''skip_allowlisted''"
| "decision_value SKIP_INVALID = ''skip_invalid''"
| "decision_value SKIP_UNSUPPORTED = ''skip_unsupported''"
| "decision_value SKIP_DUPLICATE = ''skip_duplicate''"

record mitigation_action =
  ma_id :: string
  ma_type :: ioc_type
  ma_value :: string
  ma_decision :: mitigation_decision
  ma_tool :: string
  ma_policy_object :: string
  ma_preview :: string
  ma_description :: string
  ma_destructive :: bool
  ma_requires_approval :: bool
  ma_rollback :: "string option"
  ma_reason :: string

record mitigation_plan =
  mp_summary :: string
  mp_actions :: "mitigation_action list"
  mp_block_count :: nat
  mp_skip_count :: nat
  mp_tools :: "string list"

record ioc_ref =
  ioc_kind :: ioc_type
  ioc_text :: string

section \<open>Validation and routing\<close>

definition valid_ip :: "string \<Rightarrow> bool" where
  "valid_ip v = (ip_address v \<noteq> None)"

definition valid_domain :: "string \<Rightarrow> bool" where
  "valid_domain v = domain_re (rstrip_char (CHR ''.'') (py_strip v))"

definition valid_url :: "string \<Rightarrow> bool" where
  "valid_url v = (let s = py_strip v in
     (is_prefix ''http://'' s \<or> is_prefix ''https://'' s) \<and> 10 < length s)"

text \<open>\<^verbatim>\<open>^[A-Fa-f0-9]{n}$\<close>.\<close>

definition hex_re :: "nat \<Rightarrow> string \<Rightarrow> bool" where
  "hex_re n v = (let t = before_newline v in length t = n \<and> list_all ascii_hex t)"

definition valid_email :: "string \<Rightarrow> bool" where
  "valid_email v = (CHR ''@'' \<in> set v \<and> CHR ''.'' \<in> set v)"

text \<open>The connector, its policy object and the validator of a blockable kind.\<close>

fun block_route :: "ioc_type \<Rightarrow> (string \<times> string \<times> (string \<Rightarrow> bool)) option" where
  "block_route IP = Some (''panorama'', ''perimeter-blocklist'', valid_ip)"
| "block_route DOMAIN = Some (''umbrella'', ''dns-denylist'', valid_domain)"
| "block_route URL = Some (''zscaler'', ''url-blocklist'', valid_url)"
| "block_route HASH_MD5 = Some (''crowdstrike'', ''ioc-blocklist'', hex_re 32)"
| "block_route HASH_SHA1 = Some (''crowdstrike'', ''ioc-blocklist'', hex_re 40)"
| "block_route HASH_SHA256 = Some (''crowdstrike'', ''ioc-blocklist'', hex_re 64)"
| "block_route EMAIL = Some (''email_gateway'', ''sender-blocklist'', valid_email)"
| "block_route _ = None"

definition unsupported_kinds :: "ioc_type list" where
  "unsupported_kinds = [FILE_PATH, REGISTRY_KEY, CVE, USER_AGENT, MUTEX, PROCESS_NAME, OTHER]"

definition allowlisted :: "ioc_ref \<Rightarrow> string set \<Rightarrow> safelist_policy \<Rightarrow> bool" where
  "allowlisted ioc extra pol =
     (if py_strip (ioc_text ioc) \<in> extra then True
      else case ioc_kind ioc of
        IP \<Rightarrow> ip_safelisted pol (ioc_text ioc)
      | DOMAIN \<Rightarrow> domain_safelisted pol (ioc_text ioc)
      | URL \<Rightarrow> url_safelisted pol (ioc_text ioc)
      | _ \<Rightarrow> False)"

section \<open>The plan\<close>

text \<open>\<^verbatim>\<open>f"mit_{seq:03d}"\<close>.\<close>

definition action_id :: "nat \<Rightarrow> string" where
  "action_id n = (let d = nat_digits n in ''mit_'' @ replicate (3 - length d) (CHR ''0'') @ d)"

definition skip_action :: "nat \<Rightarrow> ioc_ref \<Rightarrow> mitigation_decision \<Rightarrow> string \<Rightarrow> mitigation_action" where
  "skip_action n ioc dec reason =
     (let v = py_strip (ioc_text ioc) in
      \<lparr> ma_id = action_id n, ma_type = ioc_kind ioc, ma_value = v, ma_decision = dec, ma_tool = [],
        ma_policy_object = [], ma_preview = [],
        ma_description = ''Skip '' @ ioc_value_text (ioc_kind ioc) @ '' '' @ (if v = [] then ''(empty)'' else v),
        ma_destructive = False, ma_requires_approval = False, ma_rollback = None, ma_reason = reason \<rparr>)"

definition block_action :: "nat \<Rightarrow> ioc_ref \<Rightarrow> string \<Rightarrow> string \<Rightarrow> mitigation_action" where
  "block_action n ioc tool object =
     (let v = py_strip (ioc_text ioc); k = ioc_value_text (ioc_kind ioc) in
      \<lparr> ma_id = action_id n, ma_type = ioc_kind ioc, ma_value = v, ma_decision = BLOCK, ma_tool = tool,
        ma_policy_object = object,
        ma_preview = ''+ '' @ tool @ '':'' @ object @ '' ADD '' @ k @ ''='' @ v @ '' (action=deny)'',
        ma_description = ''Block '' @ k @ '' '' @ v @ '' on '' @ tool @ '' ('' @ object @ '')'',
        ma_destructive = True, ma_requires_approval = True,
        ma_rollback = Some (''Remove '' @ v @ '' from '' @ tool @ '':'' @ object), ma_reason = [] \<rparr>)"

text \<open>One iteration: the decision for the \<^verbatim>\<open>n\<close>-th indicator, given the keys seen before.\<close>

type_synonym seen_keys = "(ioc_type \<times> string) list"

definition ioc_key :: "ioc_ref \<Rightarrow> ioc_type \<times> string" where
  "ioc_key ioc = (ioc_kind ioc, lower (py_strip (ioc_text ioc)))"

definition decide :: "string set \<Rightarrow> safelist_policy \<Rightarrow> seen_keys \<Rightarrow> nat \<Rightarrow> ioc_ref \<Rightarrow> mitigation_action" where
  "decide extra pol seen n ioc =
     (let v = py_strip (ioc_text ioc); k = ioc_value_text (ioc_kind ioc) in
      if v = [] then skip_action n ioc SKIP_INVALID ''Empty IOC value.''
      else if ioc_key ioc \<in> set seen then skip_action n ioc SKIP_DUPLICATE ''Already in this batch.''
      else if allowlisted ioc extra pol then
        skip_action n ioc SKIP_ALLOWLISTED ''Matches the never-block allowlist (would risk a self-inflicted outage).''
      else if ioc_kind ioc \<in> set unsupported_kinds then
        skip_action n ioc SKIP_UNSUPPORTED (''No automated block path for '' @ k @ ''; handle manually.'')
      else case block_route (ioc_kind ioc) of
        None \<Rightarrow> skip_action n ioc SKIP_INVALID (''Malformed '' @ k @ '' value.'')
      | Some (tool, object, valid) \<Rightarrow>
          if valid v then block_action n ioc tool object
          else skip_action n ioc SKIP_INVALID (''Malformed '' @ k @ '' value.''))"

fun plan_actions :: "string set \<Rightarrow> safelist_policy \<Rightarrow> seen_keys \<Rightarrow> nat \<Rightarrow> ioc_ref list \<Rightarrow> mitigation_action list" where
  "plan_actions extra pol seen n [] = []"
| "plan_actions extra pol seen n (ioc # iocs) =
     decide extra pol seen n ioc #
     plan_actions extra pol (if py_strip (ioc_text ioc) = [] then seen else ioc_key ioc # seen) (Suc n) iocs"

definition is_block :: "mitigation_action \<Rightarrow> bool" where
  "is_block a = (ma_decision a = BLOCK)"

text \<open>\<^verbatim>\<open>if route.tool not in tools: tools.append(route.tool)\<close>.\<close>

definition tools_of :: "mitigation_action list \<Rightarrow> string list" where
  "tools_of actions =
     foldl (\<lambda>ts a. if is_block a \<and> ma_tool a \<notin> set ts then ts @ [ma_tool a] else ts) [] actions"

definition count_decision :: "mitigation_action list \<Rightarrow> mitigation_decision \<Rightarrow> nat" where
  "count_decision actions d = length (filter (\<lambda>a. ma_decision a = d) actions)"

definition skip_breakdown :: "mitigation_action list \<Rightarrow> string" where
  "skip_breakdown actions =
     (let counts = filter (\<lambda>p. snd p \<noteq> 0) (map (\<lambda>d. (decision_value d, count_decision actions d))
            [SKIP_ALLOWLISTED, SKIP_INVALID, SKIP_UNSUPPORTED, SKIP_DUPLICATE])
      in if counts = [] then ''none''
         else join_text '', '' (map (\<lambda>(k, v). nat_digits v @ '' '' @ k) (sort_key fst counts)))"

definition build_plan :: "ioc_ref list \<Rightarrow> string list \<Rightarrow> string list \<Rightarrow> string list \<Rightarrow> mitigation_plan" where
  "build_plan iocs extra_allowlist safelist_ips safelist_suffixes =
     (let extra = set (map py_strip (filter non_blank extra_allowlist));
          pol = merge_safelist baseline_safelist safelist_ips safelist_suffixes [];
          actions = plan_actions extra pol [] 1 iocs;
          blocks = length (filter is_block actions);
          skips = length (filter (\<lambda>a. \<not> is_block a) actions);
          tools = tools_of actions
      in \<lparr> mp_summary = nat_digits blocks @ '' block action(s) across '' @ nat_digits (length tools) @ '' tool(s); '' @
             nat_digits skips @ '' IOC(s) skipped ('' @ skip_breakdown actions @
             ''). All blocks require approval before execution.'',
           mp_actions = actions, mp_block_count = blocks, mp_skip_count = skips, mp_tools = tools \<rparr>)"

section \<open>The node\<close>

record bulk_input =
  bi_iocs :: "ioc_ref list"
  bi_extra_allowlist :: "string list"
  bi_safelist_ips :: "string list"
  bi_safelist_suffixes :: "string list"

text \<open>
  The model's reply to the summary prompt: None when the call failed, otherwise the decoded JSON.
  \<^verbatim>\<open>str(raw.get("summary") or "").strip()\<close> is the new summary when it is not empty; a value that
  has no text counts as a failure.
\<close>

definition llm_summary :: "pyval option \<Rightarrow> string option" where
  "llm_summary reply =
     (case reply of
        Some (PDict d) \<Rightarrow>
          (case get_str d ''summary'' of
             None \<Rightarrow> None
           | Some v \<Rightarrow>
               if \<not> py_truth v then None
               else case py_str v of
                 Inl e \<Rightarrow> None
               | Inr t \<Rightarrow> if py_strip t = [] then None else Some (py_strip t))
      | _ \<Rightarrow> None)"

text \<open>The node: \<^term>\<open>client\<close> is None when no client is registered, else what asking it gives.\<close>

definition bulk_mitigation_run ::
  "bool \<Rightarrow> (mitigation_plan \<Rightarrow> pyval option) option \<Rightarrow> bulk_input \<Rightarrow> mitigation_plan \<times> bool" where
  "bulk_mitigation_run mock client inp =
     (let plan = build_plan (bi_iocs inp) (bi_extra_allowlist inp) (bi_safelist_ips inp) (bi_safelist_suffixes inp)
      in case client of
        None \<Rightarrow> (plan, True)
      | Some ask \<Rightarrow>
          if mock then (plan, True)
          else case llm_summary (ask plan) of
            None \<Rightarrow> (plan, True)
          | Some t \<Rightarrow> (plan\<lparr>mp_summary := t\<rparr>, False))"

section \<open>What a plan proposes\<close>

lemma safelisted_strip [simp]:
  "ip_safelisted pol (py_strip v) = ip_safelisted pol v"
  "domain_safelisted pol (py_strip v) = domain_safelisted pol v"
  "url_safelisted pol (py_strip v) = url_safelisted pol v"
  by (simp_all add: ip_safelisted_def domain_safelisted_def url_safelisted_def norm_suffix_def domain_from_url_def)

text \<open>A proposed block: routed and valid for its kind, outside the caller's list and the safelist, destructive
  and so waiting for an approval, with a rollback.\<close>

definition block_ok :: "string set \<Rightarrow> safelist_policy \<Rightarrow> mitigation_action \<Rightarrow> bool" where
  "block_ok extra pol a =
     ((case block_route (ma_type a) of
         None \<Rightarrow> False
       | Some (tool, object, valid) \<Rightarrow> ma_tool a = tool \<and> ma_policy_object a = object \<and> valid (ma_value a)) \<and>
      \<not> allowlisted \<lparr> ioc_kind = ma_type a, ioc_text = ma_value a \<rparr> extra pol \<and>
      ma_value a \<noteq> [] \<and> ma_destructive a \<and> ma_requires_approval a \<and> ma_rollback a \<noteq> None)"

lemma allowlisted_strip:
  "allowlisted \<lparr> ioc_kind = ioc_kind ioc, ioc_text = py_strip (ioc_text ioc) \<rparr> extra pol = allowlisted ioc extra pol"
  by (simp add: allowlisted_def split: ioc_type.splits)

lemma skip_fields [simp]:
  "ma_decision (skip_action n ioc d r) = d" "ma_type (skip_action n ioc d r) = ioc_kind ioc"
  "ma_value (skip_action n ioc d r) = py_strip (ioc_text ioc)"
  by (simp_all add: skip_action_def Let_def)

lemma block_fields [simp]:
  "ma_decision (block_action n ioc t p) = BLOCK" "ma_type (block_action n ioc t p) = ioc_kind ioc"
  "ma_value (block_action n ioc t p) = py_strip (ioc_text ioc)" "ma_tool (block_action n ioc t p) = t"
  "ma_policy_object (block_action n ioc t p) = p" "ma_destructive (block_action n ioc t p)"
  "ma_requires_approval (block_action n ioc t p)" "\<exists>r. ma_rollback (block_action n ioc t p) = Some r"
  by (simp_all add: block_action_def Let_def)

lemma decide_fields:
  "ma_type (decide extra pol seen n ioc) = ioc_kind ioc \<and> ma_value (decide extra pol seen n ioc) = py_strip (ioc_text ioc)"
  by (auto simp: decide_def Let_def split: option.splits)

lemma decide_block:
  "is_block (decide extra pol seen n ioc) \<Longrightarrow> block_ok extra pol (decide extra pol seen n ioc) \<and> ioc_key ioc \<notin> set seen"
  by (auto simp: decide_def Let_def is_block_def block_ok_def allowlisted_strip split: option.splits if_splits)

lemma decide_allowlisted:
  "ma_decision (decide extra pol seen n ioc) = SKIP_ALLOWLISTED \<Longrightarrow> allowlisted ioc extra pol"
  by (auto simp: decide_def Let_def split: option.splits if_splits)

lemma plan_actions_fields:
  "map (\<lambda>a. (ma_type a, ma_value a)) (plan_actions extra pol seen n iocs) =
     map (\<lambda>ioc. (ioc_kind ioc, py_strip (ioc_text ioc))) iocs"
  by (induction iocs arbitrary: seen n) (simp_all add: decide_fields)

lemma plan_actions_blocks:
  "list_all (block_ok extra pol) (filter is_block (plan_actions extra pol seen n iocs))"
  by (induction iocs arbitrary: seen n) (simp_all add: decide_block)

lemma plan_actions_allowlisted:
  "list_all (\<lambda>a. allowlisted \<lparr> ioc_kind = ma_type a, ioc_text = ma_value a \<rparr> extra pol)
     (filter (\<lambda>a. ma_decision a = SKIP_ALLOWLISTED) (plan_actions extra pol seen n iocs))"
  by (induction iocs arbitrary: seen n) (simp_all add: decide_fields decide_allowlisted allowlisted_strip)

definition action_key :: "mitigation_action \<Rightarrow> ioc_type \<times> string" where
  "action_key a = (ma_type a, lower (ma_value a))"

lemma plan_actions_distinct:
  "distinct (map action_key (filter is_block (plan_actions extra pol seen n iocs))) \<and>
     action_key ` set (filter is_block (plan_actions extra pol seen n iocs)) \<inter> set seen = {}"
proof (induction iocs arbitrary: seen n)
  case (Cons ioc iocs)
  define d where "d = decide extra pol seen n ioc"
  define seen' where "seen' = (if py_strip (ioc_text ioc) = [] then seen else ioc_key ioc # seen)"
  define rest where "rest = filter is_block (plan_actions extra pol seen' (Suc n) iocs)"
  have rest: "distinct (map action_key rest)" "action_key ` set rest \<inter> set seen' = {}"
    using Cons.IH[of seen' "Suc n"] by (simp_all add: rest_def)
  have key: "action_key d = ioc_key ioc" using decide_fields by (simp add: d_def action_key_def ioc_key_def)
  have block: "action_key d \<in> set seen' \<and> action_key d \<notin> set seen" if "is_block d"
    using decide_block[of extra pol seen n ioc] that decide_fields key
    by (auto simp: d_def seen'_def block_ok_def)
  show ?case
    using rest block by (auto simp: d_def[symmetric] rest_def[symmetric] seen'_def[symmetric]) (auto simp: seen'_def split: if_splits)
qed simp

lemma tools_of_props: "distinct (tools_of actions) \<and> set (tools_of actions) = ma_tool ` set (filter is_block actions)"
proof (induction actions rule: rev_induct)
  case (snoc a actions)
  then show ?case by (auto simp: tools_of_def)
qed (simp add: tools_of_def)

lemma plan_actions_sound:
  assumes plan: "plan = fst (bulk_mitigation_run mock client inp)"
  shows "map (\<lambda>a. (ma_type a, ma_value a)) (mp_actions plan) =
      map (\<lambda>ioc. (ioc_kind ioc, py_strip (ioc_text ioc))) (bi_iocs inp) \<and>
    list_all (block_ok (set (map py_strip (filter non_blank (bi_extra_allowlist inp))))
        (merge_safelist baseline_safelist (bi_safelist_ips inp) (bi_safelist_suffixes inp) []))
      (filter is_block (mp_actions plan)) \<and>
    distinct (map action_key (filter is_block (mp_actions plan))) \<and>
    mp_block_count plan = length (filter is_block (mp_actions plan)) \<and>
    mp_block_count plan + mp_skip_count plan = length (bi_iocs inp) \<and>
    distinct (mp_tools plan) \<and> set (mp_tools plan) = ma_tool ` set (filter is_block (mp_actions plan))"
proof -
  define b where "b = build_plan (bi_iocs inp) (bi_extra_allowlist inp) (bi_safelist_ips inp) (bi_safelist_suffixes inp)"
  have same: "mp_actions plan = mp_actions b" "mp_block_count plan = mp_block_count b"
    "mp_skip_count plan = mp_skip_count b" "mp_tools plan = mp_tools b"
    by (simp_all add: plan bulk_mitigation_run_def b_def[symmetric] split: option.splits)
  have "length (mp_actions b) = length (bi_iocs inp)"
    using arg_cong[OF plan_actions_fields, of length] by (simp add: b_def build_plan_def Let_def)
  then have "mp_block_count b + mp_skip_count b = length (bi_iocs inp)"
    using sum_length_filter_compl[of is_block "mp_actions b"] by (simp add: b_def build_plan_def Let_def)
  then show ?thesis
    using tools_of_props unfolding same
    by (simp add: b_def build_plan_def Let_def plan_actions_fields plan_actions_blocks plan_actions_distinct)
qed

text \<open>A plan is one decision per indicator, in order, and every proposed block is safe to put to an
  approver: valid for its kind and routed to the connector of that kind, outside the caller's
  list and the safelist, flagged destructive with approval required and a rollback; no target is
  proposed twice; the counts and the list of connectors are exact. A language model can rewrite
  the summary and nothing else.\<close>

theorem plan_blocks_sound:
  "let plan = fst (bulk_mitigation_run mock client inp) in
    map (\<lambda>a. (ma_type a, ma_value a)) (mp_actions plan) =
      map (\<lambda>ioc. (ioc_kind ioc, py_strip (ioc_text ioc))) (bi_iocs inp) \<and>
    list_all (block_ok (set (map py_strip (filter non_blank (bi_extra_allowlist inp))))
        (merge_safelist baseline_safelist (bi_safelist_ips inp) (bi_safelist_suffixes inp) []))
      (filter is_block (mp_actions plan)) \<and>
    distinct (map action_key (filter is_block (mp_actions plan))) \<and>
    mp_block_count plan = length (filter is_block (mp_actions plan)) \<and>
    mp_block_count plan + mp_skip_count plan = length (bi_iocs inp) \<and>
    distinct (mp_tools plan) \<and> set (mp_tools plan) = ma_tool ` set (filter is_block (mp_actions plan))"
  unfolding Let_def by (rule plan_actions_sound[OF refl])

end
