(* ===== verification/McpPolicy.thy ===== *)
theory McpPolicy
  imports Connector TlpPolicy
begin

text \<open>
  The manifest policy of the tool dispatch path (agents/btagent_agents/mcp/policy.py): the verdict
  for one tool call, the guard at a direct dispatch site, and the two run-scoped settings it
  reads.  The manifests of the registered servers are an argument.
\<close>

section \<open>Run-scoped settings\<close>

text \<open>The two context variables of one run.\<close>

record run_settings =
  rn_active_tlp :: "tlp option"
  rn_hitl_approved :: bool

definition fresh_settings :: run_settings where
  "fresh_settings = \<lparr> rn_active_tlp = None, rn_hitl_approved = False \<rparr>"

definition set_active_tlp :: "tlp option \<Rightarrow> run_settings \<Rightarrow> run_settings" where
  "set_active_tlp t s = s\<lparr>rn_active_tlp := t\<rparr>"

definition reset_active_tlp :: "run_settings \<Rightarrow> run_settings" where
  "reset_active_tlp s = s\<lparr>rn_active_tlp := None\<rparr>"

definition set_hitl_approved :: "bool \<Rightarrow> run_settings \<Rightarrow> run_settings" where
  "set_hitl_approved b s = s\<lparr>rn_hitl_approved := b\<rparr>"

definition reset_hitl_approved :: "run_settings \<Rightarrow> run_settings" where
  "reset_hitl_approved s = s\<lparr>rn_hitl_approved := False\<rparr>"

text \<open>The two context managers: the block runs under the new value, the old one comes back however the
  block ends.\<close>

definition active_tlp_scope :: "tlp option \<Rightarrow> (run_settings \<Rightarrow> 'r \<times> run_settings) \<Rightarrow> run_settings \<Rightarrow> 'r \<times> run_settings" where
  "active_tlp_scope t body s =
     (case body (set_active_tlp t s) of (r, s') \<Rightarrow> (r, set_active_tlp (rn_active_tlp s) s'))"

definition hitl_approval :: "bool \<Rightarrow> (run_settings \<Rightarrow> 'r \<times> run_settings) \<Rightarrow> run_settings \<Rightarrow> 'r \<times> run_settings" where
  "hitl_approval b body s =
     (case body (set_hitl_approved b s) of (r, s') \<Rightarrow> (r, set_hitl_approved (rn_hitl_approved s) s'))"

section \<open>Verdicts\<close>

definition is_tlp_allowed :: "tlp \<Rightarrow> tlp option \<Rightarrow> bool" where
  "is_tlp_allowed cap active = (case active of None \<Rightarrow> True | Some t \<Rightarrow> tlp_rank t \<le> tlp_rank cap)"

datatype policy_status = Allowed | HitlRequired | TlpBlocked | Undeclared | Unclassified

record policy_verdict =
  pv_status :: policy_status
  pv_tool :: string
  pv_server :: "string option"
  pv_tlp_checked :: bool

definition verdict_allowed :: "policy_verdict \<Rightarrow> bool" where
  "verdict_allowed v = (pv_status v = Allowed)"

definition unclassified_pass :: "policy_verdict \<Rightarrow> bool" where
  "unclassified_pass v = (verdict_allowed v \<and> \<not> pv_tlp_checked v)"

fun find_capability :: "string \<Rightarrow> (string \<times> manifest) list \<Rightarrow> (string \<times> capability) option" where
  "find_capability tool [] = None"
| "find_capability tool ((server, m) # ms) =
     (case capability_of m tool of Some c \<Rightarrow> Some (server, c) | None \<Rightarrow> find_capability tool ms)"

definition evaluate_tool_call ::
  "(string \<times> manifest) list \<Rightarrow> run_settings \<Rightarrow> string \<Rightarrow> tlp option \<Rightarrow> bool option \<Rightarrow> policy_verdict" where
  "evaluate_tool_call manifests s tool active_arg hitl_arg =
     (let active = (case active_arg of None \<Rightarrow> rn_active_tlp s | Some t \<Rightarrow> Some t);
          approved = (case hitl_arg of None \<Rightarrow> rn_hitl_approved s | Some b \<Rightarrow> b)
      in case find_capability tool manifests of
        None \<Rightarrow> \<lparr> pv_status = Undeclared, pv_tool = tool, pv_server = None, pv_tlp_checked = True \<rparr>
      | Some (server, cap) \<Rightarrow>
          if \<not> is_tlp_allowed (cap_tlp_egress cap) active then
            \<lparr> pv_status = TlpBlocked, pv_tool = tool, pv_server = Some server, pv_tlp_checked = True \<rparr>
          else if cap_hitl_required cap \<and> \<not> approved then
            \<lparr> pv_status = HitlRequired, pv_tool = tool, pv_server = Some server, pv_tlp_checked = True \<rparr>
          else
            \<lparr> pv_status = Allowed, pv_tool = tool, pv_server = Some server, pv_tlp_checked = (active \<noteq> None) \<rparr>)"

text \<open>The guard returns the verdict or raises with the one that refuses.\<close>

definition guard_dispatch ::
  "(string \<times> manifest) list \<Rightarrow> run_settings \<Rightarrow> string \<Rightarrow> tlp option \<Rightarrow> bool option \<Rightarrow> bool
     \<Rightarrow> (policy_verdict, policy_verdict) res" where
  "guard_dispatch manifests s tool active_arg hitl_arg require_classification =
     (let v = evaluate_tool_call manifests s tool active_arg hitl_arg in
      if unclassified_pass v \<and> require_classification then
        Inl \<lparr> pv_status = Unclassified, pv_tool = tool, pv_server = pv_server v, pv_tlp_checked = False \<rparr>
      else if \<not> verdict_allowed v then Inl v
      else Inr v)"

section \<open>What a passed guard means\<close>

lemma guard_dispatch_Inr:
  "guard_dispatch manifests s tool active_arg hitl_arg req = Inr v \<longleftrightarrow>
     v = evaluate_tool_call manifests s tool active_arg hitl_arg \<and> verdict_allowed v \<and> \<not> (unclassified_pass v \<and> req)"
  by (auto simp: guard_dispatch_def Let_def)

text \<open>A dispatch passes the manifest policy exactly when the tool is declared, its declared egress
  covers the classification in force (the one passed in, else the run's; with none the comparison
  is skipped unless the site insists on one), and a capability that needs a human is approved by
  server-side state.\<close>

theorem guard_dispatch_passes_iff:
  "(\<exists>v. guard_dispatch manifests s tool active_arg hitl_arg req = Inr v) \<longleftrightarrow>
     (\<exists>server cap. find_capability tool manifests = Some (server, cap) \<and>
        (case (if active_arg = None then rn_active_tlp s else active_arg) of
           None \<Rightarrow> \<not> req
         | Some t \<Rightarrow> tlp_rank t \<le> tlp_rank (cap_tlp_egress cap)) \<and>
        (cap_hitl_required cap = False \<or> (case hitl_arg of None \<Rightarrow> rn_hitl_approved s | Some b \<Rightarrow> b)))"
  by (auto simp: guard_dispatch_Inr evaluate_tool_call_def is_tlp_allowed_def verdict_allowed_def unclassified_pass_def
      Let_def split: option.splits)

text \<open>The scopes restore the setting they change and leave the other one to the block.\<close>

lemma scopes_restore:
  "rn_active_tlp (snd (active_tlp_scope t body s)) = rn_active_tlp s"
  "rn_hitl_approved (snd (hitl_approval b body s)) = rn_hitl_approved s"
  by (auto simp: active_tlp_scope_def hitl_approval_def set_active_tlp_def set_hitl_approved_def split: prod.splits)

end
