(* ===== verification/Containment.thy ===== *)
theory Containment
  imports BulkMitigation McpPolicy AuditTrail
begin

text \<open>
  Execution of approved containment actions (backend/btagent_backend/services/
  containment_execute_service.py): the approval gate, the safelist screen, the dispatch, the
  change record and the audit row.  The connector servers, the ticket service and the registered
  manifests are arguments.  The field \<^verbatim>\<open>cw_dispatched\<close> of the world lists the dispatches that went
  out; it is read by no definition.  The dash in the note of the mock envelope is written with
  an ASCII hyphen.
\<close>

section \<open>Environment and world\<close>

type_synonym json_dict = "(pyval \<times> pyval) list"

datatype refusal =
    NotApproved
  | OnSafelist string
  | IocOnSafelist
  | ManifestRefused policy_verdict
  | LiveDisabled

datatype change_response = ChangeAnswer json_dict | ChangeRefused policy_verdict | ChangeError string

text \<open>The details of an audit row, by the place that writes them.\<close>

datatype ct_details =
    DenialDetails string string string refusal "string option"
  | ResponseDetails string string string string pyval json_dict
  | BulkDetails string string string string string "pyval option" change_response pyval json_dict
  | AcceptDetails bool nat nat nat string
  | RejectDetails nat string

record 'ts ct_env =
  ce_audit :: "('ts, ct_details) audit_lib"
  ce_other :: "nat \<Rightarrow> ('ts, ct_details) audit_row list \<Rightarrow> ('ts, ct_details) audit_row list"
  ce_now :: "nat \<Rightarrow> 'ts"
  ce_new_id :: string
  ce_mock :: bool
  ce_manifests :: "(string \<times> manifest) list"
  ce_settings :: run_settings
  ce_server :: "string \<Rightarrow> string \<Rightarrow> (string, json_dict) res"
  ce_ticket :: "string \<Rightarrow> string \<Rightarrow> (string, pyval) res"
  ce_safelist :: "safelist_row list"

record 'ts ct_world =
  cw_ledger :: "('ts, ct_details) audit_row list"
  cw_dispatched :: "(string \<times> string \<times> string) list"

datatype ct_exn = ServerRaised string | RowLost audit_error | NoStatusText py_exn | PolicyEscaped policy_verdict

record ct_result =
  ct_http_status :: nat
  ct_executed :: bool
  ct_outcome :: string
  ct_refusal :: "refusal option"
  ct_tool :: string
  ct_target :: string
  ct_response :: "json_dict option"
  ct_audit_id :: string
  ct_approver :: string
  ct_change_ref :: "pyval option"

section \<open>Dispatch\<close>

datatype dispatch_exn = Refused policy_verdict | LiveDispatchDisabled | Raised string

definition isolation_routes :: "(string \<times> string) list" where
  "isolation_routes =
     [(''crowdstrike'', ''cs_isolate_host''), (''defender'', ''mde_isolate_machine''), (''cortex'', ''cortex_isolate_endpoint'')]"

definition mock_envelope :: "string \<Rightarrow> string \<Rightarrow> string \<Rightarrow> json_dict" where
  "mock_envelope action_type connector target =
     [(PStr ''status'', PStr ''success''), (PStr ''is_mock'', PBool True), (PStr ''action'', PStr action_type),
      (PStr ''connector'', PStr connector), (PStr ''target'', PStr target),
      (PStr ''note'', PStr ''mock dispatch - no live connector wired for this action'')]"

definition sent :: "string \<Rightarrow> string \<Rightarrow> string \<Rightarrow> 'ts ct_world \<Rightarrow> 'ts ct_world" where
  "sent action_type connector target w = w\<lparr>cw_dispatched := cw_dispatched w @ [(action_type, connector, target)]\<rparr>"

definition dispatch ::
  "'ts ct_env \<Rightarrow> string \<Rightarrow> string \<Rightarrow> string \<Rightarrow> 'ts ct_world \<Rightarrow> (dispatch_exn, json_dict) res \<times> 'ts ct_world" where
  "dispatch env action_type connector target w =
     (if \<not> ce_mock env then (Inl LiveDispatchDisabled, w)
      else case (if action_type = ''isolate_host'' then map_of isolation_routes connector else None) of
        Some method \<Rightarrow>
          (case guard_dispatch (ce_manifests env) (ce_settings env) method None (Some True) False of
             Inl v \<Rightarrow> (Inl (Refused v), w)
           | Inr v \<Rightarrow>
               (case ce_server env method target of
                  Inl e \<Rightarrow> (Inl (Raised e), sent action_type connector target w)
                | Inr d \<Rightarrow> (Inr d, sent action_type connector target w)))
      | None \<Rightarrow> (Inr (mock_envelope action_type connector target), sent action_type connector target w))"

definition dict_get :: "json_dict \<Rightarrow> string \<Rightarrow> pyval \<Rightarrow> pyval" where
  "dict_get d k dflt = (case get_str d k of None \<Rightarrow> dflt | Some v \<Rightarrow> v)"

definition outcome_for :: "json_dict \<Rightarrow> (py_exn, string) res" where
  "outcome_for d =
     bind_res (py_str (dict_get d ''status'' (PStr ''success''))) (\<lambda>s.
       Inr (if lower s = ''success'' then ''success'' else ''failure''))"

section \<open>Safelist screens\<close>

definition block_action_types :: "string list" where
  "block_action_types = [''block_ip'', ''block_domain'']"

definition principal_screened_types :: "string list" where
  "principal_screened_types = [''revoke_role'', ''freeze_access_key'', ''detach_policy'', ''disable_account'']"

definition screened_types :: "string list" where
  "screened_types = block_action_types @ principal_screened_types"

definition ioc_safelisted :: "safelist_policy \<Rightarrow> string \<Rightarrow> string \<Rightarrow> bool" where
  "ioc_safelisted pol ioc_type v =
     (let t = lower (py_strip ioc_type) in
      if t = ''ip'' then ip_safelisted pol v
      else if t = ''domain'' then domain_safelisted pol v
      else if t = ''url'' then url_safelisted pol v
      else False)"

definition target_safelisted :: "safelist_policy \<Rightarrow> string \<Rightarrow> string \<Rightarrow> bool" where
  "target_safelisted pol action_type target =
     (if action_type = ''block_ip'' then ip_safelisted pol target
      else if action_type = ''block_domain'' then domain_safelisted pol target
      else if action_type \<in> set principal_screened_types then principal_safelisted pol target
      else False)"

section \<open>The audit row\<close>

definition write_row ::
  "'ts ct_env \<Rightarrow> string \<Rightarrow> string \<Rightarrow> string \<Rightarrow> string \<Rightarrow> string \<Rightarrow> ct_details \<Rightarrow> 'ts ct_world
     \<Rightarrow> (ct_exn, ('ts, ct_details) audit_row) res \<times> 'ts ct_world" where
  "write_row env actor org action resource outcome details w =
     (case audit_record (ce_audit env) (ce_other env) (ce_now env)
             \<lparr> ae_id = ce_new_id env, ae_org = org, ae_actor = actor, ae_category = ''containment'', ae_action = action,
               ae_resource = resource, ae_outcome = outcome, ae_details = details \<rparr> (cw_ledger w) of
        (Inl e, rows) \<Rightarrow> (Inl (RowLost e), w\<lparr>cw_ledger := rows\<rparr>)
      | (Inr r, rows) \<Rightarrow> (Inr r, w\<lparr>cw_ledger := rows\<rparr>))"

definition record_denial ::
  "'ts ct_env \<Rightarrow> string \<Rightarrow> string \<Rightarrow> string \<Rightarrow> string \<Rightarrow> string \<Rightarrow> string \<Rightarrow> refusal \<Rightarrow> string option
     \<Rightarrow> 'ts ct_world \<Rightarrow> (ct_exn, ct_result) res \<times> 'ts ct_world" where
  "record_denial env actor org action resource target tool why ioc_type w =
     (case write_row env actor org action resource ''denied'' (DenialDetails actor target tool why ioc_type) w of
        (Inl e, w') \<Rightarrow> (Inl e, w')
      | (Inr r, w') \<Rightarrow>
          (Inr \<lparr> ct_http_status = 403, ct_executed = False, ct_outcome = ''denied'', ct_refusal = Some why, ct_tool = tool,
                 ct_target = target, ct_response = None, ct_audit_id = au_id r, ct_approver = actor,
                 ct_change_ref = None \<rparr>, w'))"

definition record_execution ::
  "'ts ct_env \<Rightarrow> string \<Rightarrow> string \<Rightarrow> string \<Rightarrow> string \<Rightarrow> string \<Rightarrow> string \<Rightarrow> string \<Rightarrow> ct_details \<Rightarrow> json_dict \<Rightarrow> pyval option
     \<Rightarrow> 'ts ct_world \<Rightarrow> (ct_exn, ct_result) res \<times> 'ts ct_world" where
  "record_execution env actor org action resource target tool outcome details response change_ref w =
     (case write_row env actor org action resource outcome details w of
        (Inl e, w') \<Rightarrow> (Inl e, w')
      | (Inr r, w') \<Rightarrow>
          (Inr \<lparr> ct_http_status = 200, ct_executed = (outcome = ''success''), ct_outcome = outcome, ct_refusal = None,
                 ct_tool = tool, ct_target = target, ct_response = Some response, ct_audit_id = au_id r,
                 ct_approver = actor, ct_change_ref = change_ref \<rparr>, w'))"

section \<open>The two entry points\<close>

text \<open>
  What both do with the result of the dispatch: \<^term>\<open>refused\<close> handles a refusal by the manifest
  policy, \<^term>\<open>deny\<close> records a denial, \<^term>\<open>finish\<close> goes on with the response and its outcome.
\<close>

definition after_dispatch ::
  "(policy_verdict \<Rightarrow> 'ts ct_world \<Rightarrow> (ct_exn, ct_result) res \<times> 'ts ct_world)
     \<Rightarrow> (refusal \<Rightarrow> 'ts ct_world \<Rightarrow> (ct_exn, ct_result) res \<times> 'ts ct_world)
     \<Rightarrow> (json_dict \<Rightarrow> string \<Rightarrow> 'ts ct_world \<Rightarrow> (ct_exn, ct_result) res \<times> 'ts ct_world)
     \<Rightarrow> (dispatch_exn, json_dict) res \<times> 'ts ct_world \<Rightarrow> (ct_exn, ct_result) res \<times> 'ts ct_world" where
  "after_dispatch refused deny finish r =
     (case r of
        (Inl (Refused v), w) \<Rightarrow> refused v w
      | (Inl LiveDispatchDisabled, w) \<Rightarrow> deny LiveDisabled w
      | (Inl (Raised e), w) \<Rightarrow> (Inl (ServerRaised e), w)
      | (Inr response, w) \<Rightarrow>
          (case outcome_for response of
             Inl e \<Rightarrow> (Inl (NoStatusText e), w)
           | Inr outcome \<Rightarrow> finish response outcome w))"

record response_request =
  rq_action_id :: string
  rq_action_type :: string
  rq_connector :: string
  rq_target :: string
  rq_description :: string
  rq_approved :: bool

definition execute_response_action ::
  "'ts ct_env \<Rightarrow> string \<Rightarrow> string \<Rightarrow> response_request \<Rightarrow> 'ts ct_world \<Rightarrow> (ct_exn, ct_result) res \<times> 'ts ct_world" where
  "execute_response_action env actor org q w =
     (let resource = ''response_action:'' @ rq_action_id q;
          action = ''execute:'' @ rq_action_type q;
          deny = (\<lambda>why w'. record_denial env actor org action resource (rq_target q) (rq_connector q) why None w')
      in if \<not> rq_approved q then deny NotApproved w
      else if rq_action_type q \<in> set screened_types \<and>
              target_safelisted (load_policy org (ce_safelist env)) (rq_action_type q) (rq_target q) then
        deny (OnSafelist (if rq_action_type q \<in> set principal_screened_types then ''never-touch'' else ''never-block'')) w
      else after_dispatch (\<lambda>v. deny (ManifestRefused v)) deny
        (\<lambda>response outcome.
           record_execution env actor org action resource (rq_target q) (rq_connector q) outcome
             (ResponseDetails actor (rq_connector q) (rq_target q) (rq_description q)
                (dict_get response ''is_mock'' (PBool True)) response)
             response None)
        (dispatch env (rq_action_type q) (rq_connector q) (rq_target q) w))"

record bulk_request =
  bq_action_id :: string
  bq_ioc_type :: string
  bq_ioc_value :: string
  bq_tool :: string
  bq_policy_object :: string
  bq_rollback :: "string option"
  bq_approved :: bool

definition text_or_else :: "string \<Rightarrow> string \<Rightarrow> string" where
  "text_or_else s dflt = (if s = [] then dflt else s)"

text \<open>The change record never raises: every failure becomes part of the answer.\<close>

definition attach_change_record :: "'ts ct_env \<Rightarrow> bulk_request \<Rightarrow> pyval option \<times> change_response" where
  "attach_change_record env q =
     (case guard_dispatch (ce_manifests env) (ce_settings env) ''snow_create_security_incident'' None None False of
        Inl v \<Rightarrow> (None, ChangeRefused v)
      | Inr v \<Rightarrow>
          (case ce_ticket env (''Containment change: block '' @ bq_ioc_type q @ '' '' @ bq_ioc_value q)
                  (''Bulk IOC block executed via '' @ bq_tool q @ '':'' @ text_or_else (bq_policy_object q) ''blocklist'' @
                   ''. Rollback: '' @ text_or_else (case bq_rollback q of None \<Rightarrow> [] | Some r \<Rightarrow> r) ''n/a'' @ ''.'') of
             Inl e \<Rightarrow> (None, ChangeError e)
           | Inr (PDict d) \<Rightarrow> (get_str d ''number'', ChangeAnswer d)
           | Inr _ \<Rightarrow> (None, ChangeAnswer [])))"

definition execute_bulk_block ::
  "'ts ct_env \<Rightarrow> string \<Rightarrow> string \<Rightarrow> bulk_request \<Rightarrow> 'ts ct_world \<Rightarrow> (ct_exn, ct_result) res \<times> 'ts ct_world" where
  "execute_bulk_block env actor org q w =
     (let resource = ''mitigation_action:'' @ bq_action_id q;
          action = ''execute:block_ioc'';
          deny = (\<lambda>why w'. record_denial env actor org action resource (bq_ioc_value q) (bq_tool q) why (Some (bq_ioc_type q)) w')
      in if \<not> bq_approved q then deny NotApproved w
      else if ioc_safelisted (load_policy org (ce_safelist env)) (bq_ioc_type q) (bq_ioc_value q) then deny IocOnSafelist w
      else after_dispatch (\<lambda>v w'. (Inl (PolicyEscaped v), w')) deny
        (\<lambda>response outcome.
           (case attach_change_record env q of (change_ref, change) \<Rightarrow>
              record_execution env actor org action resource (bq_ioc_value q) (bq_tool q) outcome
                (BulkDetails actor (bq_ioc_type q) (bq_ioc_value q) (bq_tool q) (bq_policy_object q) change_ref change
                   (dict_get response ''is_mock'' (PBool True)) response)
                response change_ref))
        (dispatch env ''block_ioc'' (bq_tool q) (bq_ioc_value q) w))"

section \<open>Both entry points together\<close>

datatype containment_request = Response response_request | Bulk bulk_request

fun execute_request ::
  "'ts ct_env \<Rightarrow> string \<Rightarrow> string \<Rightarrow> containment_request \<Rightarrow> 'ts ct_world \<Rightarrow> (ct_exn, ct_result) res \<times> 'ts ct_world" where
  "execute_request env actor org (Response q) w = execute_response_action env actor org q w"
| "execute_request env actor org (Bulk q) w = execute_bulk_block env actor org q w"

fun request_approved :: "containment_request \<Rightarrow> bool" where
  "request_approved (Response q) = rq_approved q"
| "request_approved (Bulk q) = bq_approved q"

text \<open>The request's target is on the safelist that screens its kind of action.\<close>

fun request_safelisted :: "safelist_policy \<Rightarrow> containment_request \<Rightarrow> bool" where
  "request_safelisted pol (Response q) =
     (rq_action_type q \<in> set screened_types \<and> target_safelisted pol (rq_action_type q) (rq_target q))"
| "request_safelisted pol (Bulk q) = ioc_safelisted pol (bq_ioc_type q) (bq_ioc_value q)"

fun request_dispatch :: "containment_request \<Rightarrow> string \<times> string \<times> string" where
  "request_dispatch (Response q) = (rq_action_type q, rq_connector q, rq_target q)"
| "request_dispatch (Bulk q) = (''block_ioc'', bq_tool q, bq_ioc_value q)"

fun request_resource :: "containment_request \<Rightarrow> string" where
  "request_resource (Response q) = ''response_action:'' @ rq_action_id q"
| "request_resource (Bulk q) = ''mitigation_action:'' @ bq_action_id q"

lemma write_row_world: "cw_dispatched (snd (write_row env actor org action resource outcome details w)) = cw_dispatched w"
  by (auto simp: write_row_def split: prod.splits sum.splits)

lemma record_world:
  "cw_dispatched (snd (record_denial env actor org action resource target tool why t w)) = cw_dispatched w"
  "cw_dispatched (snd (record_execution env actor org action resource target tool outcome details resp c w)) = cw_dispatched w"
  using write_row_world[of env actor org action resource "''denied''" "DenialDetails actor target tool why t" w]
    write_row_world[of env actor org action resource outcome details w]
  by (auto simp: record_denial_def record_execution_def split: prod.splits sum.splits)

text \<open>A dispatch goes out at most once, and never in live mode.\<close>

lemma dispatch_cases:
  "dispatch env a c t w = (x, w') \<Longrightarrow>
     (w' = w \<and> (\<exists>e. x = Inl e \<and> (\<forall>m. e \<noteq> Raised m))) \<or>
     (w' = sent a c t w \<and> ce_mock env \<and> (\<forall>e. x = Inl e \<longrightarrow> (\<exists>m. e = Raised m)))"
  by (auto simp: dispatch_def split: if_splits option.splits sum.splits)

lemma sent_fields [simp]:
  "cw_dispatched (sent a c t w) = cw_dispatched w @ [(a, c, t)]" "cw_ledger (sent a c t w) = cw_ledger w"
  by (simp_all add: sent_def)

text \<open>How a request can end: denied, failed before or after its dispatch went out, or executed.\<close>

inductive request_outcome ::
  "'ts ct_env \<Rightarrow> string \<Rightarrow> string \<Rightarrow> containment_request \<Rightarrow> 'ts ct_world \<Rightarrow> (ct_exn, ct_result) res \<times> 'ts ct_world \<Rightarrow> bool"
  for env actor org q w where
  denied: "request_dispatch q = (a, c, t) \<Longrightarrow>
    request_outcome env actor org q w (record_denial env actor org (''execute:'' @ a) (request_resource q) t c why ty w)"
| failed: "request_outcome env actor org q w (Inl e, w)"
| failed_after: "request_dispatch q = (a, c, t) \<Longrightarrow> ce_mock env \<Longrightarrow> request_approved q \<Longrightarrow>
    \<not> request_safelisted (load_policy org (ce_safelist env)) q \<Longrightarrow>
    request_outcome env actor org q w (Inl e, sent a c t w)"
| executed: "request_dispatch q = (a, c, t) \<Longrightarrow> ce_mock env \<Longrightarrow> request_approved q \<Longrightarrow>
    \<not> request_safelisted (load_policy org (ce_safelist env)) q \<Longrightarrow> outcome \<in> {''success'', ''failure''} \<Longrightarrow>
    request_outcome env actor org q w
      (record_execution env actor org (''execute:'' @ a) (request_resource q) t c outcome details response change (sent a c t w))"

inductive_cases request_outcomeE: "request_outcome env actor org q w r"

lemma outcome_for_values: "outcome_for d = Inr oc \<Longrightarrow> oc \<in> {''success'', ''failure''}"
  by (auto simp: outcome_for_def bind_res_def split: sum.splits if_splits)

text \<open>From a passed gate on, both ways of handling the dispatch end in one of these outcomes.\<close>

lemma after_dispatch_outcome:
  assumes rd: "request_dispatch q = (a, c, t)" and ok: "request_approved q"
    and safe: "\<not> request_safelisted (load_policy org (ce_safelist env)) q"
    and refused: "\<And>v. request_outcome env actor org q w (refused v w)"
    and deny: "\<And>y. request_outcome env actor org q w (deny y w)"
    and finish: "\<And>d oc. \<exists>details change. finish d oc (sent a c t w) =
      record_execution env actor org (''execute:'' @ a) (request_resource q) t c oc details d change (sent a c t w)"
  shows "request_outcome env actor org q w (after_dispatch refused deny finish (dispatch env a c t w))"
proof -
  obtain x w' where d: "dispatch env a c t w = (x, w')" by fastforce
  from dispatch_cases[OF d] show ?thesis
  proof
    assume "w' = w \<and> (\<exists>e. x = Inl e \<and> (\<forall>m. e \<noteq> Raised m))"
    then show ?thesis
      using refused deny by (auto simp: after_dispatch_def d split: dispatch_exn.splits)
  next
    assume *: "w' = sent a c t w \<and> ce_mock env \<and> (\<forall>e. x = Inl e \<longrightarrow> (\<exists>m. e = Raised m))"
    show ?thesis
    proof (cases x)
      case (Inl e)
      then show ?thesis using * by (auto simp: after_dispatch_def d intro: request_outcome.failed_after[OF rd _ ok safe])
    next
      case (Inr resp)
      show ?thesis
      proof (cases "outcome_for resp")
        case (Inl e)
        then show ?thesis using * Inr by (auto simp: after_dispatch_def d intro: request_outcome.failed_after[OF rd _ ok safe])
      next
        case oc: (Inr oc)
        obtain details change where "finish resp oc (sent a c t w) =
            record_execution env actor org (''execute:'' @ a) (request_resource q) t c oc details resp change (sent a c t w)"
          using finish by blast
        then show ?thesis
          using * request_outcome.executed[OF rd _ ok safe outcome_for_values[OF oc]] Inr oc
          by (simp add: after_dispatch_def d)
      qed
    qed
  qed
qed

lemma execute_request_outcome: "request_outcome env actor org q w (execute_request env actor org q w)"
proof (cases q)
  case q: (Response r)
  define a where "a = ''execute:'' @ rq_action_type r"
  have rd: "request_dispatch q = (rq_action_type r, rq_connector r, rq_target r)" by (simp add: q)
  note den = request_outcome.denied[OF rd, where env = env and actor = actor and org = org and w = w, folded a_def]
  show ?thesis
  proof (cases "rq_approved r \<and> \<not> request_safelisted (load_policy org (ce_safelist env)) q")
    case True
    have "request_outcome env actor org q w (after_dispatch
        (\<lambda>v. record_denial env actor org a (request_resource q) (rq_target r) (rq_connector r) (ManifestRefused v) None)
        (\<lambda>y. record_denial env actor org a (request_resource q) (rq_target r) (rq_connector r) y None)
        (\<lambda>d oc. record_execution env actor org a (request_resource q) (rq_target r) (rq_connector r) oc
           (ResponseDetails actor (rq_connector r) (rq_target r) (rq_description r) (dict_get d ''is_mock'' (PBool True)) d) d None)
        (dispatch env (rq_action_type r) (rq_connector r) (rq_target r) w))"
      by (rule after_dispatch_outcome[OF rd]) (use True den in \<open>auto simp: q a_def[symmetric] simp del: append_Cons\<close>)
    then show ?thesis using True by (auto simp: q execute_response_action_def Let_def a_def)
  next
    case False
    then show ?thesis using den by (auto simp: q execute_response_action_def Let_def a_def)
  qed
next
  case q: (Bulk r)
  define a where "a = ''execute:'' @ ''block_ioc''"
  have rd: "request_dispatch q = (''block_ioc'', bq_tool r, bq_ioc_value r)" by (simp add: q)
  note den = request_outcome.denied[OF rd, where env = env and actor = actor and org = org and w = w, folded a_def]
  show ?thesis
  proof (cases "bq_approved r \<and> \<not> request_safelisted (load_policy org (ce_safelist env)) q")
    case True
    have "request_outcome env actor org q w (after_dispatch (\<lambda>v w'. (Inl (PolicyEscaped v), w'))
        (\<lambda>y. record_denial env actor org a (request_resource q) (bq_ioc_value r) (bq_tool r) y (Some (bq_ioc_type r)))
        (\<lambda>d oc. case attach_change_record env r of (ref, change) \<Rightarrow>
           record_execution env actor org a (request_resource q) (bq_ioc_value r) (bq_tool r) oc
             (BulkDetails actor (bq_ioc_type r) (bq_ioc_value r) (bq_tool r) (bq_policy_object r) ref change
                (dict_get d ''is_mock'' (PBool True)) d) d ref)
        (dispatch env ''block_ioc'' (bq_tool r) (bq_ioc_value r) w))"
      by (rule after_dispatch_outcome[OF rd])
        (use True den in \<open>auto simp: q a_def[symmetric] intro: request_outcome.failed simp del: append_Cons split: prod.splits\<close>)
    then show ?thesis using True by (auto simp: q execute_bulk_block_def Let_def a_def)
  next
    case False
    then show ?thesis using den by (auto simp: q execute_bulk_block_def Let_def a_def)
  qed
qed

section \<open>Guarantees\<close>

text \<open>C4: Containment is gated. Whatever the request and the state, at most one dispatch goes out; one
  goes out only for a request that was approved, in mock mode, whose target is not on the safelist
  the organisation's policy screens that kind of action with; and it is the request's own
  dispatch.\<close>

theorem containment_gated:
  "cw_dispatched (snd (execute_request env actor org q w)) = cw_dispatched w \<or>
   (cw_dispatched (snd (execute_request env actor org q w)) = cw_dispatched w @ [request_dispatch q] \<and>
    request_approved q \<and> ce_mock env \<and> request_safelisted (load_policy org (ce_safelist env)) q = False)"
  using execute_request_outcome[of env actor org q w]
  by cases (simp_all add: record_world)

text \<open>One row per answer, on a ledger that stays whole.\<close>

definition row_of_answer :: "string \<Rightarrow> string \<Rightarrow> containment_request \<Rightarrow> ct_result \<Rightarrow> ('ts, ct_details) audit_row \<Rightarrow> bool" where
  "row_of_answer actor org q res r =
     (au_org r = org \<and> au_actor r = actor \<and> au_category r = ''containment'' \<and>
      au_action r = ''execute:'' @ fst (request_dispatch q) \<and> au_resource r = request_resource q \<and>
      au_outcome r = ct_outcome res \<and> au_id r = ct_audit_id res)"

lemma write_row_Inr:
  assumes "ledger_ok (ce_audit env) (cw_ledger w)" and "\<And>i. appends_only (ce_audit env) (ce_other env i)"
    and "write_row env actor org action resource outcome details w = (Inr r, w')"
  shows "ledger_ok (ce_audit env) (cw_ledger w') \<and>
    (\<exists>t k. k < 5 \<and> cw_ledger w @ t = fold (ce_other env) (rev [k..<5]) (cw_ledger w) \<and> cw_ledger w' = cw_ledger w @ t @ [r]) \<and>
    cw_dispatched w' = cw_dispatched w \<and>
    au_org r = org \<and> au_actor r = actor \<and> au_category r = ''containment'' \<and> au_action r = action \<and>
    au_resource r = resource \<and> au_outcome r = outcome"
proof -
  define e where "e = \<lparr> ae_id = ce_new_id env, ae_org = org, ae_actor = actor, ae_category = ''containment'',
    ae_action = action, ae_resource = resource, ae_outcome = outcome, ae_details = details \<rparr>"
  obtain rows where run: "record_attempts (ce_audit env) max_append_attempts (ce_other env) (ce_now env) e (cw_ledger w) = (Inr r, rows)"
    and w': "w' = w\<lparr>cw_ledger := rows\<rparr>"
    using assms(3) by (auto simp: write_row_def e_def audit_record_def split: prod.splits sum.splits)
  obtain t k where "ledger_ok (ce_audit env) rows" "rows = cw_ledger w @ t @ [r]"
    "k < 5" "cw_ledger w @ t = fold (ce_other env) (rev [k..<5]) (cw_ledger w)"
    "r = build_row (ce_audit env) e (ce_now env k) (next_seq_and_prev_hash (cw_ledger w @ t))"
    using record_attempts_spec[where n = max_append_attempts and e = e and now = "ce_now env" and other = "ce_other env", OF assms(1,2)]
    run by (auto simp: max_append_attempts_def)
  then show ?thesis using w' by (auto simp: build_row_def e_def intro!: exI[of _ t] exI[of _ k])
qed

text \<open>C5: Every answer is on the ledger. When the audit ledger is in order and other writers only append,
  an execution that returns, whether it refused or acted, has added exactly one row of its own:
  the ledger is what the other writers made of it during the append, and that row.  The row is
  stamped with the acting user, the organisation, the action and the outcome it returned, and
  the ledger is still one unbroken chain; and the answer is a 403 exactly when no dispatch went
  out, a success only when one did.\<close>

theorem containment_recorded:
  assumes "ledger_ok (ce_audit env) (cw_ledger w)" and "\<And>i. appends_only (ce_audit env) (ce_other env i)"
    and "execute_request env actor org q w = (Inr res, w')"
  shows "ledger_ok (ce_audit env) (cw_ledger w') \<and>
    (\<exists>t k r. k < 5 \<and> cw_ledger w @ t = fold (ce_other env) (rev [k..<5]) (cw_ledger w) \<and>
       cw_ledger w' = cw_ledger w @ t @ [r] \<and> row_of_answer actor org q res r) \<and>
    (ct_http_status res = 403) = (cw_dispatched w' = cw_dispatched w) \<and>
    (ct_http_status res = 403) = (ct_outcome res = ''denied'') \<and> ct_executed res = (ct_outcome res = ''success'')"
  using execute_request_outcome[of env actor org q w, unfolded assms(3)]
proof cases
  case (denied a c t why ty)
  then obtain r where wr: "write_row env actor org (''execute:'' @ a) (request_resource q) ''denied'' (DenialDetails actor t c why ty) w = (Inr r, w')"
    and res: "ct_http_status res = 403" "ct_outcome res = ''denied''" "\<not> ct_executed res" "ct_audit_id res = au_id r"
    by (auto simp: record_denial_def split: prod.splits sum.splits)
  show ?thesis
    using write_row_Inr[OF assms(1,2) wr] res denied(2) unfolding row_of_answer_def by auto
next
  case (executed a c t outcome details response change)
  then obtain r where wr: "write_row env actor org (''execute:'' @ a) (request_resource q) outcome details (sent a c t w) = (Inr r, w')"
    and res: "ct_http_status res = 200" "ct_outcome res = outcome" "ct_executed res = (outcome = ''success'')" "ct_audit_id res = au_id r"
    by (auto simp: record_execution_def split: prod.splits sum.splits)
  have "ledger_ok (ce_audit env) (cw_ledger (sent a c t w))" using assms(1) by simp
  from write_row_Inr[OF this assms(2) wr] show ?thesis
    using res executed unfolding row_of_answer_def by auto
qed

text \<open>An approved isolation through a declared server, on an empty ledger with no other writers.\<close>

definition isolation_manifest :: manifest where
  "isolation_manifest = \<lparr> mf_name = ''crowdstrike'', mf_queries = [], mf_actions =
     [default_capability Action ''cs_isolate_host''], mf_streams = [] \<rparr>"

definition demo_env :: "unit ct_env" where
  "demo_env = \<lparr> ce_audit = \<lparr> al_sha256 = (\<lambda>s. s), al_iso = (\<lambda>_. ''T''), al_canonical = (\<lambda>_. ''{}'') \<rparr>,
     ce_other = (\<lambda>_ t. t), ce_now = (\<lambda>_. ()), ce_new_id = ''aud_1'', ce_mock = True,
     ce_manifests = [(''crowdstrike'', isolation_manifest)], ce_settings = fresh_settings,
     ce_server = (\<lambda>_ _. Inr [(PStr ''status'', PStr ''Success'')]), ce_ticket = (\<lambda>_ _. Inl ''no ticket service''),
     ce_safelist = [] \<rparr>"

definition demo_request :: containment_request where
  "demo_request = Response \<lparr> rq_action_id = ''a1'', rq_action_type = ''isolate_host'', rq_connector = ''crowdstrike'',
     rq_target = ''WS-7'', rq_description = [], rq_approved = True \<rparr>"

definition demo_world :: "unit ct_world" where
  "demo_world = \<lparr> cw_ledger = [], cw_dispatched = [] \<rparr>"

lemma containment_recorded_witness:
  "\<exists>res w' r. execute_request demo_env ''u1'' ''o1'' demo_request demo_world = (Inr res, w') \<and>
     ct_executed res \<and> cw_ledger w' = [r] \<and> row_of_answer ''u1'' ''o1'' demo_request res r"
proof -
  have "case execute_request demo_env ''u1'' ''o1'' demo_request demo_world of
      (Inr res, w') \<Rightarrow> ct_executed res \<and> length (cw_ledger w') = 1 | (Inl e, w') \<Rightarrow> False"
    by code_simp
  from Inr_result[OF this] obtain res w' where
    run: "execute_request demo_env ''u1'' ''o1'' demo_request demo_world = (Inr res, w')"
    and out: "ct_executed res" "length (cw_ledger w') = 1" by blast
  have "ledger_ok (ce_audit demo_env) (cw_ledger demo_world)" by (simp add: demo_world_def)
  moreover have "appends_only (ce_audit demo_env) (ce_other demo_env i)" for i
    by (simp add: demo_env_def appends_only_def)
  ultimately obtain t r where "cw_ledger w' = cw_ledger demo_world @ t @ [r]" "row_of_answer ''u1'' ''o1'' demo_request res r"
    using containment_recorded[OF _ _ run] by blast
  then show ?thesis using run out by (auto simp: demo_world_def)
qed

section \<open>Planning and execution agree\<close>

lemma merge_without_principals:
  "ip_safelisted (merge_safelist pol ips sufs prins) = ip_safelisted (merge_safelist pol ips sufs [])"
  "domain_safelisted (merge_safelist pol ips sufs prins) = domain_safelisted (merge_safelist pol ips sufs [])"
  "url_safelisted (merge_safelist pol ips sufs prins) = url_safelisted (merge_safelist pol ips sufs [])"
  by (simp_all add: fun_eq_iff ip_safelisted_def domain_safelisted_def url_safelisted_def merge_safelist_def make_safelist_def)

lemma kind_text_normal: "lower (py_strip (ioc_value_text k)) = ioc_value_text k"
proof -
  have "list_all (\<lambda>s. lower (py_strip s) = s) [''ip'', ''domain'', ''url'', ''hash_md5'', ''hash_sha1'', ''hash_sha256'',
      ''email'', ''file_path'', ''registry_key'', ''cve'', ''user_agent'', ''mutex'', ''process_name'', ''other'']"
    by code_simp
  then show ?thesis by (cases k) simp_all
qed

lemma screen_agrees:
  assumes "load_policy_tuples org table = (ips, sufs)"
  shows "ioc_safelisted (load_policy org table) (ioc_value_text k) v =
    allowlisted \<lparr> ioc_kind = k, ioc_text = v \<rparr> {} (merge_safelist baseline_safelist ips sufs [])"
proof -
  define prins where "prins = entry_values ''principal'' (list_entries org table)"
  have pol: "load_policy org table = merge_safelist baseline_safelist ips sufs prins"
    using assms by (simp add: load_policy_def load_policy_tuples_def Let_def prins_def)
  note same = merge_without_principals[of baseline_safelist ips sufs prins]
  show ?thesis
    unfolding ioc_safelisted_def Let_def kind_text_normal pol same
    by (cases k) (simp_all add: allowlisted_def)
qed

text \<open>C35: What the planner proposes, the executor lets through, and what it screened out stays out. For a
  plan made with the organisation's table, the execution-time screen of the same table passes
  every proposed block, and refuses every indicator the planner skipped as allowlisted, except
  those the caller listed for this plan only.\<close>

theorem plan_execution_agree:
  "let plan = build_plan iocs extra (fst (load_policy_tuples org table)) (snd (load_policy_tuples org table));
       screen = (\<lambda>a. ioc_safelisted (load_policy org table) (ioc_value_text (ma_type a)) (ma_value a))
   in list_all (\<lambda>a. screen a = False) (filter is_block (mp_actions plan)) \<and>
      list_all (\<lambda>a. ma_value a \<in> py_strip ` set extra \<or> screen a)
        (filter (\<lambda>a. ma_decision a = SKIP_ALLOWLISTED) (mp_actions plan))"
proof -
  obtain ips sufs where t: "load_policy_tuples org table = (ips, sufs)" by fastforce
  define ex where "ex = set (map py_strip (filter non_blank extra))"
  define pol where "pol = merge_safelist baseline_safelist ips sufs []"
  have ex_sub: "ex \<subseteq> py_strip ` set extra" by (auto simp: ex_def)
  have split: "allowlisted \<lparr> ioc_kind = k, ioc_text = v \<rparr> ex pol \<longleftrightarrow>
      py_strip v \<in> ex \<or> ioc_safelisted (load_policy org table) (ioc_value_text k) v" for k v
    unfolding screen_agrees[OF t] pol_def by (simp add: allowlisted_def)
  have "list_all (block_ok ex pol) (filter is_block (plan_actions ex pol [] 1 iocs))" by (rule plan_actions_blocks)
  then have 1: "list_all (\<lambda>a. ioc_safelisted (load_policy org table) (ioc_value_text (ma_type a)) (ma_value a) = False)
      (filter is_block (plan_actions ex pol [] 1 iocs))"
    by (rule list.pred_mono_strong) (simp add: block_ok_def split)
  have fields: "py_strip (ma_value a) = ma_value a" if "a \<in> set (plan_actions ex pol [] 1 iocs)" for a
  proof -
    have "(ma_type a, ma_value a) \<in> set (map (\<lambda>ioc. (ioc_kind ioc, py_strip (ioc_text ioc))) iocs)"
      unfolding plan_actions_fields[of ex pol "[]" 1 iocs, symmetric] using that by (simp add: image_iff) blast
    then show ?thesis by auto
  qed
  have "list_all (\<lambda>a. allowlisted \<lparr> ioc_kind = ma_type a, ioc_text = ma_value a \<rparr> ex pol)
      (filter (\<lambda>a. ma_decision a = SKIP_ALLOWLISTED) (plan_actions ex pol [] 1 iocs))"
    by (rule plan_actions_allowlisted)
  then have 2: "list_all (\<lambda>a. ma_value a \<in> py_strip ` set extra \<or>
      ioc_safelisted (load_policy org table) (ioc_value_text (ma_type a)) (ma_value a))
      (filter (\<lambda>a. ma_decision a = SKIP_ALLOWLISTED) (plan_actions ex pol [] 1 iocs))"
    by (rule list.pred_mono_strong) (use ex_sub fields in \<open>auto simp: split\<close>)
  show ?thesis using 1 2 by (simp add: t build_plan_def Let_def ex_def pol_def)
qed

end
