(* ===== verification/LlmRouter.thy ===== *)
theory LlmRouter
  imports McpPolicy Middleware PyText
begin

text \<open>
  The choice of the language model (agents/btagent_agents/llm/router.py), the classification
  hook that checks a provider (hooks/classification_hook.py), and the engine middleware that
  gates a reasoning node on both (middleware/llm_router.py).  LiteLLM is outside: creating a
  model is the record of its arguments.  Log lines and message texts are left out.
\<close>

section \<open>Environment\<close>

definition default_ollama_base_url :: string where
  "default_ollama_base_url = ''http://localhost:11434''"

definition local_providers :: "string list" where
  "local_providers = [provider_value OLLAMA, ''vllm'']"

definition truthy_words :: "string list" where
  "truthy_words = [''1'', ''true'', ''yes'', ''on'']"

definition falsey_words :: "string list" where
  "falsey_words = [[], ''0'', ''false'', ''no'', ''off'']"

text \<open>An environment variable: None when it is not set.\<close>

definition env_ollama_base_url :: "string option \<Rightarrow> string" where
  "env_ollama_base_url var =
     (let u = py_strip (case var of None \<Rightarrow> [] | Some s \<Rightarrow> s) in if u = [] then default_ollama_base_url else u)"

text \<open>The flag, and whether the unrecognised value is reported.\<close>

definition env_local_only :: "string option \<Rightarrow> bool \<times> bool" where
  "env_local_only var =
     (let raw = lower (py_strip (case var of None \<Rightarrow> [] | Some s \<Rightarrow> s)) in
      if raw \<in> set truthy_words then (True, False) else (False, raw \<notin> set falsey_words))"

section \<open>Tables\<close>

fun tlp_routing :: "tlp \<Rightarrow> model_provider list" where
  "tlp_routing RED = [OLLAMA]"
| "tlp_routing AMBER_STRICT = [OLLAMA, BEDROCK]"
| "tlp_routing AMBER = [ANTHROPIC, BEDROCK, VERTEX_AI, OLLAMA]"
| "tlp_routing GREEN = [ANTHROPIC, OPENAI, BEDROCK, VERTEX_AI, OLLAMA]"
| "tlp_routing WHITE = [ANTHROPIC, OPENAI, BEDROCK, VERTEX_AI, AZURE, OLLAMA]"

fun model_tiers :: "model_tier \<Rightarrow> (model_provider \<times> string) list" where
  "model_tiers FAST =
     [(ANTHROPIC, ''claude-haiku-4-5-20251001''), (OPENAI, ''gpt-4o-mini''),
      (BEDROCK, ''bedrock/claude-haiku-4-5-20251001''), (VERTEX_AI, ''gemini-2.0-flash''),
      (AZURE, ''azure/gpt-4o-mini''), (OLLAMA, ''llama3.3'')]"
| "model_tiers STANDARD =
     [(ANTHROPIC, ''claude-sonnet-4-6''), (OPENAI, ''gpt-4o''),
      (BEDROCK, ''bedrock/claude-sonnet-4-6''), (VERTEX_AI, ''gemini-2.5-pro''),
      (AZURE, ''azure/gpt-4o''), (OLLAMA, ''llama3.3'')]"
| "model_tiers PREMIUM =
     [(ANTHROPIC, ''claude-opus-4-7''), (OPENAI, ''gpt-5''),
      (BEDROCK, ''bedrock/claude-opus-4-7''), (VERTEX_AI, ''gemini-2.5-pro''),
      (AZURE, ''azure/gpt-4o''), (OLLAMA, ''llama3.3'')]"
| "model_tiers LOCAL = [(OLLAMA, ''llama3.3'')]"

section \<open>The router\<close>

record llm_router =
  lr_temperature :: pyfloat
  lr_max_tokens :: int
  lr_base_url :: string
  lr_local_only :: bool
  lr_kwargs :: config

text \<open>The constructor: the two environment variables, then its own arguments.\<close>

definition new_router ::
  "string option \<Rightarrow> string option \<Rightarrow> pyfloat \<Rightarrow> int \<Rightarrow> string option \<Rightarrow> bool option \<Rightarrow> config option \<Rightarrow> llm_router" where
  "new_router url_var local_var temperature max_tokens base_url only_local kwargs =
     \<lparr> lr_temperature = temperature, lr_max_tokens = max_tokens,
       lr_base_url = (case base_url of Some u \<Rightarrow> if u = [] then env_ollama_base_url url_var else u
                      | None \<Rightarrow> env_ollama_base_url url_var),
       lr_local_only = (case only_local of None \<Rightarrow> fst (env_local_only local_var) | Some b \<Rightarrow> b),
       lr_kwargs = (case kwargs of None \<Rightarrow> [] | Some k \<Rightarrow> k) \<rparr>"

definition get_allowed_providers :: "llm_router \<Rightarrow> tlp \<Rightarrow> string list" where
  "get_allowed_providers r t =
     (let allowed = map provider_value (tlp_routing t) in
      if lr_local_only r then filter (\<lambda>p. p \<in> set local_providers) allowed else allowed)"

definition get_model_id :: "model_tier \<Rightarrow> string \<Rightarrow> string option" where
  "get_model_id tier p = map_of (map (apfst provider_value) (model_tiers tier)) p"

text \<open>\<^verbatim>\<open>model_id = ...; if model_id: return provider, model_id\<close>, and the loop over providers.\<close>

definition try_provider :: "model_tier \<Rightarrow> string \<Rightarrow> (string \<times> string) option" where
  "try_provider tier p =
     (case get_model_id tier p of None \<Rightarrow> None | Some m \<Rightarrow> if m = [] then None else Some (p, m))"

fun first_model :: "model_tier \<Rightarrow> string list \<Rightarrow> (string \<times> string) option" where
  "first_model tier [] = None"
| "first_model tier (p # ps) = (case try_provider tier p of Some pm \<Rightarrow> Some pm | None \<Rightarrow> first_model tier ps)"

datatype refusal_reason = LocalOnlyRefusal "string list" | NoProviderAllowed | NoModelFound "string list" bool

datatype routing_error = RoutingError tlp model_tier refusal_reason

definition resolve :: "llm_router \<Rightarrow> tlp \<Rightarrow> model_tier \<Rightarrow> string option \<Rightarrow> (routing_error, string \<times> string) res" where
  "resolve r t tier preferred =
     (let unrestricted = map provider_value (tlp_routing t);
          allowed = get_allowed_providers r t;
          wanted = (case preferred of
                      Some p \<Rightarrow> if p \<noteq> [] \<and> p \<in> set allowed then try_provider tier p else None
                    | None \<Rightarrow> None)
      in if allowed = [] then
           Inl (RoutingError t tier (if lr_local_only r \<and> unrestricted \<noteq> [] then LocalOnlyRefusal unrestricted
                                     else NoProviderAllowed))
         else case wanted of
           Some pm \<Rightarrow> Inr pm
         | None \<Rightarrow>
             (case first_model tier allowed of
                Some pm \<Rightarrow> Inr pm
              | None \<Rightarrow>
                  (case (if tier = LOCAL then first_model STANDARD allowed else None) of
                     Some pm \<Rightarrow> Inr pm
                   | None \<Rightarrow> Inl (RoutingError t tier (NoModelFound allowed (lr_local_only r))))))"

text \<open>The arguments of the chat model.\<close>

record chat_model =
  cm_model :: string
  cm_temperature :: pyfloat
  cm_max_tokens :: int
  cm_streaming :: bool
  cm_kwargs :: config

definition setdefault :: "string \<Rightarrow> pyval \<Rightarrow> config \<Rightarrow> config" where
  "setdefault k v d = (if map_of d k = None then dict_put k v d else d)"

definition get_llm ::
  "llm_router \<Rightarrow> tlp \<Rightarrow> model_tier \<Rightarrow> string option \<Rightarrow> pyfloat option \<Rightarrow> int option \<Rightarrow> bool \<Rightarrow> config
     \<Rightarrow> (routing_error, chat_model) res" where
  "get_llm r t tier preferred temperature max_tokens streaming kwargs =
     bind_res (resolve r t tier preferred) (\<lambda>(provider, model).
       let params = foldl (\<lambda>d (k, v). dict_put k v d) (lr_kwargs r) kwargs;
           is_ollama = (provider = provider_value OLLAMA)
       in Inr \<lparr> cm_model = (if is_ollama \<and> \<not> is_prefix ''ollama/'' model then ''ollama/'' @ model else model),
                cm_temperature = (case temperature of None \<Rightarrow> lr_temperature r | Some f \<Rightarrow> f),
                cm_max_tokens = (case max_tokens of None \<Rightarrow> lr_max_tokens r | Some n \<Rightarrow> if n = 0 then lr_max_tokens r else n),
                cm_streaming = streaming,
                cm_kwargs = (if is_ollama then setdefault ''api_base'' (PStr (lr_base_url r)) params else params) \<rparr>)"

definition validate_routing :: "llm_router \<Rightarrow> tlp \<Rightarrow> string \<Rightarrow> bool" where
  "validate_routing r t p = (p \<in> set (get_allowed_providers r t))"

section \<open>The classification hook\<close>

definition hook_local_providers :: "model_provider list" where
  "hook_local_providers = [OLLAMA]"

definition trusted_cloud_providers :: "model_provider list" where
  "trusted_cloud_providers = [OLLAMA, BEDROCK]"

fun tlp_allowed_providers :: "tlp \<Rightarrow> model_provider list" where
  "tlp_allowed_providers RED = hook_local_providers"
| "tlp_allowed_providers AMBER_STRICT = trusted_cloud_providers"
| "tlp_allowed_providers AMBER = hook_local_providers @ [ANTHROPIC, BEDROCK, VERTEX_AI]"
| "tlp_allowed_providers GREEN = hook_local_providers @ [ANTHROPIC, OPENAI, BEDROCK, VERTEX_AI]"
| "tlp_allowed_providers WHITE = hook_local_providers @ [ANTHROPIC, OPENAI, BEDROCK, VERTEX_AI, AZURE]"

definition is_provider_allowed :: "tlp \<Rightarrow> string \<Rightarrow> bool" where
  "is_provider_allowed t p = (p \<in> provider_value ` set (tlp_allowed_providers t))"

record classification_hook =
  clh_level :: tlp
  clh_provider :: string

text \<open>Constructing the hook binds the classification of the run.\<close>

definition new_classification_hook :: "tlp \<Rightarrow> string \<Rightarrow> run_settings \<Rightarrow> classification_hook \<times> run_settings" where
  "new_classification_hook t p s = (\<lparr> clh_level = t, clh_provider = p \<rparr>, set_active_tlp (Some t) s)"

datatype callback_exn = ProviderRefused tlp string | MalformedSerialized py_exn

record provider_event =
  pe_level :: tlp
  pe_provider :: string
  pe_model :: pyval
  pe_run_id :: string

text \<open>\<^verbatim>\<open>serialized.get("name", serialized.get("id", ["unknown"])[-1])\<close>; the default is evaluated first.\<close>

definition serialized_model :: "(pyval \<times> pyval) list \<Rightarrow> (py_exn, pyval) res" where
  "serialized_model d =
     bind_res (py_getitem (case get_str d ''id'' of None \<Rightarrow> PList [PStr ''unknown''] | Some v \<Rightarrow> v) (PInt (- 1)))
       (\<lambda>dflt. Inr (case get_str d ''name'' of None \<Rightarrow> dflt | Some v \<Rightarrow> v))"

definition check_tlp_compliance ::
  "classification_hook \<Rightarrow> (pyval \<times> pyval) list \<Rightarrow> string \<Rightarrow> provider_event list
     \<Rightarrow> (callback_exn, unit) res \<times> provider_event list" where
  "check_tlp_compliance h serialized run_id emitted =
     (if is_provider_allowed (clh_level h) (clh_provider h) then (Inr (), emitted)
      else case serialized_model serialized of
        Inl e \<Rightarrow> (Inl (MalformedSerialized e), emitted)
      | Inr m \<Rightarrow>
          (Inl (ProviderRefused (clh_level h) (clh_provider h)),
           emitted @ [\<lparr> pe_level = clh_level h, pe_provider = clh_provider h, pe_model = m, pe_run_id = run_id \<rparr>]))"

section \<open>The middleware\<close>

definition router_coerce_tlp :: "string \<Rightarrow> tlp" where
  "router_coerce_tlp s = (case tlp_of (lower s) of None \<Rightarrow> RED | Some t \<Rightarrow> t)"

text \<open>
  The hook before a node: \<^term>\<open>refuse\<close> is the exception of a refusal, \<^term>\<open>model_to_provider\<close> the
  injected resolver, \<^term>\<open>stash\<close> writes the provider to the context's metadata.
\<close>

definition llm_router_before ::
  "(tlp \<Rightarrow> string \<Rightarrow> 'e) \<Rightarrow> (string \<Rightarrow> ('e, string) res) \<Rightarrow> (string \<Rightarrow> 'w \<Rightarrow> 'w)
     \<Rightarrow> node_info \<Rightarrow> config \<Rightarrow> node_ctx \<Rightarrow> 'w \<Rightarrow> ('e, unit) res \<times> 'w" where
  "llm_router_before refuse model_to_provider stash n inp ctx w =
     (if nm_category (nd_meta n) \<noteq> REASONING then (Inr (), w)
      else let t = router_coerce_tlp (ctx_tlp_level ctx);
               no_model = (Inl (refuse t ''<unresolved-model>''), w)
           in case map_of inp ''model'' of
             Some (PStr h) \<Rightarrow>
               if h = [] then no_model
               else (case model_to_provider h of
                       Inl e \<Rightarrow> (Inl e, w)
                     | Inr p \<Rightarrow> if is_provider_allowed t p then (Inr (), stash p w) else (Inl (refuse t p), w))
           | _ \<Rightarrow> no_model)"

definition llm_router_middleware ::
  "(tlp \<Rightarrow> string \<Rightarrow> 'e) \<Rightarrow> (string \<Rightarrow> ('e, string) res) \<Rightarrow> (string \<Rightarrow> 'w \<Rightarrow> 'w) \<Rightarrow> ('w, 'e) middleware" where
  "llm_router_middleware refuse model_to_provider stash =
     (noop_middleware ''llm_router'')\<lparr>mw_before := llm_router_before refuse model_to_provider stash\<rparr>"

section \<open>Where a request can go\<close>

lemma inj_provider_value: "inj provider_value"
  by (rule provider_enum.inj_val)

lemma provider_value_mem [simp]: "provider_value p \<in> provider_value ` A \<longleftrightarrow> p \<in> A"
  using inj_provider_value by (auto simp: inj_def)

lemma ladder_agrees: "set (tlp_routing t) = set (tlp_allowed_providers t)"
  by (cases t) (auto simp: hook_local_providers_def trusted_cloud_providers_def)

lemma allowed_iff:
  "p \<in> set (get_allowed_providers r t) \<longleftrightarrow>
     is_provider_allowed t p \<and> (lr_local_only r = False \<or> p \<in> set local_providers)"
  by (auto simp: get_allowed_providers_def is_provider_allowed_def ladder_agrees Let_def)

lemma ollama_allowed: "provider_value OLLAMA \<in> set (get_allowed_providers r t)"
  by (cases t) (simp_all add: allowed_iff is_provider_allowed_def hook_local_providers_def trusted_cloud_providers_def
      local_providers_def del: provider_value.simps)

lemma try_provider_SomeD: "try_provider tier p = Some (q, m) \<Longrightarrow> q = p \<and> get_model_id tier p = Some m \<and> m \<noteq> []"
  by (auto simp: try_provider_def split: option.splits if_splits)

lemma model_ids_not_empty: "get_model_id tier p = Some m \<Longrightarrow> m \<noteq> []"
  by (cases tier) (auto simp: get_model_id_def split: if_splits)

lemma try_provider_None: "try_provider tier p = None \<longleftrightarrow> get_model_id tier p = None"
  using model_ids_not_empty by (auto simp: try_provider_def split: option.splits)

lemma first_model_SomeD:
  "first_model tier ps = Some (q, m) \<Longrightarrow> q \<in> set ps \<and> get_model_id tier q = Some m \<and> m \<noteq> []"
  by (induction ps) (auto split: option.splits dest: try_provider_SomeD)

lemma first_model_None: "first_model tier ps = None \<longleftrightarrow> list_all (\<lambda>p. get_model_id tier p = None) ps"
proof (induction ps)
  case (Cons p ps)
  then show ?case using try_provider_None[of tier p] by (cases "try_provider tier p") auto
qed simp

lemma ollama_has_model: "get_model_id tier (provider_value OLLAMA) \<noteq> None"
  by (cases tier) (simp_all add: get_model_id_def)

lemma first_model_allowed: "\<exists>pm. first_model tier (get_allowed_providers r t) = Some pm"
proof (rule ccontr)
  assume "\<not> ?thesis"
  then have "first_model tier (get_allowed_providers r t) = None" by (metis not_None_eq)
  then show False using ollama_allowed[of r t] ollama_has_model[of tier] by (auto simp: first_model_None list_all_iff)
qed

text \<open>The preferred provider where it is allowed and has a model, else the first allowed one that has.\<close>

lemma resolve_spec:
  "\<exists>p m. resolve r t tier pref = Inr (p, m) \<and>
     (if \<exists>q. pref = Some q \<and> q \<noteq> [] \<and> q \<in> set (get_allowed_providers r t) \<and> get_model_id tier q \<noteq> None
      then pref = Some p \<and> p \<in> set (get_allowed_providers r t) \<and> get_model_id tier p = Some m
      else first_model tier (get_allowed_providers r t) = Some (p, m))"
proof -
  define allowed where "allowed = get_allowed_providers r t"
  have ne: "allowed \<noteq> []" using ollama_allowed[of r t] by (auto simp: allowed_def)
  obtain p m where first: "first_model tier allowed = Some (p, m)"
    using first_model_allowed[of tier r t] by (auto simp: allowed_def)
  show ?thesis
  proof (cases "\<exists>q. pref = Some q \<and> q \<noteq> [] \<and> q \<in> set allowed \<and> get_model_id tier q \<noteq> None")
    case True
    then obtain q m' where q: "pref = Some q" "q \<noteq> []" "q \<in> set allowed" "get_model_id tier q = Some m'" by auto
    then have "try_provider tier q = Some (q, m')"
      using model_ids_not_empty by (simp add: try_provider_def)
    then show ?thesis using q ne by (auto simp: resolve_def allowed_def[symmetric])
  next
    case False
    then have "(case pref of Some p \<Rightarrow> if p \<noteq> [] \<and> p \<in> set allowed then try_provider tier p else None | None \<Rightarrow> None) = None"
      by (auto simp: try_provider_None split: option.splits)
    then show ?thesis using False first ne by (auto simp: resolve_def allowed_def[symmetric])
  qed
qed

text \<open>C28: Every request is routed, and only where its classification allows. For any router, level, tier
  and preference the router returns a provider that the classification hook's own table allows at
  that level, a local one in local-only mode, with a model of the requested tier; the preferred
  provider is used exactly when it is allowed and has such a model, otherwise the first allowed
  provider that has one. A local tier always gets the local provider.\<close>

theorem resolve_within_policy:
  "case resolve r t tier pref of
     Inl e \<Rightarrow> False
   | Inr (p, m) \<Rightarrow>
       is_provider_allowed t p \<and> (lr_local_only r = False \<or> p \<in> set local_providers) \<and>
       get_model_id tier p = Some m \<and> (tier \<in> {FAST, STANDARD, PREMIUM} \<or> p = provider_value OLLAMA) \<and>
       (if \<exists>q. pref = Some q \<and> q \<noteq> [] \<and> q \<in> set (get_allowed_providers r t) \<and> get_model_id tier q \<noteq> None
        then pref = Some p else first_model tier (get_allowed_providers r t) = Some (p, m))"
proof -
  obtain p m where r: "resolve r t tier pref = Inr (p, m)" and
    spec: "if \<exists>q. pref = Some q \<and> q \<noteq> [] \<and> q \<in> set (get_allowed_providers r t) \<and> get_model_id tier q \<noteq> None
      then pref = Some p \<and> p \<in> set (get_allowed_providers r t) \<and> get_model_id tier p = Some m
      else first_model tier (get_allowed_providers r t) = Some (p, m)"
    using resolve_spec by blast
  then have "p \<in> set (get_allowed_providers r t)" and m: "get_model_id tier p = Some m"
    by (auto split: if_splits dest: first_model_SomeD)
  moreover have "tier \<in> {FAST, STANDARD, PREMIUM} \<or> p = provider_value OLLAMA"
    using m by (cases tier) (auto simp: get_model_id_def split: if_splits)
  ultimately show ?thesis using spec unfolding r
    by (simp add: allowed_iff split: if_splits)
qed

text \<open>C29: The router's table and the hook's ladder are one policy: the providers the router may pick at a
  level are those the hook lets pass there, restricted to local ones in local-only mode; the
  strictest level admits the local provider alone, and a level that is less strict admits whatever
  a stricter one does.\<close>

theorem router_and_hook_agree:
  "validate_routing r t p = (is_provider_allowed t p \<and> (lr_local_only r = False \<or> p \<in> set local_providers)) \<and>
   set (get_allowed_providers r t) = {q. validate_routing r t q} \<and>
   {q. is_provider_allowed RED q} = {provider_value OLLAMA} \<and>
   {q. is_provider_allowed (max s t) q} \<subseteq> {q. is_provider_allowed (min s t) q}"
proof -
  have "set (tlp_allowed_providers (max s t)) \<subseteq> set (tlp_allowed_providers (min s t))"
    by (cases s; cases t) (auto simp: hook_local_providers_def trusted_cloud_providers_def max_def min_def less_eq_tlp_def)
  then have "{q. is_provider_allowed (max s t) q} \<subseteq> {q. is_provider_allowed (min s t) q}"
    by (auto simp: is_provider_allowed_def)
  moreover have "{q. is_provider_allowed RED q} = {provider_value OLLAMA}"
    by (auto simp: is_provider_allowed_def hook_local_providers_def)
  ultimately show ?thesis by (simp add: validate_routing_def allowed_iff set_eq_iff)
qed

section \<open>The gate in front of a reasoning node\<close>

definition router_refuses :: "(string \<Rightarrow> ('e, string) res) \<Rightarrow> config \<Rightarrow> node_ctx \<Rightarrow> bool" where
  "router_refuses model_to_provider inp ctx =
     (case map_of inp ''model'' of
        Some (PStr h) \<Rightarrow> h = [] \<or> (case model_to_provider h of Inl e \<Rightarrow> True
          | Inr p \<Rightarrow> \<not> is_provider_allowed (router_coerce_tlp (ctx_tlp_level ctx)) p)
      | _ \<Rightarrow> True)"

lemma llm_router_before_iff:
  "(\<exists>w'. llm_router_before refuse f stash n inp ctx w = (Inr (), w')) \<longleftrightarrow>
     nm_category (nd_meta n) \<noteq> REASONING \<or> \<not> router_refuses f inp ctx"
  by (auto simp: llm_router_before_def router_refuses_def Let_def split: option.splits pyval.splits sum.splits)

definition router_permits ::
  "(string \<Rightarrow> ('e, string) res) \<Rightarrow> node_info \<Rightarrow> config \<Rightarrow> node_ctx \<Rightarrow> unit \<Rightarrow> bool" where
  "router_permits f n inp ctx u \<longleftrightarrow> nm_category (nd_meta n) \<noteq> REASONING \<or> \<not> router_refuses f inp ctx"

interpretation model_gate: gate "llm_router_before refuse f stash" "\<lambda>_. ()" "router_permits f" for refuse f stash
proof
  show "router_permits f n i c ()" if "llm_router_before refuse f stash n i c w = (Inr u, w')" for n i c w u w'
    using that llm_router_before_iff[of refuse f stash n i c w] by (auto simp: router_permits_def)
qed

text \<open>C30: No prompt leaves for a provider the classification forbids. In any middleware chain that holds
  the router gate, a reasoning node whose input names no model, a model the resolver does not
  know, or one whose provider is not allowed at the context's classification (an unknown
  classification counting as the strictest) never starts: the run fails, and what it returns and
  the state it leaves do not depend on the node's body.\<close>

theorem llm_gate_blocks_body:
  assumes "llm_router_middleware refuse f stash \<in> set mws" and "nm_category (nd_meta n) = REASONING"
    and "nd_validate_in n payload = Inr inp" and "router_refuses f inp ctx"
  shows "isl (fst (runner_execute mws n payload ctx w)) \<and>
    runner_execute mws (n\<lparr>nd_run := body\<rparr>) payload ctx w = runner_execute mws n payload ctx w"
  by (rule model_gate.blocks_body[OF assms(1) _ assms(3)])
    (use assms(2,4) in \<open>simp_all add: router_permits_def node_info.defs llm_router_middleware_def\<close>)

text \<open>A red run that asks for a hosted model.\<close>

definition echo_node :: "(string list, string) node" where
  "echo_node = \<lparr> nd_meta = \<lparr> nm_id = ''reasoning.ask'', nm_name = ''ask'', nm_version = ''1'', nm_category = REASONING \<rparr>,
     nd_manifest = None, nd_capability_id = None, nd_validate_in = Inr, nd_run = (\<lambda>i c w. (Inr i, w @ [''sent''])),
     nd_validate_out = Inr \<rparr>"

definition red_ctx :: node_ctx where
  "red_ctx = \<lparr> ctx_run_id = ''r1'', ctx_workflow_run_id = None, ctx_investigation_id = None, ctx_org_id = ''o1'',
     ctx_user_id = None, ctx_tlp_level = ''red'', ctx_current_step = None, ctx_approved_steps = [] \<rparr>"

lemma llm_gate_blocks_body_witness:
  "let gate = llm_router_middleware (\<lambda>t p. p) (\<lambda>h. Inr ''anthropic'') (\<lambda>p w. w @ [p]) in
   isl (fst (runner_execute [gate] echo_node [(''model'', PStr ''claude'')] red_ctx [])) \<and>
   runner_execute [gate] (echo_node\<lparr>nd_run := (\<lambda>i c w. (Inr i, w))\<rparr>) [(''model'', PStr ''claude'')] red_ctx [] =
     runner_execute [gate] echo_node [(''model'', PStr ''claude'')] red_ctx []"
proof -
  have "router_refuses (\<lambda>h. Inr ''anthropic'' :: (string, string) res) [(''model'', PStr ''claude'')] red_ctx" by code_simp
  then show ?thesis
    unfolding Let_def by (intro llm_gate_blocks_body[where inp = "[(''model'', PStr ''claude'')]"]) (simp_all add: echo_node_def)
qed

end
