(* ===== verification/McpManifests.thy ===== *)
theory McpManifests
  imports McpPolicy Hitl PyText
begin

text \<open>
  The capability manifests of the tool servers (agents/btagent_agents/mcp/manifests.py), one per
  registered server, and the agent-side approval hook that derives its gate from them
  (hooks/hitl_hook.py).  Descriptions, transports and credential kinds are left out.
\<close>

section \<open>The manifests\<close>

definition query_cap :: "string \<Rightarrow> string list \<Rightarrow> tlp \<Rightarrow> cost_class \<Rightarrow> capability" where
  "query_cap i emits t cost =
     (default_capability Query i)\<lparr>cap_ocsf_emits := emits, cap_tlp_egress := t, cap_cost_class := cost\<rparr>"

definition action_cap :: "string \<Rightarrow> tlp \<Rightarrow> cost_class \<Rightarrow> bool \<Rightarrow> capability" where
  "action_cap i t cost hitl =
     (default_capability Action i)\<lparr>cap_tlp_egress := t, cap_cost_class := cost, cap_hitl_required := hitl\<rparr>"

definition manifest_splunk :: manifest where
  "manifest_splunk =
     \<lparr> mf_name = ''splunk'',
       mf_queries =
       [query_cap ''splunk_search'' [''network_activity''] RED MODERATE,
        query_cap ''splunk_get_alerts'' [''detection_finding''] RED CHEAP,
        query_cap ''splunk_get_notable'' [''detection_finding''] RED CHEAP],
       mf_actions =
       [],
       mf_streams = [] \<rparr>"

definition manifest_crowdstrike :: manifest where
  "manifest_crowdstrike =
     \<lparr> mf_name = ''crowdstrike'',
       mf_queries =
       [query_cap ''cs_get_detections'' [''detection_finding''] RED CHEAP,
        query_cap ''cs_host_details'' [''device_inventory''] RED CHEAP,
        query_cap ''cs_search_events'' [''process_activity'', ''network_activity'', ''dns_activity''] RED MODERATE,
        query_cap ''cs_process_telemetry'' [''process_activity''] RED MODERATE],
       mf_actions =
       [action_cap ''cs_isolate_host'' RED EXPENSIVE True],
       mf_streams = [] \<rparr>"

definition manifest_sentinel :: manifest where
  "manifest_sentinel =
     \<lparr> mf_name = ''sentinel'',
       mf_queries =
       [query_cap ''sentinel_query'' [''authentication'', ''network_activity''] RED MODERATE,
        query_cap ''sentinel_get_incidents'' [''incident_finding''] RED CHEAP,
        query_cap ''sentinel_get_alerts'' [''detection_finding''] RED CHEAP],
       mf_actions =
       [],
       mf_streams = [] \<rparr>"

definition manifest_elastic :: manifest where
  "manifest_elastic =
     \<lparr> mf_name = ''elastic'',
       mf_queries =
       [query_cap ''elastic_search'' [''network_activity''] RED MODERATE,
        query_cap ''elastic_get_alerts'' [''detection_finding''] RED CHEAP,
        query_cap ''elastic_get_fields'' [] RED CHEAP],
       mf_actions =
       [],
       mf_streams = [] \<rparr>"

definition manifest_okta :: manifest where
  "manifest_okta =
     \<lparr> mf_name = ''okta'',
       mf_queries =
       [query_cap ''okta_system_log_search'' [''authentication'', ''audit_activity''] AMBER_STRICT CHEAP,
        query_cap ''okta_list_oauth_grants'' [''entity_management''] AMBER_STRICT CHEAP,
        query_cap ''okta_list_sessions'' [''authorize_session''] AMBER_STRICT CHEAP],
       mf_actions =
       [],
       mf_streams = [] \<rparr>"

definition manifest_entra :: manifest where
  "manifest_entra =
     \<lparr> mf_name = ''entra'',
       mf_queries =
       [query_cap ''entra_signin_log_search'' [''authentication''] AMBER_STRICT CHEAP,
        query_cap ''entra_audit_log_search'' [''audit_activity'', ''entity_management''] AMBER_STRICT CHEAP,
        query_cap ''entra_list_oauth_grants'' [''entity_management''] AMBER_STRICT CHEAP],
       mf_actions =
       [],
       mf_streams = [] \<rparr>"

definition manifest_gws :: manifest where
  "manifest_gws =
     \<lparr> mf_name = ''gws'',
       mf_queries =
       [query_cap ''gws_login_activity_search'' [''authentication''] AMBER_STRICT CHEAP,
        query_cap ''gws_audit_activity_search'' [''audit_activity'', ''entity_management''] AMBER_STRICT CHEAP,
        query_cap ''gws_list_oauth_tokens'' [''entity_management''] AMBER_STRICT CHEAP],
       mf_actions =
       [],
       mf_streams = [] \<rparr>"

definition manifest_duo :: manifest where
  "manifest_duo =
     \<lparr> mf_name = ''duo'',
       mf_queries =
       [query_cap ''duo_auth_log_search'' [''authentication''] AMBER_STRICT CHEAP,
        query_cap ''duo_list_users'' [''user_inventory''] AMBER_STRICT CHEAP,
        query_cap ''duo_admin_log_search'' [''audit_activity'', ''entity_management''] AMBER_STRICT CHEAP],
       mf_actions =
       [],
       mf_streams = [] \<rparr>"

definition manifest_cortex :: manifest where
  "manifest_cortex =
     \<lparr> mf_name = ''cortex'',
       mf_queries =
       [query_cap ''cortex_xql_query'' [''process_activity'', ''network_activity'', ''dns_activity''] AMBER_STRICT MODERATE,
        query_cap ''cortex_list_incidents'' [''detection_finding''] AMBER_STRICT CHEAP,
        query_cap ''cortex_get_endpoint'' [''device_inventory''] AMBER_STRICT CHEAP],
       mf_actions =
       [action_cap ''cortex_isolate_endpoint'' AMBER_STRICT EXPENSIVE True],
       mf_streams = [] \<rparr>"

definition manifest_defender_o365 :: manifest where
  "manifest_defender_o365 =
     \<lparr> mf_name = ''defender_o365'',
       mf_queries =
       [query_cap ''o365_email_events_search'' [''email_activity''] AMBER_STRICT CHEAP,
        query_cap ''o365_list_quarantine'' [''email_activity''] AMBER_STRICT CHEAP,
        query_cap ''o365_list_threat_submissions'' [''email_activity''] AMBER_STRICT CHEAP],
       mf_actions =
       [],
       mf_streams = [] \<rparr>"

definition manifest_defender_endpoint :: manifest where
  "manifest_defender_endpoint =
     \<lparr> mf_name = ''defender_endpoint'',
       mf_queries =
       [query_cap ''mde_advanced_hunting_query'' [''process_activity'', ''network_activity'', ''authentication''] AMBER_STRICT MODERATE,
        query_cap ''mde_list_alerts'' [''detection_finding''] AMBER_STRICT CHEAP,
        query_cap ''mde_get_machine'' [''device_inventory''] AMBER_STRICT CHEAP],
       mf_actions =
       [action_cap ''mde_isolate_machine'' AMBER_STRICT EXPENSIVE True],
       mf_streams = [] \<rparr>"

definition manifest_sentinelone :: manifest where
  "manifest_sentinelone =
     \<lparr> mf_name = ''sentinelone'',
       mf_queries =
       [query_cap ''s1_deep_visibility_query'' [''process_activity'', ''network_activity'', ''dns_activity''] AMBER_STRICT MODERATE,
        query_cap ''s1_list_threats'' [''detection_finding''] AMBER_STRICT CHEAP,
        query_cap ''s1_get_agent'' [''device_inventory''] AMBER_STRICT CHEAP],
       mf_actions =
       [action_cap ''s1_mitigate_threat'' AMBER_STRICT EXPENSIVE True],
       mf_streams = [] \<rparr>"

definition manifest_zeek :: manifest where
  "manifest_zeek =
     \<lparr> mf_name = ''zeek'',
       mf_queries =
       [query_cap ''zeek_log_search'' [''network_activity'', ''dns_activity'', ''http_activity''] RED MODERATE,
        query_cap ''zeek_list_notices'' [''detection_finding''] RED CHEAP,
        query_cap ''zeek_connection_summary'' [''network_activity''] RED CHEAP],
       mf_actions =
       [],
       mf_streams = [] \<rparr>"

definition manifest_cloudtrail :: manifest where
  "manifest_cloudtrail =
     \<lparr> mf_name = ''cloudtrail'',
       mf_queries =
       [query_cap ''aws_cloudtrail_lookup_events'' [''api_activity'', ''audit_activity''] AMBER_STRICT MODERATE,
        query_cap ''aws_guardduty_list_findings'' [''detection_finding''] AMBER_STRICT CHEAP,
        query_cap ''aws_cloudtrail_principal_summary'' [''api_activity''] AMBER_STRICT CHEAP],
       mf_actions =
       [],
       mf_streams = [] \<rparr>"

definition manifest_gcp :: manifest where
  "manifest_gcp =
     \<lparr> mf_name = ''gcp'',
       mf_queries =
       [query_cap ''gcp_audit_log_search'' [''api_activity'', ''audit_activity''] AMBER_STRICT MODERATE,
        query_cap ''gcp_scc_list_findings'' [''detection_finding''] AMBER_STRICT CHEAP,
        query_cap ''gcp_audit_principal_summary'' [''api_activity''] AMBER_STRICT CHEAP],
       mf_actions =
       [],
       mf_streams = [] \<rparr>"

definition manifest_wiz :: manifest where
  "manifest_wiz =
     \<lparr> mf_name = ''wiz'',
       mf_queries =
       [query_cap ''wiz_list_issues'' [''detection_finding''] AMBER_STRICT MODERATE,
        query_cap ''wiz_list_vulnerabilities'' [''vulnerability_finding''] AMBER_STRICT CHEAP,
        query_cap ''wiz_resource_summary'' [''device_inventory''] AMBER_STRICT CHEAP],
       mf_actions =
       [],
       mf_streams = [] \<rparr>"

definition manifest_canary :: manifest where
  "manifest_canary =
     \<lparr> mf_name = ''canary'',
       mf_queries =
       [query_cap ''canary_list_incidents'' [''detection_finding''] AMBER_STRICT CHEAP,
        query_cap ''canary_list_devices'' [''device_inventory''] AMBER_STRICT CHEAP,
        query_cap ''canary_incident_summary'' [''detection_finding''] AMBER_STRICT CHEAP],
       mf_actions =
       [],
       mf_streams = [] \<rparr>"

definition manifest_vectra :: manifest where
  "manifest_vectra =
     \<lparr> mf_name = ''vectra'',
       mf_queries =
       [query_cap ''vectra_list_detections'' [''detection_finding'', ''network_activity''] AMBER_STRICT MODERATE,
        query_cap ''vectra_list_hosts'' [''device_inventory''] AMBER_STRICT CHEAP,
        query_cap ''vectra_host_summary'' [''detection_finding''] AMBER_STRICT CHEAP],
       mf_actions =
       [],
       mf_streams = [] \<rparr>"

definition manifest_zscaler :: manifest where
  "manifest_zscaler =
     \<lparr> mf_name = ''zscaler'',
       mf_queries =
       [query_cap ''zscaler_weblog_search'' [''http_activity'', ''network_activity''] AMBER_STRICT MODERATE,
        query_cap ''zscaler_url_summary'' [''http_activity''] AMBER_STRICT CHEAP,
        query_cap ''zscaler_user_summary'' [''http_activity''] AMBER_STRICT CHEAP],
       mf_actions =
       [],
       mf_streams = [] \<rparr>"

definition manifest_mimecast :: manifest where
  "manifest_mimecast =
     \<lparr> mf_name = ''mimecast'',
       mf_queries =
       [query_cap ''mimecast_message_events_search'' [''email_activity''] AMBER_STRICT MODERATE,
        query_cap ''mimecast_list_held_messages'' [''email_activity''] AMBER_STRICT CHEAP,
        query_cap ''mimecast_click_logs_search'' [''email_activity'', ''http_activity''] AMBER_STRICT CHEAP],
       mf_actions =
       [],
       mf_streams = [] \<rparr>"

definition manifest_proofpoint :: manifest where
  "manifest_proofpoint =
     \<lparr> mf_name = ''proofpoint'',
       mf_queries =
       [query_cap ''pfpt_message_events_search'' [''email_activity''] AMBER_STRICT MODERATE,
        query_cap ''pfpt_click_events_search'' [''email_activity'', ''http_activity''] AMBER_STRICT CHEAP,
        query_cap ''pfpt_vap_summary'' [''email_activity''] AMBER_STRICT CHEAP],
       mf_actions =
       [],
       mf_streams = [] \<rparr>"

definition manifest_jira :: manifest where
  "manifest_jira =
     \<lparr> mf_name = ''jira'',
       mf_queries =
       [query_cap ''jira_get_issue'' [] AMBER_STRICT CHEAP],
       mf_actions =
       [action_cap ''jira_create_incident'' AMBER_STRICT CHEAP False,
        action_cap ''jira_add_comment'' AMBER_STRICT CHEAP False,
        action_cap ''jira_transition_issue'' AMBER_STRICT CHEAP False],
       mf_streams = [] \<rparr>"

definition manifest_servicenow :: manifest where
  "manifest_servicenow =
     \<lparr> mf_name = ''servicenow'',
       mf_queries =
       [query_cap ''snow_get_security_incident'' [] AMBER_STRICT CHEAP],
       mf_actions =
       [action_cap ''snow_create_security_incident'' AMBER_STRICT CHEAP False,
        action_cap ''snow_add_work_note'' AMBER_STRICT CHEAP False,
        action_cap ''snow_update_state'' AMBER_STRICT CHEAP False],
       mf_streams = [] \<rparr>"

definition manifest_slack :: manifest where
  "manifest_slack =
     \<lparr> mf_name = ''slack'',
       mf_queries =
       [query_cap ''slack_get_channel_history'' [] AMBER_STRICT CHEAP],
       mf_actions =
       [action_cap ''slack_create_incident_channel'' AMBER_STRICT CHEAP False,
        action_cap ''slack_post_message'' AMBER_STRICT CHEAP False,
        action_cap ''slack_pin_message'' AMBER_STRICT CHEAP False],
       mf_streams = [] \<rparr>"

definition manifest_git :: manifest where
  "manifest_git =
     \<lparr> mf_name = ''git'',
       mf_queries =
       [],
       mf_actions =
       [action_cap ''git_open_detection_pr'' AMBER_STRICT CHEAP True],
       mf_streams = [] \<rparr>"

definition manifest_atomic_red_team :: manifest where
  "manifest_atomic_red_team =
     \<lparr> mf_name = ''atomic_red_team'',
       mf_queries =
       [query_cap ''list_atomics'' [] RED CHEAP],
       mf_actions =
       [action_cap ''run_atomic'' RED EXPENSIVE True,
        action_cap ''cleanup_atomic'' RED MODERATE False],
       mf_streams = [] \<rparr>"

definition manifest_caldera :: manifest where
  "manifest_caldera =
     \<lparr> mf_name = ''caldera'',
       mf_queries =
       [query_cap ''list_abilities'' [] RED CHEAP,
        query_cap ''get_operation_results'' [] RED CHEAP],
       mf_actions =
       [action_cap ''run_operation'' RED EXPENSIVE True],
       mf_streams = [] \<rparr>"

definition registered_manifests :: "(string \<times> manifest) list" where
  "registered_manifests =
     [(''splunk'', manifest_splunk),
      (''crowdstrike'', manifest_crowdstrike),
      (''sentinel'', manifest_sentinel),
      (''elastic'', manifest_elastic),
      (''okta'', manifest_okta),
      (''entra'', manifest_entra),
      (''gws'', manifest_gws),
      (''duo'', manifest_duo),
      (''cortex'', manifest_cortex),
      (''defender_o365'', manifest_defender_o365),
      (''defender_endpoint'', manifest_defender_endpoint),
      (''sentinelone'', manifest_sentinelone),
      (''zeek'', manifest_zeek),
      (''cloudtrail'', manifest_cloudtrail),
      (''gcp'', manifest_gcp),
      (''wiz'', manifest_wiz),
      (''canary'', manifest_canary),
      (''vectra'', manifest_vectra),
      (''zscaler'', manifest_zscaler),
      (''mimecast'', manifest_mimecast),
      (''proofpoint'', manifest_proofpoint),
      (''jira'', manifest_jira),
      (''servicenow'', manifest_servicenow),
      (''slack'', manifest_slack),
      (''git'', manifest_git),
      (''atomic_red_team'', manifest_atomic_red_team),
      (''caldera'', manifest_caldera)]"

definition get_manifest :: "string \<Rightarrow> manifest option" where
  "get_manifest server = map_of registered_manifests server"

section \<open>The approval hook of the agents\<close>

definition tool_autonomy_map :: "(string \<times> string) list" where
  "tool_autonomy_map =
     [(''siem'', ''siem_query''), (''splunk'', ''siem_query''), (''elastic'', ''siem_query''),
      (''sentinelone'', ''edr_query''), (''sentinel'', ''siem_query''), (''edr'', ''edr_query''),
      (''crowdstrike'', ''edr_query''), (''defender'', ''edr_query''), (''carbon_black'', ''edr_query''),
      (''cti'', ''cti_lookup''), (''virustotal'', ''cti_lookup''), (''misp'', ''cti_lookup''),
      (''otx'', ''cti_lookup''), (''abuse'', ''cti_lookup''), (''isolate'', ''host_isolation''),
      (''quarantine'', ''host_isolation''), (''contain'', ''host_isolation''),
      (''mitigate'', ''host_isolation''), (''firewall'', ''firewall_rule''),
      (''block_ip'', ''firewall_rule''), (''block_domain'', ''firewall_rule''),
      (''disable_account'', ''account_disable''), (''disable_user'', ''account_disable''),
      (''lock_account'', ''account_disable''), (''playbook'', ''playbook_execution''),
      (''soar'', ''playbook_execution'')]"

definition mcp_router_tool_name :: string where
  "mcp_router_tool_name = ''mcp_router_tool''"

definition hook_gate_categories :: "string list" where
  "hook_gate_categories = [''host_isolation'', ''firewall_rule'', ''account_disable'']"

definition hook_containment_tokens :: "string list" where
  "hook_containment_tokens = map fst (filter (\<lambda>tf. snd tf \<in> set hook_gate_categories) tool_autonomy_map)"

definition manifest_hitl_required_ids :: "(string \<times> manifest) list \<Rightarrow> string set" where
  "manifest_hitl_required_ids ms =
     set (concat (map (\<lambda>(s, m). map cap_id (filter cap_hitl_required (all_capabilities m))) ms))"

text \<open>
  Decoding a tool input: a dictionary as it is; of a text, what \<^term>\<open>parsers\<close> (json.loads, then
  ast.literal_eval) make of it, the first that gives a dictionary.
\<close>

definition coerce_mapping :: "(string \<Rightarrow> pyval option) list \<Rightarrow> pyval \<Rightarrow> (pyval \<times> pyval) list option" where
  "coerce_mapping parsers raw =
     (case raw of
        PDict d \<Rightarrow> Some d
      | PStr s \<Rightarrow>
          if py_strip s = [] then None
          else (case find (\<lambda>f. case f s of Some (PDict d) \<Rightarrow> True | _ \<Rightarrow> False) parsers of
                  None \<Rightarrow> None
                | Some f \<Rightarrow> (case f s of Some (PDict d) \<Rightarrow> Some d | _ \<Rightarrow> None))
      | _ \<Rightarrow> None)"

definition effective_tool_name :: "(string \<Rightarrow> pyval option) list \<Rightarrow> string \<Rightarrow> pyval \<Rightarrow> string" where
  "effective_tool_name parsers tool inp =
     (if tool \<noteq> mcp_router_tool_name then tool
      else case coerce_mapping parsers inp of
        None \<Rightarrow> tool
      | Some d \<Rightarrow> (case get_str d ''tool_name'' of Some (PStr t) \<Rightarrow> if t = [] then tool else t | _ \<Rightarrow> tool))"

definition is_always_gated_tool :: "(string \<times> manifest) list \<Rightarrow> string \<Rightarrow> bool" where
  "is_always_gated_tool ms tool =
     (tool \<in> manifest_hitl_required_ids ms \<or>
      list_ex (\<lambda>tok. substring tok (lower tool)) hook_containment_tokens)"

definition resolve_tool_autonomy :: "string \<Rightarrow> integration_autonomy \<Rightarrow> autonomy_level" where
  "resolve_tool_autonomy tool ia =
     (case find (\<lambda>tf. substring (fst tf) (lower tool)) tool_autonomy_map of
        Some tf \<Rightarrow> autonomy_field ia (snd tf)
      | None \<Rightarrow> L2_SUPERVISED)"

text \<open>The levels are compared by their values, \<^verbatim>\<open>"L0" < "L1" < ...\<close>.\<close>

definition tool_requires_approval ::
  "(string \<times> manifest) list \<Rightarrow> (string \<Rightarrow> pyval option) list \<Rightarrow> string \<Rightarrow> autonomy_level \<Rightarrow> integration_autonomy
     \<Rightarrow> pyval \<Rightarrow> bool" where
  "tool_requires_approval ms parsers tool agent ia inp =
     (let name = effective_tool_name parsers tool inp in
      if is_always_gated_tool ms name then True
      else
        let tl = resolve_tool_autonomy name ia in
        if agent = L0_MANUAL then True
        else if agent = L1_ASSISTED then str_less (autonomy_value tl) (autonomy_value L3_AUTONOMOUS)
        else if agent = L2_SUPERVISED then \<not> str_less (autonomy_value L1_ASSISTED) (autonomy_value tl)
        else tl = L0_MANUAL)"

record hitl_event =
  he_checkpoint :: string
  he_tool :: string
  he_input :: string
  he_required :: autonomy_level
  he_agent :: autonomy_level

datatype hitl_interrupt = HITLInterrupt string string autonomy_level string

text \<open>The callback at the start of a tool; \<^term>\<open>inputs\<close> is the structured form, when there is one.\<close>

definition hitl_on_tool_start ::
  "(string \<times> manifest) list \<Rightarrow> (string \<Rightarrow> pyval option) list \<Rightarrow> autonomy_level \<Rightarrow> integration_autonomy
     \<Rightarrow> string option \<Rightarrow> string \<Rightarrow> pyval option \<Rightarrow> string \<Rightarrow> hitl_event list \<Rightarrow> (hitl_interrupt, unit) res \<times> hitl_event list" where
  "hitl_on_tool_start ms parsers agent ia name input_str inputs new_id emitted =
     (let tool = (case name of None \<Rightarrow> ''unknown_tool'' | Some t \<Rightarrow> t);
          raw = (case inputs of None \<Rightarrow> PStr input_str | Some v \<Rightarrow> v);
          effective = effective_tool_name parsers tool raw;
          level = resolve_tool_autonomy effective ia
      in if \<not> tool_requires_approval ms parsers tool agent ia raw then (Inr (), emitted)
         else (Inl (HITLInterrupt effective input_str level new_id),
               emitted @ [\<lparr> he_checkpoint = new_id, he_tool = effective, he_input = take 5000 input_str,
                            he_required = level, he_agent = agent \<rparr>]))"

section \<open>What the manifests gate\<close>

definition all_registered :: "capability list" where
  "all_registered = concat (map (\<lambda>(s, m). all_capabilities m) registered_manifests)"

definition gated_tools :: "string list" where
  "gated_tools = map cap_id (filter cap_hitl_required all_registered)"

lemma gated_tools_value:
  "gated_tools =
     [''cs_isolate_host'', ''cortex_isolate_endpoint'', ''mde_isolate_machine'', ''s1_mitigate_threat'',
      ''git_open_detection_pr'', ''run_atomic'', ''run_operation'']"
  by code_simp

lemma gated_tools_ids: "manifest_hitl_required_ids registered_manifests = set gated_tools"
  by (simp add: manifest_hitl_required_ids_def gated_tools_def all_registered_def filter_concat map_concat split_beta comp_def)

lemma gated_tools_found:
  "list_all (\<lambda>tool. case find_capability tool registered_manifests of None \<Rightarrow> False | Some (s, c) \<Rightarrow> cap_hitl_required c)
     gated_tools"
  unfolding gated_tools_value by code_simp

lemma tool_ids_distinct: "distinct (map cap_id all_registered)"
  by code_simp

lemma gated_refused:
  assumes "find_capability tool ms = Some (server, c)" and "cap_hitl_required c"
  shows "isl (guard_dispatch ms s tool active (Some False) req)"
  using assms by (auto simp: guard_dispatch_def evaluate_tool_call_def verdict_allowed_def unclassified_pass_def Let_def)

lemma always_gated_approval:
  "is_always_gated_tool ms (effective_tool_name parsers tool inp) \<Longrightarrow> tool_requires_approval ms parsers tool agent ia inp"
  by (simp add: tool_requires_approval_def)

lemma effective_through_router:
  "tool \<noteq> [] \<Longrightarrow> effective_tool_name parsers mcp_router_tool_name (PDict ((PStr ''tool_name'', PStr tool) # d)) = tool"
  by (simp add: effective_tool_name_def coerce_mapping_def get_str_def)

text \<open>Every registered action that enforces something stays behind a human. For each capability a
  manifest marks so (isolating a host on any of the three platforms, mitigating a threat, opening a
  detection pull request, firing an emulation), the approval hook pauses the call at every autonomy
  level and whatever the overrides, called by name or through the router tool, and the dispatch
  policy refuses it under every classification while no approval stands. A tool name belongs to
  one server only.\<close>

theorem gated_tools_need_approval:
  "distinct (map cap_id all_registered) \<and>
   set [''cs_isolate_host'', ''cortex_isolate_endpoint'', ''mde_isolate_machine'', ''s1_mitigate_threat''] \<subseteq> set gated_tools \<and>
   list_all (\<lambda>tool.
     tool_requires_approval registered_manifests parsers tool agent ia inp \<and>
     tool_requires_approval registered_manifests parsers mcp_router_tool_name agent ia
       (PDict ((PStr ''tool_name'', PStr tool) # args)) \<and>
     isl (guard_dispatch registered_manifests s tool active (Some False) req)) gated_tools"
proof -
  have "tool_requires_approval registered_manifests parsers tool agent ia inp \<and>
     tool_requires_approval registered_manifests parsers mcp_router_tool_name agent ia
       (PDict ((PStr ''tool_name'', PStr tool) # args)) \<and>
     isl (guard_dispatch registered_manifests s tool active (Some False) req)" if t: "tool \<in> set gated_tools" for tool
  proof -
    have gated: "is_always_gated_tool registered_manifests tool"
      using t by (simp add: is_always_gated_tool_def gated_tools_ids)
    have name: "tool \<noteq> []" "tool \<noteq> mcp_router_tool_name"
      using t by (auto simp: gated_tools_value mcp_router_tool_name_def)
    obtain server c where "find_capability tool registered_manifests = Some (server, c)" "cap_hitl_required c"
      using gated_tools_found t by (auto simp: list_all_iff split: option.splits)
    then have "isl (guard_dispatch registered_manifests s tool active (Some False) req)" by (rule gated_refused)
    moreover have "effective_tool_name parsers tool inp = tool" using name(2) by (simp add: effective_tool_name_def)
    ultimately show ?thesis
      using gated effective_through_router[OF name(1)] by (metis always_gated_approval)
  qed
  then show ?thesis by (simp add: list_all_iff tool_ids_distinct gated_tools_value)
qed

lemma containment_tokens_agree: "hook_containment_tokens = containment_tokens"
  by code_simp

text \<open>The two approval tables compared. What the agents' hook always gates is exactly what the engine's
  table calls containment, together with the gated capabilities of the manifests; but the maps
  that give a tool its integration level are not in lockstep: a lookup of GreyNoise or Shodan has
  the level of threat-intelligence lookups in the engine and the default of unknown tools in the
  hook, so that at L1 with the default overrides the hook asks and the engine does not.\<close>

theorem approval_tables_compared:
  "{t. is_always_gated_tool registered_manifests t} = {t. is_containment_node t} \<union> set gated_tools \<and>
   list_all (\<lambda>t. resolve_node_autonomy t ia = cti_lookup ia \<and> resolve_tool_autonomy t ia = L2_SUPERVISED)
     [''greynoise_lookup'', ''shodan_host''] \<and>
   list_all (\<lambda>t. tool_requires_approval registered_manifests parsers t L1_ASSISTED default_autonomy inp \<and>
       requires_approval t L1_ASSISTED default_autonomy = False) [''greynoise_lookup'', ''shodan_host'']"
proof -
  have gated: "{t. is_always_gated_tool registered_manifests t} = {t. is_containment_node t} \<union> set gated_tools"
    by (auto simp: is_always_gated_tool_def is_containment_node_def containment_tokens_agree gated_tools_ids)
  have find: "find (\<lambda>tf. substring (fst tf) (lower ''greynoise_lookup'')) tool_autonomy_map = None"
    "find (\<lambda>tf. substring (fst tf) (lower ''shodan_host'')) tool_autonomy_map = None"
    "find (\<lambda>tf. substring (fst tf) (lower ''greynoise_lookup'')) node_autonomy_map = Some (''greynoise'', ''cti_lookup'')"
    "find (\<lambda>tf. substring (fst tf) (lower ''shodan_host'')) node_autonomy_map = Some (''shodan'', ''cti_lookup'')"
    by code_simp+
  have levels: "resolve_node_autonomy t ia' = cti_lookup ia' \<and> resolve_tool_autonomy t ia' = L2_SUPERVISED"
    if "t \<in> {''greynoise_lookup'', ''shodan_host''}" for t ia'
  proof -
    have field: "autonomy_field ia' ''cti_lookup'' = cti_lookup ia'" by (simp add: autonomy_field_def)
    show ?thesis using that
      by (elim insertE emptyE)
        (simp_all only: resolve_node_autonomy_def resolve_tool_autonomy_def find option.case snd_conv field simp_thms)
  qed
  have calm: "\<not> is_containment_node ''greynoise_lookup''" "\<not> is_containment_node ''shodan_host''"
    by code_simp+
  have hook: "tool_requires_approval registered_manifests parsers t L1_ASSISTED default_autonomy inp"
    if "t \<in> {''greynoise_lookup'', ''shodan_host''}" for t
  proof -
    have "effective_tool_name parsers t inp = t"
      using that by (auto simp: effective_tool_name_def mcp_router_tool_name_def)
    then show ?thesis
      using levels[OF that] by (simp add: tool_requires_approval_def Let_def less_char_def)
  qed
  have "requires_approval t L1_ASSISTED default_autonomy = False" if "t \<in> {''greynoise_lookup'', ''shodan_host''}" for t
    using levels[OF that] calm that by (auto simp: requires_approval_def default_autonomy_def)
  then show ?thesis using gated levels hook by simp
qed

end
