(* ===== verification/McpRegistry.thy ===== *)
theory McpRegistry
  imports Interfaces Complex_Main
begin

text \<open>
  The connection pool of the tool servers (agents/btagent_agents/mcp/registry.py): the circuit
  breaker of a connection with its exponential backoff, the managed connection, and the registry
  with its eviction.  Times are exact numbers of seconds and one operation reads the clock once;
  the lock of the registry makes its operations atomic, so a run is a sequence of them.
\<close>

section \<open>The circuit breaker\<close>

datatype circuit_state = CLOSED | OPEN | HALF_OPEN

fun circuit_value :: "circuit_state \<Rightarrow> string" where
  "circuit_value CLOSED = ''closed''"
| "circuit_value OPEN = ''open''"
| "circuit_value HALF_OPEN = ''half_open''"

record breaker =
  cb_id :: string
  cb_threshold :: int
  cb_recovery :: rat
  cb_recovery_max :: rat
  cb_success_threshold :: int
  cb_state :: circuit_state
  cb_failures :: int
  cb_successes :: int
  cb_last_failure :: rat
  cb_cycles :: nat

definition new_breaker :: "string \<Rightarrow> int \<Rightarrow> rat \<Rightarrow> rat \<Rightarrow> int \<Rightarrow> breaker" where
  "new_breaker i threshold recovery recovery_max success_threshold =
     \<lparr> cb_id = i, cb_threshold = threshold, cb_recovery = recovery, cb_recovery_max = recovery_max,
       cb_success_threshold = success_threshold, cb_state = CLOSED, cb_failures = 0, cb_successes = 0,
       cb_last_failure = 0, cb_cycles = 0 \<rparr>"

definition recovery_wait :: "breaker \<Rightarrow> rat" where
  "recovery_wait b =
     (if cb_cycles b = 0 then cb_recovery b
      else min (cb_recovery b * 2 ^ min (cb_cycles b - 1) 32) (cb_recovery_max b))"

text \<open>Reading the state moves an open circuit whose wait is over to half open.\<close>

definition effective_state :: "rat \<Rightarrow> breaker \<Rightarrow> breaker" where
  "effective_state now b =
     (if cb_state b = OPEN \<and> now - cb_last_failure b \<ge> recovery_wait b
      then b\<lparr>cb_state := HALF_OPEN, cb_successes := 0\<rparr> else b)"

definition cb_record_success :: "breaker \<Rightarrow> breaker" where
  "cb_record_success b =
     (case cb_state b of
        HALF_OPEN \<Rightarrow>
          (let k = cb_successes b + 1 in
           if k \<ge> cb_success_threshold b
           then b\<lparr>cb_state := CLOSED, cb_failures := 0, cb_successes := 0, cb_cycles := 0\<rparr>
           else b\<lparr>cb_successes := k\<rparr>)
      | CLOSED \<Rightarrow> if cb_failures b > 0 then b\<lparr>cb_failures := max 0 (cb_failures b - 1)\<rparr> else b
      | OPEN \<Rightarrow> b)"

definition cb_record_failure :: "rat \<Rightarrow> breaker \<Rightarrow> breaker" where
  "cb_record_failure now b =
     (let b1 = b\<lparr>cb_failures := cb_failures b + 1, cb_last_failure := now\<rparr> in
      if cb_state b1 = HALF_OPEN \<or> (cb_state b1 = CLOSED \<and> cb_failures b1 \<ge> cb_threshold b1)
      then b1\<lparr>cb_state := OPEN, cb_cycles := Suc (cb_cycles b1)\<rparr> else b1)"

datatype pool_error = CircuitOpenError string rat | PoolFull | NoConfig string

definition cb_check_state :: "rat \<Rightarrow> breaker \<Rightarrow> (pool_error, unit) res \<times> breaker" where
  "cb_check_state now b =
     (let b1 = effective_state now b in
      if cb_state b1 = OPEN
      then (Inl (CircuitOpenError (cb_id b1) (max 0 (recovery_wait b1 - (now - cb_last_failure b1)))), b1)
      else (Inr (), b1))"

definition cb_reset :: "breaker \<Rightarrow> breaker" where
  "cb_reset b =
     b\<lparr>cb_state := CLOSED, cb_failures := 0, cb_successes := 0, cb_last_failure := 0, cb_cycles := 0\<rparr>"

definition is_available :: "rat \<Rightarrow> breaker \<Rightarrow> bool \<times> breaker" where
  "is_available now b = (let b1 = effective_state now b in (cb_state b1 \<noteq> OPEN, b1))"

record breaker_stats =
  bs_id :: string
  bs_state :: string
  bs_failures :: int
  bs_successes :: int
  bs_last_failure :: rat
  bs_threshold :: int
  bs_recovery :: rat
  bs_recovery_max :: rat
  bs_cycles :: nat
  bs_wait :: rat

definition get_stats :: "rat \<Rightarrow> breaker \<Rightarrow> breaker_stats \<times> breaker" where
  "get_stats now b =
     (let b1 = effective_state now b in
      (\<lparr> bs_id = cb_id b1, bs_state = circuit_value (cb_state b1), bs_failures = cb_failures b1,
         bs_successes = cb_successes b1, bs_last_failure = cb_last_failure b1, bs_threshold = cb_threshold b1,
         bs_recovery = cb_recovery b1, bs_recovery_max = cb_recovery_max b1, bs_cycles = cb_cycles b1,
         bs_wait = recovery_wait b1 \<rparr>, b1))"

section \<open>A managed connection\<close>

record server_config =
  sc_threshold :: int
  sc_recovery :: int
  sc_recovery_max :: "int option"

text \<open>The values the environment sets at import.\<close>

record pool_params =
  pp_max_connections :: int
  pp_idle_timeout :: rat
  pp_recovery_max :: rat
  pp_success_threshold :: int

definition get_recovery_timeout_max :: "pool_params \<Rightarrow> server_config \<Rightarrow> rat" where
  "get_recovery_timeout_max pp c =
     (case sc_recovery_max c of None \<Rightarrow> pp_recovery_max pp | Some n \<Rightarrow> of_int n)"

record connection =
  mc_id :: string
  mc_server :: string
  mc_created :: rat
  mc_last_used :: rat
  mc_consumers :: "string set"
  mc_healthy :: bool
  mc_last_check :: rat
  mc_check_failures :: nat
  mc_breaker :: breaker
  mc_connected :: bool

definition new_connection :: "pool_params \<Rightarrow> rat \<Rightarrow> string \<Rightarrow> server_config \<Rightarrow> connection" where
  "new_connection pp now server c =
     \<lparr> mc_id = server, mc_server = server, mc_created = now, mc_last_used = now, mc_consumers = {},
       mc_healthy = True, mc_last_check = 0, mc_check_failures = 0,
       mc_breaker = new_breaker server (sc_threshold c) (of_int (sc_recovery c)) (get_recovery_timeout_max pp c)
         (pp_success_threshold pp),
       mc_connected = False \<rparr>"

definition is_idle :: "connection \<Rightarrow> bool" where
  "is_idle c = (mc_consumers c = {})"

definition idle_time :: "rat \<Rightarrow> connection \<Rightarrow> rat" where
  "idle_time now c = (if is_idle c then now - mc_last_used c else 0)"

definition touch :: "rat \<Rightarrow> connection \<Rightarrow> connection" where
  "touch now c = c\<lparr>mc_last_used := now\<rparr>"

definition add_consumer :: "rat \<Rightarrow> string \<Rightarrow> connection \<Rightarrow> connection" where
  "add_consumer now k c = c\<lparr>mc_consumers := insert k (mc_consumers c), mc_last_used := now\<rparr>"

definition remove_consumer :: "rat \<Rightarrow> string \<Rightarrow> connection \<Rightarrow> connection" where
  "remove_consumer now k c =
     (let c1 = c\<lparr>mc_consumers := mc_consumers c - {k}\<rparr> in if is_idle c1 then touch now c1 else c1)"

definition connect :: "rat \<Rightarrow> connection \<Rightarrow> connection" where
  "connect now c =
     (if mc_connected c then c
      else c\<lparr>mc_connected := True, mc_healthy := True, mc_last_check := now\<rparr>)"

definition disconnect :: "connection \<Rightarrow> connection" where
  "disconnect c = c\<lparr>mc_connected := False, mc_healthy := False\<rparr>"

definition health_check :: "rat \<Rightarrow> connection \<Rightarrow> bool \<times> connection" where
  "health_check now c =
     (if \<not> mc_connected c then (False, c\<lparr>mc_healthy := False, mc_check_failures := Suc (mc_check_failures c)\<rparr>)
      else (True, c\<lparr>mc_healthy := True, mc_check_failures := 0, mc_last_check := now\<rparr>))"

text \<open>Neither step of a reconnection raises, so it always succeeds and resets the breaker.\<close>

definition reconnect :: "rat \<Rightarrow> connection \<Rightarrow> connection" where
  "reconnect now c = (let c1 = connect now (disconnect c) in c1\<lparr>mc_breaker := cb_reset (mc_breaker c1)\<rparr>)"

section \<open>The registry\<close>

type_synonym pool = "(string \<times> connection) list"

definition evictable :: "pool_params \<Rightarrow> rat \<Rightarrow> connection \<Rightarrow> bool" where
  "evictable pp now c = (is_idle c \<and> idle_time now c > pp_idle_timeout pp)"

definition evict_idle_connections :: "pool_params \<Rightarrow> rat \<Rightarrow> pool \<Rightarrow> nat \<times> pool" where
  "evict_idle_connections pp now p =
     (length (filter (\<lambda>kc. evictable pp now (snd kc)) p), filter (\<lambda>kc. \<not> evictable pp now (snd kc)) p)"

text \<open>\<^verbatim>\<open>if consumer_id: conn.add_consumer(consumer_id)\<close>.\<close>

definition with_consumer :: "rat \<Rightarrow> string option \<Rightarrow> connection \<Rightarrow> connection" where
  "with_consumer now k c = (case k of None \<Rightarrow> c | Some s \<Rightarrow> if s = [] then c else add_consumer now s c)"

definition get_connection ::
  "pool_params \<Rightarrow> rat \<Rightarrow> string \<Rightarrow> server_config option \<Rightarrow> string option \<Rightarrow> pool
     \<Rightarrow> (pool_error, connection) res \<times> pool" where
  "get_connection pp now server cfg consumer p =
     (case map_of p server of
        Some c \<Rightarrow>
          (case cb_check_state now (mc_breaker c) of
             (Inl e, b) \<Rightarrow> (Inl e, dict_put server (c\<lparr>mc_breaker := b\<rparr>) p)
           | (Inr _, b) \<Rightarrow>
               (let c1 = c\<lparr>mc_breaker := b\<rparr>;
                    c2 = with_consumer now consumer (if mc_healthy c1 then c1 else reconnect now c1)
                in (Inr c2, dict_put server c2 p)))
      | None \<Rightarrow>
          (let p1 = (if int (length p) \<ge> pp_max_connections pp then snd (evict_idle_connections pp now p) else p) in
           if int (length p1) \<ge> pp_max_connections pp then (Inl PoolFull, p1)
           else case cfg of
             None \<Rightarrow> (Inl (NoConfig server), p1)
           | Some sc \<Rightarrow>
               (let c = with_consumer now consumer (connect now (new_connection pp now server sc))
                in (Inr c, p1 @ [(server, c)]))))"

definition on_connection :: "(connection \<Rightarrow> connection) \<Rightarrow> string \<Rightarrow> pool \<Rightarrow> pool" where
  "on_connection f server p = (case map_of p server of None \<Rightarrow> p | Some c \<Rightarrow> dict_put server (f c) p)"

definition release_connection :: "rat \<Rightarrow> string \<Rightarrow> string \<Rightarrow> pool \<Rightarrow> pool" where
  "release_connection now server k p = on_connection (remove_consumer now k) server p"

definition pool_record_success :: "rat \<Rightarrow> string \<Rightarrow> pool \<Rightarrow> pool" where
  "pool_record_success now server p =
     on_connection (\<lambda>c. touch now (c\<lparr>mc_breaker := cb_record_success (mc_breaker c)\<rparr>)) server p"

definition pool_record_failure :: "rat \<Rightarrow> string \<Rightarrow> pool \<Rightarrow> pool" where
  "pool_record_failure now server p =
     on_connection (\<lambda>c. c\<lparr>mc_breaker := cb_record_failure now (mc_breaker c)\<rparr>) server p"

text \<open>The two background threads: a health round ends with an eviction.\<close>

definition run_health_checks :: "pool_params \<Rightarrow> rat \<Rightarrow> pool \<Rightarrow> pool" where
  "run_health_checks pp now p =
     snd (evict_idle_connections pp now (map (\<lambda>(k, c). (k, snd (health_check now c))) p))"

definition run_keepalive :: "rat \<Rightarrow> pool \<Rightarrow> pool" where
  "run_keepalive now p = map (\<lambda>(k, c). (k, if mc_connected c \<and> \<not> is_idle c then touch now c else c)) p"

definition shutdown :: "pool \<Rightarrow> pool" where
  "shutdown p = []"

text \<open>The status snapshot; reading it also moves a breaker whose wait is over.\<close>

record connection_status =
  cs_id :: string
  cs_server :: string
  cs_status :: string
  cs_last_check :: "rat option"
  cs_failures :: int
  cs_consumers :: nat

definition status_of :: "rat \<Rightarrow> connection \<Rightarrow> connection_status \<times> connection" where
  "status_of now c =
     (let b = effective_state now (mc_breaker c) in
      (\<lparr> cs_id = mc_id c, cs_server = mc_server c,
         cs_status = (if cb_state b = OPEN then ''circuit_open''
                      else if cb_state b = HALF_OPEN then ''half_open''
                      else if \<not> mc_connected c then ''disconnected'' else ''connected''),
         cs_last_check = (if mc_last_check c = 0 then None else Some (mc_last_check c)),
         cs_failures = cb_failures b, cs_consumers = card (mc_consumers c) \<rparr>,
       c\<lparr>mc_breaker := b\<rparr>))"

definition get_status :: "rat \<Rightarrow> pool \<Rightarrow> connection_status list \<times> pool" where
  "get_status now p = (map (\<lambda>(k, c). fst (status_of now c)) p, map (\<lambda>(k, c). (k, snd (status_of now c))) p)"

section \<open>The breaker as an automaton\<close>

text \<open>
  The documented machine: closed with its failures, tripped for the k-th time in a row at a
  moment, or probing after the k-th trip with its successes.
\<close>

datatype circuit = Shut int | Tripped nat rat | Probing nat int

definition spec_wait :: "rat \<Rightarrow> rat \<Rightarrow> nat \<Rightarrow> rat" where
  "spec_wait base cap k = min (base * 2 ^ min (k - 1) 32) cap"

fun spec_failure :: "int \<Rightarrow> rat \<Rightarrow> circuit \<Rightarrow> circuit" where
  "spec_failure th now (Shut n) = (if n + 1 \<ge> th then Tripped 1 now else Shut (n + 1))"
| "spec_failure th now (Tripped k t) = Tripped k now"
| "spec_failure th now (Probing k s) = Tripped (Suc k) now"

fun spec_success :: "int \<Rightarrow> circuit \<Rightarrow> circuit" where
  "spec_success sth (Shut n) = Shut (max 0 (n - 1))"
| "spec_success sth (Tripped k t) = Tripped k t"
| "spec_success sth (Probing k s) = (if s + 1 \<ge> sth then Shut 0 else Probing k (s + 1))"

fun spec_read :: "rat \<Rightarrow> rat \<Rightarrow> rat \<Rightarrow> circuit \<Rightarrow> circuit" where
  "spec_read base cap now (Tripped k t) = (if now - t \<ge> spec_wait base cap k then Probing k 0 else Tripped k t)"
| "spec_read base cap now c = c"

definition circuit_of :: "breaker \<Rightarrow> circuit" where
  "circuit_of b =
     (case cb_state b of
        CLOSED \<Rightarrow> Shut (cb_failures b)
      | OPEN \<Rightarrow> Tripped (cb_cycles b) (cb_last_failure b)
      | HALF_OPEN \<Rightarrow> Probing (cb_cycles b) (cb_successes b))"

definition breaker_ok :: "breaker \<Rightarrow> bool" where
  "breaker_ok b = (0 \<le> cb_failures b \<and> 0 \<le> cb_successes b \<and> (cb_state b = CLOSED) = (cb_cycles b = 0))"

lemma recovery_wait_spec: "cb_cycles b \<noteq> 0 \<Longrightarrow> recovery_wait b = spec_wait (cb_recovery b) (cb_recovery_max b) (cb_cycles b)"
  by (simp add: recovery_wait_def spec_wait_def)

lemmas breaker_ops = cb_record_failure_def cb_record_success_def effective_state_def cb_reset_def Let_def

lemma breaker_ok_new [simp]: "breaker_ok (new_breaker i th r m sth)"
  by (simp add: breaker_ok_def new_breaker_def)

lemma breaker_ok_ops [simp]:
  assumes "breaker_ok b"
  shows "breaker_ok (cb_record_failure now b)" "breaker_ok (cb_record_success b)"
    "breaker_ok (effective_state now b)" "breaker_ok (cb_reset b)"
  using assms by (auto simp: breaker_ok_def breaker_ops split: circuit_state.splits)

lemma cb_check_state_snd [simp]: "snd (cb_check_state now b) = effective_state now b"
  by (simp add: cb_check_state_def Let_def)

lemma circuit_refines:
  assumes "breaker_ok b"
  shows "circuit_of (cb_record_failure now b) = spec_failure (cb_threshold b) now (circuit_of b)"
    and "circuit_of (cb_record_success b) = spec_success (cb_success_threshold b) (circuit_of b)"
    and "circuit_of (effective_state now b) = spec_read (cb_recovery b) (cb_recovery_max b) now (circuit_of b)"
  using assms recovery_wait_spec[of b]
  by (cases "cb_state b"; auto simp: circuit_of_def breaker_ok_def breaker_ops)+

lemma check_state_iff:
  "cb_check_state now b =
     (if cb_state b = OPEN \<and> now - cb_last_failure b < recovery_wait b
      then (Inl (CircuitOpenError (cb_id b) (recovery_wait b - (now - cb_last_failure b))), b)
      else (Inr (), effective_state now b))"
  by (auto simp: cb_check_state_def effective_state_def Let_def max_def)

text \<open>C32: The circuit breaker is the documented machine. On a breaker the operations can produce, a
  failure, a success and a read of the state do exactly what the automaton does: a closed circuit
  opens at the threshold; a failed probe reopens it and doubles the wait, up to the cap; enough
  successes close it and reset the schedule; a call is refused exactly while the circuit is open
  and its wait not over, and the error names the rest of that wait.\<close>

theorem breaker_refines_automaton:
  assumes "breaker_ok b"
  shows "circuit_of (cb_record_failure now b) = spec_failure (cb_threshold b) now (circuit_of b) \<and>
    circuit_of (cb_record_success b) = spec_success (cb_success_threshold b) (circuit_of b) \<and>
    circuit_of (snd (cb_check_state now b)) = spec_read (cb_recovery b) (cb_recovery_max b) now (circuit_of b) \<and>
    circuit_of (cb_reset b) = Shut 0 \<and>
    (case circuit_of b of
       Tripped k t \<Rightarrow>
         let rest = t + spec_wait (cb_recovery b) (cb_recovery_max b) k - now in
         fst (cb_check_state now b) = (if rest > 0 then Inl (CircuitOpenError (cb_id b) rest) else Inr ())
     | _ \<Rightarrow> fst (cb_check_state now b) = Inr ()) \<and>
    list_all breaker_ok [cb_record_failure now b, cb_record_success b, snd (cb_check_state now b), cb_reset b]"
proof -
  have "case circuit_of b of
       Tripped k t \<Rightarrow>
         let rest = t + spec_wait (cb_recovery b) (cb_recovery_max b) k - now in
         fst (cb_check_state now b) = (if rest > 0 then Inl (CircuitOpenError (cb_id b) rest) else Inr ())
     | _ \<Rightarrow> fst (cb_check_state now b) = Inr ()"
    using assms recovery_wait_spec[of b]
    by (cases "cb_state b") (auto simp: check_state_iff circuit_of_def breaker_ok_def Let_def algebra_simps)
  moreover have "circuit_of (cb_reset b) = Shut 0" by (simp add: circuit_of_def cb_reset_def)
  ultimately show ?thesis using assms circuit_refines[OF assms] by simp
qed

text \<open>A breaker tripped twice: the second wait is twice the first.\<close>

definition tripped_twice :: breaker where
  "tripped_twice =
     cb_record_failure 40 (snd (cb_check_state 35 (cb_record_failure 5 (new_breaker ''splunk'' 1 30 600 2))))"

lemma breaker_refines_automaton_witness:
  "circuit_of tripped_twice = Tripped 2 40 \<and>
   fst (cb_check_state 70 tripped_twice) = Inl (CircuitOpenError ''splunk'' 30) \<and>
   circuit_of (snd (cb_check_state 100 tripped_twice)) = Probing 2 0"
proof -
  have ok: "breaker_ok tripped_twice" by (simp add: tripped_twice_def)
  have c: "circuit_of tripped_twice = Tripped 2 40" "cb_recovery tripped_twice = 30" "cb_recovery_max tripped_twice = 600"
    "cb_id tripped_twice = ''splunk''"
    by (simp_all add: tripped_twice_def new_breaker_def circuit_of_def breaker_ops recovery_wait_def cb_check_state_def)
  show ?thesis
    using breaker_refines_automaton[OF ok, of 70] breaker_refines_automaton[OF ok, of 100]
    by (simp add: c spec_wait_def Let_def)
qed

section \<open>The pool\<close>

datatype pool_event =
    Get string "server_config option" "string option" | Release string string | Success string | Failure string
  | HealthRound | KeepaliveRound | ReadStatus | Shutdown

fun pool_step :: "pool_params \<Rightarrow> rat \<Rightarrow> pool_event \<Rightarrow> pool \<Rightarrow> pool" where
  "pool_step pp now (Get server cfg k) p = snd (get_connection pp now server cfg k p)"
| "pool_step pp now (Release server k) p = release_connection now server k p"
| "pool_step pp now (Success server) p = pool_record_success now server p"
| "pool_step pp now (Failure server) p = pool_record_failure now server p"
| "pool_step pp now HealthRound p = run_health_checks pp now p"
| "pool_step pp now KeepaliveRound p = run_keepalive now p"
| "pool_step pp now ReadStatus p = snd (get_status now p)"
| "pool_step pp now Shutdown p = shutdown p"

definition pool_run :: "pool_params \<Rightarrow> (rat \<times> pool_event) list \<Rightarrow> pool" where
  "pool_run pp evs = foldl (\<lambda>p (now, ev). pool_step pp now ev p) [] evs"

definition conn_ok :: "string \<times> connection \<Rightarrow> bool" where
  "conn_ok kc = (case kc of (k, c) \<Rightarrow>
     mc_id c = k \<and> mc_server c = k \<and> mc_connected c \<and> mc_healthy c \<and> breaker_ok (mc_breaker c))"

definition pool_ok :: "pool_params \<Rightarrow> pool \<Rightarrow> bool" where
  "pool_ok pp p = (distinct (map fst p) \<and> int (length p) \<le> max 0 (pp_max_connections pp) \<and> list_all conn_ok p)"

lemmas conn_ops = touch_def add_consumer_def remove_consumer_def connect_def disconnect_def health_check_def
  reconnect_def with_consumer_def status_of_def is_idle_def Let_def

lemma conn_ok_touch: "conn_ok (k, touch now c) = conn_ok (k, c)"
  by (simp add: conn_ok_def touch_def)

lemma conn_ok_add: "conn_ok (k, add_consumer now s c) = conn_ok (k, c)"
  by (simp add: conn_ok_def add_consumer_def)

lemma conn_ok_remove: "conn_ok (k, remove_consumer now s c) = conn_ok (k, c)"
  by (simp add: conn_ok_def remove_consumer_def touch_def Let_def)

lemma conn_ok_with: "conn_ok (k, with_consumer now s c) = conn_ok (k, c)"
  by (simp add: with_consumer_def conn_ok_add split: option.splits)

lemma conn_ok_breaker: "conn_ok (k, c) \<Longrightarrow> breaker_ok b \<Longrightarrow> conn_ok (k, c\<lparr>mc_breaker := b\<rparr>)"
  by (simp add: conn_ok_def)

lemma conn_ok_health: "conn_ok (k, c) \<Longrightarrow> conn_ok (k, snd (health_check now c))"
  by (simp add: conn_ok_def health_check_def)

lemma conn_ok_new: "conn_ok (k, connect now (new_connection pp now' k sc))"
  by (simp add: conn_ok_def connect_def new_connection_def)

lemma length_dict_put: "map_of p k = Some c \<Longrightarrow> length (dict_put k v p) = length p"
  by (induction p) (auto split: if_splits)

lemma list_all_dict_put: "list_all P p \<Longrightarrow> P (k, v) \<Longrightarrow> list_all P (dict_put k v p)"
  by (induction p) auto

lemma conn_ok_lookup: "list_all conn_ok p \<Longrightarrow> map_of p k = Some c \<Longrightarrow> conn_ok (k, c)"
  by (auto simp: list_all_iff dest: map_of_SomeD)

lemma pool_ok_put:
  "pool_ok pp p \<Longrightarrow> map_of p k = Some c \<Longrightarrow> conn_ok (k, c') \<Longrightarrow> pool_ok pp (dict_put k c' p)"
  by (simp add: pool_ok_def distinct_update length_dict_put list_all_dict_put)

lemma pool_ok_filter: "pool_ok pp p \<Longrightarrow> pool_ok pp (filter P p)"
  using order_trans[OF of_nat_mono[OF length_filter_le[of P p]]]
  by (auto simp: pool_ok_def list_all_iff distinct_map_filter simp del: max.bounded_iff)

lemma pool_ok_map:
  assumes "pool_ok pp p" and "\<And>k c. conn_ok (k, c) \<Longrightarrow> conn_ok (k, f c)"
  shows "pool_ok pp (map (\<lambda>(k, c). (k, f c)) p)"
proof -
  have "map fst (map (\<lambda>(k, c). (k, f c)) p) = map fst p" by (induction p) auto
  then show ?thesis using assms unfolding pool_ok_def by (auto simp: list_all_iff simp del: map_map)
qed

lemma pool_ok_on:
  "pool_ok pp p \<Longrightarrow> (\<And>k c. conn_ok (k, c) \<Longrightarrow> conn_ok (k, f c)) \<Longrightarrow> pool_ok pp (on_connection f server p)"
  using conn_ok_lookup by (fastforce simp: on_connection_def pool_ok_def[of pp p] intro!: pool_ok_put split: option.splits)

text \<open>What a request for a connection can do.\<close>

lemma get_connection_cases:
  obtains (refused) c rest b where "map_of p server = Some c" "cb_check_state now (mc_breaker c) = (Inl (CircuitOpenError (cb_id b) rest), b)"
      "get_connection pp now server cfg k p = (Inl (CircuitOpenError (cb_id b) rest), dict_put server (c\<lparr>mc_breaker := b\<rparr>) p)"
      "b = mc_breaker c" "rest = cb_last_failure b + recovery_wait b - now" "cb_state b = OPEN" "rest > 0"
  | (reused) c b c1 where "map_of p server = Some c" "cb_check_state now (mc_breaker c) = (Inr (), b)" "cb_state b \<noteq> OPEN"
      "c1 = with_consumer now k (if mc_healthy c then c\<lparr>mc_breaker := b\<rparr> else reconnect now (c\<lparr>mc_breaker := b\<rparr>))"
      "get_connection pp now server cfg k p = (Inr c1, dict_put server c1 p)"
  | (not_made) e p1 where "map_of p server = None" "get_connection pp now server cfg k p = (Inl e, p1)"
      "p1 = p \<or> p1 = snd (evict_idle_connections pp now p)"
      "(e = PoolFull \<and> pp_max_connections pp \<le> int (length p1)) \<or> (e = NoConfig server \<and> cfg = None)"
  | (made) sc c p1 where "map_of p server = None" "cfg = Some sc" "int (length p1) < pp_max_connections pp"
      "p1 = p \<or> p1 = snd (evict_idle_connections pp now p)"
      "c = with_consumer now k (connect now (new_connection pp now server sc))"
      "get_connection pp now server cfg k p = (Inr c, p1 @ [(server, c)])"
proof (cases "map_of p server")
  case (Some c)
  show ?thesis
  proof (cases "cb_state (mc_breaker c) = OPEN \<and> now - cb_last_failure (mc_breaker c) < recovery_wait (mc_breaker c)")
    case True
    then show ?thesis
      using Some by (intro refused[of c "mc_breaker c" "cb_last_failure (mc_breaker c) + recovery_wait (mc_breaker c) - now"])
        (simp_all add: get_connection_def check_state_iff algebra_simps)
  next
    case False
    then have "cb_state (effective_state now (mc_breaker c)) \<noteq> OPEN" by (auto simp: effective_state_def)
    then show ?thesis
      using Some False by (intro reused[of c "effective_state now (mc_breaker c)"]) (auto simp: get_connection_def check_state_iff Let_def)
  qed
next
  case None
  define p1 where "p1 = (if int (length p) \<ge> pp_max_connections pp then snd (evict_idle_connections pp now p) else p)"
  have p1: "p1 = p \<or> p1 = snd (evict_idle_connections pp now p)" by (simp add: p1_def)
  show ?thesis
  proof (cases "int (length p1) \<ge> pp_max_connections pp \<or> cfg = None")
    case True
    then show ?thesis
      using None p1 by (intro not_made[of "projl (fst (get_connection pp now server cfg k p))" p1])
        (auto simp: get_connection_def p1_def[symmetric] Let_def)
  next
    case False
    then obtain sc where "cfg = Some sc" "int (length p1) < pp_max_connections pp" by auto
    then show ?thesis
      using None p1 by (intro made[of sc p1]) (simp_all add: get_connection_def p1_def[symmetric] Let_def)
  qed
qed

lemma pool_ok_evict: "pool_ok pp p \<Longrightarrow> pool_ok pp (snd (evict_idle_connections pp now p))"
  by (simp add: evict_idle_connections_def pool_ok_filter)

lemma check_state_breaker_ok: "breaker_ok b \<Longrightarrow> cb_check_state now b = (r, b') \<Longrightarrow> breaker_ok b'"
  using breaker_ok_ops(3)[of b now] cb_check_state_snd[of now b] by simp

lemma get_connection_ok:
  assumes "pool_ok pp p"
  shows "pool_ok pp (snd (get_connection pp now server cfg k p))"
proof (cases rule: get_connection_cases[where pp = pp and now = now and server = server and cfg = cfg and k = k and p = p])
  case (refused c rest b)
  have "conn_ok (server, c)" using assms refused(1) conn_ok_lookup by (auto simp: pool_ok_def)
  then have "conn_ok (server, c\<lparr>mc_breaker := b\<rparr>)" using refused(4) by (auto simp: conn_ok_def)
  then show ?thesis using refused(3) pool_ok_put[OF assms refused(1)] by simp
next
  case (reused c b c1)
  have ok: "conn_ok (server, c)" using assms reused(1) conn_ok_lookup by (auto simp: pool_ok_def)
  then have "breaker_ok b" using check_state_breaker_ok reused(2) by (auto simp: conn_ok_def)
  then have "conn_ok (server, c1)" using ok reused(4) by (simp add: conn_ok_with) (simp add: conn_ok_def)
  then show ?thesis using reused(5) pool_ok_put[OF assms reused(1)] by simp
next
  case (not_made e p1)
  then show ?thesis using assms pool_ok_evict by auto
next
  case (made sc c p1)
  have "pool_ok pp p1" using made(4) assms pool_ok_evict by auto
  moreover have "server \<notin> fst ` set p1"
    using made(1,4) by (auto simp: map_of_eq_None_iff evict_idle_connections_def)
  ultimately show ?thesis
    using made(3,5,6) by (auto simp: pool_ok_def conn_ok_with conn_ok_new)
qed

lemma pool_step_ok:
  assumes "pool_ok pp p"
  shows "pool_ok pp (pool_step pp now ev p)"
proof (cases ev)
  case (Get server cfg k)
  then show ?thesis using get_connection_ok[OF assms] by simp
next
  case (Release server k)
  then show ?thesis using assms by (simp add: release_connection_def pool_ok_on conn_ok_remove)
next
  case (Success server)
  then show ?thesis
    using assms by (auto simp: pool_record_success_def conn_ok_touch intro!: pool_ok_on conn_ok_breaker) (simp add: conn_ok_def)
next
  case (Failure server)
  then show ?thesis
    using assms by (auto simp: pool_record_failure_def intro!: pool_ok_on conn_ok_breaker) (simp add: conn_ok_def)
next
  case HealthRound
  then show ?thesis using assms by (auto simp: run_health_checks_def intro!: pool_ok_evict pool_ok_map conn_ok_health)
next
  case KeepaliveRound
  then show ?thesis using assms by (auto simp: run_keepalive_def conn_ok_touch intro!: pool_ok_map)
next
  case ReadStatus
  then show ?thesis
    using assms by (auto simp: get_status_def status_of_def Let_def intro!: pool_ok_map conn_ok_breaker) (simp add: conn_ok_def)
next
  case Shutdown
  then show ?thesis by (simp add: shutdown_def pool_ok_def)
qed

interpretation pool_store: op_store "\<lambda>(now, ev). pool_step pp now ev" "pool_ok pp" for pp
  by unfold_locales (auto simp: pool_step_ok)

text \<open>Whatever the calls and the background threads do, in any order and at any times, the pool keeps
  one connection per server, never more than its maximum, each filed under its own server name and
  connected and healthy with a breaker in step with its machine: closed exactly when its backoff
  schedule is reset. (So the unhealthy branch of a request for a connection is never taken.)\<close>

theorem pool_invariant:
  "let p = pool_run pp evs in
     distinct (map fst p) \<and> int (length p) \<le> max 0 (pp_max_connections pp) \<and>
     list_all (\<lambda>(k, c). mc_id c = k \<and> mc_server c = k \<and> mc_connected c \<and> mc_healthy c \<and>
       (cb_state (mc_breaker c) = CLOSED) = (cb_cycles (mc_breaker c) = 0)) p"
proof -
  have "pool_ok pp (pool_run pp evs)"
    using pool_store.foldl_ok[of pp "[]" evs] by (simp add: pool_run_def pool_ok_def split_def)
  then show ?thesis by (auto simp: Let_def pool_ok_def conn_ok_def breaker_ok_def list_all_iff)
qed

text \<open>A connection in use stays in use.\<close>

definition holds :: "string \<Rightarrow> string \<Rightarrow> pool \<Rightarrow> bool" where
  "holds server k p = (case map_of p server of None \<Rightarrow> False | Some c \<Rightarrow> k \<in> mc_consumers c)"

lemma holds_evict: "holds server k p \<Longrightarrow> holds server k (snd (evict_idle_connections pp now p))"
proof (induction p)
  case (Cons kc p)
  then show ?case
    by (cases kc) (auto simp: holds_def evict_idle_connections_def evictable_def is_idle_def split: if_splits)
qed (simp add: holds_def)

lemma holds_map: "holds server k p \<Longrightarrow> (\<And>c. k \<in> mc_consumers c \<Longrightarrow> k \<in> mc_consumers (f c)) \<Longrightarrow>
    holds server k (map (\<lambda>(s, c). (s, f c)) p)"
  by (auto simp: holds_def map_of_map split: option.splits)

lemma holds_on:
  "holds server k p \<Longrightarrow> (\<And>c. s = server \<Longrightarrow> k \<in> mc_consumers c \<Longrightarrow> k \<in> mc_consumers (f c)) \<Longrightarrow>
    holds server k (on_connection f s p)"
  by (auto simp: holds_def on_connection_def split: option.splits)

lemma with_consumer_keeps: "x \<in> mc_consumers c \<Longrightarrow> x \<in> mc_consumers (with_consumer now k c)"
  by (auto simp: with_consumer_def add_consumer_def split: option.splits)

lemma reconnect_consumers [simp]: "mc_consumers (reconnect now c) = mc_consumers c"
  by (simp add: conn_ops)

lemma holds_get:
  assumes "holds server k p"
  shows "holds server k (snd (get_connection pp now s cfg k' p))"
proof (cases rule: get_connection_cases[where pp = pp and now = now and server = s and cfg = cfg and k = k' and p = p])
  case (refused c rest b)
  then show ?thesis using assms by (auto simp: holds_def)
next
  case (reused c b c1)
  have "mc_consumers c \<subseteq> mc_consumers c1"
    by (auto simp: reused(4) intro!: with_consumer_keeps)
  then show ?thesis using reused assms by (auto simp: holds_def)
next
  case (not_made e p1)
  then show ?thesis using assms holds_evict by auto
next
  case (made sc c p1)
  then have "holds server k p1" using assms holds_evict by auto
  then show ?thesis using made(6) by (auto simp: holds_def map_add_def split: option.splits)
qed

text \<open>No other operation takes a connection away from its consumer.\<close>

lemma holds_step:
  assumes "holds server k p" and "ev \<notin> {Release server k, Shutdown}"
  shows "holds server k (pool_step pp now ev p)"
proof (cases ev)
  case (Get s cfg k')
  then show ?thesis using assms holds_get by simp
next
  case (Release s k')
  then have "k' \<noteq> k" if "s = server" using assms(2) that by auto
  then show ?thesis
    using Release assms(1) by (auto simp: release_connection_def remove_consumer_def touch_def Let_def intro!: holds_on)
next
  case HealthRound
  then show ?thesis
    using assms(1) by (auto simp: run_health_checks_def health_check_def intro!: holds_evict holds_map)
next
  case KeepaliveRound
  then show ?thesis using assms(1) by (auto simp: run_keepalive_def touch_def intro!: holds_map)
qed (use assms in \<open>auto simp: pool_record_success_def pool_record_failure_def touch_def get_status_def status_of_def Let_def
      intro!: holds_on holds_map\<close>)

lemma holds_steps:
  "holds server k p \<Longrightarrow> list_all (\<lambda>e. snd e \<notin> {Release server k, Shutdown}) later \<Longrightarrow>
   holds server k (foldl (\<lambda>p (now, ev). pool_step pp now ev p) p later)"
proof (induction later arbitrary: p)
  case (Cons e later)
  obtain now ev where e: "e = (now, ev)" by fastforce
  have "holds server k (pool_step pp now ev p)"
    using Cons.prems e by (intro holds_step) simp_all
  then show ?case using Cons.IH Cons.prems(2) e by simp
qed simp

text \<open>C40: The pool never outgrows its maximum, and it never makes room by taking away a connection that is
  in use.  Whatever calls and background rounds happen, in any order and at any times, there is
  one connection per server, filed under its name, and never more than the maximum; and a
  consumer that holds a connection still holds it through any further operations other than its
  own release of it and the shutdown of the pool, requests to a full pool and evictions included.\<close>

theorem held_within_capacity:
  assumes "holds server k (pool_run pp evs)"
    and "list_all (\<lambda>e. snd e \<notin> {Release server k, Shutdown}) later"
  shows "let p = pool_run pp (evs @ later) in
    holds server k p \<and> distinct (map fst p) \<and> int (length p) \<le> max 0 (pp_max_connections pp) \<and>
    list_all (\<lambda>(s, c). mc_id c = s \<and> mc_server c = s) p"
proof -
  have "pool_ok pp (pool_run pp (evs @ later))"
    using pool_store.foldl_ok[of pp "[]" "evs @ later"] by (simp add: pool_run_def pool_ok_def split_def)
  moreover have "holds server k (pool_run pp (evs @ later))"
    using holds_steps[OF assms] by (simp add: pool_run_def)
  ultimately show ?thesis by (auto simp: Let_def pool_ok_def conn_ok_def list_all_iff)
qed

text \<open>A pool of one connection, which is held: a request for another server an hour later is refused.\<close>

lemma held_within_capacity_witness:
  "let pp = \<lparr> pp_max_connections = 1, pp_idle_timeout = 300, pp_recovery_max = 600, pp_success_threshold = 2 \<rparr>;
       sc = \<lparr> sc_threshold = 5, sc_recovery = 30, sc_recovery_max = None \<rparr>;
       p = pool_run pp ([(0, Get ''splunk'' (Some sc) (Some ''inv_1''))] @ [(3600, Get ''okta'' (Some sc) None), (3601, HealthRound)])
   in holds ''splunk'' ''inv_1'' p \<and> int (length p) \<le> 1"
proof -
  define pp where "pp = \<lparr> pp_max_connections = 1, pp_idle_timeout = 300, pp_recovery_max = 600, pp_success_threshold = 2 \<rparr>"
  define sc where "sc = \<lparr> sc_threshold = 5, sc_recovery = 30, sc_recovery_max = None \<rparr>"
  have "holds ''splunk'' ''inv_1'' (pool_run pp [(0, Get ''splunk'' (Some sc) (Some ''inv_1''))])"
    by (simp add: pool_run_def holds_def get_connection_def conn_ops pp_def sc_def)
  from held_within_capacity[OF this, of "[(3600, Get ''okta'' (Some sc) None), (3601, HealthRound)]"]
  show ?thesis unfolding Let_def pp_def[symmetric] sc_def[symmetric] by (simp add: pp_def)
qed

text \<open>What a caller gets. A connection is handed out healthy, with a circuit that is not open, filed in
  the pool and with the caller registered on it; a refusal names the reason: an open circuit and
  the exact rest of its wait, a pool whose connections are all in use or too recently used, or a
  new server without a configuration.\<close>

theorem get_connection_contract:
  "case get_connection pp now server cfg (Some k) p of
     (Inr c, p') \<Rightarrow> map_of p' server = Some c \<and> mc_healthy c \<and> cb_state (mc_breaker c) \<noteq> OPEN \<and>
       (k = [] \<or> k \<in> mc_consumers c)
   | (Inl (CircuitOpenError i rest), p') \<Rightarrow>
       (case map_of p server of
          None \<Rightarrow> False
        | Some c \<Rightarrow> cb_state (mc_breaker c) = OPEN \<and> i = cb_id (mc_breaker c) \<and> 0 < rest \<and>
            rest = cb_last_failure (mc_breaker c) + recovery_wait (mc_breaker c) - now)
   | (Inl PoolFull, p') \<Rightarrow> map_of p server = None \<and>
       pp_max_connections pp \<le> int (length (filter (\<lambda>sc. evictable pp now (snd sc) = False) p))
   | (Inl (NoConfig s), p') \<Rightarrow> map_of p server = None \<and> s = server \<and> cfg = None"
proof (cases rule: get_connection_cases[where pp = pp and now = now and server = server and cfg = cfg and k = "Some k" and p = p])
  case (refused c rest b)
  then show ?thesis by auto
next
  case (reused c b c1)
  then show ?thesis by (auto simp: conn_ops cb_reset_def)
next
  case (not_made e p1)
  have "pp_max_connections pp \<le> int (length p1) \<Longrightarrow> p1 = p \<Longrightarrow>
      e = PoolFull \<Longrightarrow> p1 = snd (evict_idle_connections pp now p)"
    using not_made(1,2) by (auto simp: get_connection_def Let_def split: if_splits option.splits)
  then show ?thesis using not_made by (auto simp: evict_idle_connections_def)
next
  case (made sc c p1)
  have "server \<notin> fst ` set p1"
    using made(1,4) by (auto simp: map_of_eq_None_iff evict_idle_connections_def)
  then have "map_of (p1 @ [(server, c)]) server = Some c" by (simp add: map_add_def map_of_eq_None_iff[symmetric])
  then show ?thesis using made(5,6) by (auto simp: conn_ops new_connection_def new_breaker_def simp del: map_of_append)
qed

end
