(* ===== verification/McpDispatch.thy ===== *)
theory McpDispatch
  imports McpPolicy McpRegistry Tlp ConnectorPolicy HashChain "HOL-Library.List_Lexorder"
begin

text \<open>
  How a tool call travels: discovery and the router tool (agents/btagent_agents/mcp/discovery.py)
  with the check of the event classes a result claims (mcp/ocsf.py), and the adapters around a
  tool (mcp/adapters.py): retries behind the circuit breaker, the egress filter on what comes
  back, and the offloading of large results.  The servers, the JSON functions, SHA-256 and the
  clock are arguments; a tool changes a world of its own.
\<close>

section \<open>Claims of a result\<close>

definition result_claims :: "pyval \<Rightarrow> string list" where
  "result_claims payload =
     (case payload of
        PDict d \<Rightarrow>
          dedupe
            ((case get_str d ''ocsf_event_class'' of Some (PStr s) \<Rightarrow> [s] | _ \<Rightarrow> []) @
             (case get_str d ''ocsf_emits'' of Some (PList cs) \<Rightarrow> List.map_filter str_of cs | _ \<Rightarrow> []) @
             (case get_str d ''events'' of Some (PList es) \<Rightarrow> List.map_filter event_class es | _ \<Rightarrow> []))
      | _ \<Rightarrow> [])"

record claim_violation =
  cv_tool :: string
  cv_server :: string
  cv_undeclared :: "string list"
  cv_declared :: "string list"

definition validate_ocsf_claims :: "(string \<times> manifest) list \<Rightarrow> string \<Rightarrow> pyval \<Rightarrow> claim_violation option" where
  "validate_ocsf_claims ms tool result =
     (let claims = result_claims result in
      if claims = [] then None
      else case find_capability tool ms of
        None \<Rightarrow> None
      | Some (server, cap) \<Rightarrow>
          if cap_ocsf_emits cap = [] then None
          else
            let undeclared = filter (\<lambda>c. c \<notin> set (cap_ocsf_emits cap)) claims in
            if undeclared = [] then None
            else Some \<lparr> cv_tool = tool, cv_server = server, cv_undeclared = undeclared,
                        cv_declared = sort (dedupe (cap_ocsf_emits cap)) \<rparr>)"

section \<open>Discovery\<close>

type_synonym tool_args = "(pyval \<times> pyval) list"

datatype tool_exn = ToolTypeError string | ToolNotImplemented | ToolCircuitOpen pool_error | ToolFailed string

type_synonym 'w tool = "tool_args \<Rightarrow> 'w \<Rightarrow> (tool_exn, pyval) res \<times> 'w"

record tool_info =
  ti_name :: string
  ti_description :: string
  ti_server :: string
  ti_schema :: pyval

text \<open>
  A server: the metadata of its tools, which may fail to come and may hold an entry that lacks a
  key (the error of reading it), and its methods.
\<close>

record 'w tool_server =
  ts_metadata :: "(string, (string, tool_info) res list) res"
  ts_methods :: "(string \<times> 'w tool) list"

record discovery =
  di_index :: "(string \<times> tool_info) list"
  di_dispatch :: "(string \<times> string \<times> string) list"

definition register_tool :: "string \<Rightarrow> 'w tool_server \<Rightarrow> discovery \<Rightarrow> tool_info \<Rightarrow> discovery" where
  "register_tool sid srv di info =
     \<lparr> di_index = dict_put (ti_name info) info (di_index di),
       di_dispatch = (if map_of (ts_methods srv) (ti_name info) = None then di_dispatch di
                      else dict_put (ti_name info) (sid, ti_name info) (di_dispatch di)) \<rparr>"

text \<open>The entries of one server; a malformed one ends the loop, and those before it stay registered.\<close>

fun register_all ::
  "string \<Rightarrow> 'w tool_server \<Rightarrow> (string, tool_info) res list \<Rightarrow> tool_info list \<times> discovery \<Rightarrow> tool_info list \<times> discovery" where
  "register_all sid srv [] acc = acc"
| "register_all sid srv (Inl e # es) acc = acc"
| "register_all sid srv (Inr info # es) (found, di) =
     register_all sid srv es (found @ [info], register_tool sid srv di info)"

definition discover_server ::
  "(string \<times> 'w tool_server) list \<Rightarrow> tool_info list \<times> discovery \<Rightarrow> string \<Rightarrow> tool_info list \<times> discovery" where
  "discover_server servers acc sid =
     (case map_of servers sid of
        None \<Rightarrow> acc
      | Some srv \<Rightarrow>
          (case ts_metadata srv of
             Inl e \<Rightarrow> acc
           | Inr entries \<Rightarrow> register_all sid srv entries acc))"

text \<open>The servers named, else those of the connections given, else all.\<close>

definition discover_tools ::
  "(string \<times> 'w tool_server) list \<Rightarrow> connection list option \<Rightarrow> string list option \<Rightarrow> discovery
     \<Rightarrow> tool_info list \<times> discovery" where
  "discover_tools servers conns ids di =
     foldl (discover_server servers) ([], di)
       (case ids of Some l \<Rightarrow> l
        | None \<Rightarrow> (case conns of Some cs \<Rightarrow> map mc_server cs | None \<Rightarrow> map fst servers))"

definition get_tool_catalog :: "(string \<times> 'w tool_server) list \<Rightarrow> discovery \<Rightarrow> (string \<times> tool_info) list \<times> discovery" where
  "get_tool_catalog servers di =
     (let di1 = (if di_index di = [] then snd (discover_tools servers None None di) else di) in (di_index di1, di1))"

section \<open>The router tool\<close>

record 'w router_env =
  re_manifests :: "(string \<times> manifest) list"
  re_settings :: run_settings
  re_json_loads :: "string \<Rightarrow> (string, pyval) res"
  re_servers :: "(string \<times> 'w tool_server) list"

datatype router_answer =
    InvalidJson string
  | PolicyRefusal policy_verdict
  | UnknownTool "string list"
  | ToolResult pyval
  | OcsfViolation claim_violation
  | InvalidArguments string
  | RealModeMissing
  | ExecutionFailed tool_exn

definition answer_of_exn :: "tool_exn \<Rightarrow> router_answer" where
  "answer_of_exn e =
     (case e of ToolTypeError m \<Rightarrow> InvalidArguments m | ToolNotImplemented \<Rightarrow> RealModeMissing | _ \<Rightarrow> ExecutionFailed e)"

text \<open>\<^verbatim>\<open>method(**args)\<close>: arguments that are no dictionary are a TypeError before the call.\<close>

definition call_method :: "'w tool option \<Rightarrow> pyval \<Rightarrow> 'w \<Rightarrow> (tool_exn, pyval) res \<times> 'w" where
  "call_method f args w =
     (case f of
        None \<Rightarrow> (Inl (ToolFailed ''no such method''), w)
      | Some g \<Rightarrow> (case args of PDict d \<Rightarrow> g d w | _ \<Rightarrow> (Inl (ToolTypeError ''not a mapping''), w)))"

definition dispatch_method :: "'w router_env \<Rightarrow> discovery \<Rightarrow> string \<Rightarrow> ('w tool option) option" where
  "dispatch_method env di tool =
     (case map_of (di_dispatch di) tool of
        None \<Rightarrow> None
      | Some (sid, m) \<Rightarrow>
          Some (case map_of (re_servers env) sid of None \<Rightarrow> None | Some srv \<Rightarrow> map_of (ts_methods srv) m))"

definition decode_arguments :: "'w router_env \<Rightarrow> pyval \<Rightarrow> (string, pyval) res" where
  "decode_arguments env arguments = (case arguments of PStr s \<Rightarrow> re_json_loads env s | v \<Rightarrow> Inr v)"

definition mcp_router_tool ::
  "'w router_env \<Rightarrow> string \<Rightarrow> pyval \<Rightarrow> discovery \<Rightarrow> 'w \<Rightarrow> router_answer \<times> discovery \<times> 'w" where
  "mcp_router_tool env tool arguments di w =
     (case decode_arguments env arguments of
        Inl e \<Rightarrow> (InvalidJson e, di, w)
      | Inr args \<Rightarrow>
          (let verdict = evaluate_tool_call (re_manifests env) (re_settings env) tool None None in
           if \<not> verdict_allowed verdict then (PolicyRefusal verdict, di, w)
           else
             let di1 = (if di_dispatch di = [] then snd (discover_tools (re_servers env) None None di) else di) in
             case dispatch_method env di1 tool of
               None \<Rightarrow> (UnknownTool (map fst (di_dispatch di1)), di1, w)
             | Some f \<Rightarrow>
                 (case call_method f args w of
                    (Inl e, w1) \<Rightarrow> (answer_of_exn e, di1, w1)
                  | (Inr result, w1) \<Rightarrow>
                      (case validate_ocsf_claims (re_manifests env) tool result of
                         Some v \<Rightarrow> (OcsfViolation v, di1, w1)
                       | None \<Rightarrow> (ToolResult result, di1, w1)))))"

section \<open>The egress filter on returns\<close>

definition redacted_placeholder :: pyval where
  "redacted_placeholder =
     PDict [(PStr ''_tlp_redacted'', PBool True),
            (PStr ''reason'', PStr ''TLP:RED data not propagated outside investigation'')]"

text \<open>\<^verbatim>\<open>isinstance(val, str) and val.lower() == "red"\<close> under one of the four keys.\<close>

definition is_red_tagged :: "pyval \<Rightarrow> bool" where
  "is_red_tagged node =
     (case node of
        PDict d \<Rightarrow> list_ex (\<lambda>k. case get_str d k of Some (PStr s) \<Rightarrow> lower s = ''red'' | _ \<Rightarrow> False)
                   [''tlp_level'', ''tlp'', ''TLP'', ''TLPLevel'']
      | _ \<Rightarrow> False)"

fun strip_red_items :: "pyval \<Rightarrow> pyval \<times> nat" where
  "strip_red_items (PDict d) =
     (let rs = map (\<lambda>(k, v). if is_red_tagged v then (k, redacted_placeholder, 1)
                             else (case strip_red_items v of (v', n) \<Rightarrow> (k, v', n))) d
      in (PDict (map (\<lambda>(k, v, n). (k, v)) rs), sum_list (map (\<lambda>(k, v, n). n) rs)))"
| "strip_red_items (PList xs) =
     (let rs = map (\<lambda>v. if is_red_tagged v then (None, 1)
                        else (case strip_red_items v of (v', n) \<Rightarrow> (Some v', n))) xs
      in (PList (List.map_filter fst rs), sum_list (map snd rs)))"
| "strip_red_items v = (v, 0)"

definition tlp_context :: "string option \<Rightarrow> class_ctx" where
  "tlp_context t = (case t of None \<Rightarrow> CtxNone | Some s \<Rightarrow> CtxStr s)"

definition count_stripped :: "pyval \<times> nat \<Rightarrow> pyval" where
  "count_stripped r =
     (case r of
        (PDict d, n) \<Rightarrow>
          if n \<noteq> 0 \<and> get_str d ''_tlp_stripped_count'' = None
          then PDict (d @ [(PStr ''_tlp_stripped_count'', PInt (int n))]) else PDict d
      | (v, n) \<Rightarrow> v)"

definition enforce_tlp_on_return ::
  "string \<Rightarrow> string option \<Rightarrow> datetime \<Rightarrow> pyval \<Rightarrow> sink_state \<Rightarrow> (tlp_error, pyval) res \<times> sink_state" where
  "enforce_tlp_on_return server investigation_tlp now result sink =
     (if is_red_tagged result then (Inl (TLPViolation RED (''mcp:'' @ server)), sink)
      else
        let cleaned = count_stripped (strip_red_items result) in
        case assert_tlp_allows_egress cleaned ''mcp_return'' (tlp_context investigation_tlp) None now sink of
          (Inl e, sink', _) \<Rightarrow> (Inl e, sink')
        | (Inr _, sink', _) \<Rightarrow> (Inr cleaned, sink'))"

section \<open>Retries behind the circuit breaker\<close>

record adapter =
  ad_server :: string
  ad_max_retries :: int
  ad_backoff_base :: rat
  ad_backoff_max :: rat
  ad_tlp :: "string option"

definition default_adapter :: "string \<Rightarrow> adapter" where
  "default_adapter server =
     \<lparr> ad_server = server, ad_max_retries = 3, ad_backoff_base = 1, ad_backoff_max = 30, ad_tlp = None \<rparr>"

text \<open>The clock: when an attempt checks the circuit, when its call is over.\<close>

record attempt_clock =
  ac_check :: "nat \<Rightarrow> rat"
  ac_done :: "nat \<Rightarrow> rat"
  ac_stamp :: "nat \<Rightarrow> datetime"

record 'w exec_state =
  xs_pool :: pool
  xs_world :: 'w
  xs_sink :: sink_state
  xs_slept :: "rat list"

datatype exec_error = CircuitStops pool_error | ToolRaised tool_exn | ReturnRefused tlp_error | NoAttempt

definition backoff_delay :: "adapter \<Rightarrow> nat \<Rightarrow> rat" where
  "backoff_delay a attempt = min (ad_backoff_base a * 2 ^ (attempt - 1)) (ad_backoff_max a)"

definition check_circuit :: "adapter \<Rightarrow> rat \<Rightarrow> pool \<Rightarrow> (pool_error, unit) res \<times> pool" where
  "check_circuit a now p =
     (case map_of p (ad_server a) of
        None \<Rightarrow> (Inr (), p)
      | Some c \<Rightarrow> (case cb_check_state now (mc_breaker c) of
                    (r, b) \<Rightarrow> (r, dict_put (ad_server a) (c\<lparr>mc_breaker := b\<rparr>) p)))"

definition sleep_before_retry :: "adapter \<Rightarrow> nat \<Rightarrow> nat \<Rightarrow> 'w exec_state \<Rightarrow> 'w exec_state" where
  "sleep_before_retry a left attempt s =
     (if left = 0 then s else s\<lparr>xs_slept := xs_slept s @ [backoff_delay a attempt]\<rparr>)"

text \<open>
  One attempt: the circuit, the call, the egress filter.  A refused return is raised inside the
  same try block as the call, so it counts as a failure of the tool.
\<close>

datatype attempt_result = Returned pyval | Stopped exec_error | Retry exec_error | CircuitWait pool_error

definition one_attempt ::
  "adapter \<Rightarrow> attempt_clock \<Rightarrow> ('w \<Rightarrow> (tool_exn, pyval) res \<times> 'w) \<Rightarrow> nat \<Rightarrow> 'w exec_state \<Rightarrow> attempt_result \<times> 'w exec_state" where
  "one_attempt a clk call attempt s =
     (case check_circuit a (ac_check clk attempt) (xs_pool s) of
        (Inl e, p) \<Rightarrow> (CircuitWait e, s\<lparr>xs_pool := p\<rparr>)
      | (Inr _, p) \<Rightarrow>
          (case call (xs_world s) of
             (Inl (ToolCircuitOpen e), w) \<Rightarrow> (Stopped (ToolRaised (ToolCircuitOpen e)), s\<lparr>xs_pool := p, xs_world := w\<rparr>)
           | (Inl e, w) \<Rightarrow>
               (Retry (ToolRaised e),
                s\<lparr>xs_pool := pool_record_failure (ac_done clk attempt) (ad_server a) p, xs_world := w\<rparr>)
           | (Inr result, w) \<Rightarrow>
               (let p1 = pool_record_success (ac_done clk attempt) (ad_server a) p in
                case enforce_tlp_on_return (ad_server a) (ad_tlp a) (ac_stamp clk attempt) result (xs_sink s) of
                  (Inr cleaned, sink) \<Rightarrow> (Returned cleaned, s\<lparr>xs_pool := p1, xs_world := w, xs_sink := sink\<rparr>)
                | (Inl e, sink) \<Rightarrow>
                    (Retry (ReturnRefused e),
                     s\<lparr>xs_pool := pool_record_failure (ac_done clk attempt) (ad_server a) p1, xs_world := w, xs_sink := sink\<rparr>))))"

text \<open>The loop: \<^term>\<open>left\<close> attempts remain after this one.\<close>

fun attempts ::
  "adapter \<Rightarrow> attempt_clock \<Rightarrow> ('w \<Rightarrow> (tool_exn, pyval) res \<times> 'w) \<Rightarrow> nat \<Rightarrow> nat \<Rightarrow> exec_error option \<Rightarrow> 'w exec_state
     \<Rightarrow> (exec_error, pyval) res \<times> 'w exec_state" where
  "attempts a clk call 0 attempt last_error s =
     (case last_error of Some e \<Rightarrow> (Inl e, s) | None \<Rightarrow> (Inl NoAttempt, s))"
| "attempts a clk call (Suc left) attempt last_error s =
     (case one_attempt a clk call attempt s of
        (Returned v, s1) \<Rightarrow> (Inr v, s1)
      | (Stopped e, s1) \<Rightarrow> (Inl e, s1)
      | (CircuitWait e, s1) \<Rightarrow>
          if left = 0 then (Inl (CircuitStops e), s1)
          else attempts a clk call left (Suc attempt) last_error (sleep_before_retry a left attempt s1)
      | (Retry e, s1) \<Rightarrow> attempts a clk call left (Suc attempt) (Some e) (sleep_before_retry a left attempt s1))"

definition adapter_execute ::
  "adapter \<Rightarrow> attempt_clock \<Rightarrow> ('w \<Rightarrow> (tool_exn, pyval) res \<times> 'w) \<Rightarrow> 'w exec_state
     \<Rightarrow> (exec_error, pyval) res \<times> 'w exec_state" where
  "adapter_execute a clk call s = attempts a clk call (nat (ad_max_retries a)) 1 None s"

section \<open>Offloading large results\<close>

record file_adapter =
  fa_threshold :: nat
  fa_dir :: string

text \<open>The JSON text, the length of its bytes and the hash of it are arguments, as is the file system.\<close>

record json_lib =
  jl_dumps :: "pyval \<Rightarrow> string"
  jl_bytes :: "string \<Rightarrow> nat"
  jl_sha256 :: "string \<Rightarrow> string"

type_synonym files = "(string \<times> string) list"

definition counted_fields :: "string list" where
  "counted_fields = [''events'', ''hits'', ''alerts'', ''detections'', ''incidents'', ''notables'', ''rows'']"

definition summary_parts :: "(pyval \<times> pyval) list \<Rightarrow> (py_exn, string list) res" where
  "summary_parts d =
     (let counts = List.map_filter (\<lambda>k. case get_str d k of Some (PList xs) \<Rightarrow> Some (nat_digits (length xs) @ '' '' @ k) | _ \<Rightarrow> None)
            counted_fields;
          field = (\<lambda>k label. case get_str d k of
             None \<Rightarrow> Inr [] | Some v \<Rightarrow> bind_res (py_str v) (\<lambda>t. Inr [label @ t]))
      in bind_res (field ''total'' ''total='') (\<lambda>t. bind_res (field ''result_count'' ''results='') (\<lambda>r.
           Inr (counts @ t @ r))))"

definition summarise :: "(pyval \<times> pyval) list \<Rightarrow> (py_exn, string) res" where
  "summarise d =
     bind_res (summary_parts d) (\<lambda>parts.
       Inr (if parts = [] then ''Large result offloaded to file''
            else ''Large result offloaded to file ('' @ join_text '', '' parts @ '')''))"

definition artifact_path :: "file_adapter \<Rightarrow> string \<Rightarrow> string \<Rightarrow> int \<Rightarrow> string \<Rightarrow> string" where
  "artifact_path fa tool investigation ts hash =
     fa_dir fa @ ''/'' @ (if investigation = [] then ''global'' else investigation) @ ''_'' @ tool @ ''_'' @
     int_str ts @ ''_'' @ take 12 hash @ ''.json''"

text \<open>A large result that is no dictionary is written and then fails on its missing \<^verbatim>\<open>get\<close>.\<close>

datatype offload_error = NoStatusField | NoSummary py_exn

definition maybe_offload ::
  "json_lib \<Rightarrow> file_adapter \<Rightarrow> int \<Rightarrow> pyval \<Rightarrow> string \<Rightarrow> string \<Rightarrow> files \<Rightarrow> (offload_error, pyval) res \<times> files" where
  "maybe_offload jl fa ts result tool investigation fs =
     (let text = jl_dumps jl result; size = jl_bytes jl text in
      if size \<le> fa_threshold fa then (Inr result, fs)
      else
        let path = artifact_path fa tool investigation ts (jl_sha256 jl text);
            fs1 = dict_put path text fs
        in case result of
             PDict d \<Rightarrow>
               (case summarise d of
                  Inl e \<Rightarrow> (Inl (NoSummary e), fs1)
                | Inr summary \<Rightarrow>
                    (Inr (PDict
                      [(PStr ''status'', case get_str d ''status'' of None \<Rightarrow> PStr ''success'' | Some v \<Rightarrow> v),
                       (PStr ''offloaded'', PBool True), (PStr ''artifact_path'', PStr path),
                       (PStr ''artifact_size_bytes'', PInt (int size)), (PStr ''tool_name'', PStr tool),
                       (PStr ''summary'', PStr summary)]), fs1))
           | _ \<Rightarrow> (Inl NoStatusField, fs1))"

datatype invoke_error = ExecFailed exec_error | OffloadFailed offload_error

definition executor_invoke ::
  "adapter \<Rightarrow> attempt_clock \<Rightarrow> json_lib \<Rightarrow> file_adapter \<Rightarrow> int \<Rightarrow> string \<Rightarrow> string \<Rightarrow> ('w \<Rightarrow> (tool_exn, pyval) res \<times> 'w)
     \<Rightarrow> 'w exec_state \<Rightarrow> files \<Rightarrow> (invoke_error, pyval) res \<times> 'w exec_state \<times> files" where
  "executor_invoke a clk jl fa ts tool investigation call s fs =
     (case adapter_execute a clk call s of
        (Inl e, s1) \<Rightarrow> (Inl (ExecFailed e), s1, fs)
      | (Inr v, s1) \<Rightarrow>
          (case maybe_offload jl fa ts v tool investigation fs of
             (Inl e, fs1) \<Rightarrow> (Inl (OffloadFailed e), s1, fs1)
           | (Inr out, fs1) \<Rightarrow> (Inr out, s1, fs1)))"

section \<open>A router call runs only what the policy lets through\<close>

text \<open>C31: The router tool runs a server's method only behind the manifest policy. A call either leaves
  the servers untouched, or its tool is declared and allowed in the run's settings, its arguments are
  a dictionary, and what happened is one call of the method registered under its name; the caller's
  text cannot change the settings the policy reads. A result comes back only with event classes its
  manifest declares, unless that declares none at all.\<close>

theorem router_runs_only_permitted:
  "case mcp_router_tool env tool arguments di w of (answer, di', w') \<Rightarrow>
     (w' = w \<or>
      (verdict_allowed (evaluate_tool_call (re_manifests env) (re_settings env) tool None None) \<and>
       (\<exists>d f. decode_arguments env arguments = Inr (PDict d) \<and> dispatch_method env di' tool = Some (Some f) \<and> w' = snd (f d w)))) \<and>
     (case answer of
        ToolResult r \<Rightarrow>
          (case find_capability tool (re_manifests env) of
             None \<Rightarrow> False
           | Some (s, c) \<Rightarrow> cap_ocsf_emits c = [] \<or> set (result_claims r) \<subseteq> set (cap_ocsf_emits c))
      | PolicyRefusal v \<Rightarrow> v = evaluate_tool_call (re_manifests env) (re_settings env) tool None None \<and> w' = w
      | _ \<Rightarrow> True)"
proof -
  define v where "v = evaluate_tool_call (re_manifests env) (re_settings env) tool None None"
  obtain answer di' w' where r: "mcp_router_tool env tool arguments di w = (answer, di', w')"
    by (metis surj_pair)
  have declared: "\<exists>s c. find_capability tool (re_manifests env) = Some (s, c)" if "verdict_allowed v"
    using that by (auto simp: v_def evaluate_tool_call_def verdict_allowed_def Let_def split: option.splits)
  have claims: "cap_ocsf_emits c = [] \<or> set (result_claims x) \<subseteq> set (cap_ocsf_emits c)"
    if "validate_ocsf_claims (re_manifests env) tool x = None" "find_capability tool (re_manifests env) = Some (s, c)" for x s c
    using that by (auto simp: validate_ocsf_claims_def Let_def filter_empty_conv split: if_splits)
  show ?thesis
  proof (cases "\<exists>args. decode_arguments env arguments = Inr args \<and> verdict_allowed v")
    case False
    then show ?thesis
      using r by (auto simp: mcp_router_tool_def v_def[symmetric] Let_def split: sum.splits if_splits)
  next
    case True
    then obtain args where args: "decode_arguments env arguments = Inr args" and ok: "verdict_allowed v" by blast
    define di1 where "di1 = (if di_dispatch di = [] then snd (discover_tools (re_servers env) None None di) else di)"
    note run = r[unfolded mcp_router_tool_def args v_def[symmetric] Let_def sum.case if_not_P[OF not_not[THEN iffD2, OF ok]]
        di1_def[symmetric]]
    show ?thesis
    proof (cases "dispatch_method env di1 tool")
      case None
      then show ?thesis using run r by auto
    next
      case (Some f)
      obtain x w1 where x: "call_method f args w = (x, w1)" by fastforce
      have w1: "w1 = w \<or> (\<exists>d g. args = PDict d \<and> f = Some g \<and> w1 = snd (g d w))"
        using x by (auto simp: call_method_def split: option.splits pyval.splits)
      have out: "di' = di1" "w' = w1"
        using run Some x by (auto split: sum.splits option.splits)
      have answer: "case answer of ToolResult y \<Rightarrow> validate_ocsf_claims (re_manifests env) tool y = None
          | PolicyRefusal v \<Rightarrow> False | _ \<Rightarrow> True"
        using run Some x by (auto simp: answer_of_exn_def split: sum.splits option.splits tool_exn.splits)
      obtain s c where cap: "find_capability tool (re_manifests env) = Some (s, c)" using declared[OF ok] by blast
      have first: "w' = w \<or> (verdict_allowed v \<and> (\<exists>d g. decode_arguments env arguments = Inr (PDict d) \<and>
          dispatch_method env di' tool = Some (Some g) \<and> w' = snd (g d w)))"
        using w1 out Some ok args by blast
      have second: "case answer of
          ToolResult y \<Rightarrow> (case find_capability tool (re_manifests env) of None \<Rightarrow> False
            | Some (s, c) \<Rightarrow> cap_ocsf_emits c = [] \<or> set (result_claims y) \<subseteq> set (cap_ocsf_emits c))
        | PolicyRefusal u \<Rightarrow> u = v \<and> w' = w | _ \<Rightarrow> True"
        using answer claims[OF _ cap] by (simp add: cap split: router_answer.splits)
      show ?thesis using first second by (simp only: r prod.case v_def)
    qed
  qed
qed

section \<open>The egress filter\<close>

lemma some_text_iff:
  "(case x of None \<Rightarrow> False | Some (PStr s) \<Rightarrow> P s | Some _ \<Rightarrow> False) \<longleftrightarrow> (\<exists>s. x = Some (PStr s) \<and> P s)"
  by (cases x) (simp_all split: pyval.split)

lemma is_red_tagged_dict:
  "is_red_tagged (PDict d) \<longleftrightarrow> (\<exists>k \<in> set tlp_field_names. \<exists>s. get_str d k = Some (PStr s) \<and> lower s = ''red'')"
  unfolding is_red_tagged_def pyval.case some_text_iff tlp_field_names_def list_ex_iff by (rule refl)

lemma is_red_tagged_shared: "is_red_tagged v = red_tagged v"
proof (cases v)
  case (PDict d)
  then show ?thesis
    by (simp only: is_red_tagged_dict red_tagged_iff) blast
qed (simp_all add: is_red_tagged_def)

lemma placeholder_clean: "at_depth redacted_placeholder n w \<Longrightarrow> \<not> red_tagged w"
proof (cases n)
  case 0
  assume "at_depth redacted_placeholder n w"
  then show ?thesis
    using 0 by (simp add: redacted_placeholder_def is_red_tagged_shared[symmetric] is_red_tagged_def)
next
  case (Suc m)
  assume "at_depth redacted_placeholder n w"
  then have "w = PBool True \<or> (\<exists>s. w = PStr s)"
    using Suc by (cases m) (auto simp: redacted_placeholder_def at_depth_Suc_iff)
  then show ?thesis by auto
qed

lemma strip_children:
  "children (fst (strip_red_items (PDict d))) =
     map (\<lambda>(k, v). if is_red_tagged v then redacted_placeholder else fst (strip_red_items v)) d"
  "children (fst (strip_red_items (PList xs))) = map (\<lambda>v. fst (strip_red_items v)) (filter (\<lambda>v. \<not> is_red_tagged v) xs)"
proof -
  show "children (fst (strip_red_items (PDict d))) =
     map (\<lambda>(k, v). if is_red_tagged v then redacted_placeholder else fst (strip_red_items v)) d"
    by (auto simp: Let_def split: prod.splits)
  show "children (fst (strip_red_items (PList xs))) = map (\<lambda>v. fst (strip_red_items v)) (filter (\<lambda>v. \<not> is_red_tagged v) xs)"
    by (induction xs) (auto simp: Let_def List.map_filter_simps split: prod.splits)
qed

definition stripped :: "pyval \<Rightarrow> pyval" where
  "stripped v = (if is_red_tagged v then redacted_placeholder else fst (strip_red_items v))"

lemma strip_dict: "fst (strip_red_items (PDict d)) = PDict (map (\<lambda>(k, v). (k, stripped v)) d)"
  by (auto simp: Let_def stripped_def split: prod.splits)

lemma stripped_is_str: "stripped v = PStr s \<longleftrightarrow> v = PStr s"
  by (cases v) (auto simp: stripped_def is_red_tagged_def redacted_placeholder_def Let_def)

lemma strip_root: "is_red_tagged (fst (strip_red_items v)) = is_red_tagged v"
proof (cases v)
  case (PDict d)
  have "get_str (map (\<lambda>(k, v). (k, stripped v)) d) key = map_option stripped (get_str d key)" for key
    by (simp add: get_str_def map_of_map)
  then show ?thesis
    unfolding PDict strip_dict is_red_tagged_dict by (simp add: stripped_is_str)
qed (simp_all add: is_red_tagged_def Let_def)

text \<open>Below the root nothing tagged is left, as long as the value has no tuples, as decoded JSON has none.\<close>

definition has_tuple :: "pyval \<Rightarrow> bool" where
  "has_tuple v = (\<exists>n xs. at_depth v n (PTuple xs))"

lemma has_tuple_child: "c \<in> set (children v) \<Longrightarrow> has_tuple c \<Longrightarrow> has_tuple v"
  unfolding has_tuple_def using at_depth.below by blast

lemma stripped_children:
  "\<not> has_tuple v \<Longrightarrow> c \<in> set (children (fst (strip_red_items v))) \<Longrightarrow>
     c = redacted_placeholder \<or> (\<exists>x \<in> set (children v). \<not> is_red_tagged x \<and> c = fst (strip_red_items x))"
proof (cases v)
  case (PTuple xs)
  assume "\<not> has_tuple v"
  then show ?thesis using PTuple at_depth.here[of v] unfolding has_tuple_def by blast
next
  case (PList xs)
  assume "c \<in> set (children (fst (strip_red_items v)))"
  then show ?thesis using PList by (auto simp: strip_children simp del: strip_red_items.simps)
next
  case (PDict d)
  assume "c \<in> set (children (fst (strip_red_items v)))"
  then show ?thesis
    using PDict by (auto simp: strip_children simp del: strip_red_items.simps split: if_splits) (metis image_eqI snd_conv)
qed auto

lemma strip_no_red:
  "\<not> has_tuple v \<Longrightarrow> at_depth (fst (strip_red_items v)) (Suc n) w \<Longrightarrow> \<not> red_tagged w"
proof (induction "size v" arbitrary: v n w rule: less_induct)
  case less
  from less.prems(2) obtain c where c: "c \<in> set (children (fst (strip_red_items v)))" "at_depth c n w"
    by (auto simp: at_depth_Suc_iff)
  from stripped_children[OF less.prems(1) c(1)] show ?case
  proof
    assume "c = redacted_placeholder"
    then show ?thesis using c(2) placeholder_clean by blast
  next
    assume "\<exists>x \<in> set (children v). \<not> is_red_tagged x \<and> c = fst (strip_red_items x)"
    then obtain x where x: "x \<in> set (children v)" "\<not> is_red_tagged x" "c = fst (strip_red_items x)" by blast
    have small: "size x < size v" "\<not> has_tuple x" using x(1) children_size less.prems(1) has_tuple_child by blast+
    show ?thesis
    proof (cases n)
      case 0
      then show ?thesis using c(2) x strip_root[of x] is_red_tagged_shared by auto
    next
      case (Suc m)
      then show ?thesis using less.hyps[OF small(1) small(2), of m w] c(2) x(3) by simp
    qed
  qed
qed

lemma get_str_append: "get_str (d @ [(PStr k', v)]) k = (case get_str d k of None \<Rightarrow> if k = k' then Some v else None | Some u \<Rightarrow> Some u)"
  by (auto simp: get_str_def map_add_def split: option.splits)

lemma count_stripped_clean:
  assumes "\<And>n w. at_depth v n w \<Longrightarrow> \<not> red_tagged w" and "at_depth (count_stripped (v, k)) n w"
  shows "\<not> red_tagged w"
proof -
  have root: "\<not> is_red_tagged v" using assms(1)[of 0 v] at_depth.here[of v] by (simp add: is_red_tagged_shared)
  show ?thesis
  proof (cases "\<exists>d. v = PDict d \<and> k \<noteq> 0 \<and> get_str d ''_tlp_stripped_count'' = None")
    case True
    then obtain d where d: "v = PDict d" "count_stripped (v, k) = PDict (d @ [(PStr ''_tlp_stripped_count'', PInt (int k))])"
      by (auto simp: count_stripped_def)
    show ?thesis
    proof (cases n)
      case 0
      have "\<not> is_red_tagged (PDict (d @ [(PStr ''_tlp_stripped_count'', PInt (int k))]))"
        using root unfolding d(1) is_red_tagged_dict get_str_append
        by (auto simp: tlp_field_names_def split: option.splits)
      then show ?thesis using assms(2) d 0 by (simp add: is_red_tagged_shared)
    next
      case (Suc m)
      then obtain c where c: "c \<in> set (map snd d) \<or> c = PInt (int k)" "at_depth c m w"
        using assms(2) d(2) by (auto simp: at_depth_Suc_iff)
      then show ?thesis
      proof (cases "c = PInt (int k)")
        case True
        then have "w = PInt (int k)" using c(2) by (cases m) (auto simp: at_depth_Suc_iff)
        then show ?thesis by simp
      next
        case False
        then have "at_depth v (Suc m) w" using c d(1) by (intro at_depth.below[of c]) auto
        then show ?thesis using assms(1) by blast
      qed
    qed
  next
    case False
    then have "count_stripped (v, k) = v" by (auto simp: count_stripped_def split: pyval.splits)
    then show ?thesis using assms by auto
  qed
qed

definition cleaned_return :: "pyval \<Rightarrow> pyval" where
  "cleaned_return result = count_stripped (strip_red_items result)"

lemma cleaned_return_clean:
  assumes "\<not> has_tuple v" and "\<not> is_red_tagged v" and "at_depth (cleaned_return v) n w"
  shows "\<not> red_tagged w"
proof -
  have "\<not> red_tagged u" if "at_depth (fst (strip_red_items v)) m u" for m u
    using that strip_no_red[OF assms(1)] assms(2) strip_root[of v] by (cases m) (auto simp: is_red_tagged_shared)
  then show ?thesis
    using count_stripped_clean[of "fst (strip_red_items v)" "snd (strip_red_items v)" n w] assms(3)
    by (simp add: cleaned_return_def)
qed

lemma enforce_cases:
  "enforce_tlp_on_return server t now result sink = (r, sink') \<Longrightarrow>
     (case r of
        Inr v \<Rightarrow> v = cleaned_return result \<and> \<not> is_red_tagged result \<and> resolve_classification (tlp_context t) \<noteq> RED \<and>
          \<not> scan_payload_for_red v
      | Inl e \<Rightarrow> (\<exists>ch. e = TLPViolation RED ch) \<and>
          (is_red_tagged result \<or> resolve_classification (tlp_context t) = RED \<or> scan_payload_for_red (cleaned_return result)))"
  by (auto simp: enforce_tlp_on_return_def assert_tlp_allows_egress_def valid_egress_kinds_def cleaned_return_def Let_def
      split: if_splits)

text \<open>What a tool returns crosses the egress filter. A return that gets through is the tool's own result
  with its TLP:RED parts taken out: no mapping at any level of it is tagged RED, it is nested at most
  64 levels deep, and the investigation is not RED. A refusal is a TLP:RED violation, and it has a
  reason: the envelope itself is RED, the investigation is, the result is too deep, or it holds
  tuples, which decoded JSON does not.\<close>

theorem mcp_return_filtered:
  "case fst (enforce_tlp_on_return server t now result sink) of
     Inr v \<Rightarrow> v = cleaned_return result \<and> depth v \<le> max_scan_depth \<and> (\<nexists>n w. at_depth v n w \<and> red_tagged w) \<and>
       resolve_classification (tlp_context t) \<noteq> RED \<and> is_red_tagged result = False
   | Inl e \<Rightarrow> (\<exists>channel. e = TLPViolation RED channel) \<and>
       (is_red_tagged result \<or> resolve_classification (tlp_context t) = RED \<or>
        max_scan_depth < depth (cleaned_return result) \<or> has_tuple result)"
proof -
  obtain r sink' where run: "enforce_tlp_on_return server t now result sink = (r, sink')" by fastforce
  note cases = enforce_cases[OF run]
  have "has_tuple result \<or> is_red_tagged result" if "\<exists>n w. at_depth (cleaned_return result) n w \<and> red_tagged w"
    using that cleaned_return_clean by blast
  then show ?thesis
    using cases unfolding run fst_conv by (auto simp: scan_payload_iff not_le split: sum.splits)
qed

section \<open>Retries\<close>

definition tool_effect :: "('w \<Rightarrow> (tool_exn, pyval) res \<times> 'w) \<Rightarrow> 'w \<Rightarrow> 'w" where
  "tool_effect call w = snd (call w)"

definition filtered :: "adapter \<Rightarrow> pyval \<Rightarrow> bool" where
  "filtered a v = (\<not> scan_payload_for_red v \<and> resolve_classification (tlp_context (ad_tlp a)) \<noteq> RED)"

lemma one_attempt_effect:
  "one_attempt a clk call attempt s = (r, s') \<Longrightarrow>
     xs_slept s' = xs_slept s \<and> (\<exists>k \<le> 1. xs_world s' = (tool_effect call ^^ k) (xs_world s)) \<and>
     (case r of Returned v \<Rightarrow> filtered a v | _ \<Rightarrow> True)"
proof -
  assume run: "one_attempt a clk call attempt s = (r, s')"
  obtain x p where x: "check_circuit a (ac_check clk attempt) (xs_pool s) = (x, p)" by fastforce
  obtain y w where y: "call (xs_world s) = (y, w)" by fastforce
  then have w: "w = (tool_effect call ^^ 1) (xs_world s)" by (simp add: tool_effect_def)
  show ?thesis
  proof (cases x)
    case (Inl e)
    then show ?thesis using run x by (auto simp: one_attempt_def intro: exI[of _ 0])
  next
    case (Inr u)
    note step = run[unfolded one_attempt_def x y Inr prod.case sum.case]
    have "xs_world s' = w \<and> xs_slept s' = xs_slept s \<and> (case r of Returned v \<Rightarrow> filtered a v | _ \<Rightarrow> True)"
    proof (cases y)
      case (Inl e)
      then show ?thesis using step by (cases e) auto
    next
      case (Inr result)
      obtain z sink where z: "enforce_tlp_on_return (ad_server a) (ad_tlp a) (ac_stamp clk attempt) result (xs_sink s) = (z, sink)"
        by fastforce
      show ?thesis
        using step enforce_cases[OF z] by (cases z) (auto simp: Inr z Let_def filtered_def)
    qed
    then show ?thesis using w by auto
  qed
qed

lemma attempts_bounded:
  "attempts a clk call left attempt e s = (r, s') \<Longrightarrow>
     (\<exists>k \<le> left. xs_world s' = (tool_effect call ^^ k) (xs_world s)) \<and>
     (\<exists>ds. xs_slept s' = xs_slept s @ ds \<and> length ds \<le> left - 1 \<and> list_all (\<lambda>d. d \<le> ad_backoff_max a) ds) \<and>
     (case r of Inr v \<Rightarrow> filtered a v | Inl _ \<Rightarrow> True)"
proof (induction left arbitrary: attempt e s)
  case 0
  then show ?case by (auto split: option.splits)
next
  case (Suc left)
  obtain x s1 where one: "one_attempt a clk call attempt s = (x, s1)" by fastforce
  obtain k where k: "k \<le> 1" "xs_world s1 = (tool_effect call ^^ k) (xs_world s)" and slept: "xs_slept s1 = xs_slept s"
    and returned: "case x of Returned v \<Rightarrow> filtered a v | _ \<Rightarrow> True"
    using one_attempt_effect[OF one] by blast
  have here: ?case if "r = Inl y" "s' = s1" for y
    using that k slept by (auto intro!: exI[of _ k])
  have later: ?case if rest: "attempts a clk call left (Suc attempt) e' (sleep_before_retry a left attempt s1) = (r, s')" for e'
  proof -
    let ?s2 = "sleep_before_retry a left attempt s1"
    obtain j ds where j: "j \<le> left" "xs_world s' = (tool_effect call ^^ j) (xs_world ?s2)"
      and ds: "xs_slept s' = xs_slept ?s2 @ ds" "length ds \<le> left - 1" "list_all (\<lambda>d. d \<le> ad_backoff_max a) ds"
      and ok: "case r of Inr v \<Rightarrow> filtered a v | Inl _ \<Rightarrow> True"
      using Suc.IH[OF rest] by blast
    have "xs_world s' = (tool_effect call ^^ (j + k)) (xs_world s)"
      using j(2) k(2) by (simp add: sleep_before_retry_def funpow_add)
    moreover have "j + k \<le> Suc left" using j(1) k(1) by simp
    moreover have "\<exists>ds. xs_slept s' = xs_slept s @ ds \<and> length ds \<le> Suc left - 1 \<and> list_all (\<lambda>d. d \<le> ad_backoff_max a) ds"
    proof (cases "left = 0")
      case True
      then show ?thesis using ds slept by (simp add: sleep_before_retry_def)
    next
      case False
      then show ?thesis
        using ds slept by (intro exI[of _ "backoff_delay a attempt # ds"]) (auto simp: sleep_before_retry_def backoff_delay_def)
    qed
    ultimately show ?thesis using ok by blast
  qed
  show ?case
  proof (cases x)
    case (Returned v)
    then show ?thesis using Suc.prems one k slept returned by (auto intro!: exI[of _ k])
  next
    case (Stopped y)
    then show ?thesis using Suc.prems one here[of y] by auto
  next
    case (Retry y)
    then show ?thesis using Suc.prems one later by simp
  next
    case (CircuitWait y)
    then show ?thesis using Suc.prems one here later by (cases "left = 0") auto
  qed
qed

text \<open>Retrying is bounded and never leaks. An execution calls its tool at most as often as the adapter's
  retries allow, sleeps at most once between two attempts and never longer than the cap, and a value
  it returns has passed the egress filter: nothing in it is tagged RED and the investigation is not
  RED.\<close>

theorem adapter_execute_bounded:
  "case adapter_execute a clk call s of (r, s') \<Rightarrow>
     (\<exists>k \<le> nat (ad_max_retries a). xs_world s' = (tool_effect call ^^ k) (xs_world s)) \<and>
     (\<exists>ds. xs_slept s' = xs_slept s @ ds \<and> length ds \<le> nat (ad_max_retries a) - 1 \<and>
        list_all (\<lambda>d. d \<le> ad_backoff_max a) ds) \<and>
     (case r of
        Inr v \<Rightarrow> (\<nexists>n w. at_depth v n w \<and> red_tagged w) \<and> resolve_classification (tlp_context (ad_tlp a)) \<noteq> RED
      | Inl _ \<Rightarrow> True)"
proof -
  obtain r s' where run: "adapter_execute a clk call s = (r, s')" by fastforce
  from attempts_bounded[OF run[unfolded adapter_execute_def]] show ?thesis
    unfolding run prod.case by (auto simp: filtered_def scan_payload_iff split: sum.splits)
qed

text \<open>A tool whose returns are all refused, on a server without a circuit.\<close>

lemma red_attempt:
  assumes "map_of (xs_pool s) (ad_server a) = None" and "call (xs_world s) = (Inr v, w)" and "is_red_tagged v"
  shows "one_attempt a clk call k s =
    (Retry (ReturnRefused (TLPViolation RED (''mcp:'' @ ad_server a))), s\<lparr>xs_world := w\<rparr>)"
  using assms
  by (simp add: one_attempt_def check_circuit_def enforce_tlp_on_return_def pool_record_success_def pool_record_failure_def
      on_connection_def Let_def)

lemma red_attempts:
  assumes red: "\<And>w. \<exists>v. fst (call w) = Inr v \<and> is_red_tagged v"
  shows "map_of (xs_pool s) (ad_server a) = None \<Longrightarrow>
     fst (attempts a clk call (Suc left) k e s) = Inl (ReturnRefused (TLPViolation RED (''mcp:'' @ ad_server a))) \<and>
     xs_world (snd (attempts a clk call (Suc left) k e s)) = (tool_effect call ^^ Suc left) (xs_world s)"
proof (induction left arbitrary: k e s)
  case 0
  obtain v where v: "call (xs_world s) = (Inr v, snd (call (xs_world s)))" "is_red_tagged v"
    using red[of "xs_world s"] by (metis prod.collapse)
  show ?case using red_attempt[where call = call and clk = clk and k = k, OF 0 v] by (simp add: sleep_before_retry_def tool_effect_def)
next
  case (Suc left)
  obtain v where v: "call (xs_world s) = (Inr v, snd (call (xs_world s)))" "is_red_tagged v"
    using red[of "xs_world s"] by (metis prod.collapse)
  define s1 where "s1 = sleep_before_retry a (Suc left) k (s\<lparr>xs_world := snd (call (xs_world s))\<rparr>)"
  have s1: "map_of (xs_pool s1) (ad_server a) = None" "xs_world s1 = tool_effect call (xs_world s)"
    using Suc.prems by (simp_all add: s1_def sleep_before_retry_def tool_effect_def)
  have "attempts a clk call (Suc (Suc left)) k e s =
      attempts a clk call (Suc left) (Suc k) (Some (ReturnRefused (TLPViolation RED (''mcp:'' @ ad_server a)))) s1"
    unfolding attempts.simps(2)[of a clk call "Suc left"] red_attempt[where call = call and clk = clk and k = k, OF Suc.prems v] by (simp add: s1_def)
  then show ?case
    using Suc.IH[OF s1(1)] s1(2) by (simp add: funpow_swap1)
qed

text \<open>A refused return repeats the call. The egress violation is raised inside the block that retries,
  so a tool that did its work and answered with a RED envelope is run again, as often as the adapter
  retries, before the violation comes out: a host isolation is sent three times with the default
  adapter.\<close>

theorem refused_return_repeats_call:
  assumes "\<And>w. \<exists>v. fst (call w) = Inr v \<and> is_red_tagged v"
    and "map_of (xs_pool s) (ad_server a) = None" and "0 < ad_max_retries a"
  shows "fst (adapter_execute a clk call s) = Inl (ReturnRefused (TLPViolation RED (''mcp:'' @ ad_server a))) \<and>
    xs_world (snd (adapter_execute a clk call s)) = (tool_effect call ^^ nat (ad_max_retries a)) (xs_world s)"
proof -
  obtain n where "nat (ad_max_retries a) = Suc n" using assms(3) by (metis nat_0_iff not0_implies_Suc not_le)
  then show ?thesis using red_attempts[of call s a clk n 1 None] assms(1,2) by (simp add: adapter_execute_def)
qed

lemma refused_return_repeats_call_witness:
  "let isolate = (\<lambda>w. (Inr (PDict [(PStr ''tlp'', PStr ''red'')]), w @ [''isolate WS-7'']));
       s = \<lparr> xs_pool = [], xs_world = [], xs_sink = \<lparr> violation_sink = None, sink_calls = [], sink_errors = 0 \<rparr>, xs_slept = [] \<rparr>;
       r = adapter_execute (default_adapter ''crowdstrike'') clk isolate s
   in fst r = Inl (ReturnRefused (TLPViolation RED ''mcp:crowdstrike'')) \<and>
      xs_world (snd r) = [''isolate WS-7'', ''isolate WS-7'', ''isolate WS-7'']"
proof -
  define isolate :: "string list \<Rightarrow> (tool_exn, pyval) res \<times> string list" where
    "isolate = (\<lambda>w. (Inr (PDict [(PStr ''tlp'', PStr ''red'')]), w @ [''isolate WS-7'']))"
  define s :: "string list exec_state" where "s = \<lparr> xs_pool = [], xs_world = [], xs_sink = \<lparr> violation_sink = None, sink_calls = [], sink_errors = 0 \<rparr>, xs_slept = [] \<rparr>"
  have "(tool_effect isolate ^^ 3) [] = [''isolate WS-7'', ''isolate WS-7'', ''isolate WS-7'']"
    by (simp add: numeral_3_eq_3 tool_effect_def isolate_def)
  moreover have "is_red_tagged (PDict [(PStr ''tlp'', PStr ''red'')])"
    by (simp add: is_red_tagged_dict tlp_field_names_def lower_char_def)
  ultimately show ?thesis
    using refused_return_repeats_call[of isolate s "default_adapter ''crowdstrike''" clk]
    unfolding Let_def isolate_def[symmetric] s_def[symmetric]
    by (simp add: default_adapter_def isolate_def[THEN fun_cong] s_def)
qed

end
