(* ===== verification/HuntTriage.thy ===== *)
theory HuntTriage
  imports PyRuntime "HOL-Library.List_Lexorder" "HOL-Library.Multiset"
begin

text \<open>
  Hunt findings and the pure triage logic (shared/btagent_shared/types/hunt.py,
  types/hunt_finding.py, hunt/triage.py): findings and the validation of a recorded payload,
  clustering by signature, the match of a suppression rule, and the guard against over-broad
  rules.  Titles are lists of code points, since some hold an arrow.  Descriptions are left out;
  their limit of 8192 characters is not reached when the title and the entities are valid.
\<close>

section \<open>Vocabulary\<close>

datatype severity = CRITICAL | HIGH | MEDIUM | LOW | INFO

fun severity_value :: "severity \<Rightarrow> string" where
  "severity_value CRITICAL = ''critical''"
| "severity_value HIGH = ''high''"
| "severity_value MEDIUM = ''medium''"
| "severity_value LOW = ''low''"
| "severity_value INFO = ''info''"

fun severity_rank :: "severity \<Rightarrow> nat" where
  "severity_rank INFO = 0"
| "severity_rank LOW = 1"
| "severity_rank MEDIUM = 2"
| "severity_rank HIGH = 3"
| "severity_rank CRITICAL = 4"

datatype hunt_domain = D_SIGMA | D_BEHAVIORAL | D_IDENTITY | D_CLOUD | D_CROSS_INVESTIGATION | D_AGENTIC
  | D_EMAIL | D_DECEPTION | D_NDR

fun domain_value :: "hunt_domain \<Rightarrow> string" where
  "domain_value D_SIGMA = ''sigma''"
| "domain_value D_BEHAVIORAL = ''behavioral''"
| "domain_value D_IDENTITY = ''identity''"
| "domain_value D_CLOUD = ''cloud''"
| "domain_value D_CROSS_INVESTIGATION = ''cross_investigation''"
| "domain_value D_AGENTIC = ''agentic''"
| "domain_value D_EMAIL = ''email''"
| "domain_value D_DECEPTION = ''deception''"
| "domain_value D_NDR = ''ndr''"

datatype hunt_source = S_HUNT_PACK | S_BEHAVIORAL | S_IDENTITY | S_CLOUD | S_CROSS_INVESTIGATION | S_AGENTIC
  | S_EMAIL_SECURITY | S_DECEPTION | S_NDR | S_MANUAL

datatype finding_state = F_NEW | F_CLUSTERED | F_TRIAGED | F_SUPPRESSED | F_PROMOTED | F_DISMISSED

datatype suppression_state = R_ACTIVE | R_NEEDS_RECONFIRM | R_EXPIRED | R_REVOKED

section \<open>Findings\<close>

type_synonym title_text = "nat list"
type_synonym evidence = "(pyval \<times> pyval) list"

definition codes :: "string \<Rightarrow> title_text" where
  "codes s = map of_char s"

record hunt_entity =
  en_kind :: string
  en_value :: string

record hunt_observable =
  ob_type :: string
  ob_value :: string

record record_finding_request =
  fp_source :: hunt_source
  fp_domain :: hunt_domain
  fp_title :: title_text
  fp_severity :: severity
  fp_confidence :: pyfloat
  fp_technique_ids :: "string list"
  fp_entities :: "hunt_entity list"
  fp_observables :: "hunt_observable list"
  fp_evidence :: evidence

record hunt_finding = record_finding_request +
  hf_id :: string
  hf_org_id :: string
  hf_state :: finding_state
  hf_cluster_id :: "string option"
  hf_suppressed_by :: "string option"
  hf_investigation_id :: "string option"
  hf_created_at :: int
  hf_signature :: string

text \<open>
  The exceptions of code that builds findings: a pydantic ValidationError, an attribute missing
  on a value of another type than expected, or an exception of an operation on values.
\<close>

datatype sweep_exn = ValidationError | AttributeErr | PyRaised py_exn

definition within :: "nat \<Rightarrow> nat \<Rightarrow> 'a list \<Rightarrow> bool" where
  "within lo hi xs = (lo \<le> length xs \<and> length xs \<le> hi)"

text \<open>
  \<^verbatim>\<open>HuntEntity(kind=k, value=v)\<close> and \<^verbatim>\<open>HuntObservable(type=t, value=v)\<close>; the value comes from
  data and need not be a string.
\<close>

definition make_entity :: "string \<Rightarrow> pyval \<Rightarrow> (sweep_exn, hunt_entity) res" where
  "make_entity k v = (case v of
     PStr s \<Rightarrow> if within 1 64 k \<and> within 1 512 s then Inr \<lparr>en_kind = k, en_value = s\<rparr> else Inl ValidationError
   | _ \<Rightarrow> Inl ValidationError)"

definition make_observable :: "string \<Rightarrow> pyval \<Rightarrow> (sweep_exn, hunt_observable) res" where
  "make_observable t v = (case v of
     PStr s \<Rightarrow> if within 1 64 t \<and> within 1 2048 s then Inr \<lparr>ob_type = t, ob_value = s\<rparr> else Inl ValidationError
   | _ \<Rightarrow> Inl ValidationError)"

definition make_request :: "record_finding_request \<Rightarrow> (sweep_exn, record_finding_request) res" where
  "make_request q =
     (if within 1 300 (fp_title q) \<and> \<not> fless (fp_confidence q) (Fin 0 0) \<and> \<not> fless (Fin 1 0) (fp_confidence q)
        \<and> fp_confidence q \<noteq> NaN
      then Inr q else Inl ValidationError)"

section \<open>Clustering\<close>

definition entity_keys :: "('a) record_finding_request_scheme \<Rightarrow> string list" where
  "entity_keys f = sort (map (\<lambda>e. en_kind e @ '':'' @ en_value e) (fp_entities f))"

definition observable_keys :: "('a) record_finding_request_scheme \<Rightarrow> string list" where
  "observable_keys f = sort (map (\<lambda>e. ob_type e @ '':'' @ ob_value e) (fp_observables f))"

definition sorted_unique :: "string list \<Rightarrow> string list" where
  "sorted_unique xs = sort (remdups xs)"

definition finding_signature :: "('a) record_finding_request_scheme \<Rightarrow> string" where
  "finding_signature f =
     (let techniques = join_text '','' (sort (fp_technique_ids f));
          entity_kinds = join_text '','' (sorted_unique (map en_kind (fp_entities f)));
          observable_types = join_text '','' (sorted_unique (map ob_type (fp_observables f)))
      in domain_value (fp_domain f) @ ''|'' @ techniques @ ''|'' @ entity_kinds @ ''|'' @ observable_types)"

definition max_severity :: "('a) record_finding_request_scheme list \<Rightarrow> severity" where
  "max_severity fs = (case fs of
     [] \<Rightarrow> INFO
   | f # rest \<Rightarrow> foldl (\<lambda>s g. if severity_rank s < severity_rank (fp_severity g) then fp_severity g else s)
                  (fp_severity f) rest)"

definition union_techniques :: "('a) record_finding_request_scheme list \<Rightarrow> string list" where
  "union_techniques fs = sorted_unique (concat (map fp_technique_ids fs))"

definition bucket_add ::
  "('k \<times> 'a list) list \<Rightarrow> 'k \<Rightarrow> 'a \<Rightarrow> ('k \<times> 'a list) list" where
  "bucket_add d k f = dict_put k ((case map_of d k of None \<Rightarrow> [] | Some fs \<Rightarrow> fs) @ [f]) d"

definition group_into_clusters ::
  "('a) record_finding_request_scheme list \<Rightarrow> (string \<times> ('a) record_finding_request_scheme list) list" where
  "group_into_clusters fs = foldl (\<lambda>d f. bucket_add d (finding_signature f) f) [] fs"

definition cluster_reduction :: "('a) record_finding_request_scheme list \<Rightarrow> pyfloat option" where
  "cluster_reduction fs =
     (if fs = [] then Some (Fin 0 0)
      else map_option (fsub (Fin 1 0))
             (int_truediv (int (length (group_into_clusters fs))) (int (length fs))))"

section \<open>Suppression rules\<close>

record suppression_match =
  sm_source :: "hunt_source option"
  sm_domain :: "hunt_domain option"
  sm_technique_ids :: "string list"
  sm_entity_values :: "string list"
  sm_observable_values :: "string list"
  sm_rule_ids :: "string list"

definition empty_match :: suppression_match where
  "empty_match = \<lparr>sm_source = None, sm_domain = None, sm_technique_ids = [], sm_entity_values = [],
     sm_observable_values = [], sm_rule_ids = []\<rparr>"

definition match_for_cluster :: "('a) record_finding_request_scheme list \<Rightarrow> suppression_match" where
  "match_for_cluster fs =
     (if fs = [] then empty_match
      else empty_match\<lparr>sm_domain := Some (fp_domain (hd fs)), sm_technique_ids := union_techniques fs\<rparr>)"

text \<open>A criterion that is a list holds when it is empty or overlaps the values of the finding.\<close>

definition overlaps :: "string list \<Rightarrow> string list \<Rightarrow> bool" where
  "overlaps wanted have = (wanted = [] \<or> list_ex (\<lambda>x. x \<in> set have) wanted)"

definition suppression_matches :: "suppression_match \<Rightarrow> ('a) record_finding_request_scheme \<Rightarrow> bool" where
  "suppression_matches m f =
     ((sm_source m = None \<or> sm_source m = Some (fp_source f)) \<and>
      (sm_domain m = None \<or> sm_domain m = Some (fp_domain f)) \<and>
      overlaps (sm_technique_ids m) (fp_technique_ids f) \<and>
      overlaps (sm_entity_values m) (map en_value (fp_entities f)) \<and>
      overlaps (sm_observable_values m) (map ob_value (fp_observables f)) \<and>
      (sm_rule_ids m = [] \<or>
       (case get_str (fp_evidence f) ''rule_id'' of Some (PStr r) \<Rightarrow> r \<in> set (sm_rule_ids m) | _ \<Rightarrow> False)))"

definition harmful_suppressions ::
  "suppression_match list \<Rightarrow> string list \<Rightarrow> ('a) record_finding_request_scheme list \<Rightarrow> string list" where
  "harmful_suppressions rules rule_ids promoted =
     sort (map fst (filter (\<lambda>(i, m). list_ex (suppression_matches m) promoted) (zip rule_ids rules)))"

datatype overbroad_reason = NoCriteria | MatchesFraction pyfloat | SpansTechniques nat

definition has_any_criterion :: "suppression_match \<Rightarrow> bool" where
  "has_any_criterion m =
     (sm_source m \<noteq> None \<or> sm_domain m \<noteq> None \<or> sm_technique_ids m \<noteq> [] \<or> sm_entity_values m \<noteq> [] \<or>
      sm_observable_values m \<noteq> [] \<or> sm_rule_ids m \<noteq> [])"

definition max_match_fraction :: pyfloat where
  "max_match_fraction = round_ratio 5 10"

definition max_distinct_techniques :: nat where
  "max_distinct_techniques = 5"

text \<open>The pair of the flag and the reason: a reason exactly when the flag is set.\<close>

definition is_overbroad :: "suppression_match \<Rightarrow> ('a) record_finding_request_scheme list \<Rightarrow> overbroad_reason option" where
  "is_overbroad m sample =
     (if \<not> has_any_criterion m then Some NoCriteria
      else if sample = [] then None
      else let matched = filter (suppression_matches m) sample in
        case int_truediv (int (length matched)) (int (length sample)) of
          None \<Rightarrow> None
        | Some fraction \<Rightarrow>
            if fless max_match_fraction fraction then Some (MatchesFraction fraction)
            else let n = length (union_techniques matched) in
              if n > max_distinct_techniques then Some (SpansTechniques n) else None)"

end
