(* ===== verification/TrustGraph.thy ===== *)
theory TrustGraph
  imports PyRuntime "HOL-Library.Multiset"
begin

text \<open>
  The trust graph of the cloud hunter (shared/btagent_shared/hunt/cloud.py) and its two
  traversals.  A Python set is a distinct list in insertion order; Python iterates a set of
  strings in an arbitrary order, so the theorems speak about the sets of results.
\<close>

section \<open>The graph and its traversals\<close>

type_synonym graph = "(string \<times> string list) list"

definition adj :: "graph \<Rightarrow> string \<Rightarrow> string list" where
  "adj g k = (case map_of g k of None \<Rightarrow> [] | Some xs \<Rightarrow> xs)"

text \<open>\<^verbatim>\<open>d[k].add(x)\<close> on a dictionary of sets that makes missing sets.\<close>

definition add_edge :: "string \<Rightarrow> string \<Rightarrow> graph \<Rightarrow> graph" where
  "add_edge k x g = dict_put k (if x \<in> set (adj g k) then adj g k else adj g k @ [x]) g"

text \<open>The graph is built from pairs of a principal and the principals that can assume it.\<close>

definition add_node :: "graph \<Rightarrow> string \<times> string list \<Rightarrow> graph" where
  "add_node g node =
     (let g1 = (if fst node \<in> set (map fst g) then g else g @ [(fst node, [])])
      in foldl (\<lambda>h trustee. add_edge (fst node) trustee h) g1 (snd node))"

definition build_graph :: "(string \<times> string list) list \<Rightarrow> graph" where
  "build_graph nodes = foldl add_node [] nodes"

definition invert_graph :: "graph \<Rightarrow> graph" where
  "invert_graph g =
     foldl (\<lambda>r row. foldl (\<lambda>r' trustee. add_edge trustee (fst row) r') r (snd row)) [] g"

definition max_hop_depth :: nat where
  "max_hop_depth = 10"

text \<open>The queue of partial paths; a path is dropped once it has more than the allowed hops.\<close>

definition path_weight :: "nat \<Rightarrow> string list \<Rightarrow> nat" where
  "path_weight d p = Suc d - length p"

definition weights :: "('a \<Rightarrow> nat) \<Rightarrow> 'a list \<Rightarrow> nat multiset" where
  "weights w q = image_mset w (mset q)"

definition smaller :: "(nat multiset \<times> nat multiset) set" where
  "smaller = mult {(a, b). a < b}"

lemma wf_smaller: "wf smaller"
  unfolding smaller_def by (rule wf_mult) (simp add: wf_less)

lemma smaller_drop [simp]: "(weights w q, weights w (x # q)) \<in> smaller"
proof -
  have "(weights w q + {#}, weights w q + {# w x #}) \<in> mult {(a, b). a < b}"
    by (rule one_step_implies_mult) auto
  then show ?thesis by (simp add: smaller_def weights_def)
qed

lemma smaller_expand:
  assumes "\<And>y. y \<in> set ys \<Longrightarrow> w y < w x"
  shows "(weights w (q @ ys), weights w (x # q)) \<in> smaller"
proof -
  have "(weights w q + weights w ys, weights w q + {# w x #}) \<in> mult {(a, b). a < b}"
    by (rule one_step_implies_mult) (auto simp: weights_def assms)
  then show ?thesis by (simp add: smaller_def weights_def add.commute)
qed

function bfs_paths :: "graph \<Rightarrow> string \<Rightarrow> nat \<Rightarrow> string list list \<Rightarrow> string list list" where
  "bfs_paths r target d [] = []"
| "bfs_paths r target d (path # queue) =
     (if last path = target \<and> length path > 1 then path # bfs_paths r target d queue
      else if length path > d then bfs_paths r target d queue
      else bfs_paths r target d
             (queue @ map (\<lambda>n. path @ [n]) (filter (\<lambda>n. n \<notin> set path) (adj r (last path)))))"
  by pat_completeness auto
termination
  by (relation "inv_image smaller (\<lambda>(r, target, d, q). weights (path_weight d) q)")
     (auto simp: path_weight_def intro!: wf_inv_image wf_smaller smaller_expand)

definition find_assumption_paths :: "graph \<Rightarrow> string \<Rightarrow> string \<Rightarrow> nat \<Rightarrow> string list list" where
  "find_assumption_paths g source target d = bfs_paths (invert_graph g) target d [[source]]"

text \<open>The queue of nodes with their depth; a node is expanded at its first visit.\<close>

function bfs_nodes :: "graph \<Rightarrow> nat \<Rightarrow> string list \<Rightarrow> (string \<times> nat) list \<Rightarrow> string list" where
  "bfs_nodes r d visited [] = visited"
| "bfs_nodes r d visited ((node, k) # queue) =
     (if node \<in> set visited then bfs_nodes r d visited queue
      else if k \<ge> d then bfs_nodes r d (visited @ [node]) queue
      else bfs_nodes r d (visited @ [node])
             (queue @ map (\<lambda>n. (n, Suc k)) (filter (\<lambda>n. n \<notin> set (visited @ [node])) (adj r node))))"
  by pat_completeness auto
termination
  by (relation "inv_image smaller (\<lambda>(r, d, v, q). weights (\<lambda>(n, k). d - k) q)")
     (auto intro!: wf_inv_image wf_smaller smaller_expand)

definition transitive_reachable :: "graph \<Rightarrow> string \<Rightarrow> nat \<Rightarrow> string list" where
  "transitive_reachable g source d =
     filter (\<lambda>n. n \<noteq> source) (bfs_nodes (invert_graph g) d [] [(source, 0)])"

section \<open>Edges\<close>

lemma adj_dict_put [simp]: "adj (dict_put k v g) k' = (if k' = k then v else adj g k')"
  by (simp add: adj_def)

lemma adj_add_edge [simp]:
  "set (adj (add_edge k x g) k') = (if k' = k then insert x (set (adj g k)) else set (adj g k'))"
  by (auto simp: add_edge_def)

lemma distinct_adj_add_edge [simp]:
  "distinct (adj g k') \<Longrightarrow> distinct (adj g k) \<Longrightarrow> distinct (adj (add_edge k x g) k')"
  by (auto simp: add_edge_def)

lemma adj_Nil [simp]: "adj [] k = []"
  by (simp add: adj_def)

lemma keys_add_edge [simp]: "fst ` set (add_edge k x g) = insert k (fst ` set g)"
  unfolding add_edge_def dom_map_of_conv_image_fst [symmetric] by auto

lemma distinct_keys_add_edge [simp]: "distinct (map fst g) \<Longrightarrow> distinct (map fst (add_edge k x g))"
  by (simp add: add_edge_def)

lemma set_adj_foldl_edges:
  "set (adj (foldl (\<lambda>h t. add_edge k t h) g ts) k') = (if k' = k then set (adj g k) \<union> set ts else set (adj g k'))"
  by (induction ts arbitrary: g) auto

lemma keys_foldl_edges:
  "fst ` set (foldl (\<lambda>h t. add_edge k t h) g ts) = (if ts = [] then {} else {k}) \<union> fst ` set g"
  by (induction ts arbitrary: g) auto

lemma distinct_keys_foldl_edges:
  "distinct (map fst g) \<Longrightarrow> distinct (map fst (foldl (\<lambda>h t. add_edge k t h) g ts))"
  by (induction ts arbitrary: g) auto

lemma adj_snoc_new [simp]:
  "k \<notin> fst ` set g \<Longrightarrow> adj (g @ [(k, [])]) k' = adj g k'"
  by (auto simp: adj_def map_add_def dest: map_of_SomeD split: option.splits intro: rev_image_eqI)

lemma add_node_facts:
  "set (adj (add_node g node) k) = set (adj g k) \<union> (if k = fst node then set (snd node) else {})"
  "fst ` set (add_node g node) = insert (fst node) (fst ` set g)"
  "distinct (map fst g) \<Longrightarrow> distinct (map fst (add_node g node))"
  by (auto simp: add_node_def Let_def set_adj_foldl_edges keys_foldl_edges
      intro!: distinct_keys_foldl_edges split: if_splits)

lemma build_graph_facts:
  "set (adj (build_graph nodes) k) = {t. \<exists>ts. (k, ts) \<in> set nodes \<and> t \<in> set ts}"
  "fst ` set (build_graph nodes) = fst ` set nodes"
  "distinct (map fst (build_graph nodes))"
  by (induction nodes rule: rev_induct) (auto simp: build_graph_def add_node_facts)

lemma distinct_adj_foldl_edges:
  "(\<And>k. distinct (adj g k)) \<Longrightarrow> distinct (adj (foldl (\<lambda>h t. add_edge k t h) g ts) k')"
  by (induction ts arbitrary: g) auto

lemma distinct_adj_add_node:
  "(\<And>k. distinct (adj g k)) \<Longrightarrow> distinct (adj (add_node g node) k')"
  by (auto simp: add_node_def Let_def intro!: distinct_adj_foldl_edges)

lemma invert_row_facts:
  "set (adj (foldl (\<lambda>r' t. add_edge t k r') r ts) a) = set (adj r a) \<union> (if a \<in> set ts then {k} else {})"
  "(\<And>a. distinct (adj r a)) \<Longrightarrow> distinct (adj (foldl (\<lambda>r' t. add_edge t k r') r ts) a)"
  by (induction ts arbitrary: r) auto

lemma invert_graph_facts:
  "set (adj (invert_graph g) a) = {k. \<exists>ts. (k, ts) \<in> set g \<and> a \<in> set ts}"
  "distinct (adj (invert_graph g) a)"
proof -
  have "(\<forall>a. set (adj (invert_graph g) a) = {k. \<exists>ts. (k, ts) \<in> set g \<and> a \<in> set ts}) \<and> (\<forall>a. distinct (adj (invert_graph g) a))"
    by (induction g rule: rev_induct) (auto simp: invert_graph_def invert_row_facts)
  then show "set (adj (invert_graph g) a) = {k. \<exists>ts. (k, ts) \<in> set g \<and> a \<in> set ts}"
    and "distinct (adj (invert_graph g) a)" by simp_all
qed

text \<open>One hop: the second principal lists the first among those who can assume it.\<close>

definition can_assume :: "(string \<times> string list) list \<Rightarrow> string \<Rightarrow> string \<Rightarrow> bool" where
  "can_assume nodes a b = list_ex (\<lambda>(k, ts). k = b \<and> a \<in> set ts) nodes"

lemma row_iff:
  assumes "distinct (map fst g)"
  shows "(b, ts) \<in> set g \<longleftrightarrow> b \<in> fst ` set g \<and> ts = adj g b"
  using assms by (auto simp: adj_def intro: rev_image_eqI)

lemma hop_iff: "b \<in> set (adj (invert_graph (build_graph nodes)) a) \<longleftrightarrow> can_assume nodes a b"
proof -
  have "b \<in> set (adj (invert_graph (build_graph nodes)) a) \<longleftrightarrow> b \<in> fst ` set nodes \<and> a \<in> set (adj (build_graph nodes) b)"
    by (auto simp: invert_graph_facts(1) row_iff[OF build_graph_facts(3)] build_graph_facts(2))
  then show ?thesis
    by (auto simp: build_graph_facts(1) can_assume_def list_ex_iff intro: rev_image_eqI)
qed

section \<open>Simple chains\<close>

fun chain :: "graph \<Rightarrow> string list \<Rightarrow> bool" where
  "chain r [] = False"
| "chain r [a] = True"
| "chain r (a # b # p) = (b \<in> set (adj r a) \<and> chain r (b # p))"

lemma chain_nonempty: "chain r p \<Longrightarrow> p \<noteq> []"
  by (cases p) auto

lemma chain_snoc: "p \<noteq> [] \<Longrightarrow> chain r (p @ [b]) \<longleftrightarrow> chain r p \<and> b \<in> set (adj r (last p))"
  by (induction r p rule: chain.induct) auto

lemma chain_append: "p \<noteq> [] \<Longrightarrow> chain r (p @ q) \<Longrightarrow> chain r p"
  by (induction q rule: rev_induct) (auto simp: chain_snoc simp flip: append_assoc)

text \<open>
  What a partial path of the queue still leads to: its extensions that stay simple, stop at the
  target and keep within the bound.
\<close>

definition completes :: "graph \<Rightarrow> string \<Rightarrow> nat \<Rightarrow> string list \<Rightarrow> string list \<Rightarrow> bool" where
  "completes r target d p w \<longleftrightarrow> (\<exists>q. w = p @ q) \<and> chain r w \<and> distinct w \<and> last w = target \<and>
     2 \<le> length w \<and> length w \<le> Suc d"

definition partial_ok :: "graph \<Rightarrow> nat \<Rightarrow> string list \<Rightarrow> bool" where
  "partial_ok r d p \<longleftrightarrow> chain r p \<and> distinct p \<and> length p \<le> Suc d"

lemma completes_at_target:
  assumes "partial_ok r d p" "last p = target" "1 < length p"
  shows "completes r target d p w \<longleftrightarrow> w = p"
proof
  assume c: "completes r target d p w"
  then obtain q where q: "w = p @ q" by (auto simp: completes_def)
  have "q = []"
  proof (rule ccontr)
    assume "q \<noteq> []"
    then have "last q = target" using c q by (simp add: completes_def)
    moreover have "target \<in> set p" using assms by (cases p rule: rev_cases) auto
    moreover have "last q \<in> set q" using \<open>q \<noteq> []\<close> by simp
    ultimately show False using c q by (auto simp: completes_def)
  qed
  then show "w = p" using q by simp
qed (use assms in \<open>auto simp: completes_def partial_ok_def\<close>)

lemma completes_step:
  assumes "partial_ok r d p" "\<not> (last p = target \<and> 1 < length p)"
  shows "completes r target d p w \<longleftrightarrow>
    (\<exists>n \<in> set (adj r (last p)) - set p. completes r target d (p @ [n]) w)"
proof
  assume c: "completes r target d p w"
  then obtain q where q: "w = p @ q" by (auto simp: completes_def)
  have "q \<noteq> []" using c q assms by (auto simp: completes_def)
  then obtain n q' where nq: "q = n # q'" by (cases q) auto
  have "chain r (p @ [n])"
    using c q nq chain_append[of "p @ [n]" r q'] by (simp add: completes_def)
  then have "n \<in> set (adj r (last p)) - set p"
    using c q nq assms by (auto simp: completes_def partial_ok_def chain_snoc chain_nonempty)
  moreover have "completes r target d (p @ [n]) w" using c q nq by (simp add: completes_def)
  ultimately show "\<exists>n \<in> set (adj r (last p)) - set p. completes r target d (p @ [n]) w" by blast
qed (auto simp: completes_def)

lemma partial_ok_step:
  assumes "partial_ok r d p" "length p \<le> d" "n \<in> set (adj r (last p))" "n \<notin> set p"
  shows "partial_ok r d (p @ [n])"
  using assms by (auto simp: partial_ok_def chain_snoc chain_nonempty)

lemma completes_too_long:
  assumes "\<not> (last p = target \<and> 1 < length p)" "d < length p"
  shows "\<not> completes r target d p w"
proof
  assume c: "completes r target d p w"
  then obtain q where "w = p @ q" by (auto simp: completes_def)
  moreover have "q = []" using c calculation assms(2) by (cases q) (auto simp: completes_def)
  ultimately show False using c assms(1) by (auto simp: completes_def)
qed

lemma bfs_paths_set:
  assumes "\<forall>p \<in> set q. partial_ok r d p"
  shows "set (bfs_paths r target d q) = {w. \<exists>p \<in> set q. completes r target d p w}"
  using assms
proof (induction r target d q rule: bfs_paths.induct)
  case (2 r target d path queue)
  have ok: "partial_ok r d path" "\<forall>p \<in> set queue. partial_ok r d p" using "2.prems" by auto
  show ?case
  proof (cases "last path = target \<and> 1 < length path")
    case True
    then show ?thesis using "2.IH"(1) ok by (auto simp: completes_at_target)
  next
    case not_done: False
    show ?thesis
    proof (cases "d < length path")
      case True
      then show ?thesis using "2.IH"(2) ok not_done by (auto simp: completes_too_long)
    next
      case False
      let ?new = "map (\<lambda>n. path @ [n]) (filter (\<lambda>n. n \<notin> set path) (adj r (last path)))"
      have "\<forall>p \<in> set (queue @ ?new). partial_ok r d p"
        using ok False by (auto intro: partial_ok_step)
      then have "set (bfs_paths r target d (queue @ ?new)) = {w. \<exists>p \<in> set (queue @ ?new). completes r target d p w}"
        using "2.IH"(3) not_done False by blast
      then show ?thesis using not_done False by (auto simp: completes_step[OF ok(1)])
    qed
  qed
qed simp

text \<open>Partial paths no one of which continues another lead to different chains.\<close>

definition apart :: "string list \<Rightarrow> string list \<Rightarrow> bool" where
  "apart p p' \<longleftrightarrow> (\<forall>a b. p @ a \<noteq> p' @ b)"

lemma apart_sym: "apart p p' \<Longrightarrow> apart p' p"
  by (auto simp: apart_def dest: sym)

lemma apart_extend: "apart p p' \<Longrightarrow> apart p (p' @ [n])"
  by (auto simp: apart_def)

lemma apart_children:
  "distinct ns \<Longrightarrow> sorted_wrt apart (map (\<lambda>n. path @ [n]) ns)"
  by (induction ns) (auto simp: apart_def)

lemma bfs_paths_distinct:
  assumes "\<forall>p \<in> set q. partial_ok r d p" "sorted_wrt apart q" "\<And>k. distinct (adj r k)"
  shows "distinct (bfs_paths r target d q)"
  using assms
proof (induction r target d q rule: bfs_paths.induct)
  case (2 r target d path queue)
  have ok: "\<forall>p \<in> set queue. partial_ok r d p" "sorted_wrt apart queue" using "2.prems" by auto
  let ?ns = "filter (\<lambda>n. n \<notin> set path) (adj r (last path))"
  show ?case
  proof (cases "last path = target \<and> 1 < length path")
    case True
    have "path \<notin> set (bfs_paths r target d queue)"
      using "2.prems"(2) by (auto simp: bfs_paths_set[OF ok(1)] completes_def apart_def)
    then show ?thesis using "2.IH"(1) True ok "2.prems"(3) by simp
  next
    case not_done: False
    show ?thesis
    proof (cases "d < length path")
      case True
      then show ?thesis using "2.IH"(2) ok not_done "2.prems"(3) by auto
    next
      case False
      let ?new = "map (\<lambda>n. path @ [n]) ?ns"
      have "sorted_wrt apart (queue @ ?new)"
        using "2.prems" apart_children[of ?ns path]
        by (auto simp: sorted_wrt_append intro!: apart_extend[OF apart_sym])
      moreover have "\<forall>p \<in> set (queue @ ?new). partial_ok r d p"
        using "2.prems"(1) False by (auto intro: partial_ok_step)
      ultimately have "distinct (bfs_paths r target d (queue @ ?new))"
        using "2.IH"(3) not_done False "2.prems"(3) by blast
      then show ?thesis using not_done False by auto
    qed
  qed
qed simp

text \<open>A simple chain of assumptions from one principal to another.\<close>

definition simple_chain :: "(string \<times> string list) list \<Rightarrow> string \<Rightarrow> string \<Rightarrow> string list \<Rightarrow> bool" where
  "simple_chain nodes source target p =
     (2 \<le> length p \<and> hd p = source \<and> last p = target \<and> distinct p \<and> successively (can_assume nodes) p)"

lemma chain_successively:
  "chain (invert_graph (build_graph nodes)) p \<longleftrightarrow> p \<noteq> [] \<and> successively (can_assume nodes) p"
proof (induction p)
  case (Cons a p)
  then show ?case by (cases p) (auto simp: hop_iff)
qed simp

lemma find_assumption_paths_exact:
  "set (find_assumption_paths (build_graph nodes) source target d) =
     {p. simple_chain nodes source target p \<and> length p \<le> Suc d}"
  "distinct (find_assumption_paths (build_graph nodes) source target d)"
proof -
  let ?r = "invert_graph (build_graph nodes)"
  have ok: "\<forall>p \<in> set [[source]]. partial_ok ?r d p" by (simp add: partial_ok_def)
  have "completes ?r target d [source] w \<longleftrightarrow> simple_chain nodes source target w \<and> length w \<le> Suc d" for w
  proof -
    have "(\<exists>q. w = [source] @ q) \<longleftrightarrow> w \<noteq> [] \<and> hd w = source" by (cases w) auto
    then show ?thesis unfolding completes_def simple_chain_def chain_successively by auto
  qed
  then show "set (find_assumption_paths (build_graph nodes) source target d) =
     {p. simple_chain nodes source target p \<and> length p \<le> Suc d}"
    unfolding find_assumption_paths_def bfs_paths_set[OF ok] by simp
  show "distinct (find_assumption_paths (build_graph nodes) source target d)"
    unfolding find_assumption_paths_def
    by (rule bfs_paths_distinct[OF ok]) (auto simp: invert_graph_facts(2))
qed

section \<open>Breadth-first reachability\<close>

text \<open>Nodes a walk of exactly so many hops leads to.\<close>

fun walk_to :: "graph \<Rightarrow> nat \<Rightarrow> string \<Rightarrow> string \<Rightarrow> bool" where
  "walk_to r 0 a b = (a = b)"
| "walk_to r (Suc n) a b = (\<exists>c. walk_to r n a c \<and> b \<in> set (adj r c))"

definition nearest :: "graph \<Rightarrow> string \<Rightarrow> string \<Rightarrow> nat \<Rightarrow> bool" where
  "nearest r s n k \<longleftrightarrow> walk_to r k s n \<and> (\<forall>j < k. \<not> walk_to r j s n)"

lemma nearest_pred:
  assumes "nearest r s n (Suc k)"
  obtains m where "nearest r s m k" "n \<in> set (adj r m)"
proof -
  from assms obtain m where m: "walk_to r k s m" "n \<in> set (adj r m)" by (auto simp: nearest_def)
  have "\<not> walk_to r j s m" if "j < k" for j
    using assms m that by (auto simp: nearest_def dest!: spec[of _ "Suc j"])
  then show thesis using m that by (auto simp: nearest_def)
qed

lemma nearest_ex: "walk_to r k s n \<Longrightarrow> \<exists>j \<le> k. nearest r s n j"
proof -
  assume w: "walk_to r k s n"
  let ?j = "LEAST j. walk_to r j s n"
  have "walk_to r ?j s n" by (rule LeastI) (rule w)
  moreover have "?j \<le> k" by (rule Least_le) (rule w)
  moreover have "\<forall>i < ?j. \<not> walk_to r i s n" by (auto dest: not_less_Least)
  ultimately show ?thesis by (auto simp: nearest_def)
qed

lemma nearest_unique: "nearest r s n j \<Longrightarrow> nearest r s n k \<Longrightarrow> j = k"
  by (auto simp: nearest_def) (metis linorder_neqE_nat)

text \<open>
  The invariant of the queue: depths never decrease along it and differ by at most one, every
  entry is a walk of its depth, visited nodes sit at their least depth and their successors are
  visited or queued one deeper.
\<close>

definition bfs_inv :: "graph \<Rightarrow> nat \<Rightarrow> string \<Rightarrow> string list \<Rightarrow> (string \<times> nat) list \<Rightarrow> bool" where
  "bfs_inv r d s visited q \<longleftrightarrow>
     sorted (map snd q) \<and> (\<forall>e \<in> set q. snd e \<le> Suc (snd (hd q)) \<and> snd e \<le> d \<and> walk_to r (snd e) s (fst e)) \<and>
     (s \<in> set visited \<or> (s, 0) \<in> set q) \<and>
     (\<forall>v \<in> set visited. \<exists>k \<le> d. nearest r s v k \<and>
        (k < d \<longrightarrow> (\<forall>m \<in> set (adj r v). m \<in> set visited \<or> (m, Suc k) \<in> set q)))"

lemma bfs_inv_visited:
  "bfs_inv r d s visited q \<Longrightarrow> v \<in> set visited \<Longrightarrow> \<exists>k \<le> d. nearest r s v k \<and>
     (k < d \<longrightarrow> (\<forall>m \<in> set (adj r v). m \<in> set visited \<or> (m, Suc k) \<in> set q))"
  by (simp add: bfs_inv_def)

lemma bfs_frontier:
  assumes inv: "bfs_inv r d s visited q"
  shows "nearest r s n k \<Longrightarrow> k \<le> d \<Longrightarrow> n \<in> set visited \<or> (\<exists>m j. (m, j) \<in> set q \<and> m \<notin> set visited \<and> j \<le> k)"
proof (induction k arbitrary: n)
  case 0
  then have "n = s" by (simp add: nearest_def)
  then show ?case using inv by (auto simp: bfs_inv_def)
next
  case (Suc k)
  obtain m where m: "nearest r s m k" "n \<in> set (adj r m)" using Suc.prems(1) by (rule nearest_pred)
  from Suc.IH[OF m(1)] Suc.prems(2) consider
    "m \<in> set visited" | "\<exists>m' j. (m', j) \<in> set q \<and> m' \<notin> set visited \<and> j \<le> k" by auto
  then show ?case
  proof cases
    case 1
    then obtain k' where "nearest r s m k'"
      "k' < d \<longrightarrow> (\<forall>m' \<in> set (adj r m). m' \<in> set visited \<or> (m', Suc k') \<in> set q)"
      using bfs_inv_visited[OF inv] by blast
    moreover have "k' = k" using calculation(1) m(1) by (rule nearest_unique)
    ultimately have "n \<in> set visited \<or> (n, Suc k) \<in> set q" using m(2) Suc.prems(2) by auto
    then show ?thesis by auto
  next
    case 2
    then show ?thesis by fastforce
  qed
qed

lemma bfs_skip:
  assumes "bfs_inv r d s visited ((n, k) # q)" "n \<in> set visited"
  shows "bfs_inv r d s visited q"
proof -
  have le: "\<forall>e \<in> set q. k \<le> snd e \<and> snd e \<le> Suc k" using assms(1) by (auto simp: bfs_inv_def)
  have "snd e \<le> Suc (snd (hd q))" if "e \<in> set q" for e
  proof -
    have "hd q \<in> set q" using that by (cases q) auto
    then show ?thesis using le that by (meson Suc_le_mono order_trans)
  qed
  moreover have "\<forall>v \<in> set visited. \<exists>i \<le> d. nearest r s v i \<and>
        (i < d \<longrightarrow> (\<forall>m \<in> set (adj r v). m \<in> set visited \<or> (m, Suc i) \<in> set q))"
  proof
    fix v assume "v \<in> set visited"
    from bfs_inv_visited[OF assms(1) this] obtain i where i: "i \<le> d" "nearest r s v i"
      "i < d \<longrightarrow> (\<forall>m \<in> set (adj r v). m \<in> set visited \<or> (m, Suc i) \<in> set ((n, k) # q))" by blast
    then have "i < d \<longrightarrow> (\<forall>m \<in> set (adj r v). m \<in> set visited \<or> (m, Suc i) \<in> set q)"
      using assms(2) by auto
    then show "\<exists>i \<le> d. nearest r s v i \<and>
        (i < d \<longrightarrow> (\<forall>m \<in> set (adj r v). m \<in> set visited \<or> (m, Suc i) \<in> set q))"
      using i by blast
  qed
  moreover have "s \<in> set visited \<or> (s, 0) \<in> set q" "sorted (map snd q)"
    "\<forall>e \<in> set q. snd e \<le> d \<and> walk_to r (snd e) s (fst e)"
    using assms by (auto simp: bfs_inv_def)
  ultimately show ?thesis by (simp add: bfs_inv_def)
qed

lemma bfs_first_visit:
  assumes inv: "bfs_inv r d s visited ((n, k) # q)" and "n \<notin> set visited"
  shows "nearest r s n k"
proof -
  have w: "walk_to r k s n" and kd: "k \<le> d" using inv by (auto simp: bfs_inv_def)
  have "\<not> walk_to r j s n" if "j < k" for j
  proof
    assume "walk_to r j s n"
    then obtain i where i: "i \<le> j" "nearest r s n i" by (auto dest: nearest_ex)
    have "i \<le> d" using i(1) that kd by simp
    then obtain m l where ml: "(m, l) \<in> set ((n, k) # q)" "l \<le> i"
      using bfs_frontier[OF inv i(2)] assms(2) by blast
    have "k \<le> l" using inv ml(1) by (auto simp: bfs_inv_def)
    then show False using ml(2) i(1) that by simp
  qed
  then show ?thesis using w by (auto simp: nearest_def)
qed

lemma bfs_visit:
  assumes inv: "bfs_inv r d s visited ((n, k) # q)" and new: "n \<notin> set visited"
    and q': "q' = (if d \<le> k then q else q @ map (\<lambda>m. (m, Suc k)) (filter (\<lambda>m. m \<notin> set (visited @ [n])) (adj r n)))"
  shows "bfs_inv r d s (visited @ [n]) q'"
proof -
  have near: "nearest r s n k" by (rule bfs_first_visit[OF inv new])
  have kd: "k \<le> d" and w: "walk_to r k s n" and srt: "sorted (map snd q)"
    and le: "\<forall>e \<in> set q. k \<le> snd e \<and> snd e \<le> Suc k \<and> snd e \<le> d \<and> walk_to r (snd e) s (fst e)"
    using inv by (auto simp: bfs_inv_def)
  have sub: "set q \<subseteq> set q'" and out: "set q' \<subseteq> set q \<union> {(m, Suc k) | m. m \<in> set (adj r n) \<and> k < d}"
    using q' by auto
  have "sorted (map snd q')"
    using srt le by (auto simp: q' sorted_append comp_def map_replicate_const)
  moreover have "\<forall>e \<in> set q'. snd e \<le> Suc (snd (hd q')) \<and> snd e \<le> d \<and> walk_to r (snd e) s (fst e)"
  proof
    fix e assume e: "e \<in> set q'"
    have "k \<le> snd (hd q')"
    proof -
      have "hd q' \<in> set q'" using e by (cases q') auto
      then show ?thesis using out le by auto
    qed
    then show "snd e \<le> Suc (snd (hd q')) \<and> snd e \<le> d \<and> walk_to r (snd e) s (fst e)"
      using e out le w by fastforce
  qed
  moreover have "s \<in> set (visited @ [n]) \<or> (s, 0) \<in> set q'"
    using inv sub by (auto simp: bfs_inv_def)
  moreover have "\<forall>v \<in> set (visited @ [n]). \<exists>i \<le> d. nearest r s v i \<and>
        (i < d \<longrightarrow> (\<forall>m \<in> set (adj r v). m \<in> set (visited @ [n]) \<or> (m, Suc i) \<in> set q'))"
  proof
    fix v assume v: "v \<in> set (visited @ [n])"
    show "\<exists>i \<le> d. nearest r s v i \<and> (i < d \<longrightarrow> (\<forall>m \<in> set (adj r v). m \<in> set (visited @ [n]) \<or> (m, Suc i) \<in> set q'))"
    proof (cases "v = n")
      case True
      then show ?thesis using near kd q' by (intro exI[of _ k]) auto
    next
      case False
      then have "v \<in> set visited" using v by simp
      then obtain i where "i \<le> d" "nearest r s v i"
        "i < d \<longrightarrow> (\<forall>m \<in> set (adj r v). m \<in> set visited \<or> (m, Suc i) \<in> set ((n, k) # q))"
        using bfs_inv_visited[OF inv] by blast
      then show ?thesis using sub by (intro exI[of _ i]) auto
    qed
  qed
  ultimately show ?thesis by (simp add: bfs_inv_def)
qed

lemma bfs_nodes_inv: "bfs_inv r d s visited q \<Longrightarrow> bfs_inv r d s (bfs_nodes r d visited q) []"
proof (induction r d visited q rule: bfs_nodes.induct)
  case (2 r d visited n k q)
  show ?case
  proof (cases "n \<in> set visited")
    case True
    then show ?thesis using "2.IH"(1) bfs_skip[OF "2.prems" True] by simp
  next
    case new: False
    show ?thesis
    proof (cases "d \<le> k")
      case True
      then show ?thesis using "2.IH"(2) new bfs_visit[OF "2.prems" new refl] by simp
    next
      case False
      then show ?thesis using "2.IH"(3) new bfs_visit[OF "2.prems" new refl] by simp
    qed
  qed
qed simp

lemma bfs_nodes_exact: "n \<in> set (bfs_nodes r d [] [(s, 0)]) \<longleftrightarrow> (\<exists>k \<le> d. walk_to r k s n)"
proof -
  let ?v = "bfs_nodes r d [] [(s, 0)]"
  have inv: "bfs_inv r d s ?v []" by (rule bfs_nodes_inv) (simp add: bfs_inv_def)
  show ?thesis
  proof
    assume "n \<in> set ?v"
    then show "\<exists>k \<le> d. walk_to r k s n" using inv by (auto simp: bfs_inv_def nearest_def)
  next
    assume "\<exists>k \<le> d. walk_to r k s n"
    then obtain k where "nearest r s n k" "k \<le> d" using nearest_ex order_trans by meson
    then show "n \<in> set ?v" using bfs_frontier[OF inv] by fastforce
  qed
qed

lemma walk_to_power:
  "walk_to (invert_graph (build_graph nodes)) k a b \<longleftrightarrow> (can_assume nodes ^^ k) a b"
  by (induction k arbitrary: b) (auto simp: hop_iff OO_def)

lemma transitive_reachable_exact:
  "n \<in> set (transitive_reachable (build_graph nodes) source d) \<longleftrightarrow>
     n \<noteq> source \<and> (\<exists>k \<le> d. (can_assume nodes ^^ k) source n)"
  by (auto simp: transitive_reachable_def bfs_nodes_exact walk_to_power simp del: bfs_nodes.simps)

end
