(* ===== verification/CloudHunt.thy ===== *)
theory CloudHunt
  imports HuntTriage TrustGraph PyText
begin

text \<open>
  The control-plane detections of the cloud hunter (shared/btagent_shared/hunt/cloud.py,
  types/cloud_hunt.py).  Every detection turns inventory records or CloudTrail events, which are
  JSON objects of any shape, into findings, or raises.  Of the inventory records the fields no
  detection reads are left out.  \<^verbatim>\<open>datetime.fromisoformat\<close> is an argument; a set is a distinct
  list, iterated in insertion order.
\<close>

section \<open>Inventory\<close>

datatype cloud_provider = P_AWS | P_AZURE | P_GCP

fun cloud_provider_value :: "cloud_provider \<Rightarrow> string" where
  "cloud_provider_value P_AWS = ''aws''"
| "cloud_provider_value P_AZURE = ''azure''"
| "cloud_provider_value P_GCP = ''gcp''"

datatype agentic_workload_kind = BEDROCK_AGENTCORE | VERTEX_AGENT_ENGINE | CLOUD_RUN_MCP | GKE_INFERENCE | UNMANAGED

fun workload_kind_value :: "agentic_workload_kind \<Rightarrow> string" where
  "workload_kind_value BEDROCK_AGENTCORE = ''bedrock_agentcore''"
| "workload_kind_value VERTEX_AGENT_ENGINE = ''vertex_agent_engine''"
| "workload_kind_value CLOUD_RUN_MCP = ''cloud_run_mcp''"
| "workload_kind_value GKE_INFERENCE = ''gke_inference''"
| "workload_kind_value UNMANAGED = ''unmanaged''"

record cloud_identity =
  ci_provider :: cloud_provider
  arn_or_id :: string
  ci_display_name :: string
  can_be_assumed_by :: "string list"
  has_cross_account_trust :: bool

record agentic_workload =
  wl_provider :: cloud_provider
  wl_kind :: agentic_workload_kind
  wl_resource_id :: string
  wl_display_name :: string
  wl_identity_ref :: string
  wl_governance_tagged :: bool
  wl_is_shadow :: bool
  wl_overprivileged :: bool
  wl_internet_reachable :: bool
  wl_last_activity :: "int option"
  wl_enrichment :: evidence

definition build_trust_graph :: "cloud_identity list \<Rightarrow> graph" where
  "build_trust_graph ids = build_graph (map (\<lambda>i. (arn_or_id i, can_be_assumed_by i)) ids)"

section \<open>Findings of the cloud domain\<close>

definition t_sts_chaining :: string where "t_sts_chaining = ''T1078.004''"
definition t_assume_role :: string where "t_assume_role = ''T1550.001''"
definition t_iam_persistence :: string where "t_iam_persistence = ''T1098.001''"
definition t_trust_mutation :: string where "t_trust_mutation = ''T1098.003''"
definition t_snapshot_share :: string where "t_snapshot_share = ''T1537''"
definition t_cloudtrail_tamper :: string where "t_cloudtrail_tamper = ''T1562.008''"

definition cloud_finding ::
  "title_text \<Rightarrow> severity \<Rightarrow> pyfloat \<Rightarrow> string list \<Rightarrow> (string \<times> pyval) list \<Rightarrow> (string \<times> pyval) list \<Rightarrow> evidence
     \<Rightarrow> (sweep_exn, record_finding_request) res" where
  "cloud_finding title sev conf techniques entities observables evidence =
     bind_res (map_res (\<lambda>(k, v). make_entity k v) entities) (\<lambda>es.
     bind_res (map_res (\<lambda>(t, v). make_observable t v) observables) (\<lambda>os.
       make_request \<lparr>fp_source = S_CLOUD, fp_domain = D_CLOUD, fp_title = title, fp_severity = sev,
         fp_confidence = conf, fp_technique_ids = techniques, fp_entities = es, fp_observables = os,
         fp_evidence = evidence\<rparr>))"

definition pstrs :: "string list \<Rightarrow> pyval" where
  "pstrs xs = PList (map PStr xs)"

definition percent :: "int \<Rightarrow> pyfloat" where
  "percent n = round_ratio n 100"

text \<open>Run the detection on each input and collect the findings; the first exception ends the sweep.\<close>

definition sweep :: "('a \<Rightarrow> ('e, 'b list) res) \<Rightarrow> 'a list \<Rightarrow> ('e, 'b list) res" where
  "sweep f xs = bind_res (map_res f xs) (\<lambda>ys. Inr (concat ys))"

definition one :: "('e, 'a) res \<Rightarrow> ('e, 'a list) res" where
  "one r = bind_res r (\<lambda>x. Inr [x])"

section \<open>D1: role chaining\<close>

definition high_value_keywords :: "string list" where
  "high_value_keywords = [''admin'', ''root'', ''billing'', ''orgadmin'', ''poweruser'']"

definition default_high_value :: "graph \<Rightarrow> string list" where
  "default_high_value g =
     filter (\<lambda>arn. list_ex (\<lambda>kw. substring kw (lower arn)) high_value_keywords) (map fst g)"

text \<open>\<^verbatim>\<open>{i.arn_or_id: i for i in identities}\<close>: the last identity of a name wins.\<close>

definition identity_by_arn :: "cloud_identity list \<Rightarrow> string \<Rightarrow> cloud_identity option" where
  "identity_by_arn ids a = map_of (rev (map (\<lambda>i. (arn_or_id i, i)) ids)) a"

definition chain_provider :: "cloud_identity list \<Rightarrow> string \<Rightarrow> string \<Rightarrow> cloud_provider" where
  "chain_provider ids source target = ci_provider
     (case identity_by_arn ids target of Some t \<Rightarrow> t
      | None \<Rightarrow> (case identity_by_arn ids source of Some s \<Rightarrow> s | None \<Rightarrow> hd ids))"

definition chain_finding ::
  "cloud_identity list \<Rightarrow> string \<Rightarrow> string \<Rightarrow> string list \<Rightarrow> (sweep_exn, record_finding_request) res" where
  "chain_finding ids source target path =
     (let hops = length path - 1 in
      cloud_finding
        (codes (''STS AssumeRole chain: '' @ source) @ [32, 8594, 32] @
         codes (target @ '' ('' @ nat_digits hops @ '' hops)''))
        (if hops \<ge> 3 then CRITICAL else HIGH) (percent 85) [t_sts_chaining, t_assume_role]
        [(''cloud_identity'', PStr source), (''cloud_identity'', PStr target)]
        (map (\<lambda>a. (''aws_arn'', PStr a)) (filter (\<lambda>a. identity_by_arn ids a \<noteq> None) path))
        [(PStr ''detection'', PStr ''sts_chaining''), (PStr ''hop_count'', PInt (int hops)),
         (PStr ''path'', pstrs path),
         (PStr ''provider'', PStr (cloud_provider_value (chain_provider ids source target))),
         (PStr ''high_value_target'', PStr target)])"

definition detect_sts_chaining ::
  "cloud_identity list \<Rightarrow> string list option \<Rightarrow> nat \<Rightarrow> (sweep_exn, record_finding_request list) res" where
  "detect_sts_chaining ids high_value_targets min_hops =
     (let g = build_trust_graph ids;
          targets = (case high_value_targets of None \<Rightarrow> default_high_value g | Some ts \<Rightarrow> ts)
      in sweep (\<lambda>target.
           sweep (\<lambda>source.
             map_res (chain_finding ids source target)
               (filter (\<lambda>p. length p \<ge> min_hops + 1) (find_assumption_paths g source target max_hop_depth)))
             (filter (\<lambda>s. s \<noteq> target) (map fst g))) targets)"

section \<open>Reading events\<close>

definition ev_get :: "evidence \<Rightarrow> string \<Rightarrow> pyval" where
  "ev_get d k = (case get_str d k of None \<Rightarrow> PNone | Some v \<Rightarrow> v)"

text \<open>\<^verbatim>\<open>v.get\<close> exists on a mapping only.\<close>

definition as_dict :: "pyval \<Rightarrow> (sweep_exn, evidence) res" where
  "as_dict v = (case v of PDict d \<Rightarrow> Inr d | _ \<Rightarrow> Inl AttributeErr)"

definition py_or :: "pyval \<Rightarrow> pyval \<Rightarrow> pyval" where
  "py_or a b = (if py_truth a then a else b)"

text \<open>\<^verbatim>\<open>(event.get(k) or {}).get\<close>.\<close>

definition sub_dict :: "evidence \<Rightarrow> string \<Rightarrow> (sweep_exn, evidence) res" where
  "sub_dict d k = as_dict (py_or (ev_get d k) (PDict []))"

definition ev_or :: "evidence \<Rightarrow> string \<Rightarrow> pyval \<Rightarrow> pyval" where
  "ev_or d k dflt = (case get_str d k of None \<Rightarrow> dflt | Some v \<Rightarrow> v)"

definition raised :: "(py_exn, 'a) res \<Rightarrow> (sweep_exn, 'a) res" where
  "raised r = (case r of Inl e \<Rightarrow> Inl (PyRaised e) | Inr a \<Rightarrow> Inr a)"

text \<open>Membership of a value in a set or dictionary of strings hashes the value first.\<close>

definition in_names :: "pyval \<Rightarrow> string list \<Rightarrow> (sweep_exn, bool) res" where
  "in_names v names = (if hashable v then Inr (list_ex (\<lambda>n. v = PStr n) names) else Inl (PyRaised TypeErr))"

definition event_actor :: "evidence \<Rightarrow> (sweep_exn, pyval) res" where
  "event_actor ev = bind_res (sub_dict ev ''userIdentity'') (\<lambda>u. Inr (ev_or u ''arn'' (PStr ''unknown'')))"

text \<open>\<^verbatim>\<open>str(p.get(a) or p.get(b) or ... or "unknown")\<close>.\<close>

definition first_text :: "evidence \<Rightarrow> string list \<Rightarrow> (sweep_exn, string) res" where
  "first_text d ks = raised (py_str (foldr (\<lambda>k v. py_or (ev_get d k) v) ks (PStr ''unknown'')))"

section \<open>D2: persistence\<close>

definition persistence_events :: "(string \<times> string \<times> severity \<times> pyfloat) list" where
  "persistence_events =
     [(''CreateAccessKey'', t_iam_persistence, HIGH, percent 90),
      (''PutUserPolicy'', t_trust_mutation, HIGH, percent 85),
      (''PutRolePolicy'', t_trust_mutation, HIGH, percent 85),
      (''UpdateAssumeRolePolicy'', t_trust_mutation, CRITICAL, percent 92),
      (''CreateVirtualMFADevice'', t_iam_persistence, MEDIUM, percent 70),
      (''DeactivateMFADevice'', t_iam_persistence, HIGH, percent 88)]"

definition persistence_of :: "evidence \<Rightarrow> (sweep_exn, record_finding_request list) res" where
  "persistence_of ev =
     (let name = ev_or ev ''eventName'' (PStr []) in
      bind_res (in_names name (map fst persistence_events)) (\<lambda>hit.
      if \<not> hit then Inr [] else
      case name of
        PStr n \<Rightarrow>
          (case map_of persistence_events n of
             None \<Rightarrow> Inr []
           | Some (technique, sev, conf) \<Rightarrow>
               bind_res (event_actor ev) (\<lambda>actor.
               bind_res (sub_dict ev ''requestParameters'') (\<lambda>params.
               bind_res (first_text params [''userName'', ''roleName'']) (\<lambda>resource.
               bind_res (raised (py_str actor)) (\<lambda>actor_text.
                 one (cloud_finding
                   (codes (''IAM persistence activity: '' @ n @ '' by '' @ actor_text)) sev conf
                   [technique, t_iam_persistence]
                   [(''cloud_identity'', actor), (''iam_resource'', PStr resource)] []
                   [(PStr ''detection'', PStr ''iam_persistence''), (PStr ''event_name'', PStr n),
                    (PStr ''event_time'', ev_get ev ''eventTime''), (PStr ''aws_region'', ev_get ev ''awsRegion''),
                    (PStr ''request_parameters'', ev_get ev ''requestParameters'')]))))))
      | _ \<Rightarrow> Inr []))"

definition detect_iam_persistence :: "evidence list \<Rightarrow> (sweep_exn, record_finding_request list) res" where
  "detect_iam_persistence events = sweep persistence_of events"

section \<open>D3: trust across accounts\<close>

definition external_trustee :: "string list \<Rightarrow> string \<Rightarrow> bool" where
  "external_trustee trusted trustee =
     (let parts = split_on (CHR '':'') trustee in
      if length parts \<ge> 6 then parts ! 4 \<noteq> [] \<and> parts ! 4 \<notin> set trusted
      else trustee \<notin> set trusted)"

definition cross_account_of :: "string list \<Rightarrow> cloud_identity \<Rightarrow> (sweep_exn, record_finding_request list) res" where
  "cross_account_of trusted i =
     (let external = filter (external_trustee trusted) (can_be_assumed_by i) in
      if \<not> has_cross_account_trust i \<or> external = [] then Inr []
      else one (cloud_finding
        (codes (''Cross-account trust abuse: '' @ arn_or_id i @ '' trusted by '' @ nat_digits (length external) @
                '' external principal(s)''))
        HIGH (percent 88) [t_sts_chaining, t_assume_role]
        ((''cloud_identity'', PStr (arn_or_id i)) # map (\<lambda>t. (''external_trustee'', PStr t)) external)
        ((''aws_arn'', PStr (arn_or_id i)) # map (\<lambda>t. (''external_aws_arn'', PStr t)) external)
        [(PStr ''detection'', PStr ''cross_account_trust_abuse''), (PStr ''identity_arn'', PStr (arn_or_id i)),
         (PStr ''provider'', PStr (cloud_provider_value (ci_provider i))),
         (PStr ''external_trustees'', pstrs external), (PStr ''trusted_account_ids'', pstrs trusted)]))"

definition detect_cross_account_trust_abuse ::
  "cloud_identity list \<Rightarrow> string list option \<Rightarrow> (sweep_exn, record_finding_request list) res" where
  "detect_cross_account_trust_abuse ids trusted =
     sweep (cross_account_of (case trusted of None \<Rightarrow> [] | Some ts \<Rightarrow> ts)) ids"

section \<open>D4: shared snapshots\<close>

definition share_events :: "string list" where
  "share_events = [''ModifySnapshotAttribute'', ''ModifyImageAttribute'', ''ModifyDBSnapshotAttribute'']"

text \<open>\<^verbatim>\<open>params.get(k, {}).get("add", {}).get("items", [])\<close>.\<close>

definition added_items :: "evidence \<Rightarrow> string \<Rightarrow> (sweep_exn, pyval) res" where
  "added_items params k =
     bind_res (as_dict (ev_or params k (PDict []))) (\<lambda>d.
     bind_res (as_dict (ev_or d ''add'' (PDict []))) (\<lambda>a. Inr (ev_or a ''items'' (PList []))))"

definition added_permissions :: "evidence \<Rightarrow> (sweep_exn, pyval) res" where
  "added_permissions params =
     bind_res (added_items params ''createVolumePermission'') (\<lambda>v.
     if py_truth v then Inr v else
     bind_res (added_items params ''launchPermission'') (\<lambda>l.
     if py_truth l then Inr l else Inr (ev_or params ''valuesToAdd'' (PList []))))"

definition permission_account :: "pyval \<Rightarrow> pyval" where
  "permission_account perm = (case perm of
     PStr s \<Rightarrow> PStr s
   | PDict d \<Rightarrow> py_or (ev_get d ''userId'') (py_or (ev_get d ''group'') (PStr []))
   | _ \<Rightarrow> PStr [])"

definition external_account :: "string list \<Rightarrow> pyval \<Rightarrow> (sweep_exn, pyval list) res" where
  "external_account trusted perm =
     (let a = permission_account perm in
      if a = PStr ''all'' then Inr [a]
      else if \<not> py_truth a then Inr []
      else bind_res (in_names a trusted) (\<lambda>known. Inr (if known then [] else [a])))"

definition snapshot_share_of :: "string list \<Rightarrow> evidence \<Rightarrow> (sweep_exn, record_finding_request list) res" where
  "snapshot_share_of trusted ev =
     (let name = ev_or ev ''eventName'' (PStr []) in
      bind_res (in_names name share_events) (\<lambda>hit.
      if \<not> hit then Inr [] else
      bind_res (sub_dict ev ''requestParameters'') (\<lambda>params.
      bind_res (added_permissions params) (\<lambda>perms.
      bind_res (raised (py_iter perms)) (\<lambda>items.
      bind_res (sweep (external_account trusted) items) (\<lambda>external.
      if external = [] then Inr [] else
      bind_res (first_text params [''snapshotId'', ''imageId'', ''dBSnapshotIdentifier'']) (\<lambda>resource.
      bind_res (event_actor ev) (\<lambda>actor.
      bind_res (raised (py_str name)) (\<lambda>event_name.
      let public = (PStr ''all'' \<in> set external) in
      one (cloud_finding
        (codes ((if public then ''PUBLIC'' else ''External'') @ '' snapshot/AMI share: '' @ resource @ '' via '' @ event_name))
        (if public then CRITICAL else HIGH) (percent 95) [t_snapshot_share]
        [(''cloud_identity'', actor), (''cloud_resource'', PStr resource)]
        ((''aws_resource_id'', PStr resource) # map (\<lambda>a. (''external_aws_account'', a)) external)
        [(PStr ''detection'', PStr ''snapshot_external_share''), (PStr ''event_name'', name),
         (PStr ''event_time'', ev_get ev ''eventTime''), (PStr ''resource_id'', PStr resource),
         (PStr ''external_accounts'', PList external), (PStr ''is_public'', PBool public)]))))))))))"

definition detect_snapshot_external_share ::
  "evidence list \<Rightarrow> string list option \<Rightarrow> (sweep_exn, record_finding_request list) res" where
  "detect_snapshot_external_share events trusted =
     sweep (snapshot_share_of (case trusted of None \<Rightarrow> [] | Some ts \<Rightarrow> ts)) events"

section \<open>D5: tampering with the trail\<close>

text \<open>
  A parsed time is a number of microseconds and whether it carries an offset; comparing a time
  with an offset with one without raises TypeError.
\<close>

type_synonym stamp = "bool \<times> int"

definition always_disable_events :: "string list" where
  "always_disable_events = [''StopLogging'', ''DeleteTrail'', ''DeleteFlowLogs'']"

definition conditional_tamper_events :: "string list" where
  "conditional_tamper_events = [''UpdateTrail'']"

definition suspicious_auth_events :: "string list" where
  "suspicious_auth_events = [''ConsoleLogin'', ''GetSessionToken'', ''AssumeRole'']"

text \<open>\<^verbatim>\<open>re.sub(r"Z$", "+00:00", s)\<close>: the dollar also matches before a final newline.\<close>

definition zulu_to_offset :: "string \<Rightarrow> string" where
  "zulu_to_offset s =
     (if ends_with s ''Z'' then butlast s @ ''+00:00''
      else if ends_with s (''Z'' @ [CHR 10]) then butlast (butlast s) @ ''+00:00'' @ [CHR 10]
      else s)"

definition parse_event_time ::
  "(string \<Rightarrow> stamp option) \<Rightarrow> evidence \<Rightarrow> (sweep_exn, stamp option) res" where
  "parse_event_time fromisoformat ev =
     (let ts = ev_get ev ''eventTime'' in
      if \<not> py_truth ts then Inr None
      else bind_res (raised (py_str ts)) (\<lambda>s. Inr (fromisoformat (zulu_to_offset s))))"

text \<open>\<^verbatim>\<open>str(v).strip().lower()\<close>, None for a missing or null value.\<close>

definition flag_text :: "pyval \<Rightarrow> (sweep_exn, string option) res" where
  "flag_text v = (if v = PNone then Inr None
     else bind_res (raised (py_str v)) (\<lambda>s. Inr (Some (lower (py_strip s)))))"

fun any_false :: "evidence \<Rightarrow> string list \<Rightarrow> (sweep_exn, bool) res" where
  "any_false d [] = Inr False"
| "any_false d (k # ks) =
     bind_res (flag_text (ev_get d k)) (\<lambda>t. if t = Some ''false'' then Inr True else any_false d ks)"

definition is_logging_disable_update :: "evidence \<Rightarrow> (sweep_exn, bool) res" where
  "is_logging_disable_update ev =
     (case py_or (ev_get ev ''requestParameters'') (PDict []) of
        PDict params \<Rightarrow> any_false params
          [''enableLogFileValidation'', ''includeGlobalServiceEvents'', ''isLogging'', ''isMultiRegionTrail'']
      | _ \<Rightarrow> Inr False)"

definition mfa_signal :: "evidence \<Rightarrow> evidence \<Rightarrow> (sweep_exn, pyval) res" where
  "mfa_signal ev additional =
     (let m = ev_get additional ''mfaAuthenticated'';
          m' = (if m = PNone then ev_get additional ''MFAUsed'' else m)
      in if m' = PNone
         then bind_res (sub_dict ev ''requestParameters'') (\<lambda>p. Inr (ev_get p ''mfaAuthenticated''))
         else Inr m')"

definition unusual_source :: "evidence \<Rightarrow> (sweep_exn, bool) res" where
  "unusual_source d =
     bind_res (raised (py_str (ev_or d ''unusualSource'' (PStr [])))) (\<lambda>s. Inr (lower (py_strip s) = ''true''))"

definition is_suspicious_auth :: "evidence \<Rightarrow> (sweep_exn, bool) res" where
  "is_suspicious_auth ev =
     bind_res (in_names (ev_or ev ''eventName'' (PStr [])) suspicious_auth_events) (\<lambda>auth.
     if \<not> auth then Inr False else
     let additional = (case py_or (ev_get ev ''additionalEventData'') (PDict []) of PDict d \<Rightarrow> d | _ \<Rightarrow> []) in
     bind_res (mfa_signal ev additional) (\<lambda>mfa.
     bind_res (flag_text mfa) (\<lambda>t.
     if t = Some ''false'' \<or> t = Some ''no'' then Inr True
     else if t = Some ''true'' \<or> t = Some ''yes'' then Inr False
     else bind_res (unusual_source additional) (\<lambda>u. if u then Inr True else unusual_source ev))))"

datatype trail_class = Tamper stamp evidence | Suspicious stamp evidence | Other_event

definition classify_event ::
  "(string \<Rightarrow> stamp option) \<Rightarrow> evidence \<Rightarrow> (sweep_exn, trail_class) res" where
  "classify_event fromisoformat ev =
     bind_res (parse_event_time fromisoformat ev) (\<lambda>ts.
     case ts of
       None \<Rightarrow> Inr Other_event
     | Some t \<Rightarrow>
         (let name = ev_or ev ''eventName'' (PStr []) in
          bind_res (in_names name always_disable_events) (\<lambda>always.
          bind_res (if always then Inr True
                    else bind_res (in_names name conditional_tamper_events) (\<lambda>cond.
                      if cond then is_logging_disable_update ev else Inr False)) (\<lambda>tamper.
          if tamper then Inr (Tamper t ev)
          else bind_res (is_suspicious_auth ev) (\<lambda>s. Inr (if s then Suspicious t ev else Other_event))))))"

text \<open>\<^verbatim>\<open>tamper - window <= auth < tamper\<close>.\<close>

definition in_window :: "int \<Rightarrow> stamp \<Rightarrow> stamp \<Rightarrow> (sweep_exn, bool) res" where
  "in_window window tamper auth =
     (if fst tamper \<noteq> fst auth then Inl (PyRaised TypeErr)
      else Inr (snd tamper - window \<le> snd auth \<and> snd auth < snd tamper))"

definition correlated ::
  "int \<Rightarrow> stamp \<Rightarrow> (stamp \<times> evidence) list \<Rightarrow> (sweep_exn, evidence list) res" where
  "correlated window tamper auths =
     sweep (\<lambda>(t, a). bind_res (in_window window tamper t) (\<lambda>b. Inr (if b then [a] else []))) auths"

text \<open>\<^verbatim>\<open>a.get("userIdentity", {}).get("arn", "?")\<close>, then the set of the results.\<close>

definition prior_actor :: "evidence \<Rightarrow> (sweep_exn, pyval) res" where
  "prior_actor a =
     bind_res (as_dict (ev_or a ''userIdentity'' (PDict []))) (\<lambda>u.
       let arn = ev_or u ''arn'' (PStr ''?'') in
       if hashable arn then Inr arn else Inl (PyRaised TypeErr))"

definition is_pstr :: "pyval \<Rightarrow> bool" where
  "is_pstr v = (case v of PStr s \<Rightarrow> True | _ \<Rightarrow> False)"

definition tamper_finding ::
  "int \<Rightarrow> (stamp \<times> evidence) list \<Rightarrow> stamp \<times> evidence \<Rightarrow> (sweep_exn, record_finding_request) res" where
  "tamper_finding window auths tampering =
     (let ev = snd tampering in
      bind_res (event_actor ev) (\<lambda>actor.
      bind_res (sub_dict ev ''requestParameters'') (\<lambda>params.
      bind_res (first_text params [''trailARN'', ''name'']) (\<lambda>trail.
      bind_res (correlated window (fst tampering) auths) (\<lambda>prior.
      bind_res (raised (py_str (ev_or ev ''eventName'' (PStr [])))) (\<lambda>event_name.
      let evid = (\<lambda>auths. [(PStr ''detection'', PStr ''cloudtrail_tamper''),
            (PStr ''event_name'', ev_or ev ''eventName'' (PStr [])), (PStr ''event_time'', ev_get ev ''eventTime''),
            (PStr ''trail_arn'', PStr trail), (PStr ''correlated_suspicious_auths'', PList auths)])
      in if prior = [] then
        bind_res (raised (py_str actor)) (\<lambda>actor_text.
        cloud_finding (codes (''CloudTrail logging tamper: '' @ event_name @ '' by '' @ actor_text)) HIGH (percent 75)
          [t_cloudtrail_tamper] [(''cloud_identity'', actor)] [(''cloudtrail_trail_arn'', PStr trail)] (evid []))
      else
        bind_res (map_res prior_actor prior) (\<lambda>actors.
        if \<not> list_all is_pstr actors then Inl (PyRaised TypeErr) else
        bind_res (map_res (\<lambda>a. bind_res (sub_dict a ''userIdentity'') (\<lambda>u.
            Inr (PDict [(PStr ''eventName'', ev_get a ''eventName''), (PStr ''eventTime'', ev_get a ''eventTime''),
                        (PStr ''actorArn'', ev_get u ''arn'')]))) prior) (\<lambda>rows.
          cloud_finding
            (codes (''CloudTrail tamper + prior suspicious auth: '' @ event_name @ '' (correlated with '' @
                    nat_digits (length prior) @ '' auth event(s))''))
            CRITICAL (percent 93) [t_cloudtrail_tamper, t_sts_chaining]
            ((''cloud_identity'', actor) # map (\<lambda>a. (''prior_auth_actor'', a)) (filter (\<lambda>a. a \<noteq> PStr ''?'') (remdups actors)))
            [(''cloudtrail_trail_arn'', PStr trail)] (evid rows)))))))))"

definition sorted_events ::
  "(string \<Rightarrow> stamp option) \<Rightarrow> evidence list \<Rightarrow> (sweep_exn, (stamp \<times> evidence) list \<times> (stamp \<times> evidence) list) res" where
  "sorted_events fromisoformat events =
     bind_res (map_res (classify_event fromisoformat) events) (\<lambda>cs.
       Inr (concat (map (\<lambda>c. case c of Tamper t e \<Rightarrow> [(t, e)] | _ \<Rightarrow> []) cs),
            concat (map (\<lambda>c. case c of Suspicious t e \<Rightarrow> [(t, e)] | _ \<Rightarrow> []) cs)))"

definition detect_cloudtrail_tamper ::
  "(string \<Rightarrow> stamp option) \<Rightarrow> int \<Rightarrow> evidence list \<Rightarrow> (sweep_exn, record_finding_request list) res" where
  "detect_cloudtrail_tamper fromisoformat window_seconds events =
     bind_res (sorted_events fromisoformat events) (\<lambda>(tampers, auths).
       map_res (tamper_finding (window_seconds * 1000000) auths) tampers)"

section \<open>D6 and D7: workloads\<close>

definition classify_workload :: "agentic_workload \<Rightarrow> bool" where
  "classify_workload wl = (\<not> wl_governance_tagged wl \<or> wl_kind wl = UNMANAGED)"

definition shadow_weight :: pyfloat where "shadow_weight = percent 40"
definition overprivilege_weight :: pyfloat where "overprivilege_weight = percent 30"
definition internet_weight :: pyfloat where "internet_weight = percent 20"
definition no_activity_weight :: pyfloat where "no_activity_weight = percent 10"

definition add_if :: "bool \<Rightarrow> pyfloat \<Rightarrow> pyfloat \<Rightarrow> pyfloat" where
  "add_if b w score = (if b then fadd score w else score)"

definition score_workload_risk :: "agentic_workload \<Rightarrow> pyfloat" where
  "score_workload_risk wl =
     (let s1 = add_if (classify_workload wl \<or> wl_is_shadow wl) shadow_weight (Fin 0 0);
          s2 = add_if (wl_overprivileged wl) overprivilege_weight s1;
          s3 = add_if (wl_internet_reachable wl) internet_weight s2;
          s4 = add_if (wl_last_activity wl = None) no_activity_weight s3
      in if fless (Fin 1 0) s4 then Fin 1 0 else s4)"

definition float_ge :: "pyfloat \<Rightarrow> pyfloat \<Rightarrow> bool" where
  "float_ge x y = (fless y x \<or> feq x y)"

definition shadow_severity :: "pyfloat \<Rightarrow> severity" where
  "shadow_severity risk =
     (if float_ge risk (percent 80) then CRITICAL else if float_ge risk (percent 50) then HIGH else MEDIUM)"

definition display_of :: "agentic_workload \<Rightarrow> string" where
  "display_of wl = (if wl_display_name wl = [] then wl_resource_id wl else wl_display_name wl)"

definition shadow_finding :: "agentic_workload \<Rightarrow> (sweep_exn, record_finding_request) res" where
  "shadow_finding wl =
     (let risk = score_workload_risk wl in
      cloud_finding
        (codes (''Shadow agentic workload: '' @ display_of wl @ '' ('' @ workload_kind_value (wl_kind wl) @ '' / '' @
                cloud_provider_value (wl_provider wl) @ '')''))
        (shadow_severity risk) (percent 90) [t_sts_chaining]
        [(''agentic_workload'', PStr (wl_resource_id wl)), (''cloud_identity'', PStr (wl_identity_ref wl))]
        [(''cloud_resource_id'', PStr (wl_resource_id wl))]
        [(PStr ''detection'', PStr ''shadow_workload''), (PStr ''shadow_workload'', PBool True),
         (PStr ''kind'', PStr (workload_kind_value (wl_kind wl))),
         (PStr ''provider'', PStr (cloud_provider_value (wl_provider wl))),
         (PStr ''governance_tagged'', PBool (wl_governance_tagged wl)), (PStr ''is_shadow'', PBool (wl_is_shadow wl)),
         (PStr ''has_overprivileged_identity'', PBool (wl_overprivileged wl)),
         (PStr ''internet_reachable'', PBool (wl_internet_reachable wl)), (PStr ''risk_score'', PFloat risk),
         (PStr ''identity_ref'', PStr (wl_identity_ref wl))])"

definition detect_shadow_workloads :: "agentic_workload list \<Rightarrow> (sweep_exn, record_finding_request list) res" where
  "detect_shadow_workloads workloads = map_res shadow_finding (filter classify_workload workloads)"

definition identity_display :: "cloud_identity list \<Rightarrow> agentic_workload \<Rightarrow> string" where
  "identity_display ids wl =
     (case identity_by_arn ids (wl_identity_ref wl) of
        Some i \<Rightarrow> if ci_display_name i = [] then wl_identity_ref wl else ci_display_name i
      | None \<Rightarrow> wl_identity_ref wl)"

definition overprivileged_finding ::
  "cloud_identity list \<Rightarrow> agentic_workload \<Rightarrow> (sweep_exn, record_finding_request) res" where
  "overprivileged_finding ids wl =
     cloud_finding
       (codes (''Overprivileged agentic identity: '' @ display_of wl @ '' runs as '' @ identity_display ids wl))
       HIGH (percent 88) [t_iam_persistence, t_sts_chaining]
       [(''agentic_workload'', PStr (wl_resource_id wl)), (''cloud_identity'', PStr (wl_identity_ref wl))]
       [(''cloud_resource_id'', PStr (wl_resource_id wl)), (''iam_identity_ref'', PStr (wl_identity_ref wl))]
       [(PStr ''detection'', PStr ''overprivileged_workload_identity''), (PStr ''workload_id'', PStr (wl_resource_id wl)),
        (PStr ''identity_ref'', PStr (wl_identity_ref wl)),
        (PStr ''provider'', PStr (cloud_provider_value (wl_provider wl))),
        (PStr ''kind'', PStr (workload_kind_value (wl_kind wl))), (PStr ''has_overprivileged_identity'', PBool True)]"

definition detect_overprivileged_workload_identity ::
  "agentic_workload list \<Rightarrow> cloud_identity list \<Rightarrow> (sweep_exn, record_finding_request list) res" where
  "detect_overprivileged_workload_identity workloads ids =
     map_res (overprivileged_finding ids) (filter wl_overprivileged workloads)"

section \<open>D8: shadow servers behind a DNS record\<close>

record dns_record =
  dns_name :: string
  dns_record_type :: string
  dns_values :: "string list"

text \<open>The text after the first \<^verbatim>\<open>://\<close>, and the text after the last occurrence of a character.\<close>

fun after_scheme :: "string \<Rightarrow> string option" where
  "after_scheme [] = None"
| "after_scheme (c # s) = (if is_prefix ''://'' (c # s) then Some (drop 3 (c # s)) else after_scheme s)"

definition after_last :: "char \<Rightarrow> string \<Rightarrow> string" where
  "after_last c s = last (split_on c s)"

definition host_of :: "string \<Rightarrow> string" where
  "host_of value =
     (let v = lower (py_strip value);
          v1 = (case after_scheme v of None \<Rightarrow> v | Some r \<Rightarrow> r);
          v2 = before_char (CHR ''/'') v1;
          v3 = after_last (CHR ''@'') v2;
          v4 = before_char (CHR '':'') v3
      in rstrip_char (CHR ''.'') v4)"

text \<open>The characters of \<^verbatim>\<open>\w\<close> below 256, and the places where \<^verbatim>\<open>\b\<close> matches.\<close>

definition re_word_char :: "char \<Rightarrow> bool" where
  "re_word_char c = (let n = (of_char c :: nat) in
     ascii_alnum c \<or> n = 95 \<or> n \<in> set [170, 178, 179, 181, 185, 186, 188, 189, 190] \<or>
     (192 \<le> n \<and> n \<noteq> 215 \<and> n \<noteq> 247))"

definition starts_nonword :: "string \<Rightarrow> bool" where
  "starts_nonword s = (case s of [] \<Rightarrow> True | c # _ \<Rightarrow> \<not> re_word_char c)"

definition mcp_markers :: "string list" where
  "mcp_markers =
     concat (map (\<lambda>sep. map (\<lambda>w. ''mcp'' @ sep @ w) [''server'', ''runtime'', ''proxy'', ''gateway'']) [''-'', ''_'']) @
     concat (map (\<lambda>sep. map (\<lambda>w. ''agent'' @ sep @ w) [''runtime'', ''engine'', ''server'']) [''-'', ''_''])"

text \<open>\<^verbatim>\<open>_MCP_SERVICE_RE.search\<close> on the lower-cased text; the flag says whether a word may start here.\<close>

fun mcp_service_re :: "bool \<Rightarrow> string \<Rightarrow> bool" where
  "mcp_service_re at_edge [] = False"
| "mcp_service_re at_edge (c # s) =
     (list_ex (\<lambda>m. is_prefix m (c # s)) mcp_markers \<or>
      (is_prefix ''modelcontextprotocol'' (c # s) \<and> starts_nonword (drop 20 (c # s))) \<or>
      (at_edge \<and> is_prefix ''mcp'' (c # s) \<and> starts_nonword (drop 3 (c # s))) \<or>
      mcp_service_re (\<not> re_word_char c) s)"

definition looks_like_mcp_service :: "agentic_workload \<Rightarrow> (sweep_exn, bool) res" where
  "looks_like_mcp_service wl =
     (if wl_kind wl = CLOUD_RUN_MCP then Inr True
      else bind_res (map_res (\<lambda>k. raised (py_str (ev_or (wl_enrichment wl) k (PStr []))))
                      [''image'', ''container_image'', ''labels'', ''service_name'', ''platform'']) (\<lambda>hints.
        Inr (mcp_service_re True
          (lower (wl_resource_id wl @ '' '' @ wl_display_name wl @ '' '' @ join_text '' '' hints)))))"

definition str_items :: "pyval \<Rightarrow> string list" where
  "str_items v = (case v of PList xs \<Rightarrow> concat (map (\<lambda>x. case x of PStr s \<Rightarrow> [s] | _ \<Rightarrow> []) xs) | _ \<Rightarrow> [])"

definition service_endpoint_hosts :: "agentic_workload \<Rightarrow> string list" where
  "service_endpoint_hosts wl =
     (let single = concat (map (\<lambda>k. case ev_get (wl_enrichment wl) k of PStr s \<Rightarrow> [s] | _ \<Rightarrow> [])
            [''service_url'', ''url'', ''uri'', ''endpoint'', ''endpoint_host'', ''default_host'', ''host'']);
          many = concat (map (\<lambda>k. str_items (ev_get (wl_enrichment wl) k)) [''custom_domains'', ''domains'', ''hosts''])
      in remdups (filter (\<lambda>h. h \<noteq> []) (map host_of (filter (\<lambda>s. s \<noteq> []) (single @ many)))))"

definition service_ips :: "agentic_workload \<Rightarrow> (sweep_exn, string list) res" where
  "service_ips wl =
     bind_res (map_res (\<lambda>k.
         map_res (\<lambda>v. bind_res (raised (py_str v)) (\<lambda>s. Inr (lower (py_strip s))))
           (case ev_get (wl_enrichment wl) k of PList xs \<Rightarrow> filter py_truth xs | _ \<Rightarrow> []))
       [''resolved_ips'', ''ips'', ''ingress_ips'']) (\<lambda>xss.
       Inr (remdups (filter (\<lambda>ip. ip \<noteq> []) (concat xss))))"

definition lstrip_char :: "char \<Rightarrow> string \<Rightarrow> string" where
  "lstrip_char c s = dropWhile (\<lambda>d. d = c) s"

definition is_sanctioned_domain :: "string \<Rightarrow> string list \<Rightarrow> bool" where
  "is_sanctioned_domain host suffixes =
     (let qn = lower (rstrip_char (CHR ''.'') (py_strip host)) in
      list_ex (\<lambda>s. qn = lower (lstrip_char (CHR ''.'') s) \<or> ends_with qn (lower s)) suffixes)"

definition default_sanctioned_mcp_suffixes :: "string list" where
  "default_sanctioned_mcp_suffixes = [''.run.app'', ''.internal'', ''.svc.cluster.local'', ''mcp.internal.company.com'']"

definition raw_values :: "dns_record \<Rightarrow> string list" where
  "raw_values rec = remdups (map (\<lambda>v. lower (py_strip v)) (dns_values rec))"

definition meet :: "string list \<Rightarrow> string list \<Rightarrow> string list" where
  "meet xs ys = filter (\<lambda>x. x \<in> set ys) xs"

definition references_service :: "string list \<Rightarrow> string list \<Rightarrow> dns_record \<Rightarrow> bool" where
  "references_service hosts ips rec =
     (meet (map host_of (dns_values rec)) hosts \<noteq> [] \<or> host_of (dns_name rec) \<in> set hosts \<or>
      meet (raw_values rec) ips \<noteq> [])"

definition mcp_finding ::
  "string list \<Rightarrow> agentic_workload \<Rightarrow> string list \<Rightarrow> dns_record \<Rightarrow> (sweep_exn, record_finding_request) res" where
  "mcp_finding suffixes wl ips rec =
     cloud_finding
       (codes (''Shadow MCP server: Cloud Run service '' @ display_of wl @ '' fronted by unsanctioned domain '' @ dns_name rec))
       (if wl_internet_reachable wl \<or> \<not> wl_governance_tagged wl then HIGH else MEDIUM)
       (percent 80) [''T1071.001'', ''T1567'', ''T1580'']
       [(''agentic_workload'', PStr (wl_resource_id wl)), (''cloud_identity'', PStr (wl_identity_ref wl)),
        (''domain'', PStr (dns_name rec))]
       ([(''domain'', PStr (dns_name rec)), (''cloud_resource_id'', PStr (wl_resource_id wl))] @
        map (\<lambda>v. (''ip'', PStr v)) (take 8 (meet (raw_values rec) ips)))
       [(PStr ''detection'', PStr ''shadow_mcp_correlation''), (PStr ''shadow_workload'', PBool True),
        (PStr ''service_resource_id'', PStr (wl_resource_id wl)),
        (PStr ''provider'', PStr (cloud_provider_value (wl_provider wl))),
        (PStr ''identity_ref'', PStr (wl_identity_ref wl)), (PStr ''governance_tagged'', PBool (wl_governance_tagged wl)),
        (PStr ''fronting_domain'', PStr (dns_name rec)), (PStr ''dns_record_type'', PStr (dns_record_type rec)),
        (PStr ''dns_record_values'', pstrs (take 8 (dns_values rec))),
        (PStr ''sanctioned_endpoint_suffixes'', pstrs suffixes)]"

type_synonym seen_pairs = "(string \<times> string) list"

fun scan_records ::
  "string list \<Rightarrow> agentic_workload \<Rightarrow> string list \<Rightarrow> string list \<Rightarrow> dns_record list \<Rightarrow> seen_pairs
     \<Rightarrow> (sweep_exn, record_finding_request list \<times> seen_pairs) res" where
  "scan_records suffixes wl hosts ips [] seen = Inr ([], seen)"
| "scan_records suffixes wl hosts ips (rec # recs) seen =
     (let name = host_of (dns_name rec) in
      if \<not> references_service hosts ips rec \<or> is_sanctioned_domain name suffixes \<or> (wl_resource_id wl, name) \<in> set seen
      then scan_records suffixes wl hosts ips recs seen
      else bind_res (mcp_finding suffixes wl ips rec) (\<lambda>f.
           bind_res (scan_records suffixes wl hosts ips recs (seen @ [(wl_resource_id wl, name)])) (\<lambda>(fs, seen').
             Inr (f # fs, seen'))))"

fun scan_services ::
  "string list \<Rightarrow> dns_record list \<Rightarrow> agentic_workload list \<Rightarrow> seen_pairs
     \<Rightarrow> (sweep_exn, record_finding_request list) res" where
  "scan_services suffixes recs [] seen = Inr []"
| "scan_services suffixes recs (wl # wls) seen =
     bind_res (looks_like_mcp_service wl) (\<lambda>mcp.
     if \<not> mcp then scan_services suffixes recs wls seen
     else bind_res (service_ips wl) (\<lambda>ips.
          bind_res (scan_records suffixes wl (service_endpoint_hosts wl) ips recs seen) (\<lambda>(fs, seen').
          bind_res (scan_services suffixes recs wls seen') (\<lambda>gs. Inr (fs @ gs)))))"

definition detect_shadow_mcp_servers ::
  "agentic_workload list \<Rightarrow> dns_record list \<Rightarrow> string list option \<Rightarrow> (sweep_exn, record_finding_request list) res" where
  "detect_shadow_mcp_servers services records suffixes =
     scan_services (case suffixes of None \<Rightarrow> default_sanctioned_mcp_suffixes
                    | Some ss \<Rightarrow> if ss = [] then default_sanctioned_mcp_suffixes else ss) records services []"

section \<open>All detections\<close>

record hunt_bundle =
  hb_identities :: "cloud_identity list"
  hb_workloads :: "agentic_workload list"
  hb_cloudtrail :: "evidence list"
  hb_resource_events :: "evidence list"
  hb_dns :: "dns_record list"
  hb_high_value :: "string list option"
  hb_trusted :: "string list option"

definition when_res :: "bool \<Rightarrow> ('e, 'a list) res \<Rightarrow> ('e, 'a list) res" where
  "when_res b r = (if b then r else Inr [])"

definition run_all_detections ::
  "(string \<Rightarrow> stamp option) \<Rightarrow> hunt_bundle \<Rightarrow> (sweep_exn, record_finding_request list) res" where
  "run_all_detections fromisoformat b =
     sweep id
       [when_res (hb_identities b \<noteq> []) (detect_sts_chaining (hb_identities b) (hb_high_value b) 2),
        when_res (hb_identities b \<noteq> []) (detect_cross_account_trust_abuse (hb_identities b) (hb_trusted b)),
        when_res (hb_cloudtrail b \<noteq> []) (detect_iam_persistence (hb_cloudtrail b)),
        when_res (hb_cloudtrail b \<noteq> []) (detect_cloudtrail_tamper fromisoformat 3600 (hb_cloudtrail b)),
        when_res (hb_resource_events b \<noteq> []) (detect_snapshot_external_share (hb_resource_events b) (hb_trusted b)),
        when_res (hb_workloads b \<noteq> []) (detect_shadow_workloads (hb_workloads b)),
        when_res (hb_workloads b \<noteq> []) (detect_overprivileged_workload_identity (hb_workloads b) (hb_identities b)),
        when_res (hb_workloads b \<noteq> [] \<and> hb_dns b \<noteq> []) (detect_shadow_mcp_servers (hb_workloads b) (hb_dns b) None)]"

section \<open>Lemmas\<close>

lemma map_res_Inl: "map_res f xs = Inl e \<Longrightarrow> \<exists>x \<in> set xs. f x = Inl e"
  by (induction xs) (auto simp: bind_res_eq_Inl)

lemma sweep_Inl: "sweep f xs = Inl e \<Longrightarrow> \<exists>x \<in> set xs. f x = Inl e"
  by (auto simp: sweep_def bind_res_eq_Inl dest: map_res_Inl)

lemma sweep_Nil [simp]: "sweep f [] = Inr []"
  by (simp add: sweep_def)

lemma sweep_Cons [simp]:
  "sweep f (x # xs) = bind_res (f x) (\<lambda>y. bind_res (sweep f xs) (\<lambda>ys. Inr (y @ ys)))"
  by (cases "f x"; cases "map_res f xs") (auto simp: sweep_def)

lemma map_res_set: "map_res f xs = Inr ys \<Longrightarrow> set ys = {y. \<exists>x \<in> set xs. f x = Inr y}"
  by (induction xs arbitrary: ys) auto

lemma sweep_set: "sweep f xs = Inr ys \<Longrightarrow> set ys = {y. \<exists>x \<in> set xs. \<exists>zs. f x = Inr zs \<and> y \<in> set zs}"
  by (induction xs arbitrary: ys) auto

lemma sweep_all: "sweep f xs = Inr ys \<Longrightarrow> x \<in> set xs \<Longrightarrow> \<exists>zs. f x = Inr zs"
  by (induction xs arbitrary: ys) auto

lemma map_res_all: "map_res f xs = Inr ys \<Longrightarrow> x \<in> set xs \<Longrightarrow> \<exists>y. f x = Inr y"
  by (induction xs arbitrary: ys) auto

lemma sweep_projr: "sweep f xs = Inr ys \<Longrightarrow> x \<in> set xs \<Longrightarrow> f x = Inr (projr (f x))"
  by (auto dest: sweep_all)

lemma sweep_iff:
  assumes "sweep f xs = Inr ys"
  shows "y \<in> set ys \<longleftrightarrow> (\<exists>x \<in> set xs. y \<in> set (projr (f x)))"
proof -
  have "(\<exists>zs. f x = Inr zs \<and> y \<in> set zs) \<longleftrightarrow> y \<in> set (projr (f x))" if "x \<in> set xs" for x
    using sweep_projr[OF assms that] by (cases "f x") auto
  then show ?thesis using sweep_set[OF assms] by auto
qed

lemma make_entity_Inl: "make_entity k v = Inl e \<Longrightarrow> e = ValidationError"
  by (auto simp: make_entity_def split: pyval.splits if_splits)

lemma make_observable_Inl: "make_observable k v = Inl e \<Longrightarrow> e = ValidationError"
  by (auto simp: make_observable_def split: pyval.splits if_splits)

lemma cloud_finding_Inl: "cloud_finding t s c te en ob ev = Inl e \<Longrightarrow> e = ValidationError"
  by (auto simp: cloud_finding_def make_request_def bind_res_eq_Inl split: if_splits
      dest!: map_res_Inl dest: make_entity_Inl make_observable_Inl)

lemma cloud_finding_Inr:
  "cloud_finding t s c te en ob ev = Inr f \<Longrightarrow>
     fp_title f = t \<and> fp_severity f = s \<and> fp_confidence f = c \<and> fp_technique_ids f = te \<and> fp_evidence f = ev \<and>
     fp_domain f = D_CLOUD \<and> fp_source f = S_CLOUD"
  by (auto simp: cloud_finding_def make_request_def split: if_splits)

section \<open>Role chaining is exact\<close>

text \<open>One hop: the second principal names the first among its trustees.\<close>

definition assumes_role :: "cloud_identity list \<Rightarrow> string \<Rightarrow> string \<Rightarrow> bool" where
  "assumes_role ids a b = list_ex (\<lambda>i. arn_or_id i = b \<and> a \<in> set (can_be_assumed_by i)) ids"

lemma can_assume_ids: "can_assume (map (\<lambda>i. (arn_or_id i, can_be_assumed_by i)) ids) = assumes_role ids"
  by (intro ext) (auto simp: can_assume_def assumes_role_def list_ex_iff)

text \<open>C16: The path search returns every simple chain of role assumptions from the source to the
  target within the hop bound, each once, and nothing else; the reachability search returns
  exactly the other principals a walk of at most so many hops leads to.
\<close>

theorem assumption_search_exact:
  "distinct (find_assumption_paths (build_trust_graph ids) source target d) \<and>
   set (find_assumption_paths (build_trust_graph ids) source target d) =
     {p. 2 \<le> length p \<and> length p \<le> Suc d \<and> hd p = source \<and> last p = target \<and> distinct p \<and>
         successively (assumes_role ids) p} \<and>
   set (transitive_reachable (build_trust_graph ids) source d) =
     {n. n \<noteq> source \<and> (\<exists>k \<le> d. (assumes_role ids ^^ k) source n)}"
  using find_assumption_paths_exact[of "map (\<lambda>i. (arn_or_id i, can_be_assumed_by i)) ids"]
    transitive_reachable_exact[of _ "map (\<lambda>i. (arn_or_id i, can_be_assumed_by i)) ids"]
  by (auto simp: build_trust_graph_def simple_chain_def can_assume_ids)

definition finding_path :: "record_finding_request \<Rightarrow> pyval" where
  "finding_path f = ev_get (fp_evidence f) ''path''"

lemma keys_build_trust_graph: "set (map fst (build_trust_graph ids)) = arn_or_id ` set ids"
  by (simp add: build_trust_graph_def build_graph_facts(2) image_image)

lemma chain_finding_path: "chain_finding ids s t p = Inr f \<Longrightarrow> finding_path f = pstrs p"
  by (auto simp: chain_finding_def Let_def finding_path_def ev_get_def dest!: cloud_finding_Inr)

lemma chain_finding_Inl: "chain_finding ids s t p = Inl e \<Longrightarrow> e = ValidationError"
  by (auto simp: chain_finding_def Let_def dest: cloud_finding_Inl)

definition reported_chain :: "cloud_identity list \<Rightarrow> string list \<Rightarrow> nat \<Rightarrow> string list \<Rightarrow> bool" where
  "reported_chain ids targets min_hops p \<longleftrightarrow>
     max 2 (Suc min_hops) \<le> length p \<and> length p \<le> Suc max_hop_depth \<and> distinct p \<and>
     hd p \<in> arn_or_id ` set ids \<and> last p \<in> set targets \<and> successively (assumes_role ids) p"

lemma hd_neq_last: "distinct p \<Longrightarrow> 2 \<le> length p \<Longrightarrow> hd p \<noteq> last p"
  by (cases p) auto

lemma sts_paths:
  assumes "detect_sts_chaining ids hvt min_hops = Inr fs"
    and targets: "targets = (case hvt of None \<Rightarrow> default_high_value (build_trust_graph ids) | Some ts \<Rightarrow> ts)"
  shows "finding_path ` set fs = pstrs ` {p. reported_chain ids targets min_hops p}"
proof -
  let ?g = "build_trust_graph ids"
  let ?paths = "\<lambda>s t. filter (\<lambda>p. length p \<ge> min_hops + 1) (find_assumption_paths ?g s t max_hop_depth)"
  let ?per = "\<lambda>t s. map_res (chain_finding ids s t) (?paths s t)"
  have det: "sweep (\<lambda>t. sweep (?per t) (filter (\<lambda>s. s \<noteq> t) (map fst ?g))) targets = Inr fs"
    using assms by (simp add: detect_sts_chaining_def Let_def)
  have chain_iff: "p \<in> set (?paths s t) \<longleftrightarrow> 2 \<le> length p \<and> Suc min_hops \<le> length p \<and> length p \<le> Suc max_hop_depth \<and>
      hd p = s \<and> last p = t \<and> distinct p \<and> successively (assumes_role ids) p" for p s t
    using find_assumption_paths_exact(1)[of "map (\<lambda>i. (arn_or_id i, can_be_assumed_by i)) ids" s t max_hop_depth]
    by (auto simp: build_trust_graph_def simple_chain_def can_assume_ids)
  have f_iff: "f \<in> set fs \<longleftrightarrow> (\<exists>t \<in> set targets. \<exists>s \<in> arn_or_id ` set ids. s \<noteq> t \<and>
      (\<exists>p \<in> set (?paths s t). chain_finding ids s t p = Inr f))" for f
  proof -
    let ?ss = "\<lambda>t. filter (\<lambda>s. s \<noteq> t) (map fst ?g)"
    have per_t: "sweep (?per t) (?ss t) = Inr (projr (sweep (?per t) (?ss t)))" if "t \<in> set targets" for t
      using sweep_projr[OF det that] .
    have per_s: "?per t s = Inr (projr (?per t s))" if "t \<in> set targets" "s \<in> set (?ss t)" for t s
      using sweep_projr[OF per_t[OF that(1)] that(2)] .
    have inner: "f \<in> set (projr (?per t s)) \<longleftrightarrow> (\<exists>p \<in> set (?paths s t). chain_finding ids s t p = Inr f)"
      if "t \<in> set targets" "s \<in> set (?ss t)" for t s
      using map_res_set[OF per_s[OF that]] by auto
    have "f \<in> set fs \<longleftrightarrow> (\<exists>t \<in> set targets. f \<in> set (projr (sweep (?per t) (?ss t))))"
      by (rule sweep_iff[OF det])
    also have "\<dots> \<longleftrightarrow> (\<exists>t \<in> set targets. \<exists>s \<in> set (?ss t). f \<in> set (projr (?per t s)))"
      by (intro bex_cong refl sweep_iff per_t)
    also have "\<dots> \<longleftrightarrow> (\<exists>t \<in> set targets. \<exists>s \<in> set (?ss t). \<exists>p \<in> set (?paths s t). chain_finding ids s t p = Inr f)"
      by (intro bex_cong refl inner)
    also have "\<dots> \<longleftrightarrow> (\<exists>t \<in> set targets. \<exists>s \<in> set (map fst ?g). s \<noteq> t \<and>
        (\<exists>p \<in> set (?paths s t). chain_finding ids s t p = Inr f))"
      by auto
    finally show ?thesis unfolding keys_build_trust_graph .
  qed
  show ?thesis
  proof (intro subset_antisym subsetI)
    fix v assume "v \<in> finding_path ` set fs"
    then obtain f where vf: "v = finding_path f" "f \<in> set fs" by blast
    from f_iff[of f] vf obtain t s p where f: "v = finding_path f" "t \<in> set targets" "s \<in> arn_or_id ` set ids"
      "p \<in> set (?paths s t)" "chain_finding ids s t p = Inr f"
      by blast
    then have "v = pstrs p" by (simp add: chain_finding_path)
    moreover have "reported_chain ids targets min_hops p"
      using f chain_iff[of p s t] by (auto simp: reported_chain_def)
    ultimately show "v \<in> pstrs ` {p. reported_chain ids targets min_hops p}" by blast
  next
    fix v assume "v \<in> pstrs ` {p. reported_chain ids targets min_hops p}"
    then obtain p where p: "v = pstrs p" "reported_chain ids targets min_hops p" by auto
    then have "hd p \<noteq> last p" by (intro hd_neq_last) (auto simp: reported_chain_def)
    moreover have "p \<in> set (?paths (hd p) (last p))"
      unfolding chain_iff using p(2) by (auto simp: reported_chain_def)
    moreover have "last p \<in> set targets" "hd p \<in> arn_or_id ` set ids" using p(2) by (auto simp: reported_chain_def)
    moreover have "\<exists>f. chain_finding ids (hd p) (last p) p = Inr f"
    proof -
      obtain zs where "sweep (?per (last p)) (filter (\<lambda>s. s \<noteq> last p) (map fst ?g)) = Inr zs"
        using sweep_all[OF det] \<open>last p \<in> set targets\<close> by blast
      moreover have "hd p \<in> set (filter (\<lambda>s. s \<noteq> last p) (map fst ?g))"
        using \<open>hd p \<noteq> last p\<close> \<open>hd p \<in> arn_or_id ` set ids\<close> by (simp add: keys_build_trust_graph flip: set_map)
      ultimately obtain zs' where "?per (last p) (hd p) = Inr zs'" by (blast dest: sweep_all)
      then show ?thesis using \<open>p \<in> set (?paths (hd p) (last p))\<close> by (rule map_res_all)
    qed
    ultimately obtain f where "f \<in> set fs" "finding_path f = pstrs p"
      using f_iff by (blast dest: chain_finding_path)
    then show "v \<in> finding_path ` set fs" using p(1) by force
  qed
qed

lemma sts_Inl:
  assumes "detect_sts_chaining ids hvt min_hops = Inl e"
  shows "e = ValidationError"
  using assms by (auto simp: detect_sts_chaining_def Let_def dest!: sweep_Inl map_res_Inl chain_finding_Inl)

text \<open>The role-chaining detection either raises ValidationError or reports exactly the simple
  chains of role assumptions that start at an identity of the inventory, end at a high-value
  target, have at least the wanted and at most ten hops.
\<close>

theorem sts_chaining_reports:
  "case detect_sts_chaining ids high_value min_hops of
     Inl e \<Rightarrow> e = ValidationError
   | Inr fs \<Rightarrow> finding_path ` set fs = pstrs ` {p. reported_chain ids
        (case high_value of None \<Rightarrow> default_high_value (build_trust_graph ids) | Some ts \<Rightarrow> ts) min_hops p}"
  using sts_Inl sts_paths[OF _ refl] by (auto split: sum.split)

section \<open>Workload risk\<close>

definition risk_of :: "bool \<Rightarrow> bool \<Rightarrow> bool \<Rightarrow> bool \<Rightarrow> pyfloat" where
  "risk_of shadow over internet dormant =
     (let s = add_if dormant no_activity_weight (add_if internet internet_weight
                (add_if over overprivilege_weight (add_if shadow shadow_weight (Fin 0 0))))
      in if fless (Fin 1 0) s then Fin 1 0 else s)"

lemma score_risk_of:
  "score_workload_risk wl = risk_of (classify_workload wl \<or> wl_is_shadow wl) (wl_overprivileged wl)
     (wl_internet_reachable wl) (wl_last_activity wl = None)"
  by (simp add: score_workload_risk_def risk_of_def Let_def)

text \<open>\<^const>\<open>round_ratio\<close> on a positive ratio below one, with its intermediate values named.\<close>

lemma round_ratio_pos:
  assumes "0 < n" "e0 = int (bitlen (nat n)) - int (bitlen (nat d))"
    and "l = (if n * pow2 (- e0) \<ge> d * pow2 e0 then e0 else e0 - 1)" "e = max (l - 52) (- 1074)"
    and "q = round_half_even (n * pow2 (- e)) (d * pow2 e)" "0 < q" "e < 0" "f = norm_float q e"
  shows "round_ratio n d = f"
  unfolding round_ratio_def Let_def abs_of_pos[OF assms(1)] assms(2-5)[symmetric]
  using assms(1,6,7,8) by simp

lemmas float_eval = bitlen.simps pow2_def round_half_even_def Let_def norm_float.simps

lemma percent_40: "percent 40 = Fin 3602879701896397 (- 53)"
  unfolding percent_def
  by (rule round_ratio_pos[of _ "- 1" _ "- 2" "- 54" "7205759403792794"]; simp add: float_eval)

lemma percent_30: "percent 30 = Fin 5404319552844595 (- 54)"
  unfolding percent_def
  by (rule round_ratio_pos[of _ "- 2" _ "- 2" "- 54" "5404319552844595"]; simp add: float_eval)

lemma percent_20: "percent 20 = Fin 3602879701896397 (- 54)"
  unfolding percent_def
  by (rule round_ratio_pos[of _ "- 2" _ "- 3" "- 55" "7205759403792794"]; simp add: float_eval)

lemma percent_10: "percent 10 = Fin 3602879701896397 (- 55)"
  unfolding percent_def
  by (rule round_ratio_pos[of _ "- 3" _ "- 4" "- 56" "7205759403792794"]; simp add: float_eval)

lemma percent_80: "percent 80 = Fin 3602879701896397 (- 52)"
  unfolding percent_def
  by (rule round_ratio_pos[of _ "0" _ "- 1" "- 53" "7205759403792794"]; simp add: float_eval)

lemma percent_85: "percent 85 = Fin 7656119366529843 (- 53)"
  unfolding percent_def
  by (rule round_ratio_pos[of _ "0" _ "- 1" "- 53" "7656119366529843"]; simp add: float_eval)

lemma percent_50: "percent 50 = Fin 1 (- 1)"
  unfolding percent_def
  by (rule round_ratio_pos[of _ "- 1" _ "- 1" "- 53" "4503599627370496"]; simp add: float_eval)

lemma risk_sum_1: "fadd (Fin 0 0) (Fin 3602879701896397 (- 53)) = Fin 3602879701896397 (- 53)"
proof -
  have "round_ratio 3602879701896397 9007199254740992 = Fin 3602879701896397 (- 53)"
    by (rule round_ratio_pos[of _ "- 2" _ "- 2" "- 54" "7205759403792794"]; simp add: float_eval)
  then show ?thesis by (simp add: pow2_def)
qed

lemma risk_sum_2: "fadd (Fin 0 0) (Fin 5404319552844595 (- 54)) = Fin 5404319552844595 (- 54)"
proof -
  have "round_ratio 5404319552844595 18014398509481984 = Fin 5404319552844595 (- 54)"
    by (rule round_ratio_pos[of _ "- 2" _ "- 2" "- 54" "5404319552844595"]; simp add: float_eval)
  then show ?thesis by (simp add: pow2_def)
qed

lemma risk_sum_3: "fadd (Fin 3602879701896397 (- 53)) (Fin 5404319552844595 (- 54)) = Fin 3152519739159347 (- 52)"
proof -
  have "round_ratio 113581493780449356175544458149888 162259276829213363391578010288128 = Fin 3152519739159347 (- 52)"
    by (rule round_ratio_pos[of _ "- 1" _ "- 1" "- 53" "6305039478318694"]; simp add: float_eval)
  then show ?thesis by (simp add: pow2_def)
qed

lemma risk_sum_4: "fadd (Fin 0 0) (Fin 3602879701896397 (- 54)) = Fin 3602879701896397 (- 54)"
proof -
  have "round_ratio 3602879701896397 18014398509481984 = Fin 3602879701896397 (- 54)"
    by (rule round_ratio_pos[of _ "- 3" _ "- 3" "- 55" "7205759403792794"]; simp add: float_eval)
  then show ?thesis by (simp add: pow2_def)
qed

lemma risk_sum_5: "fadd (Fin 5404319552844595 (- 54)) (Fin 3602879701896397 (- 54)) = Fin 1 (- 1)"
proof -
  have "round_ratio 162259276829213363391578010288128 324518553658426726783156020576256 = Fin 1 (- 1)"
    by (rule round_ratio_pos[of _ "- 1" _ "- 1" "- 53" "4503599627370496"]; simp add: float_eval)
  then show ?thesis by (simp add: pow2_def)
qed

lemma risk_sum_6: "fadd (Fin 3602879701896397 (- 53)) (Fin 3602879701896397 (- 54)) = Fin 1351079888211149 (- 51)"
proof -
  have "round_ratio 97355566097528023439266359017472 162259276829213363391578010288128 = Fin 1351079888211149 (- 51)"
    by (rule round_ratio_pos[of _ "- 1" _ "- 1" "- 53" "5404319552844596"]; simp add: float_eval)
  then show ?thesis by (simp add: pow2_def)
qed

lemma risk_sum_7: "fadd (Fin 3152519739159347 (- 52)) (Fin 3602879701896397 (- 54)) = Fin 2026619832316723 (- 51)"
proof -
  have "round_ratio 73016674573146010824050328207360 81129638414606681695789005144064 = Fin 2026619832316723 (- 51)"
    by (rule round_ratio_pos[of _ "- 1" _ "- 1" "- 53" "8106479329266892"]; simp add: float_eval)
  then show ?thesis by (simp add: pow2_def)
qed

lemma risk_sum_8: "fadd (Fin 0 0) (Fin 3602879701896397 (- 55)) = Fin 3602879701896397 (- 55)"
proof -
  have "round_ratio 3602879701896397 36028797018963968 = Fin 3602879701896397 (- 55)"
    by (rule round_ratio_pos[of _ "- 4" _ "- 4" "- 56" "7205759403792794"]; simp add: float_eval)
  then show ?thesis by (simp add: pow2_def)
qed

lemma risk_sum_9: "fadd (Fin 3602879701896397 (- 54)) (Fin 3602879701896397 (- 55)) = Fin 1351079888211149 (- 52)"
proof -
  have "round_ratio 194711132195056046878532718034944 649037107316853453566312041152512 = Fin 1351079888211149 (- 52)"
    by (rule round_ratio_pos[of _ "- 2" _ "- 2" "- 54" "5404319552844596"]; simp add: float_eval)
  then show ?thesis by (simp add: pow2_def)
qed

lemma risk_sum_10: "fadd (Fin 5404319552844595 (- 54)) (Fin 3602879701896397 (- 55)) = Fin 3602879701896397 (- 53)"
proof -
  have "round_ratio 259614842926741377823645114564608 649037107316853453566312041152512 = Fin 3602879701896397 (- 53)"
    by (rule round_ratio_pos[of _ "- 2" _ "- 2" "- 54" "7205759403792794"]; simp add: float_eval)
  then show ?thesis by (simp add: pow2_def)
qed

lemma risk_sum_11: "fadd (Fin 3602879701896397 (- 53)) (Fin 3602879701896397 (- 55)) = Fin 1 (- 1)"
proof -
  have "round_ratio 162259276829213372398777265029120 324518553658426726783156020576256 = Fin 1 (- 1)"
    by (rule round_ratio_pos[of _ "- 1" _ "- 1" "- 53" "4503599627370496"]; simp add: float_eval)
  then show ?thesis by (simp add: pow2_def)
qed

lemma risk_sum_12: "fadd (Fin 1 (- 1)) (Fin 3602879701896397 (- 55)) = Fin 5404319552844595 (- 53)"
proof -
  have "round_ratio 43234556422756762 72057594037927936 = Fin 5404319552844595 (- 53)"
    by (rule round_ratio_pos[of _ "- 1" _ "- 1" "- 53" "5404319552844595"]; simp add: float_eval)
  then show ?thesis by (simp add: pow2_def)
qed

lemma risk_sum_13: "fadd (Fin 1351079888211149 (- 51)) (Fin 3602879701896397 (- 55)) = Fin 6305039478318695 (- 53)"
proof -
  have "round_ratio 56790746890224684843171670130688 81129638414606681695789005144064 = Fin 6305039478318695 (- 53)"
    by (rule round_ratio_pos[of _ "- 1" _ "- 1" "- 53" "6305039478318695"]; simp add: float_eval)
  then show ?thesis by (simp add: pow2_def)
qed

lemma risk_sum_14: "fadd (Fin 3152519739159347 (- 52)) (Fin 3602879701896397 (- 55)) = Fin 7205759403792793 (- 53)"
proof -
  have "round_ratio 129807421463370684408222929911808 162259276829213363391578010288128 = Fin 7205759403792793 (- 53)"
    by (rule round_ratio_pos[of _ "- 1" _ "- 1" "- 53" "7205759403792793"]; simp add: float_eval)
  then show ?thesis by (simp add: pow2_def)
qed

lemma risk_sum_15: "fadd (Fin 2026619832316723 (- 51)) (Fin 3602879701896397 (- 55)) = Fin 9007199254740991 (- 53)"
proof -
  have "round_ratio 81129638414606674940389564088320 81129638414606681695789005144064 = Fin 9007199254740991 (- 53)"
    by (rule round_ratio_pos[of _ "- 1" _ "- 1" "- 53" "9007199254740991"]; simp add: float_eval)
  then show ?thesis by (simp add: pow2_def)
qed

lemmas percents = percent_40 percent_30 percent_20 percent_10 percent_80 percent_50 percent_85

lemmas risk_sums = risk_sum_1 risk_sum_2 risk_sum_3 risk_sum_4 risk_sum_5 risk_sum_6 risk_sum_7 risk_sum_8 risk_sum_9 risk_sum_10 risk_sum_11 risk_sum_12 risk_sum_13 risk_sum_14 risk_sum_15


definition flag_rows :: "(bool \<times> bool \<times> bool \<times> bool) list" where
  "flag_rows = (let bs = [True, False] in
     concat (map (\<lambda>a. concat (map (\<lambda>b. concat (map (\<lambda>c. map (\<lambda>d. (a, b, c, d)) bs) bs)) bs)) bs))"

lemma in_flag_rows: "(a, b, c, d) \<in> set flag_rows"
  by (cases a; cases b; cases c; cases d) (simp_all add: flag_rows_def Let_def)

definition expected_severity :: "bool \<Rightarrow> bool \<Rightarrow> bool \<Rightarrow> bool \<Rightarrow> severity" where
  "expected_severity shadow over internet dormant =
     (if shadow then (if over \<and> internet then CRITICAL else if over \<or> internet \<or> dormant then HIGH else MEDIUM)
      else if over \<and> internet then HIGH else MEDIUM)"

lemma risk_rows:
  "list_all (\<lambda>(a, b, c, d). shadow_severity (risk_of a b c d) = expected_severity a b c d \<and>
     float_ge (risk_of a b c d) (Fin 0 0) \<and> float_ge (Fin 1 0) (risk_of a b c d)) flag_rows"
  by (simp add: flag_rows_def Let_def risk_of_def add_if_def shadow_weight_def overprivilege_weight_def
      internet_weight_def no_activity_weight_def percents risk_sums shadow_severity_def expected_severity_def
      float_ge_def feq_def pow2_def del: fadd.simps)

lemma risk_row:
  "shadow_severity (risk_of a b c d) = expected_severity a b c d \<and>
   float_ge (risk_of a b c d) (Fin 0 0) \<and> float_ge (Fin 1 0) (risk_of a b c d)"
  using risk_rows in_flag_rows[of a b c d] by (auto simp: list_all_iff)

text \<open>The risk score lies between 0 and 1, and the severity is a function of the flags.  The table is
  what the code computes; where it departs from the documented weights is the theorem after it.\<close>

theorem workload_risk_bounds:
  "float_ge (score_workload_risk wl) (Fin 0 0) \<and> float_ge (Fin 1 0) (score_workload_risk wl) \<and>
   shadow_severity (score_workload_risk wl) =
     expected_severity (classify_workload wl \<or> wl_is_shadow wl) (wl_overprivileged wl)
       (wl_internet_reachable wl) (wl_last_activity wl = None)"
  unfolding score_risk_of using risk_row by blast

text \<open>A dormant over-privileged shadow workload scores 0.4 + 0.3 + 0.1; the float sum is
  7205759403792793 / 2^53, below the critical threshold of 0.8, so it is reported as high.
\<close>

theorem critical_workload_rounded_down:
  "score_workload_risk (wl\<lparr>wl_governance_tagged := False, wl_overprivileged := True,
     wl_internet_reachable := False, wl_last_activity := None\<rparr>) = Fin 7205759403792793 (- 53) \<and>
   shadow_severity (Fin 7205759403792793 (- 53)) = HIGH \<and> shadow_severity (percent 80) = CRITICAL \<and>
   (7205759403792793 :: int) * 10 < 8 * 2 ^ 53"
proof -
  have "risk_of True True False True = Fin 7205759403792793 (- 53)"
    by (simp add: risk_of_def Let_def add_if_def shadow_weight_def overprivilege_weight_def
      internet_weight_def no_activity_weight_def percents risk_sums pow2_def del: fadd.simps)
  moreover have "shadow_severity (percent 80) = CRITICAL" "shadow_severity (Fin 7205759403792793 (- 53)) = HIGH"
    by (simp_all add: shadow_severity_def percents float_ge_def feq_def pow2_def)
  ultimately show ?thesis by (simp add: score_risk_of classify_workload_def)
qed

section \<open>Where a sweep ends early\<close>

definition ident :: "string \<Rightarrow> string list \<Rightarrow> cloud_identity" where
  "ident arn trustees = \<lparr>ci_provider = P_AWS, arn_or_id = arn, ci_display_name = [], can_be_assumed_by = trustees,
     has_cross_account_trust = False\<rparr>"

lemma sweep_stops: "f x = Inl e \<Longrightarrow> \<exists>e'. sweep f (xs @ x # ys) = Inl e'"
  by (induction xs) (auto simp: bind_res_def split: sum.splits)

text \<open>One CloudTrail event with a null where the code expects an object or a string ends the
  whole detection with an exception, whatever events surround it: a null ARN, a null list of
  added accounts, a null user identity of a login before a tampering event.
\<close>

theorem malformed_event_ends_sweep:
  "(\<exists>e. detect_iam_persistence (xs @ [(PStr ''eventName'', PStr ''CreateAccessKey''),
      (PStr ''userIdentity'', PDict [(PStr ''arn'', PNone)])] # ys) = Inl e) \<and>
   (\<exists>e. detect_snapshot_external_share (xs @ [(PStr ''eventName'', PStr ''ModifyDBSnapshotAttribute''),
      (PStr ''requestParameters'', PDict [(PStr ''valuesToAdd'', PNone)])] # ys) trusted = Inl e) \<and>
   detect_cloudtrail_tamper (\<lambda>s. Some (True, if s = ''1'' then 1 else 2)) 3600
     [[(PStr ''eventName'', PStr ''ConsoleLogin''), (PStr ''eventTime'', PStr ''1''), (PStr ''userIdentity'', PNone),
       (PStr ''additionalEventData'', PDict [(PStr ''MFAUsed'', PStr ''No'')])],
      [(PStr ''eventName'', PStr ''StopLogging''), (PStr ''eventTime'', PStr ''2'')]] = Inl AttributeErr"
proof (intro conjI)
  have "persistence_of [(PStr ''eventName'', PStr ''CreateAccessKey''),
      (PStr ''userIdentity'', PDict [(PStr ''arn'', PNone)])] = Inl ValidationError" by code_simp
  then show "\<exists>e. detect_iam_persistence (xs @ [(PStr ''eventName'', PStr ''CreateAccessKey''),
      (PStr ''userIdentity'', PDict [(PStr ''arn'', PNone)])] # ys) = Inl e"
    unfolding detect_iam_persistence_def by (rule sweep_stops)
  have "snapshot_share_of (case trusted of None \<Rightarrow> [] | Some ts \<Rightarrow> ts) [(PStr ''eventName'', PStr ''ModifyDBSnapshotAttribute''),
      (PStr ''requestParameters'', PDict [(PStr ''valuesToAdd'', PNone)])] = Inl (PyRaised TypeErr)"
    by (simp add: snapshot_share_of_def ev_or_def ev_get_def in_names_def share_events_def sub_dict_def as_dict_def
        py_or_def added_permissions_def added_items_def raised_def)
  then show "\<exists>e. detect_snapshot_external_share (xs @ [(PStr ''eventName'', PStr ''ModifyDBSnapshotAttribute''),
      (PStr ''requestParameters'', PDict [(PStr ''valuesToAdd'', PNone)])] # ys) trusted = Inl e"
    unfolding detect_snapshot_external_share_def by (rule sweep_stops)
qed code_simp

text \<open>A chain between two valid identities whose names are long ends the whole sweep, since the
  title of its finding is over its limit; and a chain that starts at a principal outside the
  inventory is not reported.
\<close>

theorem chains_not_reported:
  "detect_sts_chaining [ident (replicate 150 (CHR ''a'')) [''mid''], ident ''mid'' [replicate 150 (CHR ''b'')],
      ident (replicate 150 (CHR ''b'')) []] (Some [replicate 150 (CHR ''a'')]) 2 = Inl ValidationError \<and>
   detect_sts_chaining [ident ''admin'' [''mid''], ident ''mid'' [''outside'']] None 2 = Inr [] \<and>
   assumes_role [ident ''admin'' [''mid''], ident ''mid'' [''outside'']] ''outside'' ''mid'' \<and>
   assumes_role [ident ''admin'' [''mid''], ident ''mid'' [''outside'']] ''mid'' ''admin''"
  by (intro conjI; code_simp)

text \<open>An allowlisted suffix that does not begin with a dot also covers other domains that end in
  the same text: a shadow server fronted by such a domain is not reported.
\<close>

theorem sanctioned_suffix_overmatches:
  "is_sanctioned_domain ''evilcorp.com'' [''corp.com''] \<and>
   is_sanctioned_domain ''evilmcp.internal.company.com'' default_sanctioned_mcp_suffixes"
  by code_simp

end
