(* ===== verification/CloudContain.thy ===== *)
theory CloudContain
  imports CloudHunt
begin

text \<open>
  The bridge from cloud findings to containment (the last part of
  shared/btagent_shared/hunt/cloud.py, the proposal types of types/cloud_hunt.py): inert
  proposals built from promoted findings, merged by verb, provider and target.  The evidence of
  a stored finding is JSON of any shape.  The rationale is kept as its sorted titles.
\<close>

section \<open>Proposals\<close>

datatype cloud_verb = REVOKE_ROLE | FREEZE_ACCESS_KEY | DETACH_POLICY

fun verb_value :: "cloud_verb \<Rightarrow> string" where
  "verb_value REVOKE_ROLE = ''revoke_role''"
| "verb_value FREEZE_ACCESS_KEY = ''freeze_access_key''"
| "verb_value DETACH_POLICY = ''detach_policy''"

record proposed_action =
  pa_verb :: cloud_verb
  pa_provider :: cloud_provider
  pa_target :: string
  pa_description :: title_text
  pa_parameters :: evidence

record cloud_action = proposed_action +
  ca_id :: string
  ca_connector :: string
  ca_source_finding_ids :: "string list"

record cloud_proposal =
  cp_actions :: "cloud_action list"
  cp_titles :: "title_text list"

definition iam_containment_detections :: "string list" where
  "iam_containment_detections = [''sts_chaining'', ''iam_persistence'', ''cross_account_trust_abuse'']"

fun containment_connector :: "cloud_provider \<Rightarrow> string" where
  "containment_connector P_AWS = ''aws_iam''"
| "containment_connector P_GCP = ''gcp_iam''"
| "containment_connector P_AZURE = ''azure_iam''"

definition persistence_event_actions :: "(string \<times> cloud_verb) list" where
  "persistence_event_actions =
     [(''CreateAccessKey'', FREEZE_ACCESS_KEY), (''PutUserPolicy'', DETACH_POLICY),
      (''PutRolePolicy'', DETACH_POLICY), (''UpdateAssumeRolePolicy'', REVOKE_ROLE)]"

text \<open>\<^verbatim>\<open>^arn:[^:]*:[^:]*:[^:]*:(\d{4,}):\<close> on the stripped text.\<close>

definition account_of :: "string \<Rightarrow> string" where
  "account_of arn =
     (let parts = split_on (CHR '':'') (py_strip arn) in
      if length parts \<ge> 6 \<and> parts ! 0 = ''arn'' \<and> length (parts ! 4) \<ge> 4 \<and> list_all ascii_digit (parts ! 4)
      then parts ! 4 else [])"

definition iam_arn :: "string \<Rightarrow> string \<Rightarrow> string \<Rightarrow> string" where
  "iam_arn actor resource_type name =
     (let account = account_of actor in
      if account = [] \<or> name = [] \<or> name = ''unknown'' then name
      else ''arn:aws:iam::'' @ account @ '':'' @ resource_type @ ''/'' @ name)"

definition containment_provider_of :: "evidence \<Rightarrow> cloud_provider" where
  "containment_provider_of ev =
     (case get_str ev ''provider'' of
        Some (PStr s) \<Rightarrow>
          (case enum_of_string [P_AWS, P_GCP, P_AZURE] cloud_provider_value s of Some p \<Rightarrow> p | None \<Rightarrow> P_AWS)
      | _ \<Rightarrow> P_AWS)"

definition items_of :: "evidence \<Rightarrow> string \<Rightarrow> (sweep_exn, pyval list) res" where
  "items_of ev k = raised (py_iter (py_or (ev_get ev k) (PList [])))"

definition strings_of :: "pyval list \<Rightarrow> string list" where
  "strings_of xs = concat (map (\<lambda>x. case x of PStr s \<Rightarrow> [s] | _ \<Rightarrow> []) xs)"

definition sts_chaining_actions :: "evidence \<Rightarrow> cloud_provider \<Rightarrow> (sweep_exn, proposed_action list) res" where
  "sts_chaining_actions ev provider =
     bind_res (items_of ev ''path'') (\<lambda>items.
       let target = ev_get ev ''high_value_target'' in
       map_res (\<lambda>hop. bind_res (raised (py_str (py_or target (PStr ''a high-value role'')))) (\<lambda>t.
           Inr \<lparr>pa_verb = REVOKE_ROLE, pa_provider = provider, pa_target = hop,
                pa_description = codes (''Revoke active sessions for '' @ hop) @ [32, 8212, 32] @
                  codes (''a hop on the assume-role chain reaching '' @ t @ ''.''),
                pa_parameters = [(PStr ''reason'', PStr ''sts_chaining''),
                  (PStr ''high_value_target'', py_or target (PStr [])), (PStr ''hop_count'', ev_get ev ''hop_count'')]\<rparr>))
         (filter (\<lambda>hop. PStr hop \<noteq> target) (filter (\<lambda>s. s \<noteq> []) (strings_of items))))"

definition cross_account_actions :: "evidence \<Rightarrow> cloud_provider \<Rightarrow> (sweep_exn, proposed_action list) res" where
  "cross_account_actions ev provider =
     (case ev_get ev ''identity_arn'' of
        PStr arn \<Rightarrow>
          if arn = [] then Inr [] else
          bind_res (items_of ev ''external_trustees'') (\<lambda>items.
            let trustees = strings_of items in
            Inr [\<lparr>pa_verb = REVOKE_ROLE, pa_provider = provider, pa_target = arn,
                  pa_description = codes (''Revoke '' @ arn @ '' and strip the trust entries for '' @
                    nat_digits (length trustees) @ '' unapproved external principal(s).''),
                  pa_parameters = [(PStr ''reason'', PStr ''cross_account_trust_abuse''),
                    (PStr ''external_trustees'', pstrs (take 20 trustees))]\<rparr>])
      | _ \<Rightarrow> Inr [])"

definition named_target :: "string \<Rightarrow> evidence \<Rightarrow> string option" where
  "named_target actor params =
     (case ev_get params ''roleName'' of
        PStr (c # cs) \<Rightarrow> Some (iam_arn actor ''role'' (c # cs))
      | _ \<Rightarrow> (case ev_get params ''userName'' of
                PStr (c # cs) \<Rightarrow> Some (iam_arn actor ''user'' (c # cs))
              | _ \<Rightarrow> None))"

definition persistence_detail ::
  "cloud_verb \<Rightarrow> string \<Rightarrow> evidence \<Rightarrow> string \<Rightarrow> (sweep_exn, title_text \<times> evidence) res" where
  "persistence_detail verb event_name params target =
     (let base = [(PStr ''reason'', PStr ''iam_persistence''), (PStr ''event_name'', PStr event_name)] in
      case verb of
        DETACH_POLICY \<Rightarrow>
          (let name = py_or (ev_get params ''policyName'') (PStr []) in
           bind_res (raised (py_repr (py_or name (PStr ''(unnamed)'')))) (\<lambda>r.
             Inr (codes (''Detach inline policy '' @ r @ '' added to '' @ target @ '' by '' @ event_name @ ''.''),
                  base @ [(PStr ''policy_name'', name)])))
      | FREEZE_ACCESS_KEY \<Rightarrow>
          Inr (codes (''Freeze the access key minted for '' @ target @ '' by '' @ event_name @
                 '' (long-lived credential persistence).''),
               base @ [(PStr ''user_name'', py_or (ev_get params ''userName'') (PStr []))])
      | REVOKE_ROLE \<Rightarrow>
          Inr (codes (''Revoke '' @ target) @ [32, 8212, 32] @
               codes (''its assume-role trust policy was mutated by '' @ event_name @ ''.''), base))"

definition first_identity :: "('a) record_finding_request_scheme \<Rightarrow> string" where
  "first_identity f = (case find (\<lambda>e. en_kind e = ''cloud_identity'') (fp_entities f) of None \<Rightarrow> [] | Some e \<Rightarrow> en_value e)"

definition iam_persistence_actions ::
  "('a) record_finding_request_scheme \<Rightarrow> cloud_provider \<Rightarrow> (sweep_exn, proposed_action list) res" where
  "iam_persistence_actions f provider =
     (let ev = fp_evidence f in
      bind_res (raised (py_str (py_or (ev_get ev ''event_name'') (PStr [])))) (\<lambda>event_name.
      case map_of persistence_event_actions event_name of
        None \<Rightarrow> Inr []
      | Some verb \<Rightarrow>
          (let params = (case py_or (ev_get ev ''request_parameters'') (PDict []) of PDict d \<Rightarrow> d | _ \<Rightarrow> []) in
           case named_target (first_identity f) params of
             None \<Rightarrow> Inr []
           | Some target \<Rightarrow>
               bind_res (persistence_detail verb event_name params target) (\<lambda>(description, detail).
                 Inr [\<lparr>pa_verb = verb, pa_provider = provider, pa_target = target,
                       pa_description = description, pa_parameters = detail\<rparr>]))))"

definition actions_for_finding ::
  "('a) record_finding_request_scheme \<Rightarrow> (sweep_exn, proposed_action list) res" where
  "actions_for_finding f =
     (let ev = fp_evidence f; detection = ev_get ev ''detection''; provider = containment_provider_of ev in
      if detection = PStr ''sts_chaining'' then sts_chaining_actions ev provider
      else if detection = PStr ''cross_account_trust_abuse'' then cross_account_actions ev provider
      else if detection = PStr ''iam_persistence'' then iam_persistence_actions f provider
      else Inr [])"

section \<open>Merging\<close>

type_synonym verb_key = "string \<times> string \<times> string"

definition key_of :: "('a) proposed_action_scheme \<Rightarrow> verb_key" where
  "key_of a = (verb_value (pa_verb a), cloud_provider_value (pa_provider a), pa_target a)"

text \<open>\<^verbatim>\<open>CloudContainmentAction(...)\<close> validates the target and the description.\<close>

definition make_cloud_action :: "string \<Rightarrow> proposed_action \<Rightarrow> (sweep_exn, cloud_action) res" where
  "make_cloud_action fid a =
     (if within 1 512 (pa_target a) \<and> length (pa_description a) \<le> 2048
      then Inr (proposed_action.extend a \<lparr>ca_id = ''cca_0'', ca_connector = containment_connector (pa_provider a),
                  ca_source_finding_ids = [fid]\<rparr>)
      else Inl ValidationError)"

type_synonym merged_actions = "(verb_key \<times> cloud_action) list"

definition merge_action :: "string \<Rightarrow> merged_actions \<Rightarrow> proposed_action \<Rightarrow> (sweep_exn, merged_actions) res" where
  "merge_action fid merged a =
     (case map_of merged (key_of a) of
        None \<Rightarrow> bind_res (make_cloud_action fid a) (\<lambda>c. Inr (merged @ [(key_of a, c)]))
      | Some c \<Rightarrow>
          Inr (if fid \<in> set (ca_source_finding_ids c) then merged
               else dict_put (key_of a) (c\<lparr>ca_source_finding_ids := ca_source_finding_ids c @ [fid]\<rparr>) merged))"

fun fold_res :: "('s \<Rightarrow> 'a \<Rightarrow> ('e, 's) res) \<Rightarrow> 's \<Rightarrow> 'a list \<Rightarrow> ('e, 's) res" where
  "fold_res f s [] = Inr s"
| "fold_res f s (x # xs) = bind_res (f s x) (\<lambda>s'. fold_res f s' xs)"

definition merge_finding ::
  "merged_actions \<times> title_text list \<Rightarrow> hunt_finding \<Rightarrow> (sweep_exn, merged_actions \<times> title_text list) res" where
  "merge_finding st f =
     (if fp_domain f \<noteq> D_CLOUD then Inr st
      else bind_res (in_names (ev_get (fp_evidence f) ''detection'') iam_containment_detections) (\<lambda>iam.
        if \<not> iam then Inr st
        else bind_res (actions_for_finding f) (\<lambda>as.
             bind_res (fold_res (merge_action (hf_id f)) (fst st) as) (\<lambda>merged.
               Inr (merged, if as = [] then snd st else snd st @ [fp_title f])))))"

definition numbered :: "cloud_action list \<Rightarrow> cloud_action list" where
  "numbered as = map (\<lambda>(i, a). a\<lparr>ca_id := ''cca_'' @ nat_digits (Suc i)\<rparr>) (List.enumerate 0 as)"

definition key_list :: "verb_key \<Rightarrow> string list" where
  "key_list k = (case k of (v, p, t) \<Rightarrow> [v, p, t])"

definition build_cloud_containment_proposal :: "hunt_finding list \<Rightarrow> (sweep_exn, cloud_proposal option) res" where
  "build_cloud_containment_proposal fs =
     bind_res (fold_res merge_finding ([], []) fs) (\<lambda>(merged, titles).
       Inr (if merged = [] then None
            else Some \<lparr>cp_actions = numbered (map snd (sort_key (\<lambda>kc. key_list (fst kc)) merged)),
                       cp_titles = sort (remdups titles)\<rparr>))"

section \<open>What a proposal holds\<close>

text \<open>The containment a finding asks for, as keys of verb, provider and target.\<close>

definition finding_keys :: "hunt_finding \<Rightarrow> verb_key set" where
  "finding_keys f =
     (if fp_domain f = D_CLOUD then (case actions_for_finding f of Inr as \<Rightarrow> key_of ` set as | Inl e \<Rightarrow> {}) else {})"

text \<open>The merged actions hold one entry per key, with the ids of the findings that asked for it.\<close>

definition entry_ok :: "(verb_key \<Rightarrow> string set) \<Rightarrow> verb_key \<times> cloud_action \<Rightarrow> bool" where
  "entry_ok S kc \<longleftrightarrow> key_of (snd kc) = fst kc \<and> set (ca_source_finding_ids (snd kc)) = S (fst kc) \<and>
     distinct (ca_source_finding_ids (snd kc)) \<and> ca_connector (snd kc) = containment_connector (pa_provider (snd kc))"

definition merged_ok :: "(verb_key \<Rightarrow> string set) \<Rightarrow> merged_actions \<Rightarrow> bool" where
  "merged_ok S m \<longleftrightarrow> distinct (map fst m) \<and> fst ` set m = {k. S k \<noteq> {}} \<and> (\<forall>kc \<in> set m. entry_ok S kc)"

lemma entry_ok_other: "fst kc \<noteq> k \<Longrightarrow> entry_ok (S(k := X)) kc = entry_ok S kc"
  by (simp add: entry_ok_def)

lemma key_of_make: "make_cloud_action fid a = Inr c \<Longrightarrow>
    key_of c = key_of a \<and> ca_source_finding_ids c = [fid] \<and> ca_connector c = containment_connector (pa_provider c)"
  by (auto simp: make_cloud_action_def key_of_def proposed_action.extend_def split: if_splits)

lemma key_of_sources [simp]: "key_of (c\<lparr>ca_source_finding_ids := x\<rparr>) = key_of c"
  by (simp add: key_of_def)

lemma key_of_id [simp]: "key_of (c\<lparr>ca_id := x\<rparr>) = key_of c"
  by (simp add: key_of_def)

lemma set_dict_put:
  assumes "distinct (map fst d)"
  shows "set (dict_put k v d) = insert (k, v) {kv \<in> set d. fst kv \<noteq> k}"
  using assms
proof (induction d)
  case (Cons p d)
  then show ?case by (cases p) (auto simp: image_iff)
qed simp

lemma merge_action_ok:
  assumes ok: "merged_ok S m" and r: "merge_action fid m a = Inr m'"
  shows "merged_ok (S(key_of a := insert fid (S (key_of a)))) m'"
proof (cases "map_of m (key_of a)")
  case None
  then obtain c where c: "make_cloud_action fid a = Inr c" "m' = m @ [(key_of a, c)]"
    using r by (auto simp: merge_action_def)
  have new: "key_of a \<notin> fst ` set m" using None by (simp add: map_of_eq_None_iff)
  have keys: "fst ` set m = {k. S k \<noteq> {}}" and d: "distinct (map fst m)" and e: "\<forall>kc \<in> set m. entry_ok S kc"
    using ok by (simp_all add: merged_ok_def)
  have empty: "S (key_of a) = {}" using new keys by auto
  have "\<forall>kc \<in> set m'. entry_ok (S(key_of a := insert fid (S (key_of a)))) kc"
  proof
    fix kc assume "kc \<in> set m'"
    then consider "kc \<in> set m" | "kc = (key_of a, c)" using c(2) by auto
    then show "entry_ok (S(key_of a := insert fid (S (key_of a)))) kc"
    proof cases
      case 1
      then have "fst kc \<noteq> key_of a" using new by (metis imageI)
      then show ?thesis using 1 e by (simp add: entry_ok_other)
    next
      case 2
      then show ?thesis using key_of_make[OF c(1)] empty by (simp add: entry_ok_def)
    qed
  qed
  moreover have "distinct (map fst m')" using d new c(2) by simp
  moreover have "fst ` set m' = {k. (S(key_of a := insert fid (S (key_of a)))) k \<noteq> {}}"
    using keys c(2) by auto
  ultimately show ?thesis by (simp add: merged_ok_def)
next
  case (Some c)
  have mem: "(key_of a, c) \<in> set m" using Some by (rule map_of_SomeD)
  have keys: "fst ` set m = {k. S k \<noteq> {}}" and d: "distinct (map fst m)" and e: "\<forall>kc \<in> set m. entry_ok S kc"
    using ok by (simp_all add: merged_ok_def)
  have c: "entry_ok S (key_of a, c)" using e mem by blast
  have "key_of a \<in> fst ` set m" using mem by force
  then have nonempty: "S (key_of a) \<noteq> {}" using keys by blast
  show ?thesis
  proof (cases "fid \<in> set (ca_source_finding_ids c)")
    case True
    then have "S(key_of a := insert fid (S (key_of a))) = S"
      using c by (intro fun_upd_idem) (auto simp: entry_ok_def)
    then show ?thesis using True Some r ok by (simp add: merge_action_def)
  next
    case False
    let ?c = "c\<lparr>ca_source_finding_ids := ca_source_finding_ids c @ [fid]\<rparr>"
    have m': "m' = dict_put (key_of a) ?c m" using Some r False by (simp add: merge_action_def)
    have set': "set m' = insert (key_of a, ?c) {kv \<in> set m. fst kv \<noteq> key_of a}"
      unfolding m' by (rule set_dict_put[OF d])
    have "\<forall>kc \<in> set m'. entry_ok (S(key_of a := insert fid (S (key_of a)))) kc"
      using e c False by (auto simp: set' entry_ok_other) (simp add: entry_ok_def)
    moreover have "distinct (map fst m')" unfolding m' using d by simp
    moreover have "fst ` set m' = {k. (S(key_of a := insert fid (S (key_of a)))) k \<noteq> {}}"
    proof -
      have "fst ` set m' = insert (key_of a) (fst ` set m - {key_of a})" unfolding set' by force
      then show ?thesis using keys by auto
    qed
    ultimately show ?thesis by (simp add: merged_ok_def)
  qed
qed

lemma merge_actions_ok:
  "merged_ok S m \<Longrightarrow> fold_res (merge_action fid) m as = Inr m' \<Longrightarrow>
     merged_ok (\<lambda>k. S k \<union> (if k \<in> key_of ` set as then {fid} else {})) m'"
proof (induction as arbitrary: S m)
  case (Cons a as)
  then obtain m1 where m1: "merge_action fid m a = Inr m1" "fold_res (merge_action fid) m1 as = Inr m'" by auto
  have "merged_ok (\<lambda>k. (S(key_of a := insert fid (S (key_of a)))) k \<union> (if k \<in> key_of ` set as then {fid} else {})) m'"
    by (rule Cons.IH[OF merge_action_ok[OF Cons.prems(1) m1(1)] m1(2)])
  moreover have "(\<lambda>k. (S(key_of a := insert fid (S (key_of a)))) k \<union> (if k \<in> key_of ` set as then {fid} else {})) =
      (\<lambda>k. S k \<union> (if k \<in> key_of ` set (a # as) then {fid} else {}))"
    by (auto simp: fun_eq_iff)
  ultimately show ?case by simp
qed simp

lemma actions_need_detection:
  "actions_for_finding f = Inr as \<Longrightarrow> as \<noteq> [] \<Longrightarrow> in_names (ev_get (fp_evidence f) ''detection'') iam_containment_detections = Inr True"
  by (auto simp: actions_for_finding_def Let_def in_names_def iam_containment_detections_def split: if_splits)

lemma not_iam_no_keys:
  assumes "in_names (ev_get (fp_evidence f) ''detection'') iam_containment_detections = Inr False"
  shows "finding_keys f = {}"
proof (cases "actions_for_finding f")
  case (Inr as)
  then have "as = []" using assms actions_need_detection[OF Inr] by fastforce
  then show ?thesis using Inr by (simp add: finding_keys_def)
qed (simp add: finding_keys_def)

lemma merge_finding_ok:
  assumes "merged_ok S m" "merge_finding (m, ts) f = Inr (m', ts')"
  shows "merged_ok (\<lambda>k. S k \<union> (if k \<in> finding_keys f then {hf_id f} else {})) m'"
proof (cases "fp_domain f = D_CLOUD")
  case False
  then show ?thesis using assms by (simp add: merge_finding_def finding_keys_def)
next
  case True
  then obtain iam where iam: "in_names (ev_get (fp_evidence f) ''detection'') iam_containment_detections = Inr iam"
    using assms(2) by (auto simp: merge_finding_def)
  show ?thesis
  proof (cases iam)
    case False
    then show ?thesis using True iam assms not_iam_no_keys[of f] by (simp add: merge_finding_def)
  next
    case iam_true: True
    then obtain as where as: "actions_for_finding f = Inr as" "fold_res (merge_action (hf_id f)) m as = Inr m'"
      using True iam assms(2) by (auto simp: merge_finding_def)
    then have "finding_keys f = key_of ` set as" using True by (simp add: finding_keys_def)
    then show ?thesis using merge_actions_ok[OF assms(1) as(2)] by simp
  qed
qed

lemma merge_findings_ok:
  "merged_ok S m \<Longrightarrow> fold_res merge_finding (m, ts) fs = Inr (m', ts') \<Longrightarrow>
     merged_ok (\<lambda>k. S k \<union> {hf_id f | f. f \<in> set fs \<and> k \<in> finding_keys f}) m'"
proof (induction fs arbitrary: S m ts)
  case (Cons f fs)
  then obtain m1 ts1 where s: "merge_finding (m, ts) f = Inr (m1, ts1)" "fold_res merge_finding (m1, ts1) fs = Inr (m', ts')"
    by auto
  have "merged_ok (\<lambda>k. (S k \<union> (if k \<in> finding_keys f then {hf_id f} else {})) \<union> {hf_id g | g. g \<in> set fs \<and> k \<in> finding_keys g}) m'"
    by (rule Cons.IH[OF merge_finding_ok[OF Cons.prems(1) s(1)] s(2)])
  moreover have "(\<lambda>k. (S k \<union> (if k \<in> finding_keys f then {hf_id f} else {})) \<union> {hf_id g | g. g \<in> set fs \<and> k \<in> finding_keys g}) =
      (\<lambda>k. S k \<union> {hf_id g | g. g \<in> set (f # fs) \<and> k \<in> finding_keys g})"
    by (auto simp: fun_eq_iff)
  ultimately show ?case by simp
qed simp

definition askers :: "hunt_finding list \<Rightarrow> verb_key \<Rightarrow> string set" where
  "askers fs k = {hf_id f | f. f \<in> set fs \<and> k \<in> finding_keys f}"

lemma merged_all:
  "fold_res merge_finding ([], ts) fs = Inr (m, ts') \<Longrightarrow> merged_ok (askers fs) m"
proof -
  assume r: "fold_res merge_finding ([], ts) fs = Inr (m, ts')"
  have "(\<lambda>k. {} \<union> {hf_id f | f. f \<in> set fs \<and> k \<in> finding_keys f}) = askers fs"
    by (simp add: askers_def fun_eq_iff)
  moreover have "merged_ok (\<lambda>_. {}) []" by (simp add: merged_ok_def)
  ultimately show ?thesis using merge_findings_ok[OF _ r, of "\<lambda>_. {}"] by simp
qed

lemma numbered_facts:
  "map ca_id (numbered as) = map (\<lambda>i. ''cca_'' @ nat_digits (Suc i)) [0..<length as]"
  "map key_of (numbered as) = map key_of as"
  "map ca_source_finding_ids (numbered as) = map ca_source_finding_ids as"
  "map ca_connector (numbered as) = map ca_connector as"
  by (auto simp: numbered_def intro!: nth_equalityI simp: nth_enumerate_eq)

text \<open>C17: The proposal built from a batch of findings holds every containment a cloud finding of the
  batch asks for, once, ordered by verb, provider and target and numbered in that order; each
  action names exactly the findings that asked for it.  No proposal is made only when no finding
  asks for anything.\<close>

theorem cloud_proposal_contract:
  "case build_cloud_containment_proposal fs of
     Inl e \<Rightarrow> True
   | Inr None \<Rightarrow> \<Union> (finding_keys ` set fs) = {}
   | Inr (Some p) \<Rightarrow>
       distinct (map key_of (cp_actions p)) \<and> sorted (map (key_list \<circ> key_of) (cp_actions p)) \<and>
       key_of ` set (cp_actions p) = \<Union> (finding_keys ` set fs) \<and>
       map ca_id (cp_actions p) = map (\<lambda>i. ''cca_'' @ nat_digits (Suc i)) [0..<length (cp_actions p)] \<and>
       map (set \<circ> ca_source_finding_ids) (cp_actions p) = map (askers fs \<circ> key_of) (cp_actions p)"
proof (cases "fold_res merge_finding ([], []) fs")
  case (Inl e)
  then show ?thesis by (simp add: build_cloud_containment_proposal_def)
next
  case (Inr mt)
  obtain m ts where mt: "mt = (m, ts)" by (cases mt)
  have ok: "merged_ok (askers fs) m" using Inr mt by (simp add: merged_all)
  have keys: "fst ` set m = \<Union> (finding_keys ` set fs)" using ok by (auto simp: merged_ok_def askers_def)
  show ?thesis
  proof (cases "m = []")
    case True
    then show ?thesis using Inr mt keys by (simp add: build_cloud_containment_proposal_def)
  next
    case False
    let ?s = "sort_key (\<lambda>kc. key_list (fst kc)) m"
    let ?as = "numbered (map snd ?s)"
    have entries: "\<forall>kc \<in> set ?s. key_of (snd kc) = fst kc \<and> set (ca_source_finding_ids (snd kc)) = askers fs (fst kc)"
      using ok by (auto simp: merged_ok_def entry_ok_def)
    then have key_map: "map key_of ?as = map fst ?s" by (simp add: numbered_facts)
    have "distinct (map fst ?s)"
      using ok by (simp add: merged_ok_def distinct_map)
    moreover have "sorted (map (key_list \<circ> key_of) ?as)"
    proof -
      have "map (key_list \<circ> key_of) ?as = map key_list (map fst ?s)" by (simp only: key_map flip: map_map)
      also have "\<dots> = map (\<lambda>kc. key_list (fst kc)) ?s" by simp
      finally show ?thesis using sorted_sort_key[of "\<lambda>kc. key_list (fst kc)" m] by simp
    qed
    moreover have "key_of ` set ?as = \<Union> (finding_keys ` set fs)"
    proof -
      have "key_of ` set ?as = set (map fst ?s)" unfolding key_map[symmetric] by simp
      then show ?thesis using keys by simp
    qed
    moreover have "map (set \<circ> ca_source_finding_ids) ?as = map (askers fs \<circ> key_of) ?as"
    proof -
      have "map (set \<circ> ca_source_finding_ids) ?as = map set (map ca_source_finding_ids (map snd ?s))"
        by (simp only: numbered_facts flip: map_map)
      also have "\<dots> = map (askers fs) (map fst ?s)" using entries by simp
      also have "\<dots> = map (askers fs \<circ> key_of) ?as" by (simp only: key_map flip: map_map)
      finally show ?thesis .
    qed
    ultimately show ?thesis
      using False Inr mt key_map numbered_facts(1)[of "map snd ?s"]
      by (simp add: build_cloud_containment_proposal_def numbered_def)
  qed
qed

lemma map_res_pure: "map_res (\<lambda>x. Inr (g x)) xs = Inr (map g xs)"
  by (induction xs) simp_all

text \<open>The containment of a reported role chain revokes every principal on the chain except the
  high-value one at its end, in the order of the chain.\<close>

theorem chain_containment_spares_target:
  assumes "chain_finding ids source (last path) path = Inr f" "distinct path" "path \<noteq> []" "[] \<notin> set path"
  shows "case actions_for_finding f of Inl e \<Rightarrow> False
    | Inr as \<Rightarrow> map pa_target as = butlast path \<and> list_all (\<lambda>a. pa_verb a = REVOKE_ROLE) as"
proof -
  have ev: "fp_evidence f = [(PStr ''detection'', PStr ''sts_chaining''), (PStr ''hop_count'', PInt (int (length path - 1))),
         (PStr ''path'', pstrs path),
         (PStr ''provider'', PStr (cloud_provider_value (chain_provider ids source (last path)))),
         (PStr ''high_value_target'', PStr (last path))]"
    using assms(1) by (auto simp: chain_finding_def Let_def dest: cloud_finding_Inr)
  have strs: "strings_of (map PStr xs) = xs" for xs by (induction xs) (simp_all add: strings_of_def)
  have "filter (\<lambda>hop. hop \<noteq> last path) (filter (\<lambda>s. s \<noteq> []) path) = butlast path"
  proof -
    have "filter (\<lambda>s. s \<noteq> []) path = path" using assms(4) by (auto simp: filter_id_conv)
    moreover have "last path \<notin> set (butlast path)" using assms(2,3) by (cases path rule: rev_cases) auto
    then have "filter (\<lambda>hop. hop \<noteq> last path) (butlast path @ [last path]) = butlast path"
      by (auto simp: filter_id_conv)
    ultimately show ?thesis using assms(3) by simp
  qed
  then show ?thesis
    using assms(3,4) by (simp add: map_res_pure actions_for_finding_def Let_def ev ev_get_def sts_chaining_actions_def items_of_def
      py_or_def pstrs_def raised_def strs py_str_def list_all_iff comp_def)
qed

definition demo_roles :: "cloud_identity list" where
  "demo_roles = [ident ''admin'' [''mid''], ident ''mid'' [''low''], ident ''low'' []]"

theorem chain_containment_spares_target_witness:
  "\<exists>f. chain_finding demo_roles ''low'' ''admin'' [''low'', ''mid'', ''admin''] = Inr f \<and>
     (case actions_for_finding f of Inl e \<Rightarrow> False
      | Inr as \<Rightarrow> map pa_target as = [''low'', ''mid''] \<and> list_all (\<lambda>a. pa_verb a = REVOKE_ROLE) as)"
proof -
  have "\<exists>f. chain_finding demo_roles ''low'' (last [''low'', ''mid'', ''admin'']) [''low'', ''mid'', ''admin''] = Inr f"
    by (simp add: chain_finding_def Let_def cloud_finding_def make_entity_def make_observable_def make_request_def
        within_def codes_def percent_85 pow2_def identity_by_arn_def demo_roles_def ident_def nat_digits.simps)
  then obtain f where f: "chain_finding demo_roles ''low'' (last [''low'', ''mid'', ''admin'']) [''low'', ''mid'', ''admin''] = Inr f"
    by blast
  show ?thesis
    using chain_containment_spares_target[OF f] f by (intro exI[of _ f]) (simp split: sum.splits)
qed

definition stored_chain :: "string \<Rightarrow> string list \<Rightarrow> string \<Rightarrow> hunt_finding" where
  "stored_chain i path target =
     \<lparr>fp_source = S_CLOUD, fp_domain = D_CLOUD, fp_title = [], fp_severity = HIGH, fp_confidence = Fin 1 0,
      fp_technique_ids = [], fp_entities = [], fp_observables = [],
      fp_evidence = [(PStr ''detection'', PStr ''sts_chaining''), (PStr ''path'', pstrs path),
        (PStr ''high_value_target'', PStr target)],
      hf_id = i, hf_org_id = ''o'', hf_state = F_CLUSTERED, hf_cluster_id = None, hf_suppressed_by = None,
      hf_investigation_id = None, hf_created_at = 0, hf_signature = []\<rparr>"

text \<open>The exception for high-value roles is per finding: when one chain of the batch passes through
  the role another chain ends at, the proposal revokes that role after all.\<close>

theorem high_value_target_revoked_by_other_chain:
  "(case build_cloud_containment_proposal
      [stored_chain ''f1'' [''low'', ''admin''] ''admin'', stored_chain ''f2'' [''low'', ''admin'', ''root''] ''root''] of
     Inr (Some p) \<Rightarrow> map pa_target (cp_actions p) = [''admin'', ''low''] \<and>
       map ca_source_finding_ids (cp_actions p) = [[''f2''], [''f1'', ''f2'']]
   | _ \<Rightarrow> False)"
  by code_simp

end
