(* ===== verification/Revocation.thy ===== *)
theory Revocation
  imports CloudContain
begin

text \<open>
  Revocation proposals (the last part of shared/btagent_shared/hunt/identity.py and the proposal
  types of types/identity_hunt.py): the grants that promoted identity findings implicate, and
  the playbook that revokes them.  The arrow in the prompt of the playbook, which lies outside
  the character range, is written as a hyphen and a greater-than sign.
\<close>

section \<open>Targets\<close>

datatype identity_provider = OKTA | ENTRA | GOOGLE_WORKSPACE | DUO | GENERIC

fun identity_provider_value :: "identity_provider \<Rightarrow> string" where
  "identity_provider_value OKTA = ''okta''"
| "identity_provider_value ENTRA = ''entra''"
| "identity_provider_value GOOGLE_WORKSPACE = ''google_workspace''"
| "identity_provider_value DUO = ''duo''"
| "identity_provider_value GENERIC = ''generic''"

record revocation_target =
  rt_principal_id :: string
  rt_app_id :: string
  rt_provider :: identity_provider
  rt_app_display_name :: string
  rt_scopes :: "string list"
  rt_source_finding_ids :: "string list"

definition ev_text :: "evidence \<Rightarrow> string \<Rightarrow> string" where
  "ev_text ev k = (case ev_get ev k of PStr s \<Rightarrow> s | _ \<Rightarrow> [])"

definition ev_provider :: "evidence \<Rightarrow> identity_provider" where
  "ev_provider ev =
     (case ev_get ev ''provider'' of
        PStr s \<Rightarrow> (case enum_of_string [OKTA, ENTRA, GOOGLE_WORKSPACE, DUO, GENERIC] identity_provider_value s of
                     Some p \<Rightarrow> p | None \<Rightarrow> OKTA)
      | _ \<Rightarrow> OKTA)"

definition make_target :: "revocation_target \<Rightarrow> (sweep_exn, revocation_target) res" where
  "make_target t =
     (if within 1 512 (rt_principal_id t) \<and> within 1 512 (rt_app_id t) \<and> length (rt_app_display_name t) \<le> 300
      then Inr t else Inl ValidationError)"

type_synonym target_key = "string \<times> string \<times> string"
type_synonym merged_targets = "(target_key \<times> revocation_target) list"

definition target_key_of :: "revocation_target \<Rightarrow> target_key" where
  "target_key_of t = (identity_provider_value (rt_provider t), rt_principal_id t, rt_app_id t)"

text \<open>The target one finding names, if it is an identity finding with a complete grant.\<close>

definition finding_target :: "hunt_finding \<Rightarrow> revocation_target option" where
  "finding_target f =
     (let ev = fp_evidence f; who = ev_text ev ''principal_id''; app = ev_text ev ''app_id'' in
      if fp_domain f \<noteq> D_IDENTITY \<or> who = [] \<or> app = [] then None
      else Some \<lparr>rt_principal_id = who, rt_app_id = app, rt_provider = ev_provider ev,
             rt_app_display_name = ev_text ev ''app_display_name'',
             rt_scopes = sorted_unique (str_items (ev_get ev ''scopes'')), rt_source_finding_ids = [hf_id f]\<rparr>)"

definition merge_target :: "revocation_target \<Rightarrow> revocation_target \<Rightarrow> revocation_target" where
  "merge_target old new =
     old\<lparr>rt_scopes := sorted_unique (rt_scopes old @ rt_scopes new),
         rt_source_finding_ids := rt_source_finding_ids old @
           filter (\<lambda>i. i \<notin> set (rt_source_finding_ids old)) (rt_source_finding_ids new),
         rt_app_display_name := (if rt_app_display_name old = [] then rt_app_display_name new else rt_app_display_name old)\<rparr>"

definition add_target :: "merged_targets \<Rightarrow> hunt_finding \<Rightarrow> (sweep_exn, merged_targets) res" where
  "add_target merged f =
     (case finding_target f of
        None \<Rightarrow> Inr merged
      | Some t \<Rightarrow>
          (case map_of merged (target_key_of t) of
             None \<Rightarrow> bind_res (make_target t) (\<lambda>t'. Inr (merged @ [(target_key_of t, t')]))
           | Some old \<Rightarrow> Inr (dict_put (target_key_of t) (merge_target old t) merged)))"

definition revocation_targets :: "hunt_finding list \<Rightarrow> (sweep_exn, revocation_target list) res" where
  "revocation_targets fs =
     bind_res (fold_res add_target [] fs) (\<lambda>merged.
       Inr (map snd (sort_key (\<lambda>kt. key_list (fst kt)) merged)))"

section \<open>The playbook\<close>

definition revoke_grant_tool :: string where "revoke_grant_tool = ''identity_revoke_grant''"
definition revoke_sessions_tool :: string where "revoke_sessions_tool = ''identity_revoke_sessions''"

definition target_label :: "revocation_target \<Rightarrow> string" where
  "target_label t = (if rt_app_display_name t = [] then rt_app_id t else rt_app_display_name t)"

definition target_lines :: "revocation_target list \<Rightarrow> string" where
  "target_lines ts = join_text ''; '' (map (\<lambda>t. rt_principal_id t @ '' -> '' @ target_label t @ '' ('' @
     identity_provider_value (rt_provider t) @ '')'') ts)"

definition step_name :: "string \<Rightarrow> nat \<Rightarrow> string" where
  "step_name prefix i = prefix @ nat_digits (i + 1)"

definition chain_ids :: "nat \<Rightarrow> nat \<Rightarrow> string list" where
  "chain_ids n m = map (step_name ''revoke_grant_'') [0..<n] @ map (step_name ''revoke_sessions_'') [0..<m] @ [''done'']"

definition gate_step :: "revocation_target list \<Rightarrow> string \<Rightarrow> pyval" where
  "gate_step ts next_id = PDict
     [(PStr ''id'', PStr ''approve_revocation''), (PStr ''type'', PStr ''hitl_gate''),
      (PStr ''name'', PStr ''Approve OAuth grant revocation''),
      (PStr ''prompt'', PStr (''Revoke '' @ nat_digits (length ts) @
         '' OAuth grant(s) and terminate active sessions? Targets: '' @ target_lines ts)),
      (PStr ''required_role'', PStr ''senior_analyst''), (PStr ''timeout_seconds'', PInt 1800),
      (PStr ''next_step'', PStr next_id)]"

definition grant_step :: "string \<Rightarrow> string \<Rightarrow> revocation_target \<Rightarrow> pyval" where
  "grant_step sid next_id t = PDict
     [(PStr ''id'', PStr sid), (PStr ''type'', PStr ''action''),
      (PStr ''name'', PStr (''Revoke grant: '' @ target_label t @ '' for '' @ rt_principal_id t)),
      (PStr ''tool_name'', PStr revoke_grant_tool),
      (PStr ''arguments'', PDict
        [(PStr ''provider'', PStr (identity_provider_value (rt_provider t))),
         (PStr ''principal_id'', PStr (rt_principal_id t)), (PStr ''app_id'', PStr (rt_app_id t)),
         (PStr ''scopes'', pstrs (rt_scopes t))]),
      (PStr ''next_step'', PStr next_id)]"

definition session_step :: "string \<Rightarrow> string \<Rightarrow> string \<Rightarrow> pyval" where
  "session_step sid next_id who = PDict
     [(PStr ''id'', PStr sid), (PStr ''type'', PStr ''action''),
      (PStr ''name'', PStr (''Revoke active sessions: '' @ who)),
      (PStr ''tool_name'', PStr revoke_sessions_tool),
      (PStr ''arguments'', PDict [(PStr ''principal_id'', PStr who)]),
      (PStr ''next_step'', PStr next_id)]"

definition end_step :: pyval where
  "end_step = PDict [(PStr ''id'', PStr ''done''), (PStr ''type'', PStr ''end''), (PStr ''name'', PStr ''Revocation complete'')]"

definition target_principals :: "revocation_target list \<Rightarrow> string list" where
  "target_principals ts = sorted_unique (map rt_principal_id ts)"

definition playbook_steps :: "revocation_target list \<Rightarrow> pyval list" where
  "playbook_steps ts =
     (let principals = target_principals ts; n = length ts; m = length principals; chain = chain_ids n m in
      [gate_step ts (chain ! 0)] @
      map (\<lambda>i. grant_step (chain ! i) (chain ! (i + 1)) (ts ! i)) [0..<n] @
      map (\<lambda>i. session_step (chain ! (n + i)) (chain ! (n + i + 1)) (principals ! i)) [0..<m] @
      [end_step])"

definition revocation_playbook_name :: "revocation_target list \<Rightarrow> string" where
  "revocation_playbook_name ts = ''Identity revocation: '' @ nat_digits (length ts) @ '' grant(s)''"

definition revocation_playbook_spec :: "revocation_target list \<Rightarrow> pyval" where
  "revocation_playbook_spec ts = PDict
     [(PStr ''name'', PStr (revocation_playbook_name ts)), (PStr ''version'', PStr ''1.0''),
      (PStr ''description'', PStr (''Auto-proposed by the Identity Hunt Agent (#116) on promotion of '' @
         ''identity grant findings. Revokes the implicated OAuth grants and '' @
         ''terminates the principals' active sessions after HITL approval.'')),
      (PStr ''trigger'', PDict [(PStr ''type'', PStr ''manual''), (PStr ''parameters'', PDict [])]),
      (PStr ''steps'', PList (playbook_steps ts))]"

record revocation_proposal =
  rv_targets :: "revocation_target list"
  rv_titles :: "title_text list"
  rv_playbook_name :: string
  rv_playbook_spec :: pyval

text \<open>The proposal keeps the sorted titles its rationale is made of.\<close>

definition build_revocation_proposal :: "hunt_finding list \<Rightarrow> (sweep_exn, revocation_proposal option) res" where
  "build_revocation_proposal fs =
     bind_res (revocation_targets fs) (\<lambda>ts.
       Inr (if ts = [] then None
            else Some \<lparr>rv_targets = ts,
                   rv_titles = sort (remdups (map fp_title (filter (\<lambda>f. fp_domain f = D_IDENTITY) fs))),
                   rv_playbook_name = revocation_playbook_name ts,
                   rv_playbook_spec = revocation_playbook_spec ts\<rparr>))"

end
