(* ===== verification/HuntStore.thy ===== *)
theory HuntStore
  imports Revocation AuditTrail
begin

text \<open>
  The hunt triage service (backend/btagent_backend/services/hunt_triage_service.py): recording
  findings with clustering and suppression, suppression rules, the sweep of stale rules and the
  promotion to investigations.  The state holds the tables and the audit ledger; each table is
  in the order of insertion, which is the order of its queries unless they sort.  Each
  operation reads the clock once.  The id generator is an argument applied to a prefix and to
  the size of the table.  Left out are notifications, the grant store fed by identity findings,
  descriptions and log lines.
\<close>

section \<open>Rows and state\<close>

record cluster_row =
  cl_id :: string
  cl_org_id :: string
  cl_signature :: string
  cl_title :: title_text
  cl_domain :: hunt_domain
  cl_severity :: severity
  cl_technique_ids :: "string list"
  cl_finding_count :: nat
  cl_state :: finding_state
  cl_representative :: string
  cl_updated_at :: int

record rule_row =
  ru_id :: string
  ru_org_id :: string
  ru_name :: string
  ru_reason :: string
  ru_match :: suppression_match
  ru_state :: suppression_state
  ru_match_count :: nat
  ru_created_by :: "string option"
  ru_created_at :: int
  ru_expires_at :: "int option"
  ru_reconfirm_at :: "int option"
  ru_harmful_flag :: bool
  ru_harmful_reason :: "string option"
  ru_harmful_finding_id :: "string option"

record investigation_row =
  iv_id :: string
  iv_org_id :: string
  iv_title :: title_text
  iv_severity :: severity
  iv_assigned_to :: "string option"
  iv_hunt_finding_ids :: "string list"
  iv_mitre_techniques :: "string list"
  iv_observables :: "hunt_observable list"
  iv_evidence :: "evidence list"
  iv_revocation :: "revocation_proposal option"
  iv_containment :: "cloud_proposal option"

datatype hunt_details =
    SuppressDetails string string suppression_match nat "string option" "int option" "(overbroad_reason \<times> string option) option"
  | FlipDetails string suppression_state "int option" "int option"
  | HarmDetails string string string string
  | PromoteDetails title_text severity "string list" "string list" bool nat

record 'ts triage_env =
  te_audit :: "('ts, hunt_details) audit_lib"
  te_other :: "nat \<Rightarrow> ('ts, hunt_details) audit_row list \<Rightarrow> ('ts, hunt_details) audit_row list"
  te_clock :: "nat \<Rightarrow> 'ts"
  te_audit_id :: "nat \<Rightarrow> string"
  te_new_id :: "string \<Rightarrow> nat \<Rightarrow> string"

record 'ts triage_db =
  td_findings :: "hunt_finding list"
  td_clusters :: "cluster_row list"
  td_rules :: "rule_row list"
  td_investigations :: "investigation_row list"
  td_ledger :: "('ts, hunt_details) audit_row list"

datatype triage_exn =
    BlankReason
  | OverbroadSuppressionError overbroad_reason
  | NoFindings
  | NoPromotable
  | MatchMissesCluster
  | AuditLost audit_error
  | BuilderRaised sweep_exn

section \<open>Clusters\<close>

definition get_cluster_by :: "string \<Rightarrow> string \<Rightarrow> cluster_row list \<Rightarrow> cluster_row option" where
  "get_cluster_by org sig cs = find (\<lambda>c. cl_org_id c = org \<and> cl_signature c = sig) cs"

definition cluster_members :: "string \<Rightarrow> hunt_finding list \<Rightarrow> hunt_finding list" where
  "cluster_members cid fs = filter (\<lambda>f. hf_cluster_id f = Some cid) fs"

definition put_by :: "('a \<Rightarrow> string) \<Rightarrow> 'a \<Rightarrow> 'a list \<Rightarrow> 'a list" where
  "put_by key x xs = map (\<lambda>y. if key y = key x then x else y) xs"

definition fresh_cluster :: "'ts triage_env \<Rightarrow> int \<Rightarrow> hunt_finding \<Rightarrow> nat \<Rightarrow> cluster_row" where
  "fresh_cluster env now row n =
     \<lparr>cl_id = te_new_id env ''hclu'' n, cl_org_id = hf_org_id row, cl_signature = finding_signature row,
      cl_title = fp_title row, cl_domain = fp_domain row, cl_severity = fp_severity row,
      cl_technique_ids = fp_technique_ids row, cl_finding_count = 0, cl_state = F_CLUSTERED,
      cl_representative = hf_id row, cl_updated_at = now\<rparr>"

definition reopened :: "finding_state \<Rightarrow> finding_state" where
  "reopened s = (if s = F_PROMOTED \<or> s = F_SUPPRESSED then F_CLUSTERED else s)"

definition fold_into :: "int \<Rightarrow> hunt_finding list \<Rightarrow> cluster_row \<Rightarrow> cluster_row" where
  "fold_into now members c =
     c\<lparr>cl_finding_count := length members, cl_severity := max_severity members,
       cl_technique_ids := union_techniques members, cl_updated_at := now, cl_state := reopened (cl_state c)\<rparr>"

definition upsert_cluster_for ::
  "'ts triage_env \<Rightarrow> int \<Rightarrow> hunt_finding \<Rightarrow> 'ts triage_db \<Rightarrow> cluster_row \<times> 'ts triage_db" where
  "upsert_cluster_for env now row db =
     (case get_cluster_by (hf_org_id row) (finding_signature row) (td_clusters db) of
        None \<Rightarrow>
          (let c = fresh_cluster env now row (length (td_clusters db));
               c' = fold_into now (cluster_members (cl_id c) (td_findings db) @ [row]) c
           in (c', db\<lparr>td_clusters := td_clusters db @ [c']\<rparr>))
      | Some c \<Rightarrow>
          (let c' = fold_into now (cluster_members (cl_id c) (td_findings db) @ [row]) c
           in (c', db\<lparr>td_clusters := put_by cl_id c' (td_clusters db)\<rparr>)))"

definition rolled_up :: "finding_state list \<Rightarrow> finding_state option" where
  "rolled_up states =
     (let considered = filter (\<lambda>s. s \<noteq> F_DISMISSED) states in
      if considered = [] then None
      else Some (if list_all (\<lambda>s. s = F_SUPPRESSED) considered then F_SUPPRESSED
                 else if list_all (\<lambda>s. s = F_PROMOTED) considered then F_PROMOTED else F_CLUSTERED))"

definition recompute_cluster_states :: "int \<Rightarrow> string set \<Rightarrow> 'ts triage_db \<Rightarrow> 'ts triage_db" where
  "recompute_cluster_states now ids db =
     db\<lparr>td_clusters := map (\<lambda>c.
          if cl_id c \<notin> ids then c
          else case rolled_up (map hf_state (cluster_members (cl_id c) (td_findings db))) of
            None \<Rightarrow> c
          | Some s \<Rightarrow> if cl_state c = s then c else c\<lparr>cl_state := s, cl_updated_at := now\<rparr>) (td_clusters db)\<rparr>"

definition touched_clusters :: "hunt_finding list \<Rightarrow> string set" where
  "touched_clusters fs = set (concat (map (\<lambda>f. case hf_cluster_id f of None \<Rightarrow> [] | Some c \<Rightarrow> [c]) fs))"

section \<open>Recording\<close>

definition unexpired :: "int \<Rightarrow> rule_row \<Rightarrow> bool" where
  "unexpired now r = (case ru_expires_at r of None \<Rightarrow> True | Some e \<Rightarrow> now < e)"

definition active_suppressions :: "int \<Rightarrow> string \<Rightarrow> rule_row list \<Rightarrow> rule_row list" where
  "active_suppressions now org rules =
     filter (\<lambda>r. ru_org_id r = org \<and> ru_state r = R_ACTIVE \<and> unexpired now r) rules"

definition apply_suppressions_to ::
  "hunt_finding \<Rightarrow> rule_row list \<Rightarrow> rule_row list \<Rightarrow> hunt_finding \<times> rule_row list" where
  "apply_suppressions_to row active rules =
     (case find (\<lambda>r. suppression_matches (ru_match r) row) active of
        None \<Rightarrow> (row, rules)
      | Some r \<Rightarrow> (row\<lparr>hf_state := F_SUPPRESSED, hf_suppressed_by := Some (ru_id r)\<rparr>,
                   put_by ru_id (r\<lparr>ru_match_count := ru_match_count r + 1\<rparr>) rules))"

definition new_finding :: "string \<Rightarrow> int \<Rightarrow> string \<Rightarrow> record_finding_request \<Rightarrow> hunt_finding" where
  "new_finding fid now org q = record_finding_request.extend q
     \<lparr>hf_id = fid, hf_org_id = org, hf_state = F_NEW, hf_cluster_id = None, hf_suppressed_by = None,
      hf_investigation_id = None, hf_created_at = now, hf_signature = []\<rparr>"

definition record_finding ::
  "'ts triage_env \<Rightarrow> int \<Rightarrow> string \<Rightarrow> record_finding_request \<Rightarrow> 'ts triage_db \<Rightarrow> hunt_finding \<times> 'ts triage_db" where
  "record_finding env now org q db =
     (let row = new_finding (te_new_id env ''hfnd'' (length (td_findings db))) now org q;
          (c, db1) = upsert_cluster_for env now row db;
          row1 = row\<lparr>hf_signature := finding_signature row, hf_cluster_id := Some (cl_id c), hf_state := F_CLUSTERED\<rparr>;
          (row2, rules) = apply_suppressions_to row1 (active_suppressions now org (td_rules db1)) (td_rules db1)
      in (row2, db1\<lparr>td_findings := td_findings db1 @ [row2], td_rules := rules\<rparr>))"

fun persist_hunt_findings ::
  "'ts triage_env \<Rightarrow> int \<Rightarrow> string \<Rightarrow> record_finding_request list \<Rightarrow> 'ts triage_db \<Rightarrow> hunt_finding list \<times> 'ts triage_db" where
  "persist_hunt_findings env now org [] db = ([], db)"
| "persist_hunt_findings env now org (q # qs) db =
     (let (row, db1) = record_finding env now org q db; (rows, db2) = persist_hunt_findings env now org qs db1
      in (row # rows, db2))"

section \<open>Reading\<close>

definition get_finding :: "string \<Rightarrow> 'ts triage_db \<Rightarrow> hunt_finding option" where
  "get_finding fid db = find (\<lambda>f. hf_id f = fid) (td_findings db)"

definition get_cluster :: "string \<Rightarrow> 'ts triage_db \<Rightarrow> cluster_row option" where
  "get_cluster cid db = find (\<lambda>c. cl_id c = cid) (td_clusters db)"

definition cluster_state_filters :: "(string \<times> finding_state list) list" where
  "cluster_state_filters =
     [(''active'', [F_NEW, F_CLUSTERED]), (''suppressed'', [F_SUPPRESSED]), (''promoted'', [F_PROMOTED])]"

definition state_filter_of :: "string option \<Rightarrow> finding_state list option" where
  "state_filter_of state = (case state of None \<Rightarrow> None
     | Some s \<Rightarrow> if s = [] \<or> s = ''all'' then None else map_of cluster_state_filters s)"

definition cluster_in_scope :: "string \<Rightarrow> finding_state list option \<Rightarrow> hunt_domain option \<Rightarrow> cluster_row \<Rightarrow> bool" where
  "cluster_in_scope org states domain c =
     (cl_org_id c = org \<and> (case states of None \<Rightarrow> True | Some ss \<Rightarrow> cl_state c \<in> set ss) \<and>
      (case domain of None \<Rightarrow> True | Some d \<Rightarrow> cl_domain c = d))"

definition page_of :: "nat \<Rightarrow> nat \<Rightarrow> 'a list \<Rightarrow> 'a list" where
  "page_of page page_size xs = take page_size (drop ((page - 1) * page_size) xs)"

definition list_clusters ::
  "string \<Rightarrow> bool \<Rightarrow> string option \<Rightarrow> hunt_domain option \<Rightarrow> nat \<Rightarrow> nat \<Rightarrow> 'ts triage_db
     \<Rightarrow> cluster_row list \<times> hunt_finding list \<times> nat \<times> nat" where
  "list_clusters org include_suppressed state domain page page_size db =
     (let states = state_filter_of state;
          scoped = filter (cluster_in_scope org states domain) (td_clusters db);
          rows = page_of page page_size (sort_key (\<lambda>c. - cl_updated_at c) scoped);
          show_all = (include_suppressed \<or> state = Some ''suppressed'' \<or> state = Some ''promoted'');
          visible = (\<lambda>f. show_all \<or> hf_state f \<noteq> F_SUPPRESSED);
          findings = sort_key (\<lambda>f. - hf_created_at f)
            (filter (\<lambda>f. visible f \<and> hf_cluster_id f \<in> Some ` set (map cl_id rows)) (td_findings db));
          total_findings = length (filter (\<lambda>f. hf_org_id f = org \<and> visible f \<and>
            (states = None \<and> domain = None \<or> hf_cluster_id f \<in> Some ` set (map cl_id scoped))) (td_findings db))
      in (rows, findings, length scoped, total_findings))"

definition list_suppressions :: "string \<Rightarrow> 'ts triage_db \<Rightarrow> rule_row list" where
  "list_suppressions org db = sort_key (\<lambda>r. - ru_created_at r) (filter (\<lambda>r. ru_org_id r = org) (td_rules db))"

definition org_ids_with_active_suppressions :: "'ts triage_db \<Rightarrow> string list" where
  "org_ids_with_active_suppressions db = remdups (map ru_org_id (filter (\<lambda>r. ru_state r = R_ACTIVE) (td_rules db)))"

section \<open>Suppression\<close>

definition audit_hunt ::
  "'ts triage_env \<Rightarrow> string \<Rightarrow> string \<Rightarrow> string \<Rightarrow> string \<Rightarrow> hunt_details \<Rightarrow> 'ts triage_db
     \<Rightarrow> (triage_exn, unit) res \<times> 'ts triage_db" where
  "audit_hunt env org actor action resource details db =
     (case audit_record (te_audit env) (te_other env) (te_clock env)
             \<lparr>ae_id = te_audit_id env (length (td_ledger db)), ae_org = org, ae_actor = actor, ae_category = ''hunt'',
              ae_action = action, ae_resource = resource, ae_outcome = ''success'', ae_details = details\<rparr> (td_ledger db) of
        (Inl e, rows) \<Rightarrow> (Inl (AuditLost e), db\<lparr>td_ledger := rows\<rparr>)
      | (Inr r, rows) \<Rightarrow> (Inr (), db\<lparr>td_ledger := rows\<rparr>))"

definition first_actor :: "string option \<Rightarrow> string option \<Rightarrow> string" where
  "first_actor a b = (case a of Some (x # xs) \<Rightarrow> x # xs
     | _ \<Rightarrow> (case b of Some (x # xs) \<Rightarrow> x # xs | _ \<Rightarrow> ''system''))"

definition overbroad_sample_size :: nat where "overbroad_sample_size = 200"
definition hour :: int where "hour = 3600 * 1000000"
definition default_reconfirm_days :: int where "default_reconfirm_days = 90"
definition elevated_roles :: "string list" where "elevated_roles = [''incident_commander'', ''admin'']"

definition recent_sample :: "string \<Rightarrow> 'ts triage_db \<Rightarrow> hunt_finding list" where
  "recent_sample org db =
     take overbroad_sample_size (sort_key (\<lambda>f. - hf_created_at f) (filter (\<lambda>f. hf_org_id f = org) (td_findings db)))"

definition in_hours :: "int \<Rightarrow> nat option \<Rightarrow> int option" where
  "in_hours now h = (case h of Some (Suc n) \<Rightarrow> Some (now + int (Suc n) * hour) | _ \<Rightarrow> None)"

record suppress_request =
  sq_name :: string
  sq_reason :: string
  sq_match :: suppression_match
  sq_created_by :: "string option"
  sq_actor :: "string option"
  sq_target :: "string option"
  sq_expires_in_hours :: "nat option"
  sq_reconfirm_in_hours :: "nat option"
  sq_acknowledge :: bool
  sq_caller_role :: "string option"

definition new_rule :: "string \<Rightarrow> int \<Rightarrow> string \<Rightarrow> suppress_request \<Rightarrow> rule_row" where
  "new_rule rid now org q =
     \<lparr>ru_id = rid, ru_org_id = org, ru_name = sq_name q, ru_reason = sq_reason q, ru_match = sq_match q,
      ru_state = R_ACTIVE, ru_match_count = 0, ru_created_by = sq_created_by q, ru_created_at = now,
      ru_expires_at = in_hours now (sq_expires_in_hours q),
      ru_reconfirm_at = (case in_hours now (sq_reconfirm_in_hours q) of
         Some t \<Rightarrow> Some t | None \<Rightarrow> Some (now + default_reconfirm_days * 24 * hour)),
      ru_harmful_flag = False, ru_harmful_reason = None, ru_harmful_finding_id = None\<rparr>"

definition suppressible :: "string \<Rightarrow> suppression_match \<Rightarrow> hunt_finding \<Rightarrow> bool" where
  "suppressible org m f =
     (hf_org_id f = org \<and> hf_state f \<in> {F_NEW, F_CLUSTERED, F_TRIAGED} \<and> suppression_matches m f)"

definition apply_rule :: "int \<Rightarrow> string \<Rightarrow> rule_row \<Rightarrow> 'ts triage_db \<Rightarrow> nat \<times> 'ts triage_db" where
  "apply_rule now org rule db =
     (let hits = filter (suppressible org (ru_match rule)) (td_findings db);
          touched = touched_clusters hits;
          db1 = db\<lparr>td_findings := map (\<lambda>f. if suppressible org (ru_match rule) f
                     then f\<lparr>hf_state := F_SUPPRESSED, hf_suppressed_by := Some (ru_id rule)\<rparr> else f) (td_findings db),
                   td_rules := td_rules db @ [rule\<lparr>ru_match_count := length hits\<rparr>]\<rparr>
      in (length hits, recompute_cluster_states now touched db1))"

definition create_suppression ::
  "'ts triage_env \<Rightarrow> int \<Rightarrow> string \<Rightarrow> suppress_request \<Rightarrow> 'ts triage_db
     \<Rightarrow> (triage_exn, rule_row \<times> nat) res \<times> 'ts triage_db" where
  "create_suppression env now org q db =
     (if py_strip (sq_reason q) = [] then (Inl BlankReason, db)
      else let verdict = is_overbroad (sq_match q) (recent_sample org db);
               elevated = (sq_acknowledge q \<and> (case sq_caller_role q of None \<Rightarrow> False | Some r \<Rightarrow> r \<in> set elevated_roles))
      in case (verdict, elevated) of
           (Some why, False) \<Rightarrow> (Inl (OverbroadSuppressionError why), db)
         | _ \<Rightarrow>
             (let rule = new_rule (te_new_id env ''supp'' (length (td_rules db))) now org q;
                  (n, db1) = apply_rule now org rule db
              in case audit_hunt env org (first_actor (sq_actor q) (sq_created_by q)) ''suppress''
                        (''suppression:'' @ ru_id rule)
                        (SuppressDetails (sq_name q) (sq_reason q) (sq_match q) n (sq_target q) (ru_expires_at rule)
                          (map_option (\<lambda>why. (why, sq_caller_role q)) verdict)) db1 of
                   (Inl e, db2) \<Rightarrow> (Inl e, db2)
                 | (Inr _, db2) \<Rightarrow> (Inr (rule\<lparr>ru_match_count := n\<rparr>, n), db2)))"

section \<open>The sweep\<close>

definition stale_state :: "int \<Rightarrow> rule_row \<Rightarrow> suppression_state option" where
  "stale_state now r =
     (if (case ru_expires_at r of None \<Rightarrow> False | Some e \<Rightarrow> e \<le> now) then Some R_EXPIRED
      else if (case ru_reconfirm_at r of None \<Rightarrow> False | Some e \<Rightarrow> e \<le> now) then Some R_NEEDS_RECONFIRM
      else None)"

definition flip_action :: "suppression_state \<Rightarrow> string" where
  "flip_action s = (if s = R_EXPIRED then ''suppression_expired'' else ''suppression_needs_reconfirm'')"

fun sweep_rules ::
  "'ts triage_env \<Rightarrow> int \<Rightarrow> rule_row list \<Rightarrow> 'ts triage_db \<Rightarrow> (triage_exn, nat \<times> nat) res \<times> 'ts triage_db" where
  "sweep_rules env now [] db = (Inr (0, 0), db)"
| "sweep_rules env now (r # rs) db =
     (case stale_state now r of
        None \<Rightarrow> sweep_rules env now rs db
      | Some s \<Rightarrow>
          (case audit_hunt env (ru_org_id r) ''system:suppression_sweep'' (flip_action s) (''suppression:'' @ ru_id r)
                  (FlipDetails (ru_name r) s (ru_expires_at r) (ru_reconfirm_at r))
                  (db\<lparr>td_rules := put_by ru_id (r\<lparr>ru_state := s\<rparr>) (td_rules db)\<rparr>) of
             (Inl e, db1) \<Rightarrow> (Inl e, db1)
           | (Inr _, db1) \<Rightarrow>
               (case sweep_rules env now rs db1 of
                  (Inl e, db2) \<Rightarrow> (Inl e, db2)
                | (Inr (x, n), db2) \<Rightarrow> (Inr (if s = R_EXPIRED then (Suc x, n) else (x, Suc n)), db2))))"

definition sweep_scope :: "string option \<Rightarrow> 'ts triage_db \<Rightarrow> rule_row list" where
  "sweep_scope org db =
     filter (\<lambda>r. ru_state r = R_ACTIVE \<and> (case org of None \<Rightarrow> True | Some i \<Rightarrow> ru_org_id r = i)) (td_rules db)"

definition sweep_stale_suppressions ::
  "'ts triage_env \<Rightarrow> int \<Rightarrow> string option \<Rightarrow> 'ts triage_db \<Rightarrow> (triage_exn, nat \<times> nat \<times> nat) res \<times> 'ts triage_db" where
  "sweep_stale_suppressions env now org db =
     (let rows = sweep_scope org db in
      case sweep_rules env now rows db of
        (Inl e, db1) \<Rightarrow> (Inl e, db1)
      | (Inr (x, n), db1) \<Rightarrow> (Inr (x, n, length rows), db1))"

section \<open>Promotion\<close>

definition harm_reason :: "string \<Rightarrow> string \<Rightarrow> string \<Rightarrow> string \<Rightarrow> string" where
  "harm_reason name fid iid actor =
     ''Suppression '' @ [CHR 39] @ name @ [CHR 39] @ '' matched finding '' @ [CHR 39] @ fid @ [CHR 39] @
     '' promoted to investigation '' @ [CHR 39] @ iid @ [CHR 39] @ '' by '' @ actor"

fun flag_harmful ::
  "'ts triage_env \<Rightarrow> string \<Rightarrow> string \<Rightarrow> string \<Rightarrow> hunt_finding list \<Rightarrow> string list \<Rightarrow> rule_row list \<Rightarrow> 'ts triage_db
     \<Rightarrow> (triage_exn, unit) res \<times> 'ts triage_db" where
  "flag_harmful env org actor iid fs harmful [] db = (Inr (), db)"
| "flag_harmful env org actor iid fs harmful (r # rs) db =
     (if ru_id r \<notin> set harmful \<or> ru_harmful_flag r then flag_harmful env org actor iid fs harmful rs db
      else case find (suppression_matches (ru_match r)) fs of
        None \<Rightarrow> flag_harmful env org actor iid fs harmful rs db
      | Some f \<Rightarrow>
          (let why = harm_reason (ru_name r) (hf_id f) iid actor;
               db1 = db\<lparr>td_rules := put_by ru_id (r\<lparr>ru_harmful_flag := True, ru_harmful_reason := Some why,
                          ru_harmful_finding_id := Some (hf_id f)\<rparr>) (td_rules db)\<rparr>
           in case audit_hunt env org actor ''suppression_flagged_harmful'' (''suppression:'' @ ru_id r)
                     (HarmDetails (ru_name r) why (hf_id f) iid) db1 of
                (Inl e, db2) \<Rightarrow> (Inl e, db2)
              | (Inr _, db2) \<Rightarrow> flag_harmful env org actor iid fs harmful rs db2))"

definition new_investigation ::
  "string \<Rightarrow> string \<Rightarrow> title_text \<Rightarrow> string option \<Rightarrow> hunt_finding list \<Rightarrow> revocation_proposal option \<Rightarrow> cloud_proposal option
     \<Rightarrow> investigation_row" where
  "new_investigation i org title assigned rows revocation containment =
     \<lparr>iv_id = i, iv_org_id = org, iv_title = title, iv_severity = max_severity rows, iv_assigned_to = assigned,
      iv_hunt_finding_ids = map hf_id rows, iv_mitre_techniques = union_techniques rows,
      iv_observables = concat (map fp_observables rows),
      iv_evidence = filter (\<lambda>e. e \<noteq> []) (map fp_evidence rows),
      iv_revocation = revocation, iv_containment = containment\<rparr>"

definition promoted :: "string \<Rightarrow> string list \<Rightarrow> hunt_finding \<Rightarrow> hunt_finding" where
  "promoted iid ids f = (if hf_id f \<in> set ids then f\<lparr>hf_state := F_PROMOTED, hf_investigation_id := Some iid\<rparr> else f)"

definition promote_to_investigation ::
  "'ts triage_env \<Rightarrow> int \<Rightarrow> string \<Rightarrow> string list \<Rightarrow> title_text \<Rightarrow> string option \<Rightarrow> string option \<Rightarrow> 'ts triage_db
     \<Rightarrow> (triage_exn, investigation_row \<times> string list) res \<times> 'ts triage_db" where
  "promote_to_investigation env now org finding_ids title assigned actor db =
     (let rows = filter (\<lambda>f. hf_id f \<in> set finding_ids \<and> hf_org_id f = org) (td_findings db) in
      if rows = [] then (Inl NoFindings, db)
      else case build_revocation_proposal rows of
        Inl e \<Rightarrow> (Inl (BuilderRaised e), db)
      | Inr revocation \<Rightarrow>
          (case build_cloud_containment_proposal rows of
             Inl e \<Rightarrow> (Inl (BuilderRaised e), db)
           | Inr containment \<Rightarrow>
               (let ids = map hf_id rows;
                    case_row = new_investigation (te_new_id env ''inv'' (length (td_investigations db))) org
                            (if title = [] then codes ''Hunt promotion: '' @ fp_title (hd rows) else title)
                            assigned rows revocation containment;
                    who = first_actor actor assigned;
                    db1 = db\<lparr>td_investigations := td_investigations db @ [case_row],
                             td_findings := map (promoted (iv_id case_row) ids) (td_findings db)\<rparr>;
                    db2 = recompute_cluster_states now (touched_clusters rows) db1;
                    active = active_suppressions now org (td_rules db2);
                    harmful = harmful_suppressions (map ru_match active) (map ru_id active) rows
                in case flag_harmful env org who (iv_id case_row) rows harmful active db2 of
                     (Inl e, db3) \<Rightarrow> (Inl e, db3)
                   | (Inr _, db3) \<Rightarrow>
                       (case audit_hunt env org who ''promote'' (''investigation:'' @ iv_id case_row)
                               (PromoteDetails (iv_title case_row) (iv_severity case_row) ids (iv_mitre_techniques case_row)
                                 (revocation \<noteq> None)
                                 (case containment of None \<Rightarrow> 0 | Some p \<Rightarrow> length (cp_actions p))) db3 of
                          (Inl e, db4) \<Rightarrow> (Inl e, db4)
                        | (Inr _, db4) \<Rightarrow> (Inr (case_row, ids), db4)))))"

section \<open>Clusters as a whole\<close>

definition set_cluster_state :: "int \<Rightarrow> string \<Rightarrow> finding_state \<Rightarrow> 'ts triage_db \<Rightarrow> 'ts triage_db" where
  "set_cluster_state now cid s db =
     db\<lparr>td_clusters := map (\<lambda>c. if cl_id c = cid then c\<lparr>cl_state := s, cl_updated_at := now\<rparr> else c) (td_clusters db)\<rparr>"

text \<open>The request carries the match to use when the caller gave one.\<close>

definition suppress_cluster ::
  "'ts triage_env \<Rightarrow> int \<Rightarrow> string \<Rightarrow> string \<Rightarrow> suppression_match option \<Rightarrow> suppress_request \<Rightarrow> 'ts triage_db
     \<Rightarrow> (triage_exn, rule_row \<times> nat) res \<times> 'ts triage_db" where
  "suppress_cluster env now org cid match q db =
     (let members = cluster_members cid (td_findings db) in
      if match \<noteq> None \<and> members \<noteq> [] \<and> \<not> list_ex (suppression_matches (the match)) members
      then (Inl MatchMissesCluster, db)
      else let m = (case match of None \<Rightarrow> match_for_cluster members | Some x \<Rightarrow> x) in
        case create_suppression env now org (q\<lparr>sq_match := m, sq_target := Some (''hunt_cluster:'' @ cid)\<rparr>) db of
          (Inl e, db1) \<Rightarrow> (Inl e, db1)
        | (Inr r, db1) \<Rightarrow>
            (let after = cluster_members cid (td_findings db1) in
             (Inr r, if after \<noteq> [] \<and> list_all (\<lambda>f. hf_state f = F_SUPPRESSED \<or> hf_state f = F_DISMISSED) after
                     then set_cluster_state now cid F_SUPPRESSED db1 else db1)))"

definition promotable :: "string \<Rightarrow> string \<Rightarrow> hunt_finding \<Rightarrow> bool" where
  "promotable org cid f =
     (hf_cluster_id f = Some cid \<and> hf_org_id f = org \<and> hf_state f \<noteq> F_PROMOTED \<and> hf_state f \<noteq> F_DISMISSED)"

definition promote_cluster ::
  "'ts triage_env \<Rightarrow> int \<Rightarrow> string \<Rightarrow> cluster_row \<Rightarrow> title_text \<Rightarrow> string option \<Rightarrow> string option \<Rightarrow> 'ts triage_db
     \<Rightarrow> (triage_exn, investigation_row \<times> string list) res \<times> 'ts triage_db" where
  "promote_cluster env now org c title assigned actor db =
     (let rows = filter (promotable org (cl_id c)) (td_findings db) in
      if rows = [] then (Inl NoPromotable, db)
      else case promote_to_investigation env now org (map hf_id rows)
                  (if title = [] then codes ''Hunt promotion: '' @ cl_title c else title) assigned actor db of
             (Inl e, db1) \<Rightarrow> (Inl e, db1)
           | (Inr r, db1) \<Rightarrow> (Inr r, set_cluster_state now (cl_id c) F_PROMOTED db1))"

end
