(* ===== verification/HuntStoreProps.thy ===== *)
theory HuntStoreProps
  imports HuntStore
begin

text \<open>
  Theorems on the hunt triage service: the store invariant along any sequence of operations,
  what an ingest, a suppression, a sweep and a promotion establish, and the deviations.
\<close>

section \<open>Cores: what only an ingest changes\<close>

definition finding_core :: "hunt_finding \<Rightarrow> hunt_finding" where
  "finding_core f = f\<lparr>hf_state := F_NEW, hf_suppressed_by := None, hf_investigation_id := None\<rparr>"

definition cluster_core :: "cluster_row \<Rightarrow> cluster_row" where
  "cluster_core c = c\<lparr>cl_state := F_NEW, cl_updated_at := 0\<rparr>"

definition rule_core :: "rule_row \<Rightarrow> string \<times> string \<times> suppression_match" where
  "rule_core r = (ru_id r, ru_org_id r, ru_match r)"

lemma finding_core_simps [simp]:
  "hf_id (finding_core f) = hf_id f" "hf_org_id (finding_core f) = hf_org_id f"
  "hf_cluster_id (finding_core f) = hf_cluster_id f" "hf_signature (finding_core f) = hf_signature f"
  "fp_severity (finding_core f) = fp_severity f" "fp_technique_ids (finding_core f) = fp_technique_ids f"
  "finding_signature (finding_core f) = finding_signature f"
  "suppression_matches m (finding_core f) = suppression_matches m f"
  by (simp_all add: finding_core_def finding_signature_def suppression_matches_def)

lemma cluster_core_simps [simp]:
  "cl_id (cluster_core c) = cl_id c" "cl_org_id (cluster_core c) = cl_org_id c"
  "cl_signature (cluster_core c) = cl_signature c" "cl_finding_count (cluster_core c) = cl_finding_count c"
  "cl_severity (cluster_core c) = cl_severity c" "cl_technique_ids (cluster_core c) = cl_technique_ids c"
  by (simp_all add: cluster_core_def)

lemma core_of_update [simp]:
  "finding_core (f\<lparr>hf_state := s\<rparr>) = finding_core f" "finding_core (f\<lparr>hf_suppressed_by := x\<rparr>) = finding_core f"
  "finding_core (f\<lparr>hf_investigation_id := i\<rparr>) = finding_core f"
  "cluster_core (c\<lparr>cl_state := s\<rparr>) = cluster_core c" "cluster_core (c\<lparr>cl_updated_at := t\<rparr>) = cluster_core c"
  "rule_core (r\<lparr>ru_state := u\<rparr>) = rule_core r" "rule_core (r\<lparr>ru_match_count := n\<rparr>) = rule_core r"
  "rule_core (r\<lparr>ru_harmful_flag := b\<rparr>) = rule_core r" "rule_core (r\<lparr>ru_harmful_reason := w\<rparr>) = rule_core r"
  "rule_core (r\<lparr>ru_harmful_finding_id := j\<rparr>) = rule_core r"
  by (simp_all add: finding_core_def cluster_core_def rule_core_def)

lemma max_severity_fold:
  "max_severity fs = (case map fp_severity fs of [] \<Rightarrow> INFO
     | s # ss \<Rightarrow> foldl (\<lambda>a b. if severity_rank a < severity_rank b then b else a) s ss)"
  by (cases fs) (simp_all add: max_severity_def foldl_map)

lemma max_severity_cong: "map fp_severity fs = map fp_severity gs \<Longrightarrow> max_severity fs = max_severity gs"
  by (simp only: max_severity_fold)

lemma union_techniques_cong:
  "map fp_technique_ids fs = map fp_technique_ids gs \<Longrightarrow> union_techniques fs = union_techniques gs"
  by (simp only: union_techniques_def)

lemma rollup_core [simp]:
  "max_severity (map finding_core fs) = max_severity fs" "union_techniques (map finding_core fs) = union_techniques fs"
  by (rule max_severity_cong union_techniques_cong; simp)+

lemma members_core: "cluster_members cid (map finding_core fs) = map finding_core (cluster_members cid fs)"
  by (induction fs) (simp_all add: cluster_members_def)

section \<open>The invariant\<close>

definition numbered_rows :: "(nat \<Rightarrow> string) \<Rightarrow> string list \<Rightarrow> bool" where
  "numbered_rows new ids = (ids = map new [0..<length ids])"

definition homed :: "cluster_row list \<Rightarrow> hunt_finding \<Rightarrow> bool" where
  "homed cs f = (hf_signature f = finding_signature f \<and>
     list_ex (\<lambda>c. hf_cluster_id f = Some (cl_id c) \<and> cl_org_id c = hf_org_id f \<and> cl_signature c = hf_signature f) cs)"

definition agrees :: "hunt_finding list \<Rightarrow> cluster_row \<Rightarrow> bool" where
  "agrees fs c = (let ms = cluster_members (cl_id c) fs in ms \<noteq> [] \<and> cl_finding_count c = length ms \<and>
     cl_severity c = max_severity ms \<and> cl_technique_ids c = union_techniques ms)"

definition structure_ok :: "'ts triage_env \<Rightarrow> hunt_finding list \<Rightarrow> cluster_row list \<Rightarrow> bool" where
  "structure_ok env fs cs =
     (numbered_rows (te_new_id env ''hfnd'') (map hf_id fs) \<and> numbered_rows (te_new_id env ''hclu'') (map cl_id cs) \<and>
      distinct (map (\<lambda>c. (cl_org_id c, cl_signature c)) cs) \<and> list_all (homed cs) fs \<and> list_all (agrees fs) cs)"

definition vouched :: "(string \<times> string \<times> suppression_match) set \<Rightarrow> investigation_row list \<Rightarrow> hunt_finding \<Rightarrow> bool" where
  "vouched rules ivs f =
     (case hf_state f of
        F_SUPPRESSED \<Rightarrow> (\<exists>rid m. hf_suppressed_by f = Some rid \<and> (rid, hf_org_id f, m) \<in> rules \<and> suppression_matches m f)
      | F_PROMOTED \<Rightarrow> list_ex (\<lambda>v. hf_investigation_id f = Some (iv_id v) \<and> iv_org_id v = hf_org_id f \<and>
                                hf_id f \<in> set (iv_hunt_finding_ids v)) ivs
      | _ \<Rightarrow> True)"

definition rules_of :: "'ts triage_db \<Rightarrow> (string \<times> string \<times> suppression_match) set" where
  "rules_of db = rule_core ` set (td_rules db)"

definition triage_ok :: "'ts triage_env \<Rightarrow> 'ts triage_db \<Rightarrow> bool" where
  "triage_ok env db =
     (structure_ok env (td_findings db) (td_clusters db) \<and>
      numbered_rows (te_new_id env ''supp'') (map ru_id (td_rules db)) \<and>
      numbered_rows (te_new_id env ''inv'') (map iv_id (td_investigations db)) \<and>
      list_all (vouched (rules_of db) (td_investigations db)) (td_findings db))"

lemma homed_core [simp]: "homed (map cluster_core cs) (finding_core f) = homed cs f"
  by (simp add: homed_def list_ex_iff)

lemma agrees_core [simp]: "agrees (map finding_core fs) (cluster_core c) = agrees fs c"
  by (simp add: agrees_def members_core Let_def)

lemma structure_core: "structure_ok env (map finding_core fs) (map cluster_core cs) = structure_ok env fs cs"
  by (simp add: structure_ok_def list_all_iff o_def)

lemma structure_cong:
  assumes "map finding_core fs' = map finding_core fs" "map cluster_core cs' = map cluster_core cs"
  shows "structure_ok env fs' cs' = structure_ok env fs cs"
  using assms structure_core[of env fs' cs'] structure_core[of env fs cs] by simp

section \<open>Tables\<close>

lemma numbered_snoc: "numbered_rows new xs \<Longrightarrow> x = new (length xs) \<Longrightarrow> numbered_rows new (xs @ [x])"
  by (simp add: numbered_rows_def)

lemma numbered_fresh: "numbered_rows new xs \<Longrightarrow> inj new \<Longrightarrow> distinct xs \<and> new (length xs) \<notin> set xs"
proof -
  assume a: "numbered_rows new xs" "inj new"
  have "distinct (map new [0..<length xs])" using a(2) by (simp add: distinct_map inj_on_def)
  moreover have "new (length xs) \<notin> set (map new [0..<length xs])" using a(2) by (auto simp: inj_eq)
  ultimately show ?thesis using a(1) unfolding numbered_rows_def by metis
qed

lemma map_put_by:
  assumes "distinct (map key xs)" "x \<in> set xs" "key x' = key x" "g x' = g x"
  shows "map g (put_by key x' xs) = map g xs"
  using assms by (auto simp: put_by_def distinct_map inj_on_def)

lemma map_put_by_core:
  assumes "distinct (map key xs)" "g r \<in> g ` set xs" "g r' = g r" "\<And>a b. g a = g b \<Longrightarrow> key a = key b"
  shows "map g (put_by key r' xs) = map g xs"
proof -
  obtain x where x: "x \<in> set xs" "g r = g x" using assms(2) by blast
  have "key r' = key x" by (rule assms(4)) (simp add: assms(3) x(2))
  then show ?thesis by (rule map_put_by[OF assms(1) x(1)]) (simp add: assms(3) x(2))
qed

lemma set_put_by:
  assumes "distinct (map key xs)" "x \<in> set xs" "key x' = key x"
  shows "set (put_by key x' xs) = insert x' {y \<in> set xs. key y \<noteq> key x}"
  using assms by (auto simp: put_by_def)

lemma find_keyed: "find P xs = Some x \<Longrightarrow> x \<in> set xs \<and> P x"
  by (induction xs) (auto split: if_splits)

lemma homed_put_by:
  assumes "homed cs f" "map cl_id cs' = map cl_id cs" "map (\<lambda>c. (cl_org_id c, cl_signature c)) cs' = map (\<lambda>c. (cl_org_id c, cl_signature c)) cs"
  shows "homed cs' f"
proof -
  have l: "length cs' = length cs" using assms(2) map_eq_imp_length_eq by blast
  have nth: "cl_id (cs' ! i) = cl_id (cs ! i) \<and> cl_org_id (cs' ! i) = cl_org_id (cs ! i) \<and>
      cl_signature (cs' ! i) = cl_signature (cs ! i)" if "i < length cs" for i
    using arg_cong[OF assms(2), where f = "\<lambda>ys. ys ! i"] arg_cong[OF assms(3), where f = "\<lambda>ys. ys ! i"] that l by simp
  show ?thesis using assms(1) l nth by (fastforce simp: homed_def list_ex_length)
qed

lemma homed_append: "homed cs f \<Longrightarrow> homed (cs @ ds) f"
  by (auto simp: homed_def)

lemma members_append: "cluster_members cid (fs @ [f]) = cluster_members cid fs @ (if hf_cluster_id f = Some cid then [f] else [])"
  by (simp add: cluster_members_def)

lemma foreign_members: "list_all (homed cs) fs \<Longrightarrow> cid \<notin> set (map cl_id cs) \<Longrightarrow> cluster_members cid fs = []"
  by (fastforce simp: cluster_members_def filter_empty_conv list_all_iff homed_def list_ex_iff)

text \<open>The rollup of a cluster that takes in one more finding.\<close>

lemma fold_into_agrees:
  assumes core: "fp_severity row2 = fp_severity row" "fp_technique_ids row2 = fp_technique_ids row"
    and home: "hf_cluster_id row2 = Some (cl_id c)"
  shows "agrees (fs @ [row2]) (fold_into now (cluster_members (cl_id c) fs @ [row]) c)"
proof -
  let ?ms = "cluster_members (cl_id c) fs"
  have "max_severity (?ms @ [row]) = max_severity (?ms @ [row2])" using core by (intro max_severity_cong) simp
  moreover have "union_techniques (?ms @ [row]) = union_techniques (?ms @ [row2])"
    using core by (intro union_techniques_cong) simp
  ultimately show ?thesis by (simp add: agrees_def fold_into_def members_append home)
qed

lemma agrees_append: "agrees fs c \<Longrightarrow> hf_cluster_id f \<noteq> Some (cl_id c) \<Longrightarrow> agrees (fs @ [f]) c"
  by (simp add: agrees_def members_append)

lemma fold_into_simps [simp]:
  "cl_id (fold_into now ms c) = cl_id c" "cl_org_id (fold_into now ms c) = cl_org_id c"
  "cl_signature (fold_into now ms c) = cl_signature c"
  by (simp_all add: fold_into_def)

section \<open>Ingest\<close>

lemma find_Some_all: "find P xs = None \<Longrightarrow> x \<in> set xs \<Longrightarrow> \<not> P x"
  by (simp add: find_None_iff)

lemma upsert_new:
  assumes ok: "structure_ok env fs cs" and inj: "inj (te_new_id env ''hclu'')"
    and miss: "get_cluster_by (hf_org_id row) (finding_signature row) cs = None"
    and c: "c = fold_into now [row] (fresh_cluster env now row (length cs))"
    and row2: "fp_severity row2 = fp_severity row" "fp_technique_ids row2 = fp_technique_ids row"
      "finding_signature row2 = finding_signature row" "hf_org_id row2 = hf_org_id row"
    and set2: "hf_signature row2 = finding_signature row" "hf_cluster_id row2 = Some (cl_id c)"
      "hf_id row2 = te_new_id env ''hfnd'' (length fs)"
  shows "structure_ok env (fs @ [row2]) (cs @ [c])"
proof -
  have cid: "cl_id c = te_new_id env ''hclu'' (length cs)" and cos: "cl_org_id c = hf_org_id row" "cl_signature c = finding_signature row"
    by (simp_all add: c fresh_cluster_def)
  have fresh: "cl_id c \<notin> set (map cl_id cs)"
    using numbered_fresh[of "te_new_id env ''hclu''" "map cl_id cs"] ok inj by (simp add: structure_ok_def cid)
  have none: "cluster_members (cl_id c) fs = []" using ok fresh by (intro foreign_members) (simp_all add: structure_ok_def)
  have pair: "(hf_org_id row, finding_signature row) \<notin> set (map (\<lambda>c. (cl_org_id c, cl_signature c)) cs)"
    using miss by (auto simp: get_cluster_by_def find_None_iff)
  have "agrees (fs @ [row2]) c"
    using fold_into_agrees[of row2 row c fs now] row2 set2 none
    by (simp add: agrees_def members_append c Let_def) (simp add: fold_into_def fresh_cluster_def max_severity_def union_techniques_def)
  moreover have "hf_cluster_id row2 \<noteq> Some (cl_id x)" if "x \<in> set cs" for x
    using fresh that set2(2) by auto
  then have "list_all (agrees (fs @ [row2])) cs"
    using ok by (auto simp: structure_ok_def list_all_iff intro!: agrees_append)
  moreover have "homed (cs @ [c]) row2" using set2 row2 cos by (simp add: homed_def)
  moreover have "list_all (homed (cs @ [c])) fs"
    using ok by (auto simp: structure_ok_def list_all_iff intro: homed_append)
  ultimately show ?thesis
    using ok pair set2(3) cid cos by (auto simp: structure_ok_def intro!: numbered_snoc)
qed

lemma upsert_known:
  assumes ok: "structure_ok env fs cs" and inj: "inj (te_new_id env ''hclu'')"
    and hit: "get_cluster_by (hf_org_id row) (finding_signature row) cs = Some c0"
    and c: "c = fold_into now (cluster_members (cl_id c0) fs @ [row]) c0"
    and row2: "fp_severity row2 = fp_severity row" "fp_technique_ids row2 = fp_technique_ids row"
      "finding_signature row2 = finding_signature row" "hf_org_id row2 = hf_org_id row"
    and set2: "hf_signature row2 = finding_signature row" "hf_cluster_id row2 = Some (cl_id c0)"
      "hf_id row2 = te_new_id env ''hfnd'' (length fs)"
  shows "structure_ok env (fs @ [row2]) (put_by cl_id c cs)"
proof -
  have in0: "c0 \<in> set cs" and key: "cl_org_id c0 = hf_org_id row" "cl_signature c0 = finding_signature row"
    using find_keyed[OF hit[unfolded get_cluster_by_def]] by auto
  have dist: "distinct (map cl_id cs)"
    using numbered_fresh[of "te_new_id env ''hclu''" "map cl_id cs"] ok inj by (simp add: structure_ok_def)
  have same: "cl_id c = cl_id c0" "(cl_org_id c, cl_signature c) = (cl_org_id c0, cl_signature c0)" by (simp_all add: c)
  note ids = map_put_by[OF dist in0 same(1), where g = cl_id, OF same(1)]
  note pairs = map_put_by[OF dist in0 same(1), where g = "\<lambda>c. (cl_org_id c, cl_signature c)", OF same(2)]
  note elems = set_put_by[OF dist in0 same(1)]
  have "agrees (fs @ [row2]) c" unfolding c by (rule fold_into_agrees[OF row2(1,2) set2(2)])
  then have "list_all (agrees (fs @ [row2])) (put_by cl_id c cs)"
    using ok set2(2) by (auto simp: structure_ok_def list_all_iff elems intro!: agrees_append)
  moreover have "homed cs row2" using in0 key set2 row2 by (auto simp: homed_def list_ex_iff)
  then have "list_all (homed (put_by cl_id c cs)) (fs @ [row2])"
    using ok by (auto simp: structure_ok_def list_all_iff intro: homed_put_by[OF _ ids pairs])
  ultimately show ?thesis
    using ok set2(3) by (auto simp: structure_ok_def ids pairs intro!: numbered_snoc)
qed

definition fresh_ids :: "'ts triage_env \<Rightarrow> bool" where
  "fresh_ids env = (\<forall>p. inj (te_new_id env p))"

lemma rule_ids_distinct: "triage_ok env db \<Longrightarrow> fresh_ids env \<Longrightarrow> distinct (map ru_id (td_rules db))"
  using numbered_fresh by (auto simp: triage_ok_def fresh_ids_def)

lemma rule_core_id: "rule_core a = rule_core b \<Longrightarrow> ru_id a = ru_id b"
  by (simp add: rule_core_def)

lemma active_in: "r \<in> set (active_suppressions now org rules) \<Longrightarrow> r \<in> set rules \<and> ru_org_id r = org \<and> ru_state r = R_ACTIVE \<and> unexpired now r"
  by (simp add: active_suppressions_def)

lemma vouched_mono:
  "vouched A V f \<Longrightarrow> A \<subseteq> B \<Longrightarrow> set V \<subseteq> set W \<Longrightarrow> vouched B W f"
  by (auto simp: vouched_def list_ex_iff split: finding_state.splits)

lemma apply_suppressions_ok:
  assumes run: "apply_suppressions_to row (active_suppressions now (hf_org_id row) rules) rules = (row2, rules2)"
    and dist: "distinct (map ru_id rules)" and state: "hf_state row = F_CLUSTERED"
  shows "map rule_core rules2 = map rule_core rules \<and> finding_core row2 = finding_core row \<and>
    vouched (rule_core ` set rules) V row2"
proof (cases "find (\<lambda>r. suppression_matches (ru_match r) row) (active_suppressions now (hf_org_id row) rules)")
  case None
  have "row2 = row" "rules2 = rules" using run by (simp_all add: apply_suppressions_to_def None)
  then show ?thesis using state by (simp add: vouched_def)
next
  case (Some r)
  from find_keyed[OF Some] have r: "r \<in> set rules" "ru_org_id r = hf_org_id row" "suppression_matches (ru_match r) row"
    by (auto dest: active_in)
  have "map rule_core (put_by ru_id (r\<lparr>ru_match_count := ru_match_count r + 1\<rparr>) rules) = map rule_core rules"
    by (rule map_put_by[OF dist r(1)]) simp_all
  moreover have "vouched (rule_core ` set rules) V (row\<lparr>hf_state := F_SUPPRESSED, hf_suppressed_by := Some (ru_id r)\<rparr>)"
    using r finding_core_simps(8)[of _ "row\<lparr>hf_state := F_SUPPRESSED, hf_suppressed_by := Some (ru_id r)\<rparr>"]
      finding_core_simps(8)[of _ row]
    by (auto simp: vouched_def rule_core_def image_iff intro!: exI[of _ "ru_match r"])
  ultimately show ?thesis using run Some by (auto simp: apply_suppressions_to_def)
qed

lemma new_finding_simps [simp]:
  "hf_id (new_finding i now org q) = i" "hf_org_id (new_finding i now org q) = org"
  "fp_severity (new_finding i now org q) = fp_severity q" "fp_technique_ids (new_finding i now org q) = fp_technique_ids q"
  "finding_signature (new_finding i now org q) = finding_signature q"
  "suppression_matches m (new_finding i now org q) = suppression_matches m q"
  by (simp_all add: new_finding_def finding_signature_def suppression_matches_def record_finding_request.defs)

lemma core_eqs:
  assumes "finding_core a = finding_core b"
  shows "hf_id a = hf_id b \<and> hf_org_id a = hf_org_id b \<and> hf_cluster_id a = hf_cluster_id b \<and> hf_signature a = hf_signature b \<and>
    fp_severity a = fp_severity b \<and> fp_technique_ids a = fp_technique_ids b \<and> finding_signature a = finding_signature b"
  using arg_cong[OF assms, of hf_id] arg_cong[OF assms, of hf_org_id] arg_cong[OF assms, of hf_cluster_id]
    arg_cong[OF assms, of hf_signature] arg_cong[OF assms, of fp_severity] arg_cong[OF assms, of fp_technique_ids]
    arg_cong[OF assms, of finding_signature] by simp

lemma upsert_frame:
  "upsert_cluster_for env now row db = (c, db1) \<Longrightarrow>
     td_findings db1 = td_findings db \<and> td_rules db1 = td_rules db \<and> td_investigations db1 = td_investigations db \<and> td_ledger db1 = td_ledger db"
  by (auto simp: upsert_cluster_for_def Let_def split: option.splits)

lemma upsert_structure:
  assumes up: "upsert_cluster_for env now row db = (c, db1)"
    and ok: "structure_ok env (td_findings db) (td_clusters db)" and fresh: "fresh_ids env"
    and core: "finding_core row2 = finding_core (row\<lparr>hf_signature := finding_signature row, hf_cluster_id := Some (cl_id c)\<rparr>)"
    and fid: "hf_id row = te_new_id env ''hfnd'' (length (td_findings db))"
  shows "structure_ok env (td_findings db1 @ [row2]) (td_clusters db1)"
proof -
  have inj: "inj (te_new_id env ''hclu'')" using fresh by (simp add: fresh_ids_def)
  have upd: "finding_signature (row\<lparr>hf_signature := x, hf_cluster_id := y\<rparr>) = finding_signature row" for x y
    by (simp add: finding_signature_def)
  note eqs = core_eqs[OF core, simplified upd, simplified]
  show ?thesis
  proof (cases "get_cluster_by (hf_org_id row) (finding_signature row) (td_clusters db)")
    case None
    have none: "cluster_members (cl_id (fresh_cluster env now row (length (td_clusters db)))) (td_findings db) = []"
    proof (rule foreign_members)
      show "list_all (homed (td_clusters db)) (td_findings db)" using ok by (simp add: structure_ok_def)
      show "cl_id (fresh_cluster env now row (length (td_clusters db))) \<notin> set (map cl_id (td_clusters db))"
        using numbered_fresh[of "te_new_id env ''hclu''" "map cl_id (td_clusters db)"] ok inj
        by (simp add: structure_ok_def fresh_cluster_def)
    qed
    have c: "c = fold_into now [row] (fresh_cluster env now row (length (td_clusters db)))"
      and db1: "td_clusters db1 = td_clusters db @ [c]"
      using up none by (auto simp: upsert_cluster_for_def None Let_def)
    show ?thesis
      unfolding db1 conjunct1[OF upsert_frame[OF up]]
      by (rule upsert_new[OF ok inj None c]) (use eqs fid in simp_all)
  next
    case (Some c0)
    have c: "c = fold_into now (cluster_members (cl_id c0) (td_findings db) @ [row]) c0"
      and db1: "td_clusters db1 = put_by cl_id c (td_clusters db)"
      using up by (auto simp: upsert_cluster_for_def Some Let_def)
    then have cid: "cl_id c = cl_id c0" by simp
    show ?thesis
      unfolding db1 conjunct1[OF upsert_frame[OF up]]
      by (rule upsert_known[OF ok inj Some c]) (use eqs fid cid in simp_all)
  qed
qed

lemma record_finding_ok:
  assumes ok: "triage_ok env db" and fresh: "fresh_ids env"
  shows "triage_ok env (snd (record_finding env now org q db))"
proof -
  define row where "row = new_finding (te_new_id env ''hfnd'' (length (td_findings db))) now org q"
  obtain c db1 where up: "upsert_cluster_for env now row db = (c, db1)" by (metis surj_pair)
  define row1 where "row1 = row\<lparr>hf_signature := finding_signature row, hf_cluster_id := Some (cl_id c), hf_state := F_CLUSTERED\<rparr>"
  obtain row2 rules2 where app: "apply_suppressions_to row1 (active_suppressions now org (td_rules db1)) (td_rules db1) = (row2, rules2)"
    by (metis surj_pair)
  have run: "record_finding env now org q db = (row2, db1\<lparr>td_findings := td_findings db1 @ [row2], td_rules := rules2\<rparr>)"
    by (simp add: record_finding_def row_def[symmetric] up row1_def[symmetric] app)
  note frame = upsert_frame[OF up]
  have org1: "hf_org_id row1 = org" by (simp add: row1_def row_def)
  have s: "map rule_core rules2 = map rule_core (td_rules db) \<and> finding_core row2 = finding_core row1 \<and>
      vouched (rule_core ` set (td_rules db)) (td_investigations db) row2"
    using apply_suppressions_ok[of row1 now "td_rules db1" row2 rules2] app org1 frame rule_ids_distinct[OF ok fresh]
    by (simp add: row1_def)
  then have rules: "rule_core ` set rules2 = rule_core ` set (td_rules db)" "map ru_id rules2 = map ru_id (td_rules db)"
    by (metis list.set_map, metis (mono_tags, lifting) list.inj_map_strong list.map_comp o_def map_eq_conv rule_core_def fst_conv)
  have "structure_ok env (td_findings db1 @ [row2]) (td_clusters db1)"
    by (rule upsert_structure[OF up _ fresh]) (use ok s in \<open>simp_all add: triage_ok_def row1_def row_def\<close>)
  then show ?thesis
    using ok s rules frame by (simp add: run triage_ok_def rules_of_def)
qed

section \<open>Operations that keep the cores\<close>

lemma triage_ok_update:
  assumes ok: "triage_ok env db"
    and fs: "map finding_core (td_findings db') = map finding_core (td_findings db)"
    and cs: "map cluster_core (td_clusters db') = map cluster_core (td_clusters db)"
    and rs: "numbered_rows (te_new_id env ''supp'') (map ru_id (td_rules db'))" "rules_of db \<subseteq> rules_of db'"
    and vs: "numbered_rows (te_new_id env ''inv'') (map iv_id (td_investigations db'))"
      "set (td_investigations db) \<subseteq> set (td_investigations db')"
    and new: "\<And>f. f \<in> set (td_findings db') \<Longrightarrow>
      f \<in> set (td_findings db) \<or> vouched (rules_of db') (td_investigations db') f"
  shows "triage_ok env db'"
proof -
  have "vouched (rules_of db') (td_investigations db') f" if "f \<in> set (td_findings db')" for f
    using new[OF that] ok rs(2) vs(2) by (auto simp: triage_ok_def list_all_iff intro: vouched_mono)
  then show ?thesis
    using ok rs vs structure_cong[OF fs cs, of env] by (simp add: triage_ok_def list_all_iff)
qed

text \<open>States that differ in the derived cluster state and in the bookkeeping of rules only.\<close>

definition same_facts :: "'ts triage_db \<Rightarrow> 'ts triage_db \<Rightarrow> bool" where
  "same_facts db db' =
     (td_findings db' = td_findings db \<and> map cluster_core (td_clusters db') = map cluster_core (td_clusters db) \<and>
      td_investigations db' = td_investigations db \<and> map rule_core (td_rules db') = map rule_core (td_rules db))"

lemma same_facts_refl [simp]: "same_facts db db"
  by (simp add: same_facts_def)

lemma same_facts_trans: "same_facts a b \<Longrightarrow> same_facts b c \<Longrightarrow> same_facts a c"
  by (simp add: same_facts_def)

lemma core_maps:
  assumes "map rule_core xs = map rule_core ys"
  shows "rule_core ` set xs = rule_core ` set ys" "map ru_id xs = map ru_id ys"
proof -
  show "rule_core ` set xs = rule_core ` set ys" using assms by (metis list.set_map)
  have "map (fst \<circ> rule_core) xs = map (fst \<circ> rule_core) ys" using assms by (metis map_map)
  then show "map ru_id xs = map ru_id ys" by (simp add: rule_core_def o_def)
qed

lemma same_facts_ok: "same_facts db db' \<Longrightarrow> triage_ok env db \<Longrightarrow> triage_ok env db'"
  using structure_cong[of "td_findings db'" "td_findings db" "td_clusters db'" "td_clusters db" env]
    core_maps[of "td_rules db'" "td_rules db"]
  by (simp add: same_facts_def triage_ok_def rules_of_def)

lemma recompute_same_facts [simp]: "same_facts db (recompute_cluster_states now ids db)"
  by (auto simp: same_facts_def recompute_cluster_states_def split: option.splits)

lemma set_state_same_facts [simp]: "same_facts db (set_cluster_state now cid s db)"
  by (auto simp: same_facts_def set_cluster_state_def)

lemma audit_frame:
  "snd (audit_hunt env org actor action resource details db) = db\<lparr>td_ledger := td_ledger (snd (audit_hunt env org actor action resource details db))\<rparr>"
  by (auto simp: audit_hunt_def split: prod.splits sum.splits)

lemma audit_same_facts [simp]: "same_facts db (snd (audit_hunt env org actor action resource details db))"
  by (subst audit_frame) (simp add: same_facts_def)

lemma audit_same_factsD: "audit_hunt env org actor action resource details db = (x, db') \<Longrightarrow> same_facts db db'"
  using audit_same_facts[of db env org actor action resource details] by simp

lemma put_rule_same_facts:
  assumes "distinct (map ru_id (td_rules db))" "rule_core r \<in> rules_of db" "rule_core r' = rule_core r"
  shows "same_facts db (db\<lparr>td_rules := put_by ru_id r' (td_rules db)\<rparr>)"
  using map_put_by_core[OF assms(1) _ assms(3), unfolded rules_of_def[symmetric], OF assms(2) rule_core_id]
  by (simp add: same_facts_def)

lemma same_facts_rules: "same_facts db db' \<Longrightarrow> rules_of db' = rules_of db \<and> map ru_id (td_rules db') = map ru_id (td_rules db)"
  using core_maps[of "td_rules db'" "td_rules db"] by (simp add: same_facts_def rules_of_def)

lemma sweep_same_facts:
  assumes "distinct (map ru_id (td_rules db))" "rule_core ` set rs \<subseteq> rules_of db"
  shows "same_facts db (snd (sweep_rules env now rs db))"
  using assms
proof (induction env now rs db rule: sweep_rules.induct)
  case (2 env now r rs db)
  show ?case
  proof (cases "stale_state now r")
    case (Some s)
    let ?db1 = "db\<lparr>td_rules := put_by ru_id (r\<lparr>ru_state := s\<rparr>) (td_rules db)\<rparr>"
    let ?audit = "audit_hunt env (ru_org_id r) ''system:suppression_sweep'' (flip_action s) (''suppression:'' @ ru_id r)
                  (FlipDetails (ru_name r) s (ru_expires_at r) (ru_reconfirm_at r)) ?db1"
    have a: "same_facts db ?db1" using 2(3,4) by (intro put_rule_same_facts) auto
    obtain x db2 where run: "?audit = (x, db2)" by fastforce
    have b: "same_facts db db2" by (rule same_facts_trans[OF a audit_same_factsD[OF run]])
    show ?thesis
    proof (cases x)
      case (Inr u)
      have "same_facts db2 (snd (sweep_rules env now rs db2))"
        using 2(2)[OF Some run[symmetric] Inr] same_facts_rules[OF b] 2(3,4) by auto
      then have "same_facts db (snd (sweep_rules env now rs db2))" by (rule same_facts_trans[OF b])
      then show ?thesis using Some run Inr by (auto split: prod.splits sum.splits)
    qed (use Some run b in simp)
  qed (use 2 in simp)
qed simp

lemma flag_same_facts:
  assumes "distinct (map ru_id (td_rules db))" "rule_core ` set rs \<subseteq> rules_of db"
  shows "same_facts db (snd (flag_harmful env org actor i fs harmful rs db))"
  using assms
proof (induction rs arbitrary: db)
  case (Cons r rs)
  show ?case
  proof (cases "ru_id r \<notin> set harmful \<or> ru_harmful_flag r \<or> find (suppression_matches (ru_match r)) fs = None")
    case False
    then obtain f where f: "find (suppression_matches (ru_match r)) fs = Some f" by blast
    let ?why = "harm_reason (ru_name r) (hf_id f) i actor"
    let ?db1 = "db\<lparr>td_rules := put_by ru_id (r\<lparr>ru_harmful_flag := True, ru_harmful_reason := Some ?why,
                          ru_harmful_finding_id := Some (hf_id f)\<rparr>) (td_rules db)\<rparr>"
    have a: "same_facts db ?db1" using Cons.prems by (intro put_rule_same_facts) auto
    obtain x db2 where run: "audit_hunt env org actor ''suppression_flagged_harmful'' (''suppression:'' @ ru_id r)
                     (HarmDetails (ru_name r) ?why (hf_id f) i) ?db1 = (x, db2)" by fastforce
    have b: "same_facts db db2" by (rule same_facts_trans[OF a audit_same_factsD[OF run]])
    have "same_facts db2 (snd (flag_harmful env org actor i fs harmful rs db2))"
      using Cons.IH[of db2] same_facts_rules[OF b] Cons.prems by auto
    then have "same_facts db (snd (flag_harmful env org actor i fs harmful rs db2))" by (rule same_facts_trans[OF b])
    then show ?thesis using False f run b by (auto simp: Let_def split: sum.splits)
  next
    case True
    then have "flag_harmful env org actor i fs harmful (r # rs) db = flag_harmful env org actor i fs harmful rs db"
      by (elim disjE) (simp_all only: flag_harmful.simps simp_thms if_True if_cancel option.case)
    then show ?thesis using Cons by simp
  qed
qed simp

section \<open>Suppression and promotion\<close>

lemma apply_rule_ok:
  assumes ok: "triage_ok env db" and run: "apply_rule now org rule db = (n, db')"
    and rid: "ru_id rule = te_new_id env ''supp'' (length (td_rules db))" and org: "ru_org_id rule = org"
  shows "triage_ok env db'"
proof -
  let ?g = "\<lambda>f. if suppressible org (ru_match rule) f then f\<lparr>hf_state := F_SUPPRESSED, hf_suppressed_by := Some (ru_id rule)\<rparr> else f"
  let ?db1 = "db\<lparr>td_findings := map ?g (td_findings db), td_rules := td_rules db @ [rule\<lparr>ru_match_count := n\<rparr>]\<rparr>"
  have db': "\<exists>touched. db' = recompute_cluster_states now touched ?db1" using run by (auto simp: apply_rule_def Let_def)
  have "triage_ok env ?db1"
  proof (rule triage_ok_update[OF ok])
    show "map finding_core (td_findings ?db1) = map finding_core (td_findings db)" by (simp add: o_def)
    show "numbered_rows (te_new_id env ''supp'') (map ru_id (td_rules ?db1))"
      using ok rid by (simp add: triage_ok_def numbered_snoc)
  next
    fix f assume "f \<in> set (td_findings ?db1)"
    then obtain f0 where f0: "f0 \<in> set (td_findings db)" "f = ?g f0" by auto
    show "f \<in> set (td_findings db) \<or> vouched (rules_of ?db1) (td_investigations ?db1) f"
    proof (cases "suppressible org (ru_match rule) f0")
      case True
      then have "suppression_matches (ru_match rule) f" "hf_org_id f = org" "hf_state f = F_SUPPRESSED"
        "hf_suppressed_by f = Some (ru_id rule)"
        using f0(2) finding_core_simps(8)[of "ru_match rule" f0] finding_core_simps(8)[of "ru_match rule" f]
        by (simp_all add: suppressible_def)
      moreover have "(ru_id rule, org, ru_match rule) \<in> rules_of ?db1" using org by (simp add: rules_of_def rule_core_def)
      ultimately show ?thesis by (auto simp: vouched_def)
    qed (use f0 in simp)
  qed (use ok in \<open>auto simp: triage_ok_def rules_of_def\<close>)
  then show ?thesis using db' same_facts_ok[OF recompute_same_facts] by auto
qed

lemma create_suppression_ok:
  assumes "triage_ok env db" "create_suppression env now org q db = (x, db')"
  shows "triage_ok env db'"
proof -
  let ?rule = "new_rule (te_new_id env ''supp'' (length (td_rules db))) now org q"
  obtain n db1 where run: "apply_rule now org ?rule db = (n, db1)" by fastforce
  have "triage_ok env db1" by (rule apply_rule_ok[OF assms(1) run]) (simp_all add: new_rule_def)
  then have "db' = db \<or> same_facts db1 db'"
    using assms(2) run
    by (auto simp: create_suppression_def Let_def split: if_splits option.splits bool.splits prod.splits sum.splits
        dest!: audit_same_factsD)
  then show ?thesis using assms(1) \<open>triage_ok env db1\<close> same_facts_ok by blast
qed

lemma promoted_rows_ok:
  assumes ok: "triage_ok env db" and vid: "iv_id v = te_new_id env ''inv'' (length (td_investigations db))"
    and rows: "iv_org_id v = org" "iv_hunt_finding_ids v = ids"
    and own: "\<And>f. f \<in> set (td_findings db) \<Longrightarrow> hf_id f \<in> set ids \<Longrightarrow> hf_org_id f = org"
  shows "triage_ok env (db\<lparr>td_investigations := td_investigations db @ [v],
           td_findings := map (promoted (iv_id v) ids) (td_findings db)\<rparr>)" (is "triage_ok env ?db1")
proof (rule triage_ok_update[OF ok])
  show "map finding_core (td_findings ?db1) = map finding_core (td_findings db)" by (simp add: o_def promoted_def)
  show "numbered_rows (te_new_id env ''inv'') (map iv_id (td_investigations ?db1))"
    using ok vid by (simp add: triage_ok_def numbered_snoc)
next
  fix f assume "f \<in> set (td_findings ?db1)"
  then obtain f0 where f0: "f0 \<in> set (td_findings db)" "f = promoted (iv_id v) ids f0" by auto
  show "f \<in> set (td_findings db) \<or> vouched (rules_of ?db1) (td_investigations ?db1) f"
    using f0 own[OF f0(1)] rows by (cases "hf_id f0 \<in> set ids") (auto simp: promoted_def vouched_def)
qed (use ok in \<open>auto simp: triage_ok_def rules_of_def\<close>)

lemma finding_ids_distinct: "triage_ok env db \<Longrightarrow> fresh_ids env \<Longrightarrow> distinct (map hf_id (td_findings db))"
  using numbered_fresh by (auto simp: triage_ok_def structure_ok_def fresh_ids_def)

lemma promote_ok:
  assumes ok: "triage_ok env db" and fresh: "fresh_ids env"
    and run: "promote_to_investigation env now org ids title assigned actor db = (x, db')"
  shows "triage_ok env db'"
proof -
  define rows where "rows = filter (\<lambda>f. hf_id f \<in> set ids \<and> hf_org_id f = org) (td_findings db)"
  have own: "hf_org_id f = org" if "f \<in> set (td_findings db)" "hf_id f \<in> set (map hf_id rows)" for f
    using that finding_ids_distinct[OF ok fresh] by (auto simp: rows_def distinct_map inj_on_def)
  show ?thesis
  proof (cases "rows = [] \<or> (\<exists>e. build_revocation_proposal rows = Inl e) \<or> (\<exists>e. build_cloud_containment_proposal rows = Inl e)")
    case True
    then have "db' = db" using run
      by (elim disjE exE) (simp_all add: promote_to_investigation_def Let_def rows_def[symmetric] split: sum.splits if_splits)
    then show ?thesis using ok by simp
  next
    case False
    then obtain rev cont where rev: "build_revocation_proposal rows = Inr rev" and cont: "build_cloud_containment_proposal rows = Inr cont"
      by (metis sum.exhaust)
    define v where "v = new_investigation (te_new_id env ''inv'' (length (td_investigations db))) org
        (if title = [] then codes ''Hunt promotion: '' @ fp_title (hd rows) else title) assigned rows rev cont"
    define db1 where "db1 = db\<lparr>td_investigations := td_investigations db @ [v], td_findings := map (promoted (iv_id v) (map hf_id rows)) (td_findings db)\<rparr>"
    define db2 where "db2 = recompute_cluster_states now (touched_clusters rows) db1"
    define active where "active = active_suppressions now org (td_rules db2)"
    have "triage_ok env db1"
      unfolding db1_def by (rule promoted_rows_ok[OF ok]) (use own in \<open>simp_all add: v_def new_investigation_def\<close>)
    then have ok2: "triage_ok env db2" unfolding db2_def by (rule same_facts_ok[OF recompute_same_facts])
    obtain y db3 where flag: "flag_harmful env org (first_actor actor assigned) (iv_id v) rows
        (harmful_suppressions (map ru_match active) (map ru_id active) rows) active db2 = (y, db3)" by fastforce
    have "same_facts db2 db3"
      using flag_same_facts[OF rule_ids_distinct[OF ok2 fresh], of active env org "first_actor actor assigned" "iv_id v" rows
          "harmful_suppressions (map ru_match active) (map ru_id active) rows"] flag
      by (force simp: rules_of_def active_def dest: active_in)
    then have ok3: "triage_ok env db3" using ok2 same_facts_ok by blast
    have ne: "rows \<noteq> []" using False by blast
    have "same_facts db3 db'"
    proof (cases y)
      case (Inl e)
      then have "db' = db3" using run ne flag
        by (simp add: promote_to_investigation_def Let_def rows_def[symmetric] rev cont v_def[symmetric] db1_def[symmetric]
            db2_def[symmetric] active_def[symmetric])
      then show ?thesis by simp
    next
      case (Inr u)
      then show ?thesis using run ne flag
        by (simp add: promote_to_investigation_def Let_def rows_def[symmetric] rev cont v_def[symmetric] db1_def[symmetric]
            db2_def[symmetric] active_def[symmetric] split: sum.splits prod.splits) (auto dest: audit_same_factsD)
    qed
    then show ?thesis using ok3 same_facts_ok by blast
  qed
qed

lemma suppress_cluster_ok:
  assumes "triage_ok env db" "suppress_cluster env now org cid m q db = (x, db')"
  shows "triage_ok env db'"
proof -
  define q' where "q' = q\<lparr>sq_match := (case m of None \<Rightarrow> match_for_cluster (cluster_members cid (td_findings db)) | Some x \<Rightarrow> x),
      sq_target := Some (''hunt_cluster:'' @ cid)\<rparr>"
  obtain y db1 where run: "create_suppression env now org q' db = (y, db1)" by fastforce
  have "triage_ok env db1" by (rule create_suppression_ok[OF assms(1) run])
  moreover have "db' = db \<or> same_facts db1 db'"
    using assms(2)[unfolded suppress_cluster_def Let_def, folded q'_def, unfolded run] by (auto split: if_splits sum.splits)
  ultimately show ?thesis using assms(1) same_facts_ok by blast
qed

lemma promote_cluster_ok:
  assumes "triage_ok env db" "fresh_ids env" "promote_cluster env now org c title assigned actor db = (x, db')"
  shows "triage_ok env db'"
proof -
  define ids where "ids = map hf_id (filter (promotable org (cl_id c)) (td_findings db))"
  define ttl where "ttl = (if title = [] then codes ''Hunt promotion: '' @ cl_title c else title)"
  obtain y db1 where run: "promote_to_investigation env now org ids ttl assigned actor db = (y, db1)" by fastforce
  have "triage_ok env db1" by (rule promote_ok[OF assms(1,2) run])
  moreover have "db' = db \<or> same_facts db1 db'"
    using assms(3) run
    by (auto simp: promote_cluster_def Let_def ids_def[symmetric] ttl_def[symmetric] split: if_splits sum.splits)
  ultimately show ?thesis using assms(1) same_facts_ok by blast
qed

lemma sweep_ok:
  assumes "triage_ok env db" "fresh_ids env" "sweep_stale_suppressions env now org db = (x, db')"
  shows "triage_ok env db'"
proof -
  have "same_facts db (snd (sweep_rules env now (sweep_scope org db) db))"
    by (rule sweep_same_facts[OF rule_ids_distinct[OF assms(1,2)]]) (auto simp: rules_of_def sweep_scope_def)
  moreover have "db' = snd (sweep_rules env now (sweep_scope org db) db)"
    using assms(3) by (auto simp: sweep_stale_suppressions_def Let_def split: prod.splits sum.splits)
  ultimately show ?thesis using assms(1) same_facts_ok by blast
qed

section \<open>Sequences of operations\<close>

text \<open>
  The operations in the order in which their transactions commit.  The session of a request
  (db/engine.py) rolls back what an operation that raises has written.
\<close>

datatype triage_event =
    Ingest string record_finding_request
  | AddRule string suppress_request
  | CloseCluster string string "suppression_match option" suppress_request
  | SweepRules "string option"
  | Escalate string "string list" title_text "string option" "string option"
  | EscalateCluster string string title_text "string option" "string option"

definition settle :: "'d \<Rightarrow> ('e, 'x) res \<times> 'd \<Rightarrow> 'd" where
  "settle db r = (case r of (Inl e, db') \<Rightarrow> db | (Inr x, db') \<Rightarrow> db')"

fun triage_step :: "'ts triage_env \<Rightarrow> 'ts triage_db \<Rightarrow> int \<times> triage_event \<Rightarrow> 'ts triage_db" where
  "triage_step env db (now, Ingest org q) = snd (record_finding env now org q db)"
| "triage_step env db (now, AddRule org q) = settle db (create_suppression env now org q db)"
| "triage_step env db (now, CloseCluster org cid m q) = settle db (suppress_cluster env now org cid m q db)"
| "triage_step env db (now, SweepRules org) = settle db (sweep_stale_suppressions env now org db)"
| "triage_step env db (now, Escalate org ids title assigned actor) =
     settle db (promote_to_investigation env now org ids title assigned actor db)"
| "triage_step env db (now, EscalateCluster org cid title assigned actor) =
     (case get_cluster cid db of
        None \<Rightarrow> db
      | Some c \<Rightarrow> settle db (promote_cluster env now org c title assigned actor db))"

definition no_rows :: "('ts, hunt_details) audit_row list \<Rightarrow> 'ts triage_db" where
  "no_rows ledger = \<lparr>td_findings = [], td_clusters = [], td_rules = [], td_investigations = [], td_ledger = ledger\<rparr>"

definition run_triage :: "'ts triage_env \<Rightarrow> (int \<times> triage_event) list \<Rightarrow> ('ts, hunt_details) audit_row list \<Rightarrow> 'ts triage_db" where
  "run_triage env evs ledger = foldl (triage_step env) (no_rows ledger) evs"

lemma settle_ok: "triage_ok env db \<Longrightarrow> (\<And>x db'. r = (x, db') \<Longrightarrow> triage_ok env db') \<Longrightarrow> triage_ok env (settle db r)"
  by (auto simp: settle_def split: prod.splits sum.splits)

lemma triage_step_ok: "triage_ok env db \<Longrightarrow> fresh_ids env \<Longrightarrow> triage_ok env (triage_step env db (now, ev))"
  by (cases ev) (auto split: option.splits intro!: settle_ok record_finding_ok
      intro: create_suppression_ok suppress_cluster_ok sweep_ok promote_ok promote_cluster_ok)

interpretation triage_store: op_store "\<lambda>e db. triage_step env db e" "\<lambda>db. fresh_ids env \<and> triage_ok env db" for env
  by unfold_locales (metis prod.collapse triage_step_ok)

lemma run_triage_ok:
  assumes "fresh_ids env"
  shows "triage_ok env db \<Longrightarrow> triage_ok env (foldl (triage_step env) db evs)"
  using triage_store.foldl_ok[of env db evs] assms by simp

lemma no_rows_ok: "triage_ok env (no_rows ledger)"
  by (simp add: triage_ok_def no_rows_def structure_ok_def numbered_rows_def)

section \<open>Properties\<close>

text \<open>C12: Along any sequence of ingests, suppressions, sweeps and promotions from an empty store, a
  finding is in exactly one cluster, one of its organisation with its signature; a cluster counts
  its members and carries their highest severity and their techniques; a suppressed finding names
  a rule of its organisation that matches it, and a promoted finding an investigation of its
  organisation that lists it.\<close>

theorem triage_store_consistent:
  assumes "fresh_ids env"
  shows "let db = run_triage env evs ledger in
    distinct (map hf_id (td_findings db)) \<and> distinct (map cl_id (td_clusters db)) \<and>
    distinct (map (\<lambda>c. (cl_org_id c, cl_signature c)) (td_clusters db)) \<and>
    list_all (homed (td_clusters db)) (td_findings db) \<and> list_all (agrees (td_findings db)) (td_clusters db) \<and>
    list_all (vouched (rules_of db) (td_investigations db)) (td_findings db)"
proof -
  have "triage_ok env (run_triage env evs ledger)"
    unfolding run_triage_def by (rule run_triage_ok[OF assms no_rows_ok])
  moreover from this have "distinct (map cl_id (td_clusters (run_triage env evs ledger)))"
    using numbered_fresh[of "te_new_id env ''hclu''"] assms by (auto simp: triage_ok_def structure_ok_def fresh_ids_def)
  ultimately show ?thesis
    using finding_ids_distinct[OF _ assms] by (simp add: Let_def) (simp add: triage_ok_def structure_ok_def)
qed

definition demo_triage :: "unit triage_env" where
  "demo_triage = \<lparr>te_audit = \<lparr>al_sha256 = (\<lambda>s. s), al_iso = (\<lambda>_. ''T''), al_canonical = (\<lambda>_. ''{}'')\<rparr>,
     te_other = (\<lambda>_ rows. rows), te_clock = (\<lambda>_. ()), te_audit_id = (\<lambda>n. replicate n (CHR ''a'')),
     te_new_id = (\<lambda>p n. p @ replicate n (CHR ''x''))\<rparr>"

definition demo_hit :: record_finding_request where
  "demo_hit = \<lparr>fp_source = S_CLOUD, fp_domain = D_CLOUD, fp_title = codes ''t'', fp_severity = HIGH, fp_confidence = Fin 1 0,
     fp_technique_ids = [''T1''], fp_entities = [], fp_observables = [], fp_evidence = []\<rparr>"

definition demo_rule :: suppress_request where
  "demo_rule = \<lparr>sq_name = ''n'', sq_reason = ''known noise'', sq_match = empty_match\<lparr>sm_domain := Some D_CLOUD\<rparr>,
     sq_created_by = None, sq_actor = None, sq_target = None, sq_expires_in_hours = None, sq_reconfirm_in_hours = None,
     sq_acknowledge = False, sq_caller_role = None\<rparr>"

definition demo_events :: "(int \<times> triage_event) list" where
  "demo_events = [(0, AddRule ''o'' demo_rule), (1, Ingest ''o'' demo_hit), (2, Ingest ''p'' demo_hit),
     (3, Escalate ''p'' [''hfndx''] [] None None)]"

lemma demo_fresh: "fresh_ids demo_triage"
  by (auto simp: fresh_ids_def demo_triage_def inj_on_def)

lemma triage_store_consistent_witness:
  "map hf_state (td_findings (run_triage demo_triage demo_events [])) = [F_SUPPRESSED, F_PROMOTED] \<and>
   (let db = run_triage demo_triage demo_events [] in
    distinct (map hf_id (td_findings db)) \<and> distinct (map cl_id (td_clusters db)) \<and>
    distinct (map (\<lambda>c. (cl_org_id c, cl_signature c)) (td_clusters db)) \<and>
    list_all (homed (td_clusters db)) (td_findings db) \<and> list_all (agrees (td_findings db)) (td_clusters db) \<and>
    list_all (vouched (rules_of db) (td_investigations db)) (td_findings db))"
proof (rule conjI)
  show "map hf_state (td_findings (run_triage demo_triage demo_events [])) = [F_SUPPRESSED, F_PROMOTED]"
    by code_simp
qed (rule triage_store_consistent[OF demo_fresh])

text \<open>A finding that an active rule suppresses on arrival still opens its cluster: the inbox
  shows an active cluster that has no finding to show.\<close>

theorem suppressed_ingest_shows_cluster:
  "case list_clusters ''o'' False (Some ''active'') None 1 50
      (run_triage demo_triage [(0, AddRule ''o'' demo_rule), (1, Ingest ''o'' demo_hit)] []) of
    (clusters, findings, n, shown) \<Rightarrow>
      map (\<lambda>c. (cl_state c, cl_finding_count c)) clusters = [(F_CLUSTERED, 1)] \<and> findings = [] \<and> n = 1 \<and> shown = 0"
  by code_simp

section \<open>Contracts of the operations\<close>

lemma find_map_replace:
  "find P xs = Some x \<Longrightarrow> P x' \<Longrightarrow> find P (map (\<lambda>y. if key y = key x then x' else y) xs) = Some x'"
  by (induction xs) (auto split: if_splits)

lemma find_snoc: "\<forall>x \<in> set xs. \<not> P x \<Longrightarrow> find P (xs @ [d]) = (if P d then Some d else None)"
  by (induction xs) simp_all

lemma upsert_lands:
  assumes "upsert_cluster_for env now row db = (c, db1)"
  shows "get_cluster_by (hf_org_id row) (finding_signature row) (td_clusters db1) = Some c \<and> cl_state c \<noteq> F_SUPPRESSED \<and> cl_state c \<noteq> F_PROMOTED"
proof (cases "get_cluster_by (hf_org_id row) (finding_signature row) (td_clusters db)")
  case None
  then have "\<forall>x \<in> set (td_clusters db). \<not> (cl_org_id x = hf_org_id row \<and> cl_signature x = finding_signature row)"
    by (auto simp: get_cluster_by_def find_None_iff)
  note snoc = find_snoc[OF this]
  let ?d = "fresh_cluster env now row (length (td_clusters db))"
  have c: "c = fold_into now (cluster_members (cl_id ?d) (td_findings db) @ [row]) ?d"
    and db1: "td_clusters db1 = td_clusters db @ [c]"
    using assms by (auto simp: upsert_cluster_for_def None Let_def)
  have "cl_org_id c = hf_org_id row \<and> cl_signature c = finding_signature row"
    by (simp add: c fresh_cluster_def)
  moreover have "cl_state c = F_CLUSTERED" by (simp add: c fold_into_def fresh_cluster_def reopened_def)
  ultimately show ?thesis by (simp add: db1 get_cluster_by_def snoc)
next
  case (Some c0)
  have c: "c = fold_into now (cluster_members (cl_id c0) (td_findings db) @ [row]) c0"
    and db1: "td_clusters db1 = put_by cl_id c (td_clusters db)"
    using assms by (auto simp: upsert_cluster_for_def Some Let_def)
  have "cl_org_id c0 = hf_org_id row \<and> cl_signature c0 = finding_signature row"
    using find_keyed[OF Some[unfolded get_cluster_by_def]] by blast
  then have "cl_org_id c = hf_org_id row \<and> cl_signature c = finding_signature row" by (simp add: c)
  moreover have "cl_state c \<noteq> F_SUPPRESSED \<and> cl_state c \<noteq> F_PROMOTED" by (simp add: c fold_into_def reopened_def)
  moreover have "cl_id c = cl_id c0" by (simp add: c)
  ultimately show ?thesis
    using find_map_replace[OF Some[unfolded get_cluster_by_def], of c cl_id]
    by (simp add: db1 put_by_def get_cluster_by_def)
qed

lemma upsert_others:
  assumes "upsert_cluster_for env now row db = (c, db1)"
  shows "cl_finding_count c = Suc (length (cluster_members (cl_id c) (td_findings db))) \<and>
    filter (\<lambda>x. cl_id x \<noteq> cl_id c) (td_clusters db1) = filter (\<lambda>x. cl_id x \<noteq> cl_id c) (td_clusters db)"
proof -
  have put: "filter (\<lambda>x. cl_id x \<noteq> cl_id c) (put_by cl_id c cs) = filter (\<lambda>x. cl_id x \<noteq> cl_id c) cs" for cs
    by (induction cs) (auto simp: put_by_def)
  have ids: "cl_id (fold_into now ms d) = cl_id d" "cl_finding_count (fold_into now ms d) = length ms" for ms d
    by (simp_all add: fold_into_def)
  show ?thesis
    using assms put by (auto simp: upsert_cluster_for_def Let_def ids split: option.splits)
qed

text \<open>C14: An ingest appends one finding with the given content and changes no other.  The first active,
  unexpired rule of the organisation that matches it suppresses it and counts it; without such a
  rule it is clustered and the rules stay as they are.  Either way it joins the one cluster of its
  organisation and signature, which counts it; the cluster of a finding that no rule suppresses
  is not left suppressed or promoted, and no other cluster is touched.\<close>

theorem ingest_contract:
  "case record_finding env now org q db of (row, db') \<Rightarrow>
     td_findings db' = td_findings db @ [row] \<and> td_investigations db' = td_investigations db \<and> td_ledger db' = td_ledger db \<and>
     record_finding_request.truncate row = q \<and>
     hf_org_id row = org \<and> hf_created_at row = now \<and> hf_signature row = finding_signature q \<and> hf_investigation_id row = None \<and>
     (case find (\<lambda>r. ru_org_id r = org \<and> ru_state r = R_ACTIVE \<and> unexpired now r \<and> suppression_matches (ru_match r) q)
             (td_rules db) of
        None \<Rightarrow> hf_state row = F_CLUSTERED \<and> hf_suppressed_by row = None \<and> td_rules db' = td_rules db
      | Some r \<Rightarrow> hf_state row = F_SUPPRESSED \<and> hf_suppressed_by row = Some (ru_id r) \<and>
          td_rules db' = put_by ru_id (r\<lparr>ru_match_count := ru_match_count r + 1\<rparr>) (td_rules db)) \<and>
     (case get_cluster_by org (finding_signature q) (td_clusters db') of
        None \<Rightarrow> False
      | Some c \<Rightarrow> hf_cluster_id row = Some (cl_id c) \<and>
          cl_finding_count c = Suc (length (cluster_members (cl_id c) (td_findings db))) \<and>
          cl_state c \<in> (if hf_state row = F_SUPPRESSED then UNIV else {F_NEW, F_CLUSTERED, F_TRIAGED, F_DISMISSED}) \<and>
          filter (\<lambda>x. cl_id x \<noteq> cl_id c) (td_clusters db') = filter (\<lambda>x. cl_id x \<noteq> cl_id c) (td_clusters db))"
proof -
  define row where "row = new_finding (te_new_id env ''hfnd'' (length (td_findings db))) now org q"
  obtain c db1 where up: "upsert_cluster_for env now row db = (c, db1)" by (metis surj_pair)
  define row1 where "row1 = row\<lparr>hf_signature := finding_signature row, hf_cluster_id := Some (cl_id c), hf_state := F_CLUSTERED\<rparr>"
  have same: "suppression_matches m row1 = suppression_matches m q" "finding_signature row1 = finding_signature q" for m
    by (simp_all add: row1_def row_def new_finding_def suppression_matches_def finding_signature_def record_finding_request.defs)
  have upd: "finding_signature (row1\<lparr>hf_state := s, hf_suppressed_by := b\<rparr>) = finding_signature q" for s b
    by (simp add: same(2)[symmetric]) (simp add: finding_signature_def)
  let ?hit = "\<lambda>r. suppression_matches (ru_match r) q"
  define h where "h = find ?hit (active_suppressions now org (td_rules db))"
  have ex: "find (\<lambda>r. ru_org_id r = org \<and> ru_state r = R_ACTIVE \<and> unexpired now r \<and> ?hit r) (td_rules db) = h"
    by (simp add: h_def active_suppressions_def find_filter conj_assoc)
  have app: "apply_suppressions_to row1 (active_suppressions now org (td_rules db1)) (td_rules db1) =
      (case h of None \<Rightarrow> (row1, td_rules db)
       | Some r \<Rightarrow> (row1\<lparr>hf_state := F_SUPPRESSED, hf_suppressed_by := Some (ru_id r)\<rparr>,
                   put_by ru_id (r\<lparr>ru_match_count := ru_match_count r + 1\<rparr>) (td_rules db)))"
    using upsert_frame[OF up] by (simp add: apply_suppressions_to_def same h_def)
  have run: "record_finding env now org q db =
      (let (row2, rules) = apply_suppressions_to row1 (active_suppressions now org (td_rules db1)) (td_rules db1)
       in (row2, db1\<lparr>td_findings := td_findings db1 @ [row2], td_rules := rules\<rparr>))"
    by (simp add: record_finding_def row_def[symmetric] up row1_def[symmetric])
  have sig: "hf_org_id row = org" "finding_signature row = finding_signature q" by (simp_all add: row_def)
  have content: "record_finding_request.truncate (row1\<lparr>hf_state := x, hf_suppressed_by := b\<rparr>) = q" for x b
    by (simp add: row1_def row_def new_finding_def record_finding_request.defs)
  have content0: "record_finding_request.truncate row1 = q"
    by (simp add: row1_def row_def new_finding_def record_finding_request.defs)
  have fields: "hf_org_id row1 = org" "hf_created_at row1 = now" "hf_signature row1 = finding_signature q"
    "hf_investigation_id row1 = None" "hf_cluster_id row1 = Some (cl_id c)" "hf_state row1 = F_CLUSTERED" "hf_suppressed_by row1 = None"
    by (simp_all add: row1_def sig) (simp_all add: row_def new_finding_def record_finding_request.defs)
  note lands = upsert_lands[OF up, unfolded sig]
  have open_states: "cl_state c \<in> {F_NEW, F_CLUSTERED, F_TRIAGED, F_DISMISSED}"
    using lands by (cases "cl_state c") auto
  have count: "cl_finding_count c = Suc (length (cluster_members (cl_id c) (td_findings db)))"
    "filter (\<lambda>x. cl_id x \<noteq> cl_id c) (td_clusters db1) = filter (\<lambda>x. cl_id x \<noteq> cl_id c) (td_clusters db)"
    using upsert_others[OF up] by simp_all
  show ?thesis
    using upsert_frame[OF up] lands open_states
    unfolding ex run app
    by (cases h) (simp_all add: fields content content0 count get_cluster_by_def)
qed

lemma audit_rows_frame: "audit_hunt env org actor action resource details db = (x, db') \<Longrightarrow>
    td_findings db' = td_findings db \<and> td_rules db' = td_rules db \<and> td_investigations db' = td_investigations db \<and>
    td_clusters db' = td_clusters db"
  by (auto simp: audit_hunt_def split: prod.splits sum.splits)

lemma audit_error_lost: "audit_hunt env org actor action resource details db = (Inl e, db') \<Longrightarrow> \<exists>l. e = AuditLost l"
  by (auto simp: audit_hunt_def split: prod.splits sum.splits)

lemma apply_rule_frame:
  assumes "apply_rule now org rule db = (n, db')"
  shows "n = length (filter (suppressible org (ru_match rule)) (td_findings db)) \<and>
    filter (suppressible org (ru_match rule)) (td_findings db') = [] \<and>
    filter (\<lambda>f. hf_org_id f \<noteq> org) (td_findings db') = filter (\<lambda>f. hf_org_id f \<noteq> org) (td_findings db) \<and>
    td_findings db' = map (\<lambda>f. if suppressible org (ru_match rule) f
      then f\<lparr>hf_state := F_SUPPRESSED, hf_suppressed_by := Some (ru_id rule)\<rparr> else f) (td_findings db) \<and>
    td_rules db' = td_rules db @ [rule\<lparr>ru_match_count := n\<rparr>]"
proof -
  have off: "\<not> suppressible org m (f\<lparr>hf_state := F_SUPPRESSED, hf_suppressed_by := b\<rparr>)" for m f b
    by (simp add: suppressible_def)
  let ?g = "\<lambda>f. if suppressible org (ru_match rule) f
      then f\<lparr>hf_state := F_SUPPRESSED, hf_suppressed_by := Some (ru_id rule)\<rparr> else f"
  have "filter (\<lambda>f. hf_org_id f \<noteq> org) (map ?g fs) = filter (\<lambda>f. hf_org_id f \<noteq> org) fs" for fs
    by (induction fs) (auto simp: suppressible_def)
  then show ?thesis using assms off
    by (auto simp: apply_rule_def Let_def recompute_cluster_states_def filter_empty_conv)
qed

lemma new_rule_fields:
  "ru_org_id (new_rule i now org q) = org" "ru_state (new_rule i now org q) = R_ACTIVE"
  "ru_match (new_rule i now org q) = sq_match q"
  "ru_expires_at (new_rule i now org q) = (case sq_expires_in_hours q of
     Some (Suc h) \<Rightarrow> Some (now + int (Suc h) * 3600000000) | _ \<Rightarrow> None)"
  "ru_reconfirm_at (new_rule i now org q) = Some (now + (case sq_reconfirm_in_hours q of
     Some (Suc h) \<Rightarrow> int (Suc h) * 3600000000 | _ \<Rightarrow> 90 * 24 * 3600000000))"
  by (simp_all add: new_rule_def in_hours_def hour_def default_reconfirm_days_def split: option.split nat.split)

text \<open>C13: A rule without a rationale, or one that is over-broad on the recent findings, is refused
  and nothing changes; only an incident commander or an admin who acknowledges it may add an
  over-broad rule.  An accepted rule marks every matching finding of the organisation that is
  still open (new, clustered or triaged) as suppressed by it, counts them, and leaves every other
  finding, of this organisation or another, as it was.  The rule is stored as active, expires when
  asked to, and comes up for confirmation at the requested time, or after 90 days.\<close>

theorem suppression_contract:
  "case create_suppression env now org q db of
     (Inl e, db') \<Rightarrow>
       (case e of
          BlankReason \<Rightarrow> db' = db \<and> py_strip (sq_reason q) = []
        | OverbroadSuppressionError why \<Rightarrow> db' = db \<and> is_overbroad (sq_match q) (recent_sample org db) = Some why
        | AuditLost lost \<Rightarrow> True
        | _ \<Rightarrow> False)
   | (Inr (r, n), db') \<Rightarrow>
       py_strip (sq_reason q) \<noteq> [] \<and>
       (is_overbroad (sq_match q) (recent_sample org db) = None \<or>
        sq_acknowledge q \<and> sq_caller_role q \<in> {Some ''incident_commander'', Some ''admin''}) \<and>
       td_findings db' = map (\<lambda>f.
         if hf_org_id f = org \<and> hf_state f \<in> {F_NEW, F_CLUSTERED, F_TRIAGED} \<and> suppression_matches (sq_match q) f
         then f\<lparr>hf_state := F_SUPPRESSED, hf_suppressed_by := Some (ru_id r)\<rparr> else f) (td_findings db) \<and>
       n = length (filter (\<lambda>f. hf_org_id f = org \<and> hf_state f \<in> {F_NEW, F_CLUSTERED, F_TRIAGED} \<and>
                     suppression_matches (sq_match q) f) (td_findings db)) \<and>
       td_rules db' = td_rules db @ [r] \<and> ru_org_id r = org \<and> ru_state r = R_ACTIVE \<and> ru_match r = sq_match q \<and>
       ru_match_count r = n \<and>
       ru_expires_at r = (case sq_expires_in_hours q of
          Some (Suc h) \<Rightarrow> Some (now + int (Suc h) * 3600000000) | _ \<Rightarrow> None) \<and>
       ru_reconfirm_at r = Some (now + (case sq_reconfirm_in_hours q of
          Some (Suc h) \<Rightarrow> int (Suc h) * 3600000000 | _ \<Rightarrow> 90 * 24 * 3600000000))"
proof -
  define rule where "rule = new_rule (te_new_id env ''supp'' (length (td_rules db))) now org q"
  obtain n db1 where app: "apply_rule now org rule db = (n, db1)" by fastforce
  note rule = new_rule_fields[of "te_new_id env ''supp'' (length (td_rules db))" now org q, folded rule_def]
  note m = rule(3)
  note frame = apply_rule_frame[OF app, unfolded m]
  define verdict where "verdict = is_overbroad (sq_match q) (recent_sample org db)"
  define elevated where "elevated = (sq_acknowledge q \<and> sq_caller_role q \<in> {Some ''incident_commander'', Some ''admin''})"
  have el: "(sq_acknowledge q \<and> (case sq_caller_role q of None \<Rightarrow> False | Some r \<Rightarrow> r \<in> set elevated_roles)) = elevated"
    by (auto simp: elevated_def elevated_roles_def split: option.splits)
  obtain y db2 where aud: "audit_hunt env org (first_actor (sq_actor q) (sq_created_by q)) ''suppress''
      (''suppression:'' @ ru_id rule) (SuppressDetails (sq_name q) (sq_reason q) (sq_match q) n (sq_target q)
        (ru_expires_at rule) (map_option (\<lambda>why. (why, sq_caller_role q)) verdict)) db1 = (y, db2)" by fastforce
  note run = create_suppression_def[of env now org q db, folded verdict_def rule_def, unfolded el Let_def app prod.case aud]
  have refused: ?thesis if "py_strip (sq_reason q) = [] \<or> (verdict \<noteq> None \<and> \<not> elevated)"
    using that run by (auto simp: verdict_def)
  have lands: "create_suppression env now org q db =
      (case y of Inl e \<Rightarrow> (Inl e, db2) | Inr u \<Rightarrow> (Inr (rule\<lparr>ru_match_count := n\<rparr>, n), db2))"
    if "py_strip (sq_reason q) \<noteq> []" "verdict = None \<or> elevated"
    using that run by (cases verdict) (auto split: sum.splits)
  show ?thesis
  proof (cases "py_strip (sq_reason q) = [] \<or> (verdict \<noteq> None \<and> \<not> elevated)")
    case False
    then have ok: "py_strip (sq_reason q) \<noteq> []" "verdict = None \<or> elevated" by auto
    show ?thesis
    proof (cases y)
      case (Inl e)
      then obtain l where "e = AuditLost l" using audit_error_lost aud by blast
      then show ?thesis unfolding lands[OF ok] Inl by simp
    next
      case (Inr u)
      have "verdict = None \<or> sq_acknowledge q \<and> sq_caller_role q \<in> {Some ''incident_commander'', Some ''admin''}"
        using ok(2) by (simp only: elevated_def)
      then show ?thesis
        unfolding lands[OF ok] Inr verdict_def[symmetric]
        using ok(1) frame[unfolded suppressible_def] rule m audit_rows_frame[OF aud] by (simp cong: if_cong)
    qed
  qed (rule refused)
qed

lemma put_by_mem: "y \<in> set (put_by key x xs) \<Longrightarrow> y = x \<or> y \<in> set xs \<and> key y \<noteq> key x"
  by (auto simp: put_by_def)

lemma sweep_rules_clears:
  assumes "sweep_rules env now rs db = (Inr (x, n), db')"
  shows "x = length (filter (\<lambda>r. stale_state now r = Some R_EXPIRED) rs) \<and>
    n = length (filter (\<lambda>r. stale_state now r = Some R_NEEDS_RECONFIRM) rs) \<and>
    (\<forall>y \<in> set (td_rules db'). ru_state y = R_ACTIVE \<longrightarrow> y \<in> set (td_rules db) \<and> (y \<in> set rs \<longrightarrow> stale_state now y = None)) \<and>
    td_findings db' = td_findings db \<and> td_clusters db' = td_clusters db"
  using assms
proof (induction env now rs db arbitrary: x n rule: sweep_rules.induct)
  case (2 env now r rs db)
  show ?case
  proof (cases "stale_state now r")
    case None
    then have "sweep_rules env now rs db = (Inr (x, n), db')" using 2(3) by simp
    then show ?thesis using 2(1)[OF None] None by auto
  next
    case (Some s)
    have s: "s = R_EXPIRED \<or> s = R_NEEDS_RECONFIRM" using Some by (auto simp: stale_state_def split: if_splits)
    obtain u db1 where aud: "audit_hunt env (ru_org_id r) ''system:suppression_sweep'' (flip_action s) (''suppression:'' @ ru_id r)
                  (FlipDetails (ru_name r) s (ru_expires_at r) (ru_reconfirm_at r))
                  (db\<lparr>td_rules := put_by ru_id (r\<lparr>ru_state := s\<rparr>) (td_rules db)\<rparr>) = (Inr u, db1)"
      using 2(3) Some by (auto split: prod.splits sum.splits)
    obtain x1 n1 where rest: "sweep_rules env now rs db1 = (Inr (x1, n1), db')"
      and sums: "(x, n) = (if s = R_EXPIRED then (Suc x1, n1) else (x1, Suc n1))"
      using 2(3) Some aud by (auto split: prod.splits sum.splits)
    note ih = 2(2)[OF Some aud[symmetric] refl rest]
    define r' where "r' = r\<lparr>ru_state := s\<rparr>"
    have r': "ru_state r' \<noteq> R_ACTIVE" "ru_id r' = ru_id r" using s by (auto simp: r'_def)
    have "y \<in> set (td_rules db) \<and> y \<noteq> r" if "y \<in> set (td_rules db1)" "ru_state y = R_ACTIVE" for y
      using that audit_rows_frame[OF aud] put_by_mem[of y ru_id r' "td_rules db"] r' by (auto simp: r'_def[symmetric])
    then show ?thesis using ih Some s sums audit_rows_frame[OF aud] by (auto split: if_splits)
  qed
qed simp

text \<open>The sweep takes every active rule in its scope whose expiry or confirmation date has passed
  out of service, counts the flips, and leaves the findings as they are.\<close>

theorem sweep_contract:
  "case sweep_stale_suppressions env now org db of
     (Inl e, db') \<Rightarrow> True
   | (Inr (x, n, scanned), db') \<Rightarrow>
       filter (\<lambda>r. stale_state now r \<noteq> None) (sweep_scope org db') = [] \<and> scanned = length (sweep_scope org db) \<and>
       x + n = length (filter (\<lambda>r. stale_state now r \<noteq> None) (sweep_scope org db)) \<and>
       td_findings db' = td_findings db \<and> td_clusters db' = td_clusters db"
proof (cases "sweep_rules env now (sweep_scope org db) db")
  case (Pair y db')
  show ?thesis
  proof (cases y)
    case (Inr p)
    obtain x n where p: "p = (x, n)" by fastforce
    note c = sweep_rules_clears[OF Pair[unfolded Inr p]]
    have "length (filter (\<lambda>r. stale_state now r = Some R_EXPIRED) rs) + length (filter (\<lambda>r. stale_state now r = Some R_NEEDS_RECONFIRM) rs)
        = length (filter (\<lambda>r. stale_state now r \<noteq> None) rs)" for rs
      by (induction rs) (auto simp: stale_state_def)
    moreover have "filter (\<lambda>r. stale_state now r \<noteq> None) (sweep_scope org db') = []"
      using c by (auto simp: sweep_scope_def filter_empty_conv)
    ultimately show ?thesis using c Pair Inr p by (simp add: sweep_stale_suppressions_def Let_def)
  qed (simp add: sweep_stale_suppressions_def Let_def Pair)
qed

lemma flag_harmful_clears:
  assumes "flag_harmful env org actor i fs harmful rs db = (Inr u, db')"
  shows "td_findings db' = td_findings db \<and> td_investigations db' = td_investigations db \<and>
    (\<forall>y \<in> set (td_rules db'). \<not> ru_harmful_flag y \<longrightarrow> y \<in> set (td_rules db) \<and>
      (y \<in> set rs \<longrightarrow> ru_id y \<in> set harmful \<longrightarrow> \<not> list_ex (suppression_matches (ru_match y)) fs))"
  using assms
proof (induction rs arbitrary: db)
  case (Cons r rs)
  consider (skip) "ru_id r \<notin> set harmful \<or> ru_harmful_flag r" | (none) "ru_id r \<in> set harmful" "\<not> ru_harmful_flag r"
      "find (suppression_matches (ru_match r)) fs = None"
    | (hit) f where "ru_id r \<in> set harmful" "\<not> ru_harmful_flag r" "find (suppression_matches (ru_match r)) fs = Some f"
    by fastforce
  then show ?case
  proof cases
    case skip
    then have "flag_harmful env org actor i fs harmful rs db = (Inr u, db')" using Cons.prems by simp
    from Cons.IH[OF this] skip show ?thesis by auto
  next
    case none
    have "flag_harmful env org actor i fs harmful rs db = (Inr u, db')" using Cons.prems none
      by (simp only: flag_harmful.simps simp_thms if_False option.case)
    moreover have "\<not> list_ex (suppression_matches (ru_match r)) fs" using none(3) by (auto simp: list_ex_iff find_None_iff)
    ultimately show ?thesis using Cons.IH[of db] by auto
  next
    case hit
    define r' where "r' = r\<lparr>ru_harmful_flag := True, ru_harmful_reason := Some (harm_reason (ru_name r) (hf_id f) i actor),
                          ru_harmful_finding_id := Some (hf_id f)\<rparr>"
    have r': "ru_harmful_flag r'" "ru_id r' = ru_id r" by (simp_all add: r'_def)
    obtain v db1 where aud: "audit_hunt env org actor ''suppression_flagged_harmful'' (''suppression:'' @ ru_id r)
          (HarmDetails (ru_name r) (harm_reason (ru_name r) (hf_id f) i actor) (hf_id f) i)
          (db\<lparr>td_rules := put_by ru_id r' (td_rules db)\<rparr>) = (Inr v, db1)"
      and rest: "flag_harmful env org actor i fs harmful rs db1 = (Inr u, db')"
      using Cons.prems hit by (auto simp: Let_def r'_def split: prod.splits sum.splits)
    have "y \<in> set (td_rules db) \<and> y \<noteq> r" if "y \<in> set (td_rules db1)" "\<not> ru_harmful_flag y" for y
      using that audit_rows_frame[OF aud] put_by_mem[of y ru_id r' "td_rules db"] r' by auto
    then show ?thesis using Cons.IH[OF rest] audit_rows_frame[OF aud] by auto
  qed
qed simp

lemma harmful_iff: "i \<in> set (harmful_suppressions (map ru_match rs) (map ru_id rs) fs) \<longleftrightarrow>
    (\<exists>r \<in> set rs. ru_id r = i \<and> list_ex (suppression_matches (ru_match r)) fs)"
  by (induction rs) (auto simp: harmful_suppressions_def)

text \<open>C15: A promotion takes the named findings of the organisation and no others, marks each with the
  new investigation, and flags every active rule that would have hidden one of them.\<close>

theorem promotion_contract:
  "case promote_to_investigation env now org finding_ids title assigned actor db of
     (Inl e, db') \<Rightarrow> True
   | (Inr (v, ids), db') \<Rightarrow>
       (let rows = filter (\<lambda>f. hf_id f \<in> set finding_ids \<and> hf_org_id f = org) (td_findings db) in
        ids = map hf_id rows \<and> ids \<noteq> [] \<and> iv_hunt_finding_ids v = ids \<and> iv_org_id v = org \<and>
        iv_severity v = max_severity rows \<and> td_investigations db' = td_investigations db @ [v] \<and>
        td_findings db' = map (promoted (iv_id v) ids) (td_findings db) \<and>
        filter (\<lambda>r. \<not> ru_harmful_flag r \<and> list_ex (suppression_matches (ru_match r)) rows)
          (active_suppressions now org (td_rules db')) = [])"
proof (cases "promote_to_investigation env now org finding_ids title assigned actor db")
  case (Pair res db')
  define rows where "rows = filter (\<lambda>f. hf_id f \<in> set finding_ids \<and> hf_org_id f = org) (td_findings db)"
  show ?thesis
  proof (cases res)
    case (Inr p)
    obtain v0 ids where p: "p = (v0, ids)" by fastforce
    have ne: "rows \<noteq> []" using Pair Inr by (auto simp: promote_to_investigation_def Let_def rows_def)
    obtain rev where rev: "build_revocation_proposal rows = Inr rev"
      using Pair Inr ne by (cases "build_revocation_proposal rows") (auto simp: promote_to_investigation_def Let_def rows_def[symmetric])
    obtain cont where cont: "build_cloud_containment_proposal rows = Inr cont"
      using Pair Inr ne rev
      by (cases "build_cloud_containment_proposal rows") (auto simp: promote_to_investigation_def Let_def rows_def[symmetric])
    define v where "v = new_investigation (te_new_id env ''inv'' (length (td_investigations db))) org
        (if title = [] then codes ''Hunt promotion: '' @ fp_title (hd rows) else title) assigned rows rev cont"
    define db1 where "db1 = db\<lparr>td_investigations := td_investigations db @ [v], td_findings := map (promoted (iv_id v) (map hf_id rows)) (td_findings db)\<rparr>"
    define db2 where "db2 = recompute_cluster_states now (touched_clusters rows) db1"
    define active where "active = active_suppressions now org (td_rules db2)"
    define harm where "harm = harmful_suppressions (map ru_match active) (map ru_id active) rows"
    obtain y db3 where flag: "flag_harmful env org (first_actor actor assigned) (iv_id v) rows harm active db2 = (y, db3)" by fastforce
    note unfold = promote_to_investigation_def Let_def rows_def[symmetric] rev cont v_def[symmetric] db1_def[symmetric]
      db2_def[symmetric] active_def[symmetric] harm_def[symmetric]
    obtain u where u: "y = Inr u" using Pair Inr ne flag by (cases y) (simp_all add: unfold)
    have fin: "v0 = v \<and> ids = map hf_id rows \<and> td_findings db' = td_findings db3 \<and> td_rules db' = td_rules db3 \<and>
        td_investigations db' = td_investigations db3"
      using Pair Inr ne flag u p by (simp add: unfold split: sum.splits prod.splits) (auto dest: audit_rows_frame)
    note c = flag_harmful_clears[OF flag[unfolded u]]
    have "filter (\<lambda>r. \<not> ru_harmful_flag r \<and> list_ex (suppression_matches (ru_match r)) rows)
          (active_suppressions now org (td_rules db')) = []"
    proof (rule ccontr)
      assume "\<not> ?thesis"
      then obtain r where r: "r \<in> set (td_rules db')" "ru_org_id r = org" "ru_state r = R_ACTIVE" "unexpired now r"
          "\<not> ru_harmful_flag r" "list_ex (suppression_matches (ru_match r)) rows"
        by (auto simp: filter_empty_conv active_suppressions_def)
      then have "r \<in> set (td_rules db2)" using c fin by auto
      then have act: "r \<in> set active" using r by (simp add: active_def active_suppressions_def)
      then have "ru_id r \<in> set harm" unfolding harm_def harmful_iff using r(6) by blast
      then show False using c r fin act by auto
    qed
    moreover have "td_findings db2 = td_findings db1" "td_investigations db2 = td_investigations db1"
      by (simp_all add: db2_def recompute_cluster_states_def)
    moreover have "iv_hunt_finding_ids v = map hf_id rows" "iv_org_id v = org" "iv_severity v = max_severity rows"
      by (simp_all add: v_def new_investigation_def)
    ultimately show ?thesis
      using Pair Inr p fin c ne unfolding rows_def[symmetric] by (simp add: db1_def)
  qed (simp add: Pair)
qed

section \<open>The pure clustering\<close>

text \<open>The buckets are the fibres of the signature: each holds, in their order, exactly the findings
  with its signature, and there is no empty one.\<close>

theorem clusters_are_fibres:
  "map_of (group_into_clusters fs) s =
     (let ms = filter (\<lambda>f. finding_signature f = s) fs in if ms = [] then None else Some ms)"
proof (induction fs rule: rev_induct)
  case Nil
  then show ?case by (simp add: group_into_clusters_def)
next
  case (snoc f fs)
  then show ?case by (auto simp: group_into_clusters_def bucket_add_def Let_def map_of_dict_put split: option.splits if_splits)
qed

text \<open>A technique that is listed twice gives another signature, although the set of techniques
  is the same.\<close>

theorem repeated_technique_splits_cluster:
  "let twice = demo_hit\<lparr>fp_technique_ids := [''T1'', ''T1'']\<rparr> in
     set (fp_technique_ids twice) = set (fp_technique_ids demo_hit) \<and> length (group_into_clusters [demo_hit, twice]) = 2"
  by code_simp

section \<open>The playbook as a chain\<close>

definition field :: "string \<Rightarrow> pyval \<Rightarrow> pyval" where
  "field k v = (case v of PDict d \<Rightarrow> (case get_str d k of None \<Rightarrow> PNone | Some x \<Rightarrow> x) | _ \<Rightarrow> PNone)"

lemma step_fields [simp]:
  "field ''id'' (gate_step ts n) = PStr ''approve_revocation''" "field ''next_step'' (gate_step ts n) = PStr n"
  "field ''type'' (gate_step ts n) = PStr ''hitl_gate''"
  "field ''id'' (grant_step i n t) = PStr i" "field ''next_step'' (grant_step i n t) = PStr n"
  "field ''type'' (grant_step i n t) = PStr ''action''"
  "field ''id'' (session_step i n w) = PStr i" "field ''next_step'' (session_step i n w) = PStr n"
  "field ''type'' (session_step i n w) = PStr ''action''"
  "field ''id'' end_step = PStr ''done''" "field ''type'' end_step = PStr ''end''"
  by (simp_all add: field_def gate_step_def grant_step_def session_step_def end_step_def get_str_def)

lemma nat_digits_inj: "nat_digits m = nat_digits n \<Longrightarrow> m = n"
  using nat_digits_props by metis

lemma chain_length [simp]: "length (chain_ids n m) = n + m + 1"
  by (simp add: chain_ids_def)

lemma chain_distinct: "distinct (''approve_revocation'' # chain_ids n m)"
  by (auto simp: chain_ids_def distinct_map inj_on_def step_name_def dest!: nat_digits_inj)

text \<open>The fields along the steps, read off the chain of identifiers.\<close>

lemma chain_split:
  assumes "length c = n + m + 1" "last c = z"
  shows "map (\<lambda>i. c ! i) [0..<n] @ map (\<lambda>i. c ! (n + i)) [0..<m] @ [z] = c"
    "c ! 0 # map (\<lambda>i. c ! (i + 1)) [0..<n] @ map (\<lambda>i. c ! (n + i + 1)) [0..<m] = c"
proof -
  have l: "last c = c ! (n + m)" using assms(1) by (subst last_conv_nth) auto
  show "map (\<lambda>i. c ! i) [0..<n] @ map (\<lambda>i. c ! (n + i)) [0..<m] @ [z] = c"
    using assms l by (intro nth_equalityI) (auto simp: nth_append intro!: arg_cong[where f = "(!) c"])
  show "c ! 0 # map (\<lambda>i. c ! (i + 1)) [0..<n] @ map (\<lambda>i. c ! (n + i + 1)) [0..<m] = c"
    using assms by (intro nth_equalityI) (auto simp: nth_append nth_Cons' split: nat.splits)
qed

text \<open>The playbook is one chain: it starts at the approval gate, every step names its successor, the
  end is the last step, and no identifier occurs twice.  Between the two stand one revocation per
  target, with exactly its grant as arguments, and one session step per principal.\<close>

theorem revocation_playbook_is_gated_chain:
  "let steps = playbook_steps ts; principals = target_principals ts;
       ids = ''approve_revocation'' # chain_ids (length ts) (length principals)
   in map (field ''id'') steps = map PStr ids \<and> distinct ids \<and> map (field ''next_step'') (butlast steps) = map PStr (tl ids) \<and>
      map (field ''type'') steps =
        PStr ''hitl_gate'' # replicate (length ts + length principals) (PStr ''action'') @ [PStr ''end''] \<and>
      map (\<lambda>s. (field ''tool_name'' s, field ''principal_id'' (field ''arguments'' s), field ''app_id'' (field ''arguments'' s)))
          (butlast (tl steps)) =
        map (\<lambda>t. (PStr revoke_grant_tool, PStr (rt_principal_id t), PStr (rt_app_id t))) ts @
        map (\<lambda>p. (PStr revoke_sessions_tool, PStr p, PNone)) principals"
proof -
  define n where "n = length ts"
  define principals where "principals = target_principals ts"
  define m where "m = length principals"
  define c where "c = chain_ids n m"
  have lc: "length c = n + m + 1" "last c = ''done''" by (simp_all add: c_def chain_ids_def)
  have steps: "playbook_steps ts = gate_step ts (c ! 0) #
      map (\<lambda>i. grant_step (c ! i) (c ! (i + 1)) (ts ! i)) [0..<n] @
      map (\<lambda>i. session_step (c ! (n + i)) (c ! (n + i + 1)) (principals ! i)) [0..<m] @ [end_step]"
    by (simp add: playbook_steps_def Let_def n_def principals_def m_def c_def)
  have ids: "map (field ''id'') (playbook_steps ts) = map PStr (''approve_revocation'' # c)"
    by (subst chain_split(1)[OF lc, symmetric]) (simp add: steps comp_def)
  have nexts: "map (field ''next_step'') (butlast (playbook_steps ts)) = map PStr c"
    by (subst chain_split(2)[OF lc, symmetric]) (simp add: steps butlast_append comp_def)
  have types: "map (field ''type'') (playbook_steps ts) =
      PStr ''hitl_gate'' # replicate (n + m) (PStr ''action'') @ [PStr ''end'']"
    by (simp add: steps comp_def map_replicate_const replicate_add)
  have "map (\<lambda>i. (PStr revoke_grant_tool, PStr (rt_principal_id (ts ! i)), PStr (rt_app_id (ts ! i)))) [0..<n] =
      map (\<lambda>t. (PStr revoke_grant_tool, PStr (rt_principal_id t), PStr (rt_app_id t))) ts"
    by (intro nth_equalityI) (simp_all add: n_def)
  moreover have "map (\<lambda>i. (PStr revoke_sessions_tool, PStr (principals ! i), PNone)) [0..<m] =
      map (\<lambda>p. (PStr revoke_sessions_tool, PStr p, PNone)) principals"
    by (intro nth_equalityI) (simp_all add: m_def)
  ultimately show ?thesis
    using ids nexts types chain_distinct[of n m]
    unfolding Let_def n_def[symmetric] principals_def[symmetric] m_def[symmetric] c_def[symmetric]
    by (simp add: steps butlast_append comp_def) (simp add: field_def grant_step_def session_step_def get_str_def)
qed

end
