(* ===== verification/Rbac.thy ===== *)
theory Rbac
  imports Interfaces
begin

text \<open>
  Roles and scopes (backend/btagent_backend/auth/rbac.py, _role_map.py, scoping.py and the user of
  middleware.py): the permission table over the role hierarchy, the role an identity provider's
  groups map to, and the tenant boundary of investigations and what hangs off them.
\<close>

section \<open>Roles and permissions\<close>

datatype user_role = ANALYST | SENIOR_ANALYST | INCIDENT_COMMANDER | ADMIN

fun role_value :: "user_role \<Rightarrow> string" where
  "role_value ANALYST = ''analyst''"
| "role_value SENIOR_ANALYST = ''senior_analyst''"
| "role_value INCIDENT_COMMANDER = ''incident_commander''"
| "role_value ADMIN = ''admin''"

definition all_roles :: "user_role list" where
  "all_roles = [ANALYST, SENIOR_ANALYST, INCIDENT_COMMANDER, ADMIN]"

definition role_of :: "string \<Rightarrow> user_role option" where
  "role_of s = enum_of_string all_roles role_value s"

fun role_hierarchy :: "user_role \<Rightarrow> nat" where
  "role_hierarchy ANALYST = 0"
| "role_hierarchy SENIOR_ANALYST = 1"
| "role_hierarchy INCIDENT_COMMANDER = 2"
| "role_hierarchy ADMIN = 3"

definition permissions :: "(string \<times> user_role) list" where
  "permissions =
     [(''investigation:view'', ANALYST), (''investigation:create'', ANALYST), (''investigation:chat'', ANALYST),
      (''investigation:pause'', ANALYST), (''investigation:resume'', ANALYST),
      (''investigation:stop'', SENIOR_ANALYST), (''investigation:delete'', ADMIN),
      (''hitl:approve'', SENIOR_ANALYST), (''hitl:reject'', SENIOR_ANALYST), (''containment:propose'', ANALYST),
      (''containment:approve'', INCIDENT_COMMANDER), (''containment:execute'', INCIDENT_COMMANDER),
      (''config:view'', ANALYST), (''config:edit'', ADMIN), (''config:org_profile'', ADMIN),
      (''user:view'', SENIOR_ANALYST), (''user:create'', ADMIN), (''user:edit'', ADMIN),
      (''user:delete'', ADMIN), (''sso:link'', ADMIN), (''sso:unlink'', ADMIN), (''webhook:manage'', ADMIN),
      (''mitre:view'', ANALYST), (''mitre:tag'', SENIOR_ANALYST), (''mitre:seed'', ADMIN),
      (''ioc:view'', ANALYST), (''ioc:create'', ANALYST), (''ioc:edit'', ANALYST),
      (''ioc:delete'', SENIOR_ANALYST), (''ioc:enrich'', ANALYST), (''ioc:export'', ANALYST),
      (''knowledge:query'', ANALYST), (''knowledge:ingest'', SENIOR_ANALYST), (''knowledge:delete'', ADMIN),
      (''playbook:view'', ANALYST), (''playbook:create'', SENIOR_ANALYST), (''playbook:edit'', SENIOR_ANALYST),
      (''playbook:delete'', SENIOR_ANALYST), (''playbook:execute'', SENIOR_ANALYST),
      (''playbook:execute_containment'', INCIDENT_COMMANDER), (''workflow:view'', ANALYST),
      (''workflow:create'', SENIOR_ANALYST), (''workflow:edit'', SENIOR_ANALYST),
      (''workflow:publish'', SENIOR_ANALYST), (''workflow:deprecate'', ADMIN), (''workflow:delete'', ADMIN),
      (''workflow:run'', ANALYST), (''hunt:view'', ANALYST), (''hunt:create'', ANALYST),
      (''hunt:triage'', ANALYST), (''hunt:suppress'', SENIOR_ANALYST), (''hunt:promote'', SENIOR_ANALYST),
      (''hunt:run'', ANALYST), (''huntpack:manage'', SENIOR_ANALYST), (''triage:run'', ANALYST),
      (''response:plan'', ANALYST), (''mitigation:plan'', ANALYST), (''audit:view'', SENIOR_ANALYST),
      (''audit:export'', ADMIN), (''policy:view'', SENIOR_ANALYST), (''policy:manage'', ADMIN),
      (''connector:view'', ANALYST), (''credential:view'', SENIOR_ANALYST), (''credential:manage'', ADMIN),
      (''taxii:view'', SENIOR_ANALYST), (''taxii:manage'', ADMIN), (''validation:emulate'', INCIDENT_COMMANDER),
      (''report:view'', ANALYST), (''report:generate'', ANALYST), (''report:export'', ANALYST),
      (''report:summarize'', SENIOR_ANALYST), (''remediation:generate'', ANALYST), (''memory:read'', ANALYST),
      (''memory:write'', SENIOR_ANALYST)]"

definition has_permission :: "string \<Rightarrow> string \<Rightarrow> bool" where
  "has_permission user_role permission =
     (case role_of user_role of
        None \<Rightarrow> False
      | Some role \<Rightarrow>
          (case map_of permissions permission of
             None \<Rightarrow> False
           | Some required_role \<Rightarrow> role_hierarchy required_role \<le> role_hierarchy role))"

section \<open>The role of a federated login\<close>

definition valid_roles :: "string list" where
  "valid_roles = map role_value all_roles"

definition safe_default :: "string \<Rightarrow> string" where
  "safe_default default_role = (if default_role \<in> set valid_roles then default_role else ''analyst'')"

fun resolve_role :: "(string \<times> string) list \<Rightarrow> string \<Rightarrow> string list \<Rightarrow> string" where
  "resolve_role role_map default_role [] = safe_default default_role"
| "resolve_role role_map default_role (v # vs) =
     (case map_of role_map v of
        Some mapped \<Rightarrow> if mapped \<in> set valid_roles then mapped else safe_default default_role
      | None \<Rightarrow> resolve_role role_map default_role vs)"

section \<open>Scopes\<close>

record current_user =
  us_id :: string
  us_username :: string
  us_role :: string
  us_org_id :: string

text \<open>What a row tells about its scope: the tenant, and the owner of an investigation.\<close>

record scoped_case =
  sc_org_id :: string
  sc_assigned_to :: "string option"

definition org_wide_roles :: "string list" where
  "org_wide_roles = [''admin'', ''incident_commander'', ''senior_analyst'']"

definition can_access_investigation :: "current_user \<Rightarrow> ('a) scoped_case_scheme \<Rightarrow> bool" where
  "can_access_investigation user row =
     (if sc_org_id row \<noteq> us_org_id user then False
      else if us_role user \<in> set org_wide_roles then True
      else sc_assigned_to row = Some (us_id user))"

text \<open>Access to an indicator or a piece of evidence of the given tenant; false stands for the 404.\<close>

definition can_access_child :: "current_user \<Rightarrow> string \<Rightarrow> ('a) scoped_case_scheme option \<Rightarrow> bool" where
  "can_access_child user child_org parent =
     (if child_org \<noteq> us_org_id user then False
      else case parent of
        Some row \<Rightarrow> can_access_investigation user row
      | None \<Rightarrow> us_role user \<in> set org_wide_roles)"

section \<open>Properties\<close>

interpretation role_enum: str_enum all_roles role_value
proof
  show "m = m'" if "role_value m = role_value m'" for m m'
    using that by (cases m; cases m') simp_all
  show "m \<in> set all_roles" for m
    by (cases m) (simp_all add: all_roles_def)
qed

lemma role_of_value [simp]: "role_of (role_value r) = Some r"
  unfolding role_of_def by (rule role_enum.parse_val)

lemma role_of_SomeD: "role_of s = Some r \<Longrightarrow> s = role_value r"
  by (simp add: role_of_def role_enum.parse_iff)

lemma value_valid [simp]: "role_value r \<in> set valid_roles"
  by (cases r) (simp_all add: valid_roles_def all_roles_def)

text \<open>The hierarchy is a chain: every role holds all the permissions of the roles below it, the
  administrator holds exactly the listed ones, and a role or a permission that is not listed
  grants nothing.\<close>

theorem permissions_form_chain:
  "{p. has_permission ''analyst'' p} \<subseteq> {p. has_permission ''senior_analyst'' p} \<and>
   {p. has_permission ''senior_analyst'' p} \<subseteq> {p. has_permission ''incident_commander'' p} \<and>
   {p. has_permission ''incident_commander'' p} \<subseteq> {p. has_permission ''admin'' p} \<and>
   {p. has_permission ''admin'' p} = fst ` set permissions \<and>
   {(r, p). has_permission r p} \<subseteq> set valid_roles \<times> fst ` set permissions"
proof -
  have adm: "role_hierarchy r \<le> 3" for r by (cases r) simp_all
  have in_table: "map_of permissions p = Some r \<Longrightarrow> p \<in> fst ` set permissions" for p r
    by (auto dest: map_of_SomeD intro: rev_image_eqI)
  have admin: "has_permission ''admin'' p = (p \<in> fst ` set permissions)" for p
    using role_of_value[of ADMIN] adm in_table[of p]
    by (auto simp: has_permission_def map_of_eq_None_iff split: option.splits)
  have lt: "has_permission (role_value a) p \<Longrightarrow> role_hierarchy a \<le> role_hierarchy b \<Longrightarrow> has_permission (role_value b) p" for a b p
    by (auto simp: has_permission_def split: option.splits)
  have "{(r, p). has_permission r p} \<subseteq> set valid_roles \<times> fst ` set permissions"
  proof (rule subrelI)
    fix r p assume "(r, p) \<in> {(r, p). has_permission r p}"
    then obtain u q where "role_of r = Some u" "map_of permissions p = Some q"
      by (auto simp: has_permission_def split: option.splits)
    then show "(r, p) \<in> set valid_roles \<times> fst ` set permissions"
      using role_of_SomeD[of r u] value_valid[of u] in_table[of p q] by simp
  qed
  then show ?thesis
    using lt[of ANALYST _ SENIOR_ANALYST] lt[of SENIOR_ANALYST _ INCIDENT_COMMANDER] lt[of INCIDENT_COMMANDER _ ADMIN] admin
    by auto
qed

lemma commander_permission:
  assumes "map_of permissions p = Some INCIDENT_COMMANDER"
  shows "has_permission r p = (r \<in> {''incident_commander'', ''admin''})"
proof -
  have "role_of r = None \<or> (\<exists>u. r = role_value u)" using role_of_SomeD by (cases "role_of r") auto
  then show ?thesis
  proof
    assume none: "role_of r = None"
    then have "r \<noteq> role_value INCIDENT_COMMANDER" "r \<noteq> role_value ADMIN"
      using role_of_value[of INCIDENT_COMMANDER] role_of_value[of ADMIN] by (metis option.simps(3))+
    then show ?thesis using none by (simp add: has_permission_def)
  next
    assume "\<exists>u. r = role_value u"
    then obtain u where "r = role_value u" by blast
    then show ?thesis using role_of_value[of u] by (cases u) (simp_all add: has_permission_def assms)
  qed
qed

lemma commander_permissions:
  "map_of permissions ''containment:execute'' = Some INCIDENT_COMMANDER"
  "map_of permissions ''containment:approve'' = Some INCIDENT_COMMANDER"
  "map_of permissions ''playbook:execute_containment'' = Some INCIDENT_COMMANDER"
  "map_of permissions ''validation:emulate'' = Some INCIDENT_COMMANDER"
  by code_simp+

text \<open>Executing or approving containment, in a playbook or directly, and emulating an adversary take
  an incident commander or an administrator.\<close>

theorem containment_needs_commander:
  "list_all (\<lambda>p. has_permission r p = (r \<in> {''incident_commander'', ''admin''}))
     [''containment:execute'', ''containment:approve'', ''playbook:execute_containment'', ''validation:emulate'']"
  by (simp add: commander_permission commander_permissions)

text \<open>Nobody reaches a row of another tenant, whatever the role, and a login that maps to no valid
  role gets the default or the lowest one.\<close>

theorem tenant_boundary:
  "{row. can_access_investigation user row} \<subseteq> {row. sc_org_id row = us_org_id user} \<and>
   {(child_org, parent). can_access_child user child_org parent} \<subseteq> {us_org_id user} \<times> UNIV \<and>
   {row. can_access_investigation (user\<lparr>us_role := ''analyst''\<rparr>) row} \<subseteq> {row. sc_assigned_to row = Some (us_id user)} \<and>
   resolve_role role_map default_role vs \<in> set valid_roles"
proof -
  have "safe_default default_role \<in> set valid_roles" by (simp add: safe_default_def valid_roles_def all_roles_def)
  then have "resolve_role role_map default_role vs \<in> set valid_roles"
    by (induction role_map default_role vs rule: resolve_role.induct) (auto split: option.splits)
  then show ?thesis by (auto simp: can_access_investigation_def can_access_child_def org_wide_roles_def)
qed

text \<open>Contrary to the note that a mistyped entry of the role map never grants an elevated role, it
  grants the default, which may be one.\<close>

theorem mistyped_role_gets_default:
  "resolve_role [(''soc'', ''analysst'')] ''admin'' [''soc''] = ''admin''"
  by code_simp

end
