(* ===== verification/CloudAccept.thy ===== *)
theory CloudAccept
  imports CloudContain Containment Rbac "HOL-Library.Sublist"
begin

text \<open>
  The decision on a containment proposal (backend/btagent_backend/api/v1/cloud_containment.py):
  reading, accepting and rejecting the proposal that a promotion attached to an investigation.
  Accepting hands every selected action to the execution of Containment.  A stored proposal is
  typed, so the branch for malformed data does not arise; the message of an action is the
  refusal it stands for.  How the ledger writes the text of a description is an argument.
\<close>

section \<open>Stored proposals\<close>

datatype cloud_action_status = A_PROPOSED | A_EXECUTED | A_DENIED
datatype cloud_proposal_status = CP_PROPOSED | CP_ACCEPTED | CP_REJECTED

record stored_action =
  sa_action :: cloud_action
  sa_status :: cloud_action_status
  sa_outcome :: string
  sa_audit_id :: "string option"
  sa_message :: "refusal option"

record stored_proposal =
  sp_actions :: "stored_action list"
  sp_titles :: "title_text list"
  sp_status :: cloud_proposal_status
  sp_decided_by :: "string option"
  sp_decided_at :: "int option"
  sp_decision_rationale :: string

definition stored_of :: "cloud_proposal \<Rightarrow> stored_proposal" where
  "stored_of p = \<lparr>sp_actions = map (\<lambda>a. \<lparr>sa_action = a, sa_status = A_PROPOSED, sa_outcome = [], sa_audit_id = None,
       sa_message = None\<rparr>) (cp_actions p), sp_titles = cp_titles p, sp_status = CP_PROPOSED, sp_decided_by = None,
     sp_decided_at = None, sp_decision_rationale = []\<rparr>"

record case_row = scoped_case +
  cr_id :: string
  cr_proposal :: "stored_proposal option"

record decision_request =
  dr_approved :: bool
  dr_rationale :: string
  dr_action_ids :: "string list"

text \<open>The service: the environment of the execution, a fresh id per row of the ledger, and the text
  of a description.\<close>

record 'ts accept_env =
  xe_env :: "'ts ct_env"
  xe_row_id :: "nat \<Rightarrow> string"
  xe_text :: "title_text \<Rightarrow> string"

record 'ts accept_world =
  xw_cases :: "case_row list"
  xw_world :: "'ts ct_world"

datatype route_exn = Http nat | Aborted ct_exn

definition env_now :: "'ts accept_env \<Rightarrow> 'ts ct_world \<Rightarrow> 'ts ct_env" where
  "env_now xe w = (xe_env xe)\<lparr>ce_new_id := xe_row_id xe (length (cw_ledger w))\<rparr>"

section \<open>Loading and selecting\<close>

definition require_permission :: "current_user \<Rightarrow> string \<Rightarrow> (route_exn, unit) res" where
  "require_permission user permission = (if has_permission (us_role user) permission then Inr () else Inl (Http 403))"

definition load_investigation_proposal ::
  "current_user \<Rightarrow> string \<Rightarrow> case_row list \<Rightarrow> (route_exn, case_row \<times> stored_proposal) res" where
  "load_investigation_proposal user iid cases =
     (case find (\<lambda>c. cr_id c = iid) cases of
        None \<Rightarrow> Inl (Http 404)
      | Some row \<Rightarrow>
          if sc_org_id row \<noteq> us_org_id user then Inl (Http 404)
          else if \<not> can_access_investigation user row then Inl (Http 404)
          else (case cr_proposal row of None \<Rightarrow> Inl (Http 404) | Some p \<Rightarrow> Inr (row, p)))"

definition store_proposal :: "string \<Rightarrow> stored_proposal \<Rightarrow> case_row list \<Rightarrow> case_row list" where
  "store_proposal iid p cases = map (\<lambda>c. if cr_id c = iid then c\<lparr>cr_proposal := Some p\<rparr> else c) cases"

definition selected :: "string list \<Rightarrow> stored_action \<Rightarrow> bool" where
  "selected action_ids a = (action_ids = [] \<or> ca_id (sa_action a) \<in> set action_ids)"

definition select_actions :: "stored_proposal \<Rightarrow> string list \<Rightarrow> (route_exn, stored_action list) res" where
  "select_actions p action_ids =
     (if list_all (\<lambda>i. i \<in> set (map (ca_id \<circ> sa_action) (sp_actions p))) action_ids
      then Inr (filter (selected action_ids) (sp_actions p)) else Inl (Http 404))"

section \<open>Accepting\<close>

definition request_of :: "(title_text \<Rightarrow> string) \<Rightarrow> string \<Rightarrow> bool \<Rightarrow> cloud_action \<Rightarrow> response_request" where
  "request_of txt iid approved a =
     \<lparr>rq_action_id = iid @ '':'' @ ca_id a, rq_action_type = verb_value (pa_verb a), rq_connector = ca_connector a,
      rq_target = pa_target a, rq_description = txt (pa_description a), rq_approved = approved\<rparr>"

definition after_run :: "ct_result \<Rightarrow> stored_action \<Rightarrow> stored_action" where
  "after_run r a = a\<lparr>sa_audit_id := Some (ct_audit_id r), sa_outcome := ct_outcome r, sa_message := ct_refusal r,
     sa_status := (if ct_executed r then A_EXECUTED else A_DENIED)\<rparr>"

text \<open>The loop over the selected actions, which are updated in place among the actions of the
  proposal; an exception ends the request.\<close>

fun run_actions ::
  "'ts accept_env \<Rightarrow> current_user \<Rightarrow> string \<Rightarrow> decision_request \<Rightarrow> stored_action list \<Rightarrow> 'ts ct_world
     \<Rightarrow> (route_exn, stored_action list) res \<times> 'ts ct_world" where
  "run_actions xe user iid body [] w = (Inr [], w)"
| "run_actions xe user iid body (a # as) w =
     (if \<not> selected (dr_action_ids body) a then
        (case run_actions xe user iid body as w of (r, w1) \<Rightarrow> (bind_res r (\<lambda>bs. Inr (a # bs)), w1))
      else case execute_response_action (env_now xe w) (us_id user) (us_org_id user)
                  (request_of (xe_text xe) iid (dr_approved body) (sa_action a)) w of
        (Inl e, w1) \<Rightarrow> (Inl (Aborted e), w1)
      | (Inr res, w1) \<Rightarrow>
          (case run_actions xe user iid body as w1 of (r, w2) \<Rightarrow> (bind_res r (\<lambda>bs. Inr (after_run res a # bs)), w2)))"

definition count_status :: "cloud_action_status \<Rightarrow> stored_action list \<Rightarrow> nat" where
  "count_status s as = length (filter (\<lambda>a. sa_status a = s) as)"

definition decided :: "cloud_proposal_status \<Rightarrow> current_user \<Rightarrow> int \<Rightarrow> string \<Rightarrow> stored_proposal \<Rightarrow> stored_proposal" where
  "decided s user now rationale p =
     p\<lparr>sp_status := s, sp_decided_by := Some (us_id user), sp_decided_at := Some now, sp_decision_rationale := rationale\<rparr>"

text \<open>What the route does with the proposal it has read; other requests may have stored theirs in
  between.\<close>

definition accept_loaded ::
  "'ts accept_env \<Rightarrow> int \<Rightarrow> current_user \<Rightarrow> string \<Rightarrow> decision_request \<Rightarrow> stored_proposal \<Rightarrow> 'ts accept_world
     \<Rightarrow> (route_exn, nat \<times> stored_proposal) res \<times> 'ts accept_world" where
  "accept_loaded xe now user iid body p w =
     (if sp_status p \<noteq> CP_PROPOSED then (Inl (Http 409), w)
      else case select_actions p (dr_action_ids body) of
        Inl e \<Rightarrow> (Inl e, w)
      | Inr chosen \<Rightarrow>
          (case run_actions xe user iid body (sp_actions p) (xw_world w) of
             (Inl e, w1) \<Rightarrow> (Inl e, w\<lparr>xw_world := w1\<rparr>)
           | (Inr as, w1) \<Rightarrow>
               (let ran = filter (selected (dr_action_ids body)) as;
                    executed_any = list_ex (\<lambda>a. sa_status a = A_EXECUTED) ran;
                    p1 = p\<lparr>sp_actions := as\<rparr>;
                    p2 = (if executed_any then decided CP_ACCEPTED user now (dr_rationale body) p1 else p1)
                in case write_row (env_now xe w1) (us_id user) (us_org_id user) ''cloud_containment_accept''
                          (''investigation:'' @ iid) (if executed_any then ''success'' else ''denied'')
                          (AcceptDetails (dr_approved body) (length chosen) (count_status A_EXECUTED ran)
                             (count_status A_DENIED ran) (dr_rationale body)) w1 of
                     (Inl e, w2) \<Rightarrow> (Inl (Aborted e), w\<lparr>xw_world := w2\<rparr>)
                   | (Inr row, w2) \<Rightarrow>
                       (Inr (if executed_any then 200 else 403, p2),
                        w\<lparr>xw_cases := store_proposal iid p2 (xw_cases w), xw_world := w2\<rparr>))))"

definition accept_proposal ::
  "'ts accept_env \<Rightarrow> int \<Rightarrow> current_user \<Rightarrow> string \<Rightarrow> decision_request \<Rightarrow> 'ts accept_world
     \<Rightarrow> (route_exn, nat \<times> stored_proposal) res \<times> 'ts accept_world" where
  "accept_proposal xe now user iid body w =
     (case require_permission user ''containment:execute'' of
        Inl e \<Rightarrow> (Inl e, w)
      | Inr _ \<Rightarrow>
          (case load_investigation_proposal user iid (xw_cases w) of
             Inl e \<Rightarrow> (Inl e, w)
           | Inr (row, p) \<Rightarrow> accept_loaded xe now user iid body p w))"

section \<open>Rejecting and reading\<close>

definition reject_proposal ::
  "'ts accept_env \<Rightarrow> int \<Rightarrow> current_user \<Rightarrow> string \<Rightarrow> decision_request \<Rightarrow> 'ts accept_world
     \<Rightarrow> (route_exn, nat \<times> stored_proposal) res \<times> 'ts accept_world" where
  "reject_proposal xe now user iid body w =
     (case require_permission user ''containment:execute'' of
        Inl e \<Rightarrow> (Inl e, w)
      | Inr _ \<Rightarrow>
          (case load_investigation_proposal user iid (xw_cases w) of
             Inl e \<Rightarrow> (Inl e, w)
           | Inr (row, p) \<Rightarrow>
               if sp_status p \<noteq> CP_PROPOSED then (Inl (Http 409), w)
               else let p1 = decided CP_REJECTED user now (dr_rationale body) p in
                 (case write_row (env_now xe (xw_world w)) (us_id user) (us_org_id user) ''cloud_containment_reject''
                         (''investigation:'' @ iid) ''success''
                         (RejectDetails (length (sp_actions p)) (dr_rationale body)) (xw_world w) of
                    (Inl e, w1) \<Rightarrow> (Inl (Aborted e), w\<lparr>xw_world := w1\<rparr>)
                  | (Inr row', w1) \<Rightarrow>
                      (Inr (200, p1), w\<lparr>xw_cases := store_proposal iid p1 (xw_cases w), xw_world := w1\<rparr>))))"

definition get_proposal :: "current_user \<Rightarrow> string \<Rightarrow> 'ts accept_world \<Rightarrow> (route_exn, stored_proposal) res" where
  "get_proposal user iid w =
     bind_res (require_permission user ''hunt:view'') (\<lambda>_.
     bind_res (load_investigation_proposal user iid (xw_cases w)) (\<lambda>(row, p). Inr p))"

section \<open>What one action does\<close>

definition dispatch_of :: "cloud_action \<Rightarrow> string \<times> string \<times> string" where
  "dispatch_of a = (verb_value (pa_verb a), ca_connector a, pa_target a)"

text \<open>The action is approved, its principal is off the never-touch list, and dispatch is mocked.\<close>

definition goes :: "'ts ct_env \<Rightarrow> string \<Rightarrow> bool \<Rightarrow> cloud_action \<Rightarrow> bool" where
  "goes env org approved a =
     (approved \<and> ce_mock env \<and> \<not> principal_safelisted (load_policy org (ce_safelist env)) (pa_target a))"

lemma env_now_fields [simp]: "goes (env_now xe w) = goes (xe_env xe)"
  by (simp add: fun_eq_iff goes_def env_now_def)

lemma verb_screened: "verb_value v \<in> set principal_screened_types" "verb_value v \<in> set screened_types"
    "verb_value v \<noteq> ''isolate_host''" "verb_value v \<noteq> ''block_ip''" "verb_value v \<noteq> ''block_domain''"
  by (cases v; simp add: principal_screened_types_def screened_types_def)+

lemma mock_outcome: "outcome_for (mock_envelope a c t) = Inr ''success''"
proof -
  have "dict_get (mock_envelope a c t) ''status'' d = PStr ''success''" for d
    by (simp add: dict_get_def mock_envelope_def get_str_def)
  moreover have "bind_res (py_str (PStr ''success'')) (\<lambda>s. Inr (if lower s = ''success'' then ''success'' else ''failure''))
      = (Inr ''success'' :: (py_exn, string) res)"
    by code_simp
  ultimately show ?thesis by (simp add: outcome_for_def)
qed

lemma request_of_fields [simp]:
  "rq_approved (request_of txt iid approved a) = approved" "rq_action_type (request_of txt iid approved a) = verb_value (pa_verb a)"
  "rq_target (request_of txt iid approved a) = pa_target a" "rq_connector (request_of txt iid approved a) = ca_connector a"
  by (simp_all add: request_of_def)

text \<open>It is a denial on the ledger, or the dispatch and its row.\<close>

lemma execute_cloud_forms:
  assumes "execute_response_action env actor org (request_of txt iid approved a) w = (x, w')"
  shows "if goes env org approved a
    then \<exists>x1 x2 x3 x4 x5 x6 x7. record_execution env actor org x1 x2 x3 x4 ''success'' x5 x6 x7
      (sent (verb_value (pa_verb a)) (ca_connector a) (pa_target a) w) = (x, w')
    else \<exists>x1 x2 x3 x4 x5 x6. record_denial env actor org x1 x2 x3 x4 x5 x6 w = (x, w')"
proof -
  have screen: "target_safelisted pol (verb_value (pa_verb a)) t = principal_safelisted pol t" for pol t
    by (simp add: target_safelisted_def verb_screened)
  show ?thesis
  proof (cases "goes env org approved a")
    case True
    have "\<exists>x1 x2 x3 x4 x5 x6 x7. record_execution env actor org x1 x2 x3 x4 ''success'' x5 x6 x7
      (sent (verb_value (pa_verb a)) (ca_connector a) (pa_target a) w) = (x, w')"
      using assms True
      by (simp add: execute_response_action_def Let_def screen verb_screened goes_def dispatch_def after_dispatch_def
          mock_outcome) (elim conjE, intro exI, assumption)
    then show ?thesis using True by simp
  next
    case False
    then consider "\<not> approved" | "approved" "principal_safelisted (load_policy org (ce_safelist env)) (pa_target a)"
      | "approved" "\<not> principal_safelisted (load_policy org (ce_safelist env)) (pa_target a)" "\<not> ce_mock env"
      by (auto simp: goes_def)
    then have "\<exists>x1 x2 x3 x4 x5 x6. record_denial env actor org x1 x2 x3 x4 x5 x6 w = (x, w')"
    proof cases
      case 1
      then show ?thesis using assms
        by (simp add: execute_response_action_def Let_def screen verb_screened dispatch_def after_dispatch_def) (intro exI, assumption)
    next
      case 2
      then show ?thesis using assms
        by (simp add: execute_response_action_def Let_def screen verb_screened dispatch_def after_dispatch_def) (intro exI, assumption)
    next
      case 3
      then show ?thesis using assms
        by (simp add: execute_response_action_def Let_def screen verb_screened dispatch_def after_dispatch_def) (intro exI, assumption)
    qed
    then show ?thesis using False by simp
  qed
qed

lemma execute_cloud_action:
  assumes "execute_response_action env actor org (request_of txt iid approved a) w = (x, w')"
  shows "cw_dispatched w' = cw_dispatched w @ (if goes env org approved a then [dispatch_of a] else []) \<and>
    (case x of Inl e \<Rightarrow> True
     | Inr r \<Rightarrow> ct_executed r = goes env org approved a \<and> ct_outcome r = (if goes env org approved a then ''success'' else ''denied''))"
proof (cases "goes env org approved a")
  case True
  define w1 where "w1 = sent (verb_value (pa_verb a)) (ca_connector a) (pa_target a) w"
  obtain x1 x2 x3 x4 x5 x6 x7 where run: "record_execution env actor org x1 x2 x3 x4 ''success'' x5 x6 x7 w1 = (x, w')"
    using execute_cloud_forms[OF assms] True by (auto simp: w1_def)
  have "cw_dispatched w1 = cw_dispatched w @ [dispatch_of a]" by (simp add: w1_def dispatch_of_def)
  then show ?thesis
    using True run record_world(2)[of env actor org x1 x2 x3 x4 "''success''" x5 x6 x7 w1]
    by (auto simp: record_execution_def split: prod.splits sum.splits)
next
  case False
  then obtain x1 x2 x3 x4 x5 x6 where run: "record_denial env actor org x1 x2 x3 x4 x5 x6 w = (x, w')"
    using execute_cloud_forms[OF assms] by auto
  then show ?thesis
    using False record_world(1)[of env actor org x1 x2 x3 x4 x5 x6 w]
    by (auto simp: record_denial_def split: prod.splits sum.splits)
qed

text \<open>With no other writer on the ledger, the row lands and nothing is aborted.\<close>

definition sole_writer :: "'ts ct_env \<Rightarrow> bool" where
  "sole_writer env = (\<forall>i rows. ce_other env i rows = rows)"

lemma max_seq_bound: "case row_of_max_seq rows of None \<Rightarrow> rows = [] | Some m \<Rightarrow> \<forall>r \<in> set rows. au_seq r \<le> au_seq m"
  by (induction rows) (auto split: option.splits)

lemma write_row_alone: "sole_writer env \<Longrightarrow> \<exists>r w'. write_row env actor org action resource outcome details w = (Inr r, w')"
proof -
  assume alone: "sole_writer env"
  define e where "e = \<lparr>ae_id = ce_new_id env, ae_org = org, ae_actor = actor, ae_category = ''containment'', ae_action = action,
    ae_resource = resource, ae_outcome = outcome, ae_details = details\<rparr>"
  have "fst (next_seq_and_prev_hash (cw_ledger w)) \<notin> set (map au_seq (cw_ledger w))"
    using max_seq_bound[of "cw_ledger w"] by (fastforce simp: next_seq_and_prev_hash_def split: option.splits)
  then have "\<exists>r rows. audit_record (ce_audit env) (ce_other env) (ce_now env) e (cw_ledger w) = (Inr r, rows)"
    using alone
    by (simp add: audit_record_def max_append_attempts_def numeral_eq_Suc append_once_def insert_row_def build_row_def sole_writer_def)
  then show ?thesis by (auto simp: write_row_def e_def)
qed

lemma execute_cloud_alone:
  assumes "sole_writer env"
  shows "\<exists>r w'. execute_response_action env actor org (request_of txt iid approved a) w = (Inr r, w')"
proof -
  obtain x w' where ex: "execute_response_action env actor org (request_of txt iid approved a) w = (x, w')" by fastforce
  have "\<exists>r. fst (record_denial env actor org x1 x2 x3 x4 x5 x6 v) = Inr r" for x1 x2 x3 x4 x5 x6 v
    using write_row_alone[OF assms, of actor org x1 x2 "''denied''" "DenialDetails actor x3 x4 x5 x6" v]
    by (auto simp: record_denial_def)
  moreover have "\<exists>r. fst (record_execution env actor org x1 x2 x3 x4 x5 x6 x7 x8 v) = Inr r" for x1 x2 x3 x4 x5 x6 x7 x8 v
    using write_row_alone[OF assms, of actor org x1 x2 x5 x6 v] by (auto simp: record_execution_def)
  ultimately have "\<exists>r. x = Inr r"
    using execute_cloud_forms[OF ex] by (metis fst_conv)
  then show ?thesis using ex by blast
qed

section \<open>What the route does\<close>

lemma load_policy_now [simp]: "ce_safelist (env_now xe w) = ce_safelist (xe_env xe)"
  by (simp add: env_now_def)

text \<open>The actions of the loop that go out.\<close>

definition to_run :: "'ts accept_env \<Rightarrow> current_user \<Rightarrow> decision_request \<Rightarrow> stored_action list \<Rightarrow> cloud_action list" where
  "to_run xe user body as =
     filter (goes (xe_env xe) (us_org_id user) (dr_approved body)) (map sa_action (filter (selected (dr_action_ids body)) as))"

lemma to_run_simps [simp]:
  "to_run xe user body [] = []"
  "to_run xe user body (a # as) = (if selected (dr_action_ids body) a \<and> goes (xe_env xe) (us_org_id user) (dr_approved body) (sa_action a)
     then sa_action a # to_run xe user body as else to_run xe user body as)"
  by (simp_all add: to_run_def)

lemma after_run_fields [simp]: "sa_action (after_run r a) = sa_action a" "selected ids (after_run r a) = selected ids a"
    "sa_status (after_run r a) = (if ct_executed r then A_EXECUTED else A_DENIED)"
  by (simp_all add: after_run_def selected_def)

lemma run_actions_dispatches:
  assumes "run_actions xe user iid body as w = (r, w')"
  shows "\<exists>ds. cw_dispatched w' = cw_dispatched w @ ds \<and> prefix ds (map dispatch_of (to_run xe user body as)) \<and>
    (case r of Inl e \<Rightarrow> True
     | Inr bs \<Rightarrow> ds = map dispatch_of (to_run xe user body as) \<and> map sa_action bs = map sa_action as \<and>
         map sa_action (filter (\<lambda>b. sa_status b = A_EXECUTED) (filter (selected (dr_action_ids body)) bs)) = to_run xe user body as)"
  using assms
proof (induction as arbitrary: w r w')
  case (Cons a as)
  show ?case
  proof (cases "selected (dr_action_ids body) a")
    case False
    obtain r1 w1 where rest: "run_actions xe user iid body as w = (r1, w1)" by fastforce
    from Cons.IH[OF rest] show ?thesis using Cons.prems False rest by (cases r1) auto
  next
    case True
    obtain x w1 where ex: "execute_response_action (env_now xe w) (us_id user) (us_org_id user)
        (request_of (xe_text xe) iid (dr_approved body) (sa_action a)) w = (x, w1)" by fastforce
    note one = execute_cloud_action[OF ex, simplified]
    show ?thesis
    proof (cases x)
      case (Inl e)
      then show ?thesis using Cons.prems True ex one by (auto split: if_splits)
    next
      case (Inr res)
      obtain r1 w2 where rest: "run_actions xe user iid body as w1 = (r1, w2)" by fastforce
      obtain ds where ds: "cw_dispatched w2 = cw_dispatched w1 @ ds" "prefix ds (map dispatch_of (to_run xe user body as))"
        and out: "case r1 of Inl e \<Rightarrow> True
          | Inr bs \<Rightarrow> ds = map dispatch_of (to_run xe user body as) \<and> map sa_action bs = map sa_action as \<and>
             map sa_action (filter (\<lambda>b. sa_status b = A_EXECUTED) (filter (selected (dr_action_ids body)) bs)) = to_run xe user body as"
        using Cons.IH[OF rest] by blast
      have res: "r = bind_res r1 (\<lambda>bs. Inr (after_run res a # bs))" "w' = w2"
        using Cons.prems True ex Inr rest by simp_all
      let ?g = "goes (xe_env xe) (us_org_id user) (dr_approved body) (sa_action a)"
      show ?thesis
        by (rule exI[of _ "(if ?g then [dispatch_of (sa_action a)] else []) @ ds"])
          (use one ds out res Inr True in \<open>cases r1; auto\<close>)
    qed
  qed
qed simp

lemma load_Inr:
  "load_investigation_proposal user iid cases = Inr (row, p) \<Longrightarrow>
     find (\<lambda>c. cr_id c = iid) cases = Some row \<and> sc_org_id row = us_org_id user \<and> cr_proposal row = Some p"
  by (auto simp: load_investigation_proposal_def split: option.splits if_splits)

text \<open>What a request may send out, said without the code: nothing, unless the user commands
  incidents in the organisation of the case and its proposal is undecided; then the selected
  actions whose principal is off the never-touch list.\<close>

definition may_run :: "'ts accept_env \<Rightarrow> current_user \<Rightarrow> string \<Rightarrow> decision_request \<Rightarrow> case_row list \<Rightarrow> cloud_action list" where
  "may_run xe user iid body cases =
     (case find (\<lambda>c. cr_id c = iid) cases of
        None \<Rightarrow> []
      | Some row \<Rightarrow>
          (case cr_proposal row of
             None \<Rightarrow> []
           | Some p \<Rightarrow>
               if us_role user \<in> {''incident_commander'', ''admin''} \<and> sc_org_id row = us_org_id user \<and> sp_status p = CP_PROPOSED
               then to_run xe user body (sp_actions p) else []))"

lemma count_any: "list_ex (\<lambda>a. sa_status a = s) as = (filter (\<lambda>a. sa_status a = s) as \<noteq> [])"
  by (induction as) auto

lemma accept_loaded_dispatches:
  assumes "accept_loaded xe now user iid body p w = (r, w')"
  shows "\<exists>ds. cw_dispatched (xw_world w') = cw_dispatched (xw_world w) @ ds \<and>
    prefix ds (map dispatch_of (if sp_status p = CP_PROPOSED then to_run xe user body (sp_actions p) else [])) \<and>
    (case r of Inl e \<Rightarrow> xw_cases w' = xw_cases w
     | Inr (st, p') \<Rightarrow> sp_status p = CP_PROPOSED \<and> ds = map dispatch_of (to_run xe user body (sp_actions p)) \<and>
         st = (if ds = [] then 403 else 200) \<and> sp_status p' = (if ds = [] then CP_PROPOSED else CP_ACCEPTED) \<and>
         map sa_action (sp_actions p') = map sa_action (sp_actions p) \<and>
         map sa_action (filter (\<lambda>b. sa_status b = A_EXECUTED) (filter (selected (dr_action_ids body)) (sp_actions p'))) =
           to_run xe user body (sp_actions p) \<and>
         xw_cases w' = store_proposal iid p' (xw_cases w))"
proof (cases "sp_status p \<noteq> CP_PROPOSED \<or> (\<exists>e. select_actions p (dr_action_ids body) = Inl e)")
  case True
  then have "w' = w \<and> (\<exists>e. r = Inl e)"
    using assms by (cases "sp_status p = CP_PROPOSED") (auto simp: accept_loaded_def)
  then show ?thesis by auto
next
  case False
  then obtain chosen where chosen: "select_actions p (dr_action_ids body) = Inr chosen" and st: "sp_status p = CP_PROPOSED"
    by (metis sum.exhaust)
  obtain x w1 where run: "run_actions xe user iid body (sp_actions p) (xw_world w) = (x, w1)" by fastforce
  obtain ds where ds: "cw_dispatched w1 = cw_dispatched (xw_world w) @ ds"
      "prefix ds (map dispatch_of (to_run xe user body (sp_actions p)))"
    and out: "case x of Inl e \<Rightarrow> True
     | Inr bs \<Rightarrow> ds = map dispatch_of (to_run xe user body (sp_actions p)) \<and> map sa_action bs = map sa_action (sp_actions p) \<and>
         map sa_action (filter (\<lambda>b. sa_status b = A_EXECUTED) (filter (selected (dr_action_ids body)) bs)) = to_run xe user body (sp_actions p)"
    using run_actions_dispatches[OF run] by blast
  show ?thesis
  proof (cases x)
    case (Inl e)
    then have "r = Inl e \<and> w' = w\<lparr>xw_world := w1\<rparr>" using assms st by (simp add: accept_loaded_def chosen run)
    then show ?thesis using ds st by (intro exI[of _ ds]) simp
  next
    case (Inr bs)
    define ran where "ran = filter (selected (dr_action_ids body)) bs"
    have any: "list_ex (\<lambda>a. sa_status a = A_EXECUTED) ran = (ds \<noteq> [])"
    proof -
      have d: "ds = map dispatch_of (to_run xe user body (sp_actions p))"
        and f: "map sa_action (filter (\<lambda>b. sa_status b = A_EXECUTED) ran) = to_run xe user body (sp_actions p)"
        using out by (simp_all add: Inr ran_def)
      show ?thesis unfolding count_any d f[symmetric] by simp
    qed
    define some where "some = list_ex (\<lambda>a. sa_status a = A_EXECUTED) ran"
    note any = any[folded some_def]
    define p2 where "p2 = (if some then decided CP_ACCEPTED user now (dr_rationale body) (p\<lparr>sp_actions := bs\<rparr>) else p\<lparr>sp_actions := bs\<rparr>)"
    obtain y w2 where wr: "write_row (env_now xe w1) (us_id user) (us_org_id user) ''cloud_containment_accept''
        (''investigation:'' @ iid) (if some then ''success'' else ''denied'')
        (AcceptDetails (dr_approved body) (length chosen) (count_status A_EXECUTED ran) (count_status A_DENIED ran) (dr_rationale body))
        w1 = (y, w2)" by fastforce
    have disp: "cw_dispatched w2 = cw_dispatched w1"
      using arg_cong[OF wr, of snd] write_row_world by (metis snd_conv)
    have res: "(r, w') = (case y of Inl e \<Rightarrow> (Inl (Aborted e), w\<lparr>xw_world := w2\<rparr>)
        | Inr row \<Rightarrow> (Inr (if some then 200 else 403, p2), w\<lparr>xw_cases := store_proposal iid p2 (xw_cases w), xw_world := w2\<rparr>))"
      using assms st wr unfolding accept_loaded_def chosen run Inr
      by (cases y) (simp_all add: Let_def ran_def[symmetric] some_def[symmetric] p2_def[symmetric])
    have p2: "sp_status p2 = (if ds = [] then CP_PROPOSED else CP_ACCEPTED)" "sp_actions p2 = bs"
      using st by (simp_all add: p2_def decided_def any)
    show ?thesis
      using res disp p2 ds st out Inr any by (intro exI[of _ ds], cases y) auto
  qed
qed

text \<open>C6: An accept sends out exactly what it may, or a first part of it when it is aborted; when it
  answers, the actions marked executed are the ones that went out, the answer is 200 and the
  proposal accepted exactly when something went out, and otherwise the proposal stays open.\<close>

theorem accept_contract:
  "case accept_proposal xe now user iid body w of (r, w') \<Rightarrow>
     \<exists>ds. cw_dispatched (xw_world w') = cw_dispatched (xw_world w) @ ds \<and>
       prefix ds (map dispatch_of (may_run xe user iid body (xw_cases w))) \<and>
       (case r of
          Inl e \<Rightarrow> xw_cases w' = xw_cases w
        | Inr (st, p) \<Rightarrow>
            ds = map dispatch_of (may_run xe user iid body (xw_cases w)) \<and> st = (if ds = [] then 403 else 200) \<and>
            sp_status p = (if ds = [] then CP_PROPOSED else CP_ACCEPTED) \<and>
            map sa_action (filter (\<lambda>b. sa_status b = A_EXECUTED) (filter (selected (dr_action_ids body)) (sp_actions p))) =
              may_run xe user iid body (xw_cases w))"
proof -
  obtain r w' where acc: "accept_proposal xe now user iid body w = (r, w')" by fastforce
  have perm: "has_permission (us_role user) ''containment:execute'' = (us_role user \<in> {''incident_commander'', ''admin''})"
    by (rule commander_permission[OF commander_permissions(1)])
  show ?thesis
  proof (cases "us_role user \<in> {''incident_commander'', ''admin''} \<and> (\<exists>row p. load_investigation_proposal user iid (xw_cases w) = Inr (row, p))")
    case True
    then obtain row p where load: "load_investigation_proposal user iid (xw_cases w) = Inr (row, p)"
      and role: "us_role user \<in> {''incident_commander'', ''admin''}" by blast
    have run: "accept_loaded xe now user iid body p w = (r, w')"
      using acc role by (simp add: accept_proposal_def require_permission_def perm load)
    have may: "may_run xe user iid body (xw_cases w) = (if sp_status p = CP_PROPOSED then to_run xe user body (sp_actions p) else [])"
      using load_Inr[OF load] role by (simp add: may_run_def)
    show ?thesis using accept_loaded_dispatches[OF run] unfolding acc may
      by (cases "sp_status p = CP_PROPOSED"; cases r) auto
  next
    case False
    then have "w' = w \<and> (\<exists>e. r = Inl e)"
      using acc by (auto simp: accept_proposal_def require_permission_def perm split: sum.splits if_splits)
    then show ?thesis by (auto simp: acc)
  qed
qed

section \<open>Sequences of decisions\<close>

text \<open>A request that raises is rolled back: the tables are as before, what went out stays out.\<close>

definition commit_route ::
  "'ts accept_world \<Rightarrow> (route_exn, nat \<times> stored_proposal) res \<times> 'ts accept_world \<Rightarrow> 'ts accept_world" where
  "commit_route w r =
     (case r of
        (Inr x, w') \<Rightarrow> w'
      | (Inl e, w') \<Rightarrow> w\<lparr>xw_world := (xw_world w)\<lparr>cw_dispatched := cw_dispatched (xw_world w')\<rparr>\<rparr>)"

datatype decision = Accept | Reject

fun decide_route ::
  "'ts accept_env \<Rightarrow> decision \<Rightarrow> int \<Rightarrow> current_user \<Rightarrow> string \<Rightarrow> decision_request \<Rightarrow> 'ts accept_world
     \<Rightarrow> (route_exn, nat \<times> stored_proposal) res \<times> 'ts accept_world" where
  "decide_route xe Accept now user iid body w = accept_proposal xe now user iid body w"
| "decide_route xe Reject now user iid body w = reject_proposal xe now user iid body w"

definition http_status :: "(route_exn, nat \<times> stored_proposal) res \<Rightarrow> nat" where
  "http_status r = (case r of Inr (st, p) \<Rightarrow> st | Inl (Http n) \<Rightarrow> n | Inl (Aborted e) \<Rightarrow> 500)"

type_synonym route_event = "decision \<times> int \<times> current_user \<times> string \<times> decision_request"

fun run_routes :: "'ts accept_env \<Rightarrow> 'ts accept_world \<Rightarrow> route_event list \<Rightarrow> (string \<times> nat) list \<times> 'ts accept_world" where
  "run_routes xe w [] = ([], w)"
| "run_routes xe w ((d, now, user, iid, body) # evs) =
     (let r = decide_route xe d now user iid body w; (answers, w') = run_routes xe (commit_route w r) evs
      in ((iid, http_status (fst r)) # answers, w'))"

definition closed_case :: "string \<Rightarrow> 'ts accept_world \<Rightarrow> bool" where
  "closed_case iid w =
     (case find (\<lambda>c. cr_id c = iid) (xw_cases w) of
        None \<Rightarrow> False
      | Some row \<Rightarrow> (case cr_proposal row of None \<Rightarrow> False | Some p \<Rightarrow> sp_status p \<noteq> CP_PROPOSED))"

lemma find_store:
  "find (\<lambda>c. cr_id c = iid) (store_proposal j p cases) =
     (if iid = j then map_option (\<lambda>c. c\<lparr>cr_proposal := Some p\<rparr>) (find (\<lambda>c. cr_id c = iid) cases)
      else find (\<lambda>c. cr_id c = iid) cases)"
  by (induction cases) (auto simp: store_proposal_def)

definition decides_open ::
  "current_user \<Rightarrow> string \<Rightarrow> 'ts accept_world \<Rightarrow> (route_exn, nat \<times> stored_proposal) res \<Rightarrow> 'ts accept_world \<Rightarrow> bool" where
  "decides_open user iid w x w' =
     (case x of Inl e \<Rightarrow> xw_cases w' = xw_cases w \<and> http_status x \<noteq> 200
    | Inr (st, p') \<Rightarrow> (\<exists>row p. load_investigation_proposal user iid (xw_cases w) = Inr (row, p) \<and> sp_status p = CP_PROPOSED \<and>
        (st = 200 \<longrightarrow> sp_status p' \<noteq> CP_PROPOSED) \<and> xw_cases w' = store_proposal iid p' (xw_cases w)))"

lemma reject_cases:
  assumes "reject_proposal xe now user iid body w = (r, w')"
  shows "decides_open user iid w r w'"
  using assms
  by (auto simp: decides_open_def reject_proposal_def require_permission_def load_investigation_proposal_def Let_def decided_def http_status_def
      split: sum.splits if_splits prod.splits option.splits)

lemma run_actions_error: "run_actions xe user iid body as w = (Inl e, w') \<Longrightarrow> \<exists>x. e = Aborted x"
proof (induction as arbitrary: w)
  case (Cons a as)
  show ?case
  proof (cases "selected (dr_action_ids body) a")
    case False
    then show ?thesis using Cons by (auto simp: bind_res_def split: prod.splits sum.splits)
  next
    case True
    then show ?thesis using Cons by (auto simp: bind_res_def split: prod.splits sum.splits)
  qed
qed simp

lemma accept_loaded_error:
  "accept_loaded xe now user iid body p w = (Inl e, w') \<Longrightarrow> e = Http 409 \<or> e = Http 404 \<or> (\<exists>x. e = Aborted x)"
  by (auto simp: accept_loaded_def select_actions_def Let_def split: if_splits sum.splits prod.splits dest: run_actions_error)

lemma accept_cases:
  assumes "accept_proposal xe now user iid body w = (r, w')"
  shows "decides_open user iid w r w'"
proof (cases "\<exists>row p. require_permission user ''containment:execute'' = Inr () \<and> load_investigation_proposal user iid (xw_cases w) = Inr (row, p)")
  case True
  then obtain row p where ok: "require_permission user ''containment:execute'' = Inr ()"
      "load_investigation_proposal user iid (xw_cases w) = Inr (row, p)" by blast
  then have run: "accept_loaded xe now user iid body p w = (r, w')" using assms by (simp add: accept_proposal_def)
  note err = accept_loaded_error[of xe now user iid body p w _ w']
  show ?thesis using accept_loaded_dispatches[OF run] ok err run by (cases r) (auto simp: decides_open_def http_status_def split: if_splits)
next
  case False
  then have "w' = w \<and> (r = Inl (Http 403) \<or> r = Inl (Http 404))"
    using assms by (auto simp: accept_proposal_def require_permission_def load_investigation_proposal_def
        split: sum.splits if_splits option.splits)
  then show ?thesis by (auto simp: decides_open_def http_status_def)
qed

lemma decide_step:
  assumes "decide_route xe d now user iid body w = r"
  shows "(http_status (fst r) = 200 \<longrightarrow> \<not> closed_case iid w \<and> closed_case iid (commit_route w r)) \<and>
    (closed_case j w \<longrightarrow> closed_case j (commit_route w r))"
proof -
  obtain x w' where r: "r = (x, w')" by fastforce
  have "decides_open user iid w x w'"
    using assms accept_cases[of xe now user iid body w x w'] reject_cases[of xe now user iid body w x w'] r by (cases d) simp_all
  note d = this
  show ?thesis
  proof (cases x)
    case (Inl e)
    then have "xw_cases (commit_route w r) = xw_cases w" "http_status (fst r) \<noteq> 200"
      using d by (simp_all add: decides_open_def r commit_route_def)
    then show ?thesis by (simp add: closed_case_def)
  next
    case (Inr a)
    obtain st p' where a: "a = (st, p')" by fastforce
    obtain row p where load: "load_investigation_proposal user iid (xw_cases w) = Inr (row, p)" and st: "sp_status p = CP_PROPOSED"
      and dec: "st = 200 \<longrightarrow> sp_status p' \<noteq> CP_PROPOSED" and w': "xw_cases (commit_route w r) = store_proposal iid p' (xw_cases w)"
      using d by (auto simp: decides_open_def Inr a r commit_route_def)
    note found = load_Inr[OF load]
    have "\<not> closed_case iid w" using found st by (simp add: closed_case_def)
    moreover have "closed_case iid (commit_route w r) = (sp_status p' \<noteq> CP_PROPOSED)"
      using found by (simp add: closed_case_def w' find_store)
    moreover have "closed_case j (commit_route w r) = closed_case j w" if "j \<noteq> iid"
      using that by (simp add: closed_case_def w' find_store)
    ultimately show ?thesis using dec by (cases "j = iid") (auto simp: r Inr a http_status_def)
  qed
qed

lemma run_routes_step:
  "fst (run_routes xe w ((d, now, user, iid, body) # evs)) =
     (iid, http_status (fst (decide_route xe d now user iid body w))) #
     fst (run_routes xe (commit_route w (decide_route xe d now user iid body w)) evs)"
  by (simp add: Let_def split: prod.splits)

text \<open>C7: Whatever commanders decide, one request after the other, a case answers 200 at most once:
  it is accepted or rejected, and then every further decision is refused.\<close>

theorem case_decided_once:
  "length (filter (\<lambda>a. a = (iid, 200)) (fst (run_routes xe w evs))) \<le> 1"
proof -
  have closed: "closed_case iid w \<Longrightarrow> filter (\<lambda>a. a = (iid, 200)) (fst (run_routes xe w evs)) = []" for w evs
  proof (induction evs arbitrary: w)
    case (Cons e evs)
    obtain d now user i body where e: "e = (d, now, user, i, body)" by (cases e) auto
    define r where "r = decide_route xe d now user i body w"
    note step = decide_step[OF r_def[symmetric], of iid]
    show ?case using step Cons.prems Cons.IH[of "commit_route w r"]
      unfolding e run_routes_step r_def[symmetric] by auto
  qed simp
  show ?thesis
  proof (induction evs arbitrary: w)
    case (Cons e evs)
    obtain d now user i body where e: "e = (d, now, user, i, body)" by (cases e) auto
    define r where "r = decide_route xe d now user i body w"
    note step = decide_step[OF r_def[symmetric], of iid]
    show ?case
    proof (cases "i = iid \<and> http_status (fst r) = 200")
      case True
      then show ?thesis using step closed[of "commit_route w r" evs]
        unfolding e run_routes_step r_def[symmetric] by auto
    next
      case False
      then show ?thesis using Cons.IH[of "commit_route w r"] unfolding e run_routes_step r_def[symmetric] by auto
    qed
  qed simp
qed

section \<open>Two requests at once, and an abort\<close>

definition revoke_action :: cloud_action where
  "revoke_action = proposed_action.extend
     \<lparr>pa_verb = REVOKE_ROLE, pa_provider = P_AWS, pa_target = ''arn:aws:iam::123456789012:role/Admin'',
      pa_description = [], pa_parameters = []\<rparr>
     \<lparr>ca_id = ''cca_1'', ca_connector = ''aws_iam'', ca_source_finding_ids = [''hfnd1'']\<rparr>"

definition freeze_action :: cloud_action where
  "freeze_action = revoke_action\<lparr>pa_verb := FREEZE_ACCESS_KEY, ca_id := ''cca_2''\<rparr>"

definition open_case :: case_row where
  "open_case = \<lparr>sc_org_id = ''o1'', sc_assigned_to = None, cr_id = ''inv_1'',
     cr_proposal = Some (stored_of \<lparr>cp_actions = [revoke_action, freeze_action], cp_titles = []\<rparr>)\<rparr>"

definition commander :: current_user where
  "commander = \<lparr>us_id = ''u1'', us_username = ''u'', us_role = ''incident_commander'', us_org_id = ''o1''\<rparr>"

definition approve_all :: decision_request where
  "approve_all = \<lparr>dr_approved = True, dr_rationale = [], dr_action_ids = []\<rparr>"

definition accept_demo :: "unit accept_env" where
  "accept_demo = \<lparr>xe_env = demo_env, xe_row_id = (\<lambda>n. replicate n (CHR ''a'')), xe_text = map char_of\<rparr>"

definition one_case :: "unit accept_world" where
  "one_case = \<lparr>xw_cases = [open_case], xw_world = demo_world\<rparr>"

lemma sole_writer_now [simp]: "sole_writer (env_now xe w) = sole_writer (xe_env xe)"
  by (simp add: sole_writer_def env_now_def)

lemma run_actions_alone:
  assumes "sole_writer (xe_env xe)"
  shows "\<exists>bs w'. run_actions xe user iid body as w = (Inr bs, w')"
proof (induction as arbitrary: w)
  case (Cons a as)
  obtain r w1 where one: "execute_response_action (env_now xe w) (us_id user) (us_org_id user)
      (request_of (xe_text xe) iid (dr_approved body) (sa_action a)) w = (Inr r, w1)"
    using execute_cloud_alone[of "env_now xe w"] assms by (metis sole_writer_now)
  obtain bs w2 where "run_actions xe user iid body as w1 = (Inr bs, w2)" using Cons by blast
  moreover obtain cs w3 where "run_actions xe user iid body as w = (Inr cs, w3)" using Cons by blast
  ultimately show ?case using one by simp
qed simp

lemma accept_loaded_alone:
  assumes "sole_writer (xe_env xe)" "sp_status p = CP_PROPOSED" "select_actions p (dr_action_ids body) = Inr chosen"
  shows "\<exists>a w'. accept_loaded xe now user iid body p w = (Inr a, w')"
proof -
  obtain bs w1 where run: "run_actions xe user iid body (sp_actions p) (xw_world w) = (Inr bs, w1)"
    using run_actions_alone[OF assms(1)] by blast
  have wr: "\<exists>r w2. write_row (env_now xe w1) x1 x2 x3 x4 x5 x6 w1 = (Inr r, w2)" for x1 x2 x3 x4 x5 x6
    using write_row_alone[of "env_now xe w1"] assms(1) by simp
  show ?thesis
    using wr[of "us_id user" "us_org_id user" "''cloud_containment_accept''" "''investigation:'' @ iid"]
    by (auto simp: accept_loaded_def assms(2,3) run Let_def split: prod.splits sum.splits)
      (metis Pair_inject sum.simps(4))+
qed

lemma empty_table_screen:
  "principal_safelisted (load_policy org []) v = (norm_principal v \<noteq> [] \<and> is_account_root_principal (norm_principal v))"
proof -
  have "sl_principals (load_policy org []) = {}"
    by (auto simp: load_policy_def Let_def list_entries_def entry_values_def merge_principals baseline_safelist_def make_safelist_def)
  then show ?thesis by (simp add: principal_safelisted_def Let_def)
qed

lemma demo_goes: "to_run xe commander approve_all (map (\<lambda>a. \<lparr>sa_action = a, sa_status = A_PROPOSED, sa_outcome = [], sa_audit_id = None,
    sa_message = None\<rparr>) [revoke_action, freeze_action]) = [revoke_action, freeze_action]"
  if "ce_mock (xe_env xe)" "ce_safelist (xe_env xe) = []"
proof -
  have "norm_principal (pa_target revoke_action) \<noteq> [] \<and> \<not> is_account_root_principal (norm_principal (pa_target revoke_action))"
    by code_simp
  moreover have "pa_target freeze_action = pa_target revoke_action" by (simp add: freeze_action_def)
  ultimately show ?thesis using that
    by (simp add: goes_def empty_table_screen approve_all_def selected_def)
qed

text \<open>Two accepts that both read the proposal before either stores it: every action goes out twice.\<close>

theorem concurrent_accepts_execute_twice:
  "case load_investigation_proposal commander ''inv_1'' (xw_cases one_case) of
     Inl e \<Rightarrow> False
   | Inr (row, p) \<Rightarrow>
       (case accept_loaded accept_demo 0 commander ''inv_1'' approve_all p one_case of
          (r1, w1) \<Rightarrow>
            (case accept_loaded accept_demo 1 commander ''inv_1'' approve_all p w1 of
               (r2, w2) \<Rightarrow> http_status r1 = 200 \<and> http_status r2 = 200 \<and>
                 cw_dispatched (xw_world w2) = map dispatch_of [revoke_action, freeze_action, revoke_action, freeze_action]))"
proof -
  let ?p = "stored_of \<lparr>cp_actions = [revoke_action, freeze_action], cp_titles = []\<rparr>"
  have load: "load_investigation_proposal commander ''inv_1'' (xw_cases one_case) = Inr (open_case, ?p)"
    by (simp add: one_case_def load_investigation_proposal_def open_case_def commander_def can_access_investigation_def org_wide_roles_def)
  have alone: "sole_writer (xe_env accept_demo)" by (simp add: sole_writer_def accept_demo_def demo_env_def)
  have p: "sp_status ?p = CP_PROPOSED" "select_actions ?p (dr_action_ids approve_all) = Inr (filter (selected []) (sp_actions ?p))"
    by (simp_all add: stored_of_def select_actions_def approve_all_def)
  have run: "to_run accept_demo commander approve_all (sp_actions ?p) = [revoke_action, freeze_action]"
    using demo_goes[of accept_demo] by (simp add: stored_of_def accept_demo_def demo_env_def)
  obtain a1 w1 where 1: "accept_loaded accept_demo 0 commander ''inv_1'' approve_all ?p one_case = (Inr a1, w1)"
    using accept_loaded_alone[OF alone p] by blast
  obtain a2 w2 where 2: "accept_loaded accept_demo 1 commander ''inv_1'' approve_all ?p w1 = (Inr a2, w2)"
    using accept_loaded_alone[OF alone p] by blast
  have start: "cw_dispatched (xw_world one_case) = []" by (simp add: one_case_def demo_world_def)
  show ?thesis
    using accept_loaded_dispatches[OF 1] accept_loaded_dispatches[OF 2] start
    by (cases a1; cases a2) (auto simp: load 1 2 run http_status_def)
qed

text \<open>Another writer that appends to a ledger that is no longer empty, just before each insert.\<close>

definition rival_row :: "nat \<Rightarrow> (unit, ct_details) audit_row" where
  "rival_row n = \<lparr>au_id = [], au_org = [], au_seq = int n + 1, au_timestamp = (), au_actor = [], au_category = [], au_action = [],
     au_resource = [], au_outcome = [], au_details = RejectDetails 0 [], au_prev_hash = [], au_hash = []\<rparr>"

definition rival_demo :: "unit accept_env" where
  "rival_demo = accept_demo\<lparr>xe_env := demo_env\<lparr>ce_other := \<lambda>i rows. if rows = [] then [] else rows @ [rival_row (length rows)]\<rparr>\<rparr>"

definition busy :: "unit ct_env \<Rightarrow> bool" where
  "busy env = (ce_other env = (\<lambda>i rows. if rows = [] then [] else rows @ [rival_row (length rows)]))"

lemma first_row_lands:
  assumes "busy env" "cw_ledger w = []"
  shows "\<exists>r. write_row env actor org action resource outcome details w = (Inr r, w\<lparr>cw_ledger := [r]\<rparr>) \<and> au_seq r = 1"
  using assms by (simp add: busy_def write_row_def audit_record_def max_append_attempts_def numeral_eq_Suc append_once_def
      insert_row_def build_row_def next_seq_and_prev_hash_def)

lemma second_row_lost:
  assumes "busy env" "cw_ledger w = [r]" "au_seq r = 1"
  shows "\<exists>rows. write_row env actor org action resource outcome details w = (Inl (RowLost IntegrityError), w\<lparr>cw_ledger := rows\<rparr>)"
  using assms
  by (simp add: busy_def write_row_def audit_record_def max_append_attempts_def numeral_eq_Suc append_once_def
      insert_row_def build_row_def next_seq_and_prev_hash_def rival_row_def) (rule exI, rule refl)

text \<open>When the row of the second action is lost, the request is aborted and rolled back: both actions
  have gone out, the ledger holds no row of either, and the proposal is open for another accept.\<close>

theorem abort_leaves_no_trace:
  "case accept_proposal rival_demo 0 commander ''inv_1'' approve_all one_case of
     (r, w') \<Rightarrow> http_status r = 500 \<and>
       (let w1 = commit_route one_case (r, w') in
          cw_dispatched (xw_world w1) = map dispatch_of [revoke_action, freeze_action] \<and>
          cw_ledger (xw_world w1) = [] \<and> xw_cases w1 = xw_cases one_case)"
proof -
  let ?p = "stored_of \<lparr>cp_actions = [revoke_action, freeze_action], cp_titles = []\<rparr>"
  have load: "load_investigation_proposal commander ''inv_1'' (xw_cases one_case) = Inr (open_case, ?p)"
    by (simp add: one_case_def load_investigation_proposal_def open_case_def commander_def can_access_investigation_def org_wide_roles_def)
  have perm: "require_permission commander ''containment:execute'' = Inr ()"
    by (simp add: require_permission_def commander_permission commander_permissions commander_def)
  have busy: "busy (env_now rival_demo w)" for w by (simp add: busy_def env_now_def rival_demo_def)
  define sa where "sa = (\<lambda>a. \<lparr>sa_action = a, sa_status = A_PROPOSED, sa_outcome = [], sa_audit_id = None, sa_message = None\<rparr>)"
  have acts: "sp_actions ?p = [sa revoke_action, sa freeze_action]" by (simp add: stored_of_def sa_def)
  have g: "to_run rival_demo commander approve_all [sa revoke_action, sa freeze_action] = [revoke_action, freeze_action]"
    using demo_goes[of rival_demo] by (simp add: rival_demo_def demo_env_def sa_def)
  have sel: "selected (dr_action_ids approve_all) a" for a by (simp add: selected_def approve_all_def)
  have goes: "goes (env_now rival_demo w) (us_org_id commander) (dr_approved approve_all) a" if "a \<in> {revoke_action, freeze_action}" for a w
    using g that by (auto simp: sel sa_def split: if_splits)
  let ?run = "\<lambda>a w. execute_response_action (env_now rival_demo w) (us_id commander) (us_org_id commander)
      (request_of (xe_text rival_demo) ''inv_1'' (dr_approved approve_all) a) w"
  have one: "\<exists>res w1 r. ?run revoke_action (xw_world one_case) = (Inr res, w1) \<and> cw_ledger w1 = [r] \<and> au_seq r = 1"
  proof -
    obtain x w1 where run: "?run revoke_action (xw_world one_case) = (x, w1)" by fastforce
    obtain x1 x2 x3 x4 x5 x6 x7 where rec: "record_execution (env_now rival_demo (xw_world one_case)) (us_id commander) (us_org_id commander)
        x1 x2 x3 x4 ''success'' x5 x6 x7 (sent (verb_value (pa_verb revoke_action)) (ca_connector revoke_action)
          (pa_target revoke_action) (xw_world one_case)) = (x, w1)"
      using execute_cloud_forms[OF run] goes[of revoke_action] by auto
    define v where "v = sent (verb_value (pa_verb revoke_action)) (ca_connector revoke_action) (pa_target revoke_action) (xw_world one_case)"
    have v: "cw_ledger v = []" by (simp add: v_def one_case_def demo_world_def)
    obtain r where "write_row (env_now rival_demo (xw_world one_case)) (us_id commander) (us_org_id commander) x1 x2 ''success'' x5 v =
        (Inr r, v\<lparr>cw_ledger := [r]\<rparr>)" "au_seq r = 1"
      using first_row_lands[OF busy v] by blast
    then show ?thesis using rec[folded v_def] unfolding run by (auto simp: record_execution_def)
  qed
  then obtain res w1 r where 1: "?run revoke_action (xw_world one_case) = (Inr res, w1)" and l1: "cw_ledger w1 = [r]" "au_seq r = 1"
    by blast
  obtain x w2 where run2: "?run freeze_action w1 = (x, w2)" by fastforce
  obtain x1 x2 x3 x4 x5 x6 x7 where rec: "record_execution (env_now rival_demo w1) (us_id commander) (us_org_id commander)
      x1 x2 x3 x4 ''success'' x5 x6 x7 (sent (verb_value (pa_verb freeze_action)) (ca_connector freeze_action)
        (pa_target freeze_action) w1) = (x, w2)"
    using execute_cloud_forms[OF run2] goes[of freeze_action] by auto
  define v where "v = sent (verb_value (pa_verb freeze_action)) (ca_connector freeze_action) (pa_target freeze_action) w1"
  have v: "cw_ledger v = [r]" by (simp add: v_def l1)
  obtain rows where "write_row (env_now rival_demo w1) (us_id commander) (us_org_id commander) x1 x2 ''success'' x5 v =
      (Inl (RowLost IntegrityError), v\<lparr>cw_ledger := rows\<rparr>)"
    using second_row_lost[OF busy v l1(2)] by blast
  then have x: "x = Inl (RowLost IntegrityError)" using rec[folded v_def] by (auto simp: record_execution_def)
  have acc: "accept_proposal rival_demo 0 commander ''inv_1'' approve_all one_case =
      (Inl (Aborted (RowLost IntegrityError)), one_case\<lparr>xw_world := w2\<rparr>)"
    using load perm 1 run2 x
    by (simp add: accept_proposal_def accept_loaded_def acts sel sa_def select_actions_def) (simp add: stored_of_def approve_all_def)
  have "cw_dispatched w2 = map dispatch_of [revoke_action, freeze_action]"
    using execute_cloud_action[OF 1] execute_cloud_action[OF run2] goes by (simp add: one_case_def demo_world_def)
  then show ?thesis
    unfolding acc by (simp add: http_status_def commit_route_def one_case_def demo_world_def)
qed

end
