(* ===== verification/Spec2Isabelle.thy ===== *)
theory Spec2Isabelle
  imports TlpService PromptFence Conditions RunService AuditTrail Containment LlmRouter McpManifests McpDispatch HuntStoreProps CloudAccept
begin

text \<open>
  BTagent: a verification library for the engine, the egress controls, the response path and
  the hunting logic of the agent platform.

  The program.  BTagent runs security playbooks and agents on behalf of an organisation.  A
  playbook (YAML) is compiled by engine/ to a graph of steps; the executor walks the graph and
  runs each node through a chain of middlewares that hold it back for a human, deny egress, or
  record evidence.  The agents call tool servers through a router that consults the manifests
  of the servers.  Findings of hunts are clustered and promoted to investigations, which may
  carry proposals of containment; a commander accepts a proposal, and the actions are sent out
  behind an approval gate and a safelist, each leaving a row on a hash-chained audit ledger.
  What may leave the platform at all depends on its TLP classification.  The model follows this:
  every component is a group of definitions over explicit state, and what is outside src/ (tool
  servers, YAML and JSON parsers, SHA-256, clocks, identifier generators, node bodies) is an
  argument.  Paths below are relative to src/, with the package directories left out.

  The vocabulary of Python.  Prelude: results that may raise, string enumerations, dictionaries
  as association lists.  PyValue, PyFloat, PyRuntime, PyText: values as data, binary64
  arithmetic, the built-in operations with their exceptions, text operations.  IpAddress: the
  readers of the ipaddress module.  HashChain: the locale of append-only logs with hash links,
  interpreted on the evidence chain and on the audit ledger.

  Egress.  ConfigTypes (shared types/config.py), TlpPolicy (security/tlp_policy.py), Tlp
  (security/tlp.py) and TlpService (backend services/tlp_policy_service.py and
  tlp_egress_guard.py).  The theorems decide exactly when a payload leaves
  (\<^verbatim>\<open>egress_allowed_iff\<close>, \<^verbatim>\<open>policy_precedence\<close>, \<^verbatim>\<open>guard_passes_iff\<close>): denials win, unknown channels
  and undeterminable classifications are closed.

  The engine.  Workflow, Kahn and Compiler (compiler/): the document is translated one to one,
  the result is a well-formed acyclic graph, and the cycle detection is exact.  Conditions
  (runtime/conditions.py) evaluates the expressions of decisions over public attributes only;
  Templating and PromptFence (runtime/templating.py, shared prompt_fence.py) render values with
  every fence tag neutralised.  Executor and ExecutorProps (runtime/executor.py, state.py):
  routing, input building, parallel branches, suspension and resume; a run accounts for its
  steps, never repeats a completed one, and ends.  Middleware, Hitl, Connector, ConnectorPolicy
  and EvidenceChain (node/, middleware/, lineage.py) are the chain around a node.  EngineChain
  puts the chain together as the backend does, and proves that nothing held back runs without
  approval and that the evidence chain survives every run.  Autonomy and RunService (backend
  services/autonomy_service.py, workflow_run_service.py): the stored overrides, and the runs
  with the claim of a resume as a step relation over racing approvers.

  Response.  AuditTrail (services/audit_trail.py): appends of concurrent writers as a step
  relation; the ledger never forks.  Safelist (security/safelist.py,
  response_safelist_service.py), BulkMitigation (reasoning/bulk_mitigation.py) and Containment
  (containment_execute_service.py): what is on the safelist is neither planned nor executed,
  at most one dispatch goes out per call, and every answer is on the ledger.

  Agents.  McpPolicy, McpManifests, McpRegistry and McpDispatch (agents mcp/policy.py,
  manifests.py, registry.py, discovery.py, adapters.py, ocsf.py, hooks/hitl_hook.py): the
  verdict on a tool call, the table of the servers, the pool with its circuit breaker, and the
  path of a call.  LlmRouter (llm/router.py, hooks/classification_hook.py,
  middleware/llm_router.py): the provider of a model and its gate.

  Hunting.  HuntTriage (shared hunt/triage.py, types/hunt_finding.py): signatures, clusters and
  suppression.  TrustGraph, CloudHunt and CloudContain (hunt/cloud.py): the graph searches, the
  detections and the containment proposals.  Revocation (last part of hunt/identity.py).
  HuntStore and HuntStoreProps (services/hunt_triage_service.py): the stored findings and rules,
  with an invariant along every sequence of operations and a contract per operation.

  Decisions.  Rbac (auth/rbac.py, scoping.py, _role_map.py): roles, permissions and the tenant
  boundary.  CloudAccept (api/v1/cloud_containment.py) joins Containment and CloudContain: what
  an accept sends out, who may accept, and that a case is decided once.

  State and its correspondence.  A table is the list of its rows (in the order of insertion or
  of its key) or an association list; a process-wide registry, sink or setting is a value that
  the operations return updated; the world a tool or node acts on is a type variable or a record
  with the fields the code writes.  A raise is \<^verbatim>\<open>Inl\<close> of an error, a plain return \<^verbatim>\<open>Inr\<close>; where
  the state survives an exception, the state is returned beside the result.  A request of the
  API is one transaction that a raise rolls back.

  Locales.  The interfaces are stated once and interpreted on the model: string enumerations,
  stores that every operation keeps in order, and tables that organisations share (theory
  Interfaces; interpreted on the TLP levels, providers, roles, on the connection pool and the
  triage store, and on the tables of policies, overrides and safelist entries); gates, the before
  hooks that let a node run only when they permit it (Middleware; interpreted on the autonomy
  gate, the approval step, the connector policy and the model router); hash-linked logs
  (HashChain; interpreted on evidence and audit rows).  The properties are theorems at the top
  level that rest on these facts.

  Bounds and fuel.  The walk of the executor takes fuel.  A compiled workflow is acyclic with at
  most 500 steps, so 501 units always suffice, and more does not change the result
  (\<^verbatim>\<open>compiled_run_terminates\<close>); on a stored cyclic workflow no fuel suffices, which is a
  theorem as well.  An audit append retries five times, as the code does.  The path search of
  the trust graph is bounded by the ten hops of the code.  The egress scan stops at 64 levels.
  A list of states visited by the traversals of the trust graph only grows within the graph,
  which bounds their recursion.

  Assumptions.  A string is a list of 8-bit characters, except titles of findings, which are
  lists of code points.  Times of the connection pool are exact numbers, not floats, and one
  operation reads the clock once.  A set is iterated in the order of insertion where the order
  can be seen; theorems about sets speak of their members.  SHA-256 and the canonical text of a
  row are arguments; the theorems that need them assume that different rows have different
  hashes only where they say so.  Generated identifiers are fresh where a theorem says so.
  The readers of addresses follow Python 3.12.
  Parallel branches run one after the other in the order of their declaration, and all of them
  run, which is the schedule of branches that do not suspend.  An insert into the ledger fails
  only on the unique sequence number, and JSON arguments only on a decoding error.  The current
  step and the approvals of a run are arguments of a node run, where the code keeps them in a
  dictionary of the context; no node of the program writes them.

  Not modelled.  The routes of the API other than the containment decisions, the WebSocket
  layer and the schedulers, which pass requests to the services; the tables and migrations of
  the database and its isolation; sign-in, tokens, single sign-on and multi-factor checks, which
  rest on cryptographic libraries; the nodes and prompts of the orchestrator and the plugins of
  the agents, whose behaviour is that of a language model; the tool servers and connectors with
  their fixtures and transports, which are clients of external systems; the query templates,
  which are text; the hunt modules other than the cloud one (agentic misuse, the identity
  detectors, behavioural baselines) and the services over them; reports, exports and the command
  line.  Log lines, metrics and the texts of messages are left out wherever no decision reads
  them.
\<close>

end
